(* ===== verification/Prelude.thy ===== *)
theory Prelude
  imports Main "HOL-Library.Word" "HOL-Library.AList" "HOL-Library.Char_ord"
    "HOL-Library.List_Lexorder"
begin

text \<open>
  Shared ground of the development: machine integers at the width the Rust code uses, the
  arithmetic primitives of the Rust standard library that the sources call, the propagation of
  errors by the question mark operator, association lists in the two disciplines the program has
  (hash tables, and ordered maps that iterate by key), and the generic lemmas the component
  theories share.

  Arithmetic written \<open>+\<close>, \<open>-\<close> and \<open>*\<close> on unsigned integers in the
  sources is modelled by the wrapping operations of \<open>'a word\<close>: the workspace sets no
  overflow checks for its release profile, so a release build wraps. Where a theorem needs that
  nothing wraps, it says so in its hypotheses.
\<close>

named_theorems result_simps \<open>equations of the error-propagation combinators\<close>
named_theorems table_simps \<open>lookups after updates of a table\<close>

type_synonym u8 = "8 word"
type_synonym u32 = "32 word"
type_synonym u64 = "64 word"
type_synonym bytes = "u8 list"

section \<open>Results\<close>

text \<open>\<open>Result<T, E>\<close> is \<open>'e + 'a\<close> with \<open>Inl\<close> the error; \<open>rbind\<close> is the question mark operator.\<close>

definition rbind :: "'e + 'a \<Rightarrow> ('a \<Rightarrow> 'e + 'b) \<Rightarrow> 'e + 'b" where
  "rbind r f = (case r of Inl e \<Rightarrow> Inl e | Inr a \<Rightarrow> f a)"

definition ok_or :: "'a option \<Rightarrow> 'e \<Rightarrow> 'e + 'a" where
  "ok_or x e = (case x of None \<Rightarrow> Inl e | Some a \<Rightarrow> Inr a)"

definition map_err :: "('e \<Rightarrow> 'f) \<Rightarrow> 'e + 'a \<Rightarrow> 'f + 'a" where
  "map_err f r = (case r of Inl e \<Rightarrow> Inl (f e) | Inr a \<Rightarrow> Inr a)"

definition is_ok :: "'e + 'a \<Rightarrow> bool" where
  "is_ok r = (case r of Inl _ \<Rightarrow> False | Inr _ \<Rightarrow> True)"

lemma rbind_simps [simp, result_simps]:
  "rbind (Inl e) f = Inl e" "rbind (Inr a) f = f a"
  by (simp_all add: rbind_def)

lemma ok_or_simps [simp, result_simps]:
  "ok_or None e = Inl e" "ok_or (Some a) e = Inr a"
  by (simp_all add: ok_or_def)

lemma map_err_simps [simp, result_simps]:
  "map_err f (Inl e) = Inl (f e)" "map_err f (Inr a) = Inr a"
  by (simp_all add: map_err_def)

lemma is_ok_simps [simp, result_simps]:
  "is_ok (Inl e) = False" "is_ok (Inr a) = True"
  by (simp_all add: is_ok_def)

lemma rbind_Inr_iff: "rbind r f = Inr b \<longleftrightarrow> (\<exists>a. r = Inr a \<and> f a = Inr b)"
  by (cases r) simp_all

lemma rbind_Inl_iff: "rbind r f = Inl e \<longleftrightarrow> r = Inl e \<or> (\<exists>a. r = Inr a \<and> f a = Inl e)"
  by (cases r) simp_all

lemma ok_or_Inr_iff: "ok_or x e = Inr a \<longleftrightarrow> x = Some a"
  by (cases x) simp_all

lemma ok_or_Inl_iff: "ok_or x e = Inl e' \<longleftrightarrow> x = None \<and> e' = e"
  by (cases x) auto

lemma map_err_Inr_iff: "map_err f r = Inr a \<longleftrightarrow> r = Inr a"
  by (cases r) simp_all

lemma map_err_Inl_iff: "map_err f r = Inl e' \<longleftrightarrow> (\<exists>e. r = Inl e \<and> e' = f e)"
  by (cases r) auto

lemmas result_iffs = rbind_Inr_iff rbind_Inl_iff ok_or_Inr_iff ok_or_Inl_iff map_err_Inr_iff
  map_err_Inl_iff

section \<open>Machine integers\<close>

definition saturating_sub :: "'a::len word \<Rightarrow> 'a word \<Rightarrow> 'a word" where
  "saturating_sub a b = (if b \<le> a then a - b else 0)"

definition checked_add :: "'a::len word \<Rightarrow> 'a word \<Rightarrow> 'a word option" where
  "checked_add a b = (if unat a + unat b < 2 ^ LENGTH('a) then Some (a + b) else None)"

definition div_ceil :: "'a::len word \<Rightarrow> 'a word \<Rightarrow> 'a word" where
  "div_ceil a b = (let q = a div b; r = a mod b in if r > 0 then q + 1 else q)"

lemma unat_saturating_sub: "unat (saturating_sub a b) = unat a - unat b"
  by (simp add: saturating_sub_def unat_sub word_le_nat_alt not_le)

lemma saturating_sub_le: "saturating_sub a b \<le> a"
  by (simp add: word_le_nat_alt unat_saturating_sub)

lemma checked_add_Some_iff:
  fixes a b c :: "'a::len word"
  shows "checked_add a b = Some c \<longleftrightarrow> unat a + unat b < 2 ^ LENGTH('a) \<and> c = a + b"
  by (auto simp: checked_add_def)

lemma unat_checked_add: "checked_add a b = Some c \<Longrightarrow> unat c = unat a + unat b"
  by (simp add: checked_add_Some_iff unat_word_ariths)

lemma word_less_plus_one:
  fixes a b :: "'a::len word"
  shows "checked_add a 1 = Some b \<Longrightarrow> a < b"
  by (cases "LENGTH('a) = 1")
    (auto dest!: unat_checked_add simp: word_less_nat_alt)

lemma unat_div_ceil:
  fixes a b :: "'a::len word"
  assumes "0 < unat b"
  shows "unat (div_ceil a b) = (unat a + unat b - 1) div unat b"
proof -
  let ?A = "unat a" and ?B = "unat b"
  have ar: "?A = ?B * (?A div ?B) + ?A mod ?B" by simp
  show ?thesis
  proof (cases "?A mod ?B = 0")
    case True
    then have "a mod b = 0" by (metis unat_eq_zero unat_mod_distrib)
    moreover have "(?A + ?B - 1) div ?B = ?A div ?B"
    proof -
      have "?A + ?B - 1 = (?B - 1) + ?B * (?A div ?B)" using True ar assms by linarith
      moreover have "((?B - 1) + ?B * (?A div ?B)) div ?B = (?B - 1) div ?B + ?A div ?B"
        using assms by (subst div_mult_self2) simp_all
      moreover have "(?B - 1) div ?B = 0" using assms by (intro div_less) simp
      ultimately show ?thesis by (metis add_0)
    qed
    ultimately show ?thesis by (simp add: div_ceil_def unat_div_distrib)
  next
    case False
    then have nz: "a mod b > 0" by (metis unat_0 unat_mod_distrib word_neq_0_conv)
    have b2: "?B \<noteq> 1" using False by auto
    have "0 < ?A" using False by (cases "?A") auto
    then have "?A div ?B < ?A" using b2 assms by (intro div_less_dividend) linarith+
    then have lt: "?A div ?B + 1 < 2 ^ LENGTH('a)"
      using unsigned_less [of a, where ?'a = nat] by linarith
    have "(?A + ?B - 1) div ?B = ?A div ?B + 1"
    proof -
      have "?A + ?B - 1 = (?A mod ?B - 1) + ?B * (?A div ?B + 1)"
        using False ar \<open>0 < ?A\<close> assms by (simp add: algebra_simps)
      moreover have "((?A mod ?B - 1) + ?B * (?A div ?B + 1)) div ?B
          = (?A div ?B + 1) + (?A mod ?B - 1) div ?B"
        using assms by (subst div_mult_self2) simp_all
      moreover have "(?A mod ?B - 1) div ?B = 0" using assms
        by (meson div_less less_imp_diff_less mod_less_divisor)
      ultimately show ?thesis by (metis add_0_right)
    qed
    with nz lt show ?thesis
      by (simp add: div_ceil_def unat_word_ariths unat_div_distrib)
  qed
qed

section \<open>Association lists\<close>

text \<open>An ordered map iterates by ascending key: a list sorted on its keys.\<close>

fun omap_insert :: "'k::linorder \<Rightarrow> 'v \<Rightarrow> ('k \<times> 'v) list \<Rightarrow> ('k \<times> 'v) list" where
  "omap_insert k v [] = [(k, v)]"
| "omap_insert k v ((k', v') # m) =
     (if k < k' then (k, v) # (k', v') # m
      else if k = k' then (k, v) # m
      else (k', v') # omap_insert k v m)"

definition omap_remove :: "'k \<Rightarrow> ('k \<times> 'v) list \<Rightarrow> ('k \<times> 'v) list" where
  "omap_remove k m = filter (\<lambda>p. fst p \<noteq> k) m"

definition omap_wf :: "('k::linorder \<times> 'v) list \<Rightarrow> bool" where
  "omap_wf m = (sorted (map fst m) \<and> distinct (map fst m))"

lemma set_fst_omap_insert [simp]: "fst ` set (omap_insert k v m) = insert k (fst ` set m)"
  by (induction k v m rule: omap_insert.induct) auto

lemma map_of_omap_insert [simp, table_simps]:
  "sorted (map fst m) \<Longrightarrow> map_of (omap_insert k v m) = (map_of m)(k \<mapsto> v)"
proof (induction k v m rule: omap_insert.induct)
  case (2 k v k' v' m)
  then show ?case by (auto simp: fun_eq_iff)
qed simp

lemma omap_wf_insert [simp, intro]: "omap_wf m \<Longrightarrow> omap_wf (omap_insert k v m)"
  unfolding omap_wf_def
proof (induction k v m rule: omap_insert.induct)
  case (2 k v k' v' m)
  have "fst ` set (omap_insert k v m) = insert k (fst ` set m)" by simp
  with 2 show ?case by (auto simp: image_iff)
qed simp

lemma omap_wf_Nil [simp]: "omap_wf []"
  by (simp add: omap_wf_def)

lemma omap_wf_Cons: "omap_wf ((k, v) # m) \<longleftrightarrow> (\<forall>p\<in>set m. k < fst p) \<and> omap_wf m"
  by (auto simp: omap_wf_def image_iff less_le)

lemma omap_wf_remove [simp, intro]: "omap_wf m \<Longrightarrow> omap_wf (omap_remove k m)"
  by (simp add: omap_wf_def omap_remove_def sorted_filter distinct_map_filter)

lemma map_of_omap_remove [simp, table_simps]: "map_of (omap_remove k m) = (map_of m)(k := None)"
  by (induction m) (auto simp: omap_remove_def fun_eq_iff)

lemma omap_wf_sorted: "omap_wf m \<Longrightarrow> sorted (map fst m)"
  by (simp add: omap_wf_def)

lemma omap_wf_distinct: "omap_wf m \<Longrightarrow> distinct (map fst m)"
  by (simp add: omap_wf_def)

section \<open>Lists\<close>

text \<open>\<open>str::starts_with\<close>.\<close>

definition starts_with :: "string \<Rightarrow> string \<Rightarrow> bool" where
  "starts_with s p = (take (length p) s = p)"

lemma starts_with_iff: "starts_with s p \<longleftrightarrow> (\<exists>t. s = p @ t)"
  by (metis append_eq_conv_conj append_take_drop_id starts_with_def)

lemma takeWhile_split_first:
  "x \<notin> set a \<Longrightarrow> takeWhile (\<lambda>c. c \<noteq> x) (a @ x # b) = a"
  by (induction a) auto

lemma dropWhile_split_first:
  "x \<notin> set a \<Longrightarrow> dropWhile (\<lambda>c. c \<noteq> x) (a @ x # b) = x # b"
  by (induction a) auto

lemma append_eq_same_suffix_length:
  "length b = length d \<Longrightarrow> a @ b = c @ d \<longleftrightarrow> a = c \<and> b = d"
  by (metis append_eq_append_conv length_append add_right_cancel)

end
