(* ===== verification/Ids.thy ===== *)
theory Ids
  imports Prelude
begin

text \<open>
  Identifiers, from \<^verbatim>\<open>packages/types/src/id/\<close>: chain keys of the form
  \<open>namespace:id\<close>, workflow ids, and ids that are 32-byte hashes. A Rust string is a list
  of code points; Isabelle's \<open>char\<close> holds the code points below 256, which is enough
  for every string these validators accept but the digits of other scripts. The regular
  expressions of \<^verbatim>\<open>chain.rs\<close> are rendered as the languages they denote.
\<close>

section \<open>Chain keys\<close>

record chain_key =
  namespace :: string
  chain_id :: string

datatype chain_key_error = FormatError | InvalidNamespace | InvalidId

definition lower_or_digit :: "char \<Rightarrow> bool" where
  "lower_or_digit c = ((CHR ''a'' \<le> c \<and> c \<le> CHR ''z'') \<or> (CHR ''0'' \<le> c \<and> c \<le> CHR ''9''))"

definition ns_char :: "char \<Rightarrow> bool" where
  "ns_char c = (c = CHR ''-'' \<or> lower_or_digit c)"

definition id_char :: "char \<Rightarrow> bool" where
  "id_char c = (c = CHR ''-'' \<or> c = CHR ''_'' \<or> lower_or_digit c \<or> (CHR ''A'' \<le> c \<and> c \<le> CHR ''Z''))"

definition NAMESPACE_REGEX :: "string \<Rightarrow> bool" where
  "NAMESPACE_REGEX s = (1 \<le> length s \<and> length s \<le> 32 \<and> list_all ns_char s)"

definition ID_REGEX :: "string \<Rightarrow> bool" where
  "ID_REGEX s = (1 \<le> length s \<and> length s \<le> 32 \<and> list_all id_char s)"

text \<open>The two capture groups of \<^verbatim>\<open>CHAIN_KEY_REGEX\<close>; no namespace character is a colon, so the
  first colon separates them.\<close>

definition CHAIN_KEY_REGEX :: "string \<Rightarrow> (string \<times> string) option" where
  "CHAIN_KEY_REGEX s =
     (let a = takeWhile (\<lambda>c. c \<noteq> CHR '':'') s; r = dropWhile (\<lambda>c. c \<noteq> CHR '':'') s
      in case r of
           [] \<Rightarrow> None
         | _ # b \<Rightarrow> if NAMESPACE_REGEX a \<and> ID_REGEX b then Some (a, b) else None)"

definition chain_key_namespace_new :: "string \<Rightarrow> chain_key_error + string" where
  "chain_key_namespace_new s = (if NAMESPACE_REGEX s then Inr s else Inl InvalidNamespace)"

definition chain_key_id_new :: "string \<Rightarrow> chain_key_error + string" where
  "chain_key_id_new s = (if ID_REGEX s then Inr s else Inl InvalidId)"

definition chain_key_validate :: "string \<Rightarrow> chain_key_error + unit" where
  "chain_key_validate s = (if CHAIN_KEY_REGEX s = None then Inl FormatError else Inr ())"

definition chain_key_new :: "string \<Rightarrow> chain_key_error + chain_key" where
  "chain_key_new s =
     rbind (ok_or (CHAIN_KEY_REGEX s) FormatError) (\<lambda>(c1, c2).
     rbind (chain_key_namespace_new c1) (\<lambda>ns.
     rbind (chain_key_id_new c2) (\<lambda>i.
     Inr \<lparr>namespace = ns, chain_id = i\<rparr>)))"

definition chain_key_to_string :: "chain_key \<Rightarrow> string" where
  "chain_key_to_string k = namespace k @ '':'' @ chain_id k"

definition chain_key_wf :: "chain_key \<Rightarrow> bool" where
  "chain_key_wf k = (NAMESPACE_REGEX (namespace k) \<and> ID_REGEX (chain_id k))"

lemma ns_char_not_colon [simp]: "\<not> ns_char (CHR '':'')"
  by (simp add: ns_char_def lower_or_digit_def)

lemma id_char_not_colon [simp]: "\<not> id_char (CHR '':'')"
  by (simp add: id_char_def lower_or_digit_def)

lemma namespace_no_colon: "NAMESPACE_REGEX s \<Longrightarrow> CHR '':'' \<notin> set s"
  by (auto simp: NAMESPACE_REGEX_def list_all_iff)

text \<open>The captures are exactly the decompositions that the regular expression describes.\<close>

lemma CHAIN_KEY_REGEX_Some_iff:
  "CHAIN_KEY_REGEX s = Some (a, b) \<longleftrightarrow> s = a @ '':'' @ b \<and> NAMESPACE_REGEX a \<and> ID_REGEX b"
proof
  assume h: "CHAIN_KEY_REGEX s = Some (a, b)"
  then obtain x where d: "dropWhile (\<lambda>c. c \<noteq> CHR '':'') s = x # b"
    and a: "a = takeWhile (\<lambda>c. c \<noteq> CHR '':'') s" and ok: "NAMESPACE_REGEX a" "ID_REGEX b"
    by (auto simp: CHAIN_KEY_REGEX_def Let_def split: list.splits if_splits)
  have "x = CHR '':''" using hd_dropWhile [of "\<lambda>c. c \<noteq> CHR '':''" s] d by simp
  then have "s = a @ '':'' @ b"
    using takeWhile_dropWhile_id [of "\<lambda>c. c \<noteq> CHR '':''" s] a d by simp
  with ok show "s = a @ '':'' @ b \<and> NAMESPACE_REGEX a \<and> ID_REGEX b" by simp
next
  assume "s = a @ '':'' @ b \<and> NAMESPACE_REGEX a \<and> ID_REGEX b"
  then show "CHAIN_KEY_REGEX s = Some (a, b)"
    by (simp add: CHAIN_KEY_REGEX_def Let_def namespace_no_colon takeWhile_split_first
        dropWhile_split_first)
qed

lemma chain_key_new_Inr_iff:
  "chain_key_new s = Inr k \<longleftrightarrow> chain_key_wf k \<and> s = chain_key_to_string k"
proof -
  have "chain_key_new s = Inr k \<longleftrightarrow>
    (\<exists>a b. CHAIN_KEY_REGEX s = Some (a, b) \<and> k = \<lparr>namespace = a, chain_id = b\<rparr>)"
    by (cases "CHAIN_KEY_REGEX s")
      (auto simp: chain_key_new_def chain_key_namespace_new_def chain_key_id_new_def
        CHAIN_KEY_REGEX_Some_iff)
  then show ?thesis
    by (cases k) (auto simp: CHAIN_KEY_REGEX_Some_iff chain_key_wf_def chain_key_to_string_def)
qed

lemma chain_key_to_string_inj:
  assumes "chain_key_wf k" "chain_key_wf k'" "chain_key_to_string k = chain_key_to_string k'"
  shows "k = k'"
proof -
  have "chain_key_new (chain_key_to_string k) = Inr k" "chain_key_new (chain_key_to_string k) = Inr k'"
    using assms by (simp_all add: chain_key_new_Inr_iff)
  then show ?thesis by simp
qed

text \<open>
  Parsing and printing chain keys are inverse on well-formed keys: \<open>ChainKey::new\<close> accepts
  exactly the strings printed by keys whose two parts match their expressions, returns that key,
  and rejects everything else with \<open>FormatError\<close>, so the two inner validators never reject
  what the outer expression captured.
\<close>

lemma chain_key_roundtrip:
  "(chain_key_new s = Inr k \<longleftrightarrow> chain_key_wf k \<and> s = chain_key_to_string k) \<and>
   (chain_key_new s = Inl e \<longleftrightarrow> e = FormatError \<and> (\<nexists>k. chain_key_wf k \<and> s = chain_key_to_string k)) \<and>
   (is_ok (chain_key_validate s) \<longleftrightarrow> is_ok (chain_key_new s))"
proof (intro conjI)
  show "chain_key_new s = Inr k \<longleftrightarrow> chain_key_wf k \<and> s = chain_key_to_string k"
    by (rule chain_key_new_Inr_iff)
next
  have only: "chain_key_new s = Inl FormatError \<or> (\<exists>k. chain_key_new s = Inr k)"
    by (cases "CHAIN_KEY_REGEX s")
      (auto simp: chain_key_new_def chain_key_namespace_new_def chain_key_id_new_def
        CHAIN_KEY_REGEX_Some_iff)
  show "chain_key_new s = Inl e \<longleftrightarrow>
      e = FormatError \<and> (\<nexists>k. chain_key_wf k \<and> s = chain_key_to_string k)"
    using only by (metis chain_key_new_Inr_iff Inl_Inr_False Inl_inject)
  show "is_ok (chain_key_validate s) \<longleftrightarrow> is_ok (chain_key_new s)"
    by (cases "CHAIN_KEY_REGEX s")
      (auto simp: chain_key_validate_def chain_key_new_def chain_key_namespace_new_def
        chain_key_id_new_def CHAIN_KEY_REGEX_Some_iff)
qed

section \<open>Workflow ids\<close>

type_synonym workflow_id = string

datatype workflow_id_error = LengthError | CharError

definition len_utf8 :: "char \<Rightarrow> nat" where
  "len_utf8 c = (if (of_char c :: nat) < 128 then 1 else 2)"

definition str_len :: "string \<Rightarrow> nat" where
  "str_len s = sum_list (map len_utf8 s)"

text \<open>\<open>char::is_numeric\<close> on the code points below 256: the ASCII digits, the superscripts one to
  three and the vulgar fractions.\<close>

definition char_is_numeric :: "char \<Rightarrow> bool" where
  "char_is_numeric c =
     (let n = (of_char c :: nat)
      in (48 \<le> n \<and> n \<le> 57) \<or> n \<in> {178, 179, 185, 188, 189, 190})"

definition is_ascii_lowercase :: "char \<Rightarrow> bool" where
  "is_ascii_lowercase c = (CHR ''a'' \<le> c \<and> c \<le> CHR ''z'')"

definition workflow_id_validate :: "string \<Rightarrow> workflow_id_error + unit" where
  "workflow_id_validate s =
     (if str_len s < 3 \<or> str_len s > 36 then Inl LengthError
      else if \<not> list_all (\<lambda>c. is_ascii_lowercase c \<or> char_is_numeric c \<or> c = CHR ''_'' \<or> c = CHR ''-'') s
      then Inl CharError
      else Inr ())"

definition workflow_id_new :: "string \<Rightarrow> workflow_id_error + workflow_id" where
  "workflow_id_new s = rbind (workflow_id_validate s) (\<lambda>_. Inr s)"

definition workflow_id_default :: workflow_id where
  "workflow_id_default = ''default''"

text \<open>The language of the doc comment of \<open>WorkflowId\<close>.\<close>

definition documented_workflow_char :: "char \<Rightarrow> bool" where
  "documented_workflow_char c = (lower_or_digit c \<or> c = CHR ''-'' \<or> c = CHR ''_'')"

definition documented_workflow_id :: "string \<Rightarrow> bool" where
  "documented_workflow_id s = (3 \<le> length s \<and> length s \<le> 36 \<and> list_all documented_workflow_char s)"

lemma str_len_ascii: "list_all (\<lambda>c. (of_char c :: nat) < 128) s \<Longrightarrow> str_len s = length s"
  by (induction s) (auto simp: str_len_def len_utf8_def)

lemma lower_of_char: "CHR ''a'' \<le> c \<and> c \<le> CHR ''z'' \<longleftrightarrow> 97 \<le> (of_char c :: nat) \<and> (of_char c :: nat) \<le> 122"
  by (simp add: less_eq_char_def)

lemma digit_of_char: "CHR ''0'' \<le> c \<and> c \<le> CHR ''9'' \<longleftrightarrow> 48 \<le> (of_char c :: nat) \<and> (of_char c :: nat) \<le> 57"
  by (simp add: less_eq_char_def)

lemma documented_ascii: "documented_workflow_char c \<Longrightarrow> (of_char c :: nat) < 128"
  by (auto simp: documented_workflow_char_def lower_or_digit_def lower_of_char digit_of_char)

lemma documented_accepted_char:
  "documented_workflow_char c \<Longrightarrow> is_ascii_lowercase c \<or> char_is_numeric c \<or> c = CHR ''_'' \<or> c = CHR ''-''"
  by (auto simp: documented_workflow_char_def lower_or_digit_def is_ascii_lowercase_def
      char_is_numeric_def digit_of_char Let_def)

lemma ascii_accepted_documented:
  "(of_char c :: nat) < 128 \<Longrightarrow>
   is_ascii_lowercase c \<or> char_is_numeric c \<or> c = CHR ''_'' \<or> c = CHR ''-'' \<Longrightarrow>
   documented_workflow_char c"
  by (auto simp: documented_workflow_char_def lower_or_digit_def is_ascii_lowercase_def
      char_is_numeric_def digit_of_char Let_def)

text \<open>
  On ASCII input \<open>WorkflowId::new\<close> accepts exactly the documented language
  \<open>[a-z0-9-_]{3,36}\<close>, and every documented id is accepted; but the check uses
  \<open>char::is_numeric\<close>, so it also accepts an id with a superscript digit, which the
  documented language excludes.
\<close>

lemma workflow_id_language:
  "(documented_workflow_id s \<longrightarrow> workflow_id_new s = Inr s) \<and>
   (list_all (\<lambda>c. (of_char c :: nat) < 128) s \<longrightarrow>
      (is_ok (workflow_id_new s) \<longleftrightarrow> documented_workflow_id s)) \<and>
   workflow_id_new [CHR ''v'', char_of (178 :: nat)] = Inr [CHR ''v'', char_of (178 :: nat)] \<and>
   \<not> documented_workflow_id [CHR ''v'', char_of (178 :: nat)]"
proof (intro conjI impI)
  assume d: "documented_workflow_id s"
  then have "list_all (\<lambda>c. (of_char c :: nat) < 128) s"
    by (auto simp: documented_workflow_id_def list_all_iff dest: documented_ascii)
  with d show "workflow_id_new s = Inr s"
    by (auto simp: workflow_id_new_def workflow_id_validate_def documented_workflow_id_def
        str_len_ascii list_all_iff dest: documented_accepted_char)
next
  assume a: "list_all (\<lambda>c. (of_char c :: nat) < 128) s"
  show "is_ok (workflow_id_new s) \<longleftrightarrow> documented_workflow_id s"
    using a by (auto simp: workflow_id_new_def workflow_id_validate_def documented_workflow_id_def
        str_len_ascii list_all_iff dest: documented_accepted_char intro: ascii_accepted_documented)
next
  show "workflow_id_new [CHR ''v'', char_of (178 :: nat)] = Inr [CHR ''v'', char_of (178 :: nat)]"
    by code_simp
  show "\<not> documented_workflow_id [CHR ''v'', char_of (178 :: nat)]"
    by code_simp
qed

text \<open>The witness takes the default id of a service with one workflow.\<close>

lemma workflow_id_language_witness:
  "documented_workflow_id workflow_id_default \<and>
   workflow_id_new workflow_id_default = Inr workflow_id_default \<and>
   is_ok (workflow_id_new ''ab-1'') \<and> \<not> is_ok (workflow_id_new ''AB-1'')"
proof -
  have d: "documented_workflow_id workflow_id_default" "documented_workflow_id ''ab-1''"
    "list_all (\<lambda>c. (of_char c :: nat) < 128) ''AB-1''" "\<not> documented_workflow_id ''AB-1''"
    by code_simp+
  then show ?thesis
    using workflow_id_language [of workflow_id_default] workflow_id_language [of "''ab-1''"]
      workflow_id_language [of "''AB-1''"] by simp
qed

section \<open>Hash ids\<close>

text \<open>\<open>ServiceId\<close>, \<open>ServiceDigest\<close> and \<open>ComponentDigest\<close> wrap 32 bytes; \<open>hash\<close> applies SHA-256, a
  parameter here.\<close>

type_synonym hash_id = bytes
type_synonym service_id = hash_id
type_synonym component_digest = hash_id

definition hash_id_hash :: "(bytes \<Rightarrow> bytes) \<Rightarrow> bytes \<Rightarrow> hash_id" where
  "hash_id_hash sha256 bs = sha256 bs"

definition str_bytes :: "string \<Rightarrow> bytes" where
  "str_bytes s = map of_char s"

lemma unat_of_char_u8 [simp]: "unat (of_char c :: u8) = of_char c"
proof -
  have "unat (of_nat (of_char c) :: u8) = of_char c"
    by (simp only: unat_of_nat) simp
  then show ?thesis by (simp only: of_nat_of_char)
qed

lemma of_char_u8_inj: "inj (of_char :: char \<Rightarrow> u8)"
proof (rule injI)
  fix c d :: char
  assume "(of_char c :: u8) = of_char d"
  then have "unat (of_char c :: u8) = unat (of_char d :: u8)" by simp
  then show "c = d" by (simp only: unat_of_char_u8 of_char_eq_iff)
qed

lemma str_bytes_inj: "str_bytes s = str_bytes t \<longleftrightarrow> s = t"
  unfolding str_bytes_def by (meson inj_map_eq_map of_char_u8_inj)

lemma length_str_bytes [simp]: "length (str_bytes s) = length s"
  by (simp add: str_bytes_def)

end
