(* ===== verification/Types.thy ===== *)
theory Types
  imports Ids
begin

text \<open>
  The data of the program, from \<^verbatim>\<open>packages/types/src/\<close>: services, workflows, triggers and the
  data they carry (\<^verbatim>\<open>service.rs\<close>), addresses on any chain (\<^verbatim>\<open>chain_address.rs\<close>), the actions
  and queues of the aggregator (\<^verbatim>\<open>aggregator_types.rs\<close>), envelopes, signatures and
  submissions (\<^verbatim>\<open>signing.rs\<close>, \<^verbatim>\<open>submission.rs\<close>). Values of types from other crates
  that the program carries and compares but never inspects (Soroban values, JSON records, log data,
  package references, bech32 addresses) are byte strings.
\<close>

type_synonym opaque = bytes
type_synonym evm_address = bytes
type_synonym cosmos_addr = opaque
type_synonym stellar_contract = bytes
type_synonym timestamp = u64

section \<open>Addresses and service managers\<close>

datatype chain_address =
    CA_Evm evm_address
  | CA_Cosmos cosmos_addr
  | CA_StellarContract stellar_contract
  | CA_StellarPubKey bytes

fun try_as_evm :: "chain_address \<Rightarrow> evm_address option" where
  "try_as_evm (CA_Evm addr) = Some addr"
| "try_as_evm _ = None"

datatype service_manager =
    SM_Evm chain_key evm_address
  | SM_Cosmos chain_key cosmos_addr
  | SM_Stellar chain_key stellar_contract

fun manager_chain :: "service_manager \<Rightarrow> chain_key" where
  "manager_chain (SM_Evm chain _) = chain"
| "manager_chain (SM_Cosmos chain _) = chain"
| "manager_chain (SM_Stellar chain _) = chain"

fun manager_address :: "service_manager \<Rightarrow> chain_address" where
  "manager_address (SM_Evm _ address) = CA_Evm address"
| "manager_address (SM_Cosmos _ address) = CA_Cosmos address"
| "manager_address (SM_Stellar _ address) = CA_StellarContract address"

section \<open>Components and triggers\<close>

datatype at_proto_action = Create | Update | Delete

datatype allowed_host_permission = AllHosts | OnlyHosts "string list" | NoHosts

record permissions =
  allowed_http_hosts :: allowed_host_permission
  file_system :: bool
  raw_sockets :: bool
  dns_resolution :: bool

definition permissions_default :: permissions where
  "permissions_default =
     \<lparr>allowed_http_hosts = NoHosts, file_system = False, raw_sockets = False, dns_resolution = False\<rparr>"

record registry_ref =
  reg_digest :: component_digest
  reg_domain :: "string option"
  reg_version :: "opaque option"
  reg_package :: opaque

datatype component_source =
    Download string component_digest
  | Registry registry_ref
  | Digest component_digest

fun source_digest :: "component_source \<Rightarrow> component_digest" where
  "source_digest (Download _ d) = d"
| "source_digest (Registry r) = reg_digest r"
| "source_digest (Digest d) = d"

record component =
  source :: component_source
  comp_permissions :: permissions
  fuel_limit :: "u64 option"
  time_limit_seconds :: "u64 option"
  config :: "(string \<times> string) list"
  env_keys :: "string list"

definition component_new :: "component_source \<Rightarrow> component" where
  "component_new s = \<lparr>source = s, comp_permissions = permissions_default, fuel_limit = None,
     time_limit_seconds = None, config = [], env_keys = []\<rparr>"

datatype stellar_topic_segment = Exact opaque | Wildcard | RestWildcard

datatype trigger =
    CosmosContractEvent cosmos_addr chain_key string
  | EvmContractEvent evm_address chain_key bytes
  | StellarContractEvent chain_key string "stellar_topic_segment list"
  | BlockInterval chain_key u32 "u64 option" "u64 option"
  | Cron string "timestamp option" "timestamp option"
  | AtProtoEvent string "string option" "at_proto_action option"
  | Manual

record at_proto_data =
  ap_sequence :: int
  ap_timestamp :: int
  ap_repo :: string
  ap_collection :: string
  ap_rkey :: string
  ap_action :: at_proto_action
  ap_cid :: "string option"
  ap_record :: "opaque option"
  ap_rev :: "string option"
  ap_op_index :: "u32 option"

record evm_event_data =
  ev_chain :: chain_key
  ev_contract_address :: evm_address
  ev_log_data :: opaque
  ev_tx_hash :: bytes
  ev_block_number :: u64
  ev_log_index :: u64
  ev_block_hash :: bytes
  ev_block_timestamp :: "u64 option"
  ev_tx_index :: u64

text \<open>\<open>cosmwasm_std::Event\<close>.\<close>

record cosmwasm_event =
  ty :: string
  attributes :: "(string \<times> string) list"

record cosmos_event_data =
  ce_contract_address :: cosmos_addr
  ce_chain :: chain_key
  ce_event :: cosmwasm_event
  ce_block_height :: u64
  ce_event_index :: u64

record stellar_event_data =
  se_chain :: chain_key
  se_contract_id :: string
  se_event_type :: string
  se_ledger :: u32
  se_ledger_closed_at :: string
  se_event_id :: string
  se_operation_index :: "u32 option"
  se_transaction_index :: "u32 option"
  se_tx_hash :: string
  se_topic_segments :: "string list"
  se_value :: string

datatype trigger_data =
    TD_CosmosContractEvent cosmos_event_data
  | TD_EvmContractEvent evm_event_data
  | TD_StellarContractEvent stellar_event_data
  | TD_BlockInterval chain_key u64
  | TD_Cron timestamp
  | TD_AtProtoEvent at_proto_data
  | TD_Raw bytes

fun trigger_type_str :: "trigger_data \<Rightarrow> string" where
  "trigger_type_str (TD_CosmosContractEvent _) = ''cosmos_contract_event''"
| "trigger_type_str (TD_EvmContractEvent _) = ''evm_contract_event''"
| "trigger_type_str (TD_StellarContractEvent _) = ''stellar_contract_event''"
| "trigger_type_str (TD_BlockInterval _ _) = ''block_interval''"
| "trigger_type_str (TD_Cron _) = ''cron''"
| "trigger_type_str (TD_AtProtoEvent _) = ''atproto_event''"
| "trigger_type_str (TD_Raw _) = ''manual''"

fun trigger_data_chain :: "trigger_data \<Rightarrow> chain_key option" where
  "trigger_data_chain (TD_CosmosContractEvent d) = Some (ce_chain d)"
| "trigger_data_chain (TD_EvmContractEvent d) = Some (ev_chain d)"
| "trigger_data_chain (TD_StellarContractEvent d) = Some (se_chain d)"
| "trigger_data_chain (TD_BlockInterval chain _) = Some chain"
| "trigger_data_chain (TD_Cron _) = None"
| "trigger_data_chain (TD_AtProtoEvent _) = None"
| "trigger_data_chain (TD_Raw _) = None"

record trigger_config =
  tc_service_id :: service_id
  tc_workflow_id :: workflow_id
  tc_trigger :: trigger

record trigger_action =
  ta_config :: trigger_config
  ta_data :: trigger_data

section \<open>Services\<close>

datatype submit = SubmitNone | SubmitAggregator component

datatype signature_algorithm = Secp256k1 | Ed25519

datatype signature_prefix = Eip191 | Sep53

record signature_kind =
  algorithm :: signature_algorithm
  prefix :: "signature_prefix option"

definition signature_kind_evm_default :: signature_kind where
  "signature_kind_evm_default = \<lparr>algorithm = Secp256k1, prefix = Some Eip191\<rparr>"

datatype service_status = Active | Paused

record workflow =
  wf_trigger :: trigger
  wf_component :: component
  wf_submit :: submit

text \<open>The workflows of a service are a \<open>BTreeMap\<close>: an ordered map, iterated by ascending id.\<close>

record service =
  svc_name :: string
  workflows :: "(workflow_id \<times> workflow) list"
  status :: service_status
  manager :: service_manager
  svc_signature_kind :: signature_kind

definition service_new_simple ::
  "string option \<Rightarrow> trigger \<Rightarrow> component_source \<Rightarrow> submit \<Rightarrow> service_manager \<Rightarrow> service" where
  "service_new_simple name trig src sub mgr =
     \<lparr>svc_name = (case name of None \<Rightarrow> ''Unknown'' | Some n \<Rightarrow> n),
      workflows = [(workflow_id_default,
         \<lparr>wf_trigger = trig, wf_component = component_new src, wf_submit = sub\<rparr>)],
      status = Active,
      manager = mgr,
      svc_signature_kind = signature_kind_evm_default\<rparr>"

section \<open>Strings of enums\<close>

fun at_proto_action_to_string :: "at_proto_action \<Rightarrow> string" where
  "at_proto_action_to_string Create = ''create''"
| "at_proto_action_to_string Update = ''update''"
| "at_proto_action_to_string Delete = ''delete''"

text \<open>\<open>str::to_lowercase\<close> on the code points below 256.\<close>

definition char_to_lowercase :: "char \<Rightarrow> char" where
  "char_to_lowercase c =
     (let n = (of_char c :: nat)
      in if (65 \<le> n \<and> n \<le> 90) \<or> (192 \<le> n \<and> n \<le> 222 \<and> n \<noteq> 215) then char_of (n + 32) else c)"

definition at_proto_action_from_str :: "string \<Rightarrow> string + at_proto_action" where
  "at_proto_action_from_str s =
     (let l = map char_to_lowercase s
      in if l = ''create'' then Inr Create
         else if l = ''update'' then Inr Update
         else if l = ''delete'' then Inr Delete
         else Inl s)"

definition service_status_from_str :: "string \<Rightarrow> string + service_status" where
  "service_status_from_str s =
     (let l = map char_to_lowercase s
      in if l = ''active'' then Inr Active
         else if l = ''paused'' then Inr Paused
         else Inl s)"

lemma at_proto_action_string_roundtrip: "at_proto_action_from_str (at_proto_action_to_string a) = Inr a"
  by (cases a) (simp_all add: at_proto_action_from_str_def char_to_lowercase_def)

section \<open>Responses of components\<close>

record wasm_response =
  payload :: bytes
  ordering :: "u64 option"
  event_id_salt :: "bytes option"

datatype wasm_response_size_error =
    PayloadTooLarge nat nat
  | SaltTooLarge nat nat

definition DEFAULT_MAX_PAYLOAD_SIZE :: nat where
  "DEFAULT_MAX_PAYLOAD_SIZE = 50 * 1024 * 1024"

definition DEFAULT_MAX_SALT_SIZE :: nat where
  "DEFAULT_MAX_SALT_SIZE = 1024 * 1024"

definition validate_size :: "wasm_response \<Rightarrow> nat \<Rightarrow> nat \<Rightarrow> wasm_response_size_error + unit" where
  "validate_size r max_payload_size max_salt_size =
     (if length (payload r) > max_payload_size
      then Inl (PayloadTooLarge (length (payload r)) max_payload_size)
      else case event_id_salt r of
             Some salt \<Rightarrow>
               if length salt > max_salt_size then Inl (SaltTooLarge (length salt) max_salt_size)
               else Inr ()
           | None \<Rightarrow> Inr ())"

lemma validate_size_ok_iff:
  "is_ok (validate_size r p s) \<longleftrightarrow>
     length (payload r) \<le> p \<and> (\<forall>salt. event_id_salt r = Some salt \<longrightarrow> length salt \<le> s)"
  by (auto simp: validate_size_def split: option.splits)

section \<open>Envelopes, signatures and submissions\<close>

type_synonym event_id = bytes

record evm_envelope =
  env_event_id :: event_id
  env_ordering :: bytes
  env_payload :: bytes

datatype envelope = Env_Evm evm_envelope | Env_Stellar bytes

datatype wavs_signature =
    Sig_Secp256k1 bytes "signature_prefix option"
  | Sig_Ed25519 bytes bytes

fun signature_kind_of :: "wavs_signature \<Rightarrow> signature_kind" where
  "signature_kind_of (Sig_Secp256k1 _ p) = \<lparr>algorithm = Secp256k1, prefix = p\<rparr>"
| "signature_kind_of (Sig_Ed25519 _ _) = \<lparr>algorithm = Ed25519, prefix = Some Sep53\<rparr>"

record submission =
  sub_trigger_action :: trigger_action
  sub_operator_response :: wasm_response
  sub_event_id :: event_id
  sub_envelope :: envelope
  sub_envelope_signature :: wavs_signature

abbreviation sub_service_id :: "submission \<Rightarrow> service_id" where
  "sub_service_id s \<equiv> tc_service_id (ta_config (sub_trigger_action s))"

abbreviation sub_workflow_id :: "submission \<Rightarrow> workflow_id" where
  "sub_workflow_id s \<equiv> tc_workflow_id (ta_config (sub_trigger_action s))"

section \<open>Actions and queues of the aggregator\<close>

record evm_submit_action =
  es_chain :: chain_key
  es_address :: evm_address
  es_gas_price :: "nat option"

record cosmos_submit_action =
  cs_chain :: chain_key
  cs_address :: cosmos_addr
  cs_gas_price :: "nat option"

record stellar_submit_action =
  ss_chain :: chain_key
  ss_address :: bytes

datatype submit_action =
    SA_Evm evm_submit_action
  | SA_Cosmos cosmos_submit_action
  | SA_Stellar stellar_submit_action

fun submit_action_chain :: "submit_action \<Rightarrow> chain_key" where
  "submit_action_chain (SA_Evm a) = es_chain a"
| "submit_action_chain (SA_Cosmos a) = cs_chain a"
| "submit_action_chain (SA_Stellar a) = ss_chain a"

record quorum_queue_id =
  qq_event_id :: event_id
  qq_action :: submit_action

datatype quorum_queue = QQ_Burned u64 | QQ_Active "submission list"

definition quorum_queue_default :: quorum_queue where
  "quorum_queue_default = QQ_Active []"

datatype aggregator_action = AA_Submit submit_action | AA_Timer u64

end
