(* ===== verification/Db.thy ===== *)
theory Db
  imports Types
begin

text \<open>
  The in-memory store of \<^verbatim>\<open>packages/utils/src/storage/db.rs\<close>. A \<open>WavsDbTable\<close> is a hash
  table: an association list with distinct keys, whose order stands for the unspecified order of
  iteration. The locale \<open>kv_table\<close> is the contract that every client of a table relies on; the
  interpretation proves it for the table operations.
\<close>

type_synonym ('k, 'v) table = "('k \<times> 'v) list"

definition table_new :: "('k, 'v) table" where
  "table_new = []"

definition get_cloned :: "('k, 'v) table \<Rightarrow> 'k \<Rightarrow> 'v option" where
  "get_cloned t k = map_of t k"

definition map_ref :: "('k, 'v) table \<Rightarrow> 'k \<Rightarrow> ('v \<Rightarrow> 'a) \<Rightarrow> 'a option" where
  "map_ref t k f = map_option f (map_of t k)"

text \<open>\<open>insert\<close> returns \<open>Result<(), DBError>\<close> and its only return is \<open>Ok(())\<close>.\<close>

definition table_insert :: "'k \<Rightarrow> 'v \<Rightarrow> ('k, 'v) table \<Rightarrow> ('k, 'v) table" where
  "table_insert k v t = AList.update k v t"

definition table_remove :: "'k \<Rightarrow> ('k, 'v) table \<Rightarrow> 'v option \<times> ('k, 'v) table" where
  "table_remove k t = (map_of t k, AList.delete k t)"

definition contains_key :: "('k, 'v) table \<Rightarrow> 'k \<Rightarrow> bool" where
  "contains_key t k = (k \<in> set (map fst t))"

definition table_clear :: "('k, 'v) table \<Rightarrow> ('k, 'v) table" where
  "table_clear t = []"

text \<open>An entry that is present is updated; a vacant one gets the default and the update is not applied.\<close>

definition update_or_insert_default :: "'k \<Rightarrow> ('v \<Rightarrow> 'v) \<Rightarrow> 'v \<Rightarrow> ('k, 'v) table \<Rightarrow> ('k, 'v) table" where
  "update_or_insert_default k f d t =
     (case map_of t k of
        Some v \<Rightarrow> AList.update k (f v) t
      | None \<Rightarrow> AList.update k d t)"

definition table_wf :: "('k, 'v) table \<Rightarrow> bool" where
  "table_wf t = distinct (map fst t)"

section \<open>The contract of a table\<close>

locale kv_table =
  fixes empty :: "'t" and get :: "'t \<Rightarrow> 'k \<Rightarrow> 'v option" and has :: "'t \<Rightarrow> 'k \<Rightarrow> bool"
    and put :: "'k \<Rightarrow> 'v \<Rightarrow> 't \<Rightarrow> 't" and drop :: "'k \<Rightarrow> 't \<Rightarrow> 't" and wf :: "'t \<Rightarrow> bool"
  assumes get_empty: "get empty k = None"
    and wf_empty: "wf empty"
    and get_put: "wf t \<Longrightarrow> get (put k v t) k' = (if k' = k then Some v else get t k')"
    and get_drop: "wf t \<Longrightarrow> get (drop k t) k' = (if k' = k then None else get t k')"
    and has_iff: "wf t \<Longrightarrow> has t k \<longleftrightarrow> get t k \<noteq> None"
    and wf_put: "wf t \<Longrightarrow> wf (put k v t)"
    and wf_drop: "wf t \<Longrightarrow> wf (drop k t)"
begin

text \<open>Any sequence of writes and removals is determined by the last operation on each key.\<close>

fun run_ops :: "('k \<times> 'v option) list \<Rightarrow> 't \<Rightarrow> 't" where
  "run_ops [] t = t"
| "run_ops ((k, Some v) # ops) t = run_ops ops (put k v t)"
| "run_ops ((k, None) # ops) t = run_ops ops (drop k t)"

lemma wf_run_ops: "wf t \<Longrightarrow> wf (run_ops ops t)"
  by (induction ops t rule: run_ops.induct) (simp_all add: wf_put wf_drop)

lemma get_run_ops:
  "wf t \<Longrightarrow> get (run_ops ops t) k = (case map_of (rev ops) k of None \<Rightarrow> get t k | Some r \<Rightarrow> r)"
  by (induction ops t rule: run_ops.induct)
    (auto simp: wf_put wf_drop get_put get_drop map_add_def split: option.splits)

lemma put_put_get: "wf t \<Longrightarrow> get (put k v (put k w t)) = get (put k v t)"
  by (rule ext) (simp add: get_put wf_put)

lemma drop_put_get: "wf t \<Longrightarrow> get t k = None \<Longrightarrow> get (drop k (put k v t)) = get t"
  by (rule ext) (simp add: get_put get_drop wf_put)

end

interpretation tbl: kv_table "table_new" get_cloned contains_key table_insert
  "\<lambda>k t. snd (table_remove k t)" table_wf
proof unfold_locales
  show "get_cloned table_new k = None" for k :: 'k
    by (simp add: get_cloned_def table_new_def)
  show "table_wf table_new" by (simp add: table_wf_def table_new_def)
  show "get_cloned (table_insert k v t) k' = (if k' = k then Some v else get_cloned t k')"
    for k k' :: 'k and v :: 'v and t
    by (simp add: get_cloned_def table_insert_def update_conv')
  show "get_cloned (snd (table_remove k t)) k' = (if k' = k then None else get_cloned t k')"
    for k k' :: 'k and t :: "('k, 'v) table"
    by (simp add: get_cloned_def table_remove_def delete_conv')
  show "contains_key t k \<longleftrightarrow> get_cloned t k \<noteq> None" for t :: "('k, 'v) table" and k
    by (metis contains_key_def get_cloned_def map_of_eq_None_iff image_set)
  show "table_wf (table_insert k v t)" if "table_wf t" for k and v :: 'v and t :: "('k, 'v) table"
    using that by (simp add: table_wf_def table_insert_def distinct_update)
  show "table_wf (snd (table_remove k t))" if "table_wf t" for k and t :: "('k, 'v) table"
    using that by (simp add: table_wf_def table_remove_def distinct_delete)
qed

text \<open>The same laws without the well-formedness premise, for the simplifier.\<close>

lemma get_cloned_insert [simp, table_simps]:
  "get_cloned (table_insert k v t) k' = (if k' = k then Some v else get_cloned t k')"
  by (simp add: get_cloned_def table_insert_def update_conv')

lemma get_cloned_remove [simp, table_simps]:
  "get_cloned (snd (table_remove k t)) k' = (if k' = k then None else get_cloned t k')"
  by (simp add: get_cloned_def table_remove_def delete_conv')

lemma get_cloned_new [simp, table_simps]: "get_cloned table_new k = None"
  by (simp add: get_cloned_def table_new_def)

lemma fst_table_remove [simp, table_simps]: "fst (table_remove k t) = get_cloned t k"
  by (simp add: table_remove_def get_cloned_def)

lemma contains_key_iff: "contains_key t k \<longleftrightarrow> get_cloned t k \<noteq> None"
  by (metis contains_key_def get_cloned_def map_of_eq_None_iff image_set)

lemma map_ref_get_cloned: "map_ref t k f = map_option f (get_cloned t k)"
  by (simp add: map_ref_def get_cloned_def)

lemma table_wf_insert [simp, intro]: "table_wf t \<Longrightarrow> table_wf (table_insert k v t)"
  by (rule tbl.wf_put)

lemma table_wf_remove [simp, intro]: "table_wf t \<Longrightarrow> table_wf (snd (table_remove k t))"
  by (rule tbl.wf_drop)

lemma table_wf_new [simp]: "table_wf table_new"
  by (rule tbl.wf_empty)

lemma get_cloned_in_set: "get_cloned t k = Some v \<Longrightarrow> (k, v) \<in> set t"
  by (simp add: get_cloned_def map_of_SomeD)

lemma in_set_get_cloned: "table_wf t \<Longrightarrow> (k, v) \<in> set t \<longleftrightarrow> get_cloned t k = Some v"
  by (simp add: table_wf_def get_cloned_def map_of_eq_Some_iff)

section \<open>The database\<close>

record stellar_service_manager_contracts =
  verifier :: bytes
  security :: bytes

record wavs_db =
  db_services :: "(service_id, service) table"
  db_services_by_hash :: "(bytes, service) table"
  db_aggregator_services :: "(service_id, unit) table"
  db_stellar_contracts :: "(service_id, stellar_service_manager_contracts) table"
  db_quorum_queues :: "(quorum_queue_id, quorum_queue) table"
  db_event_reference_blocks :: "(event_id, u64) table"
  db_kv_store :: "(string, bytes) table"
  db_kv_atomics_counter :: "(string, u64) table"

definition wavs_db_new :: wavs_db where
  "wavs_db_new =
     \<lparr>db_services = table_new, db_services_by_hash = table_new, db_aggregator_services = table_new,
      db_stellar_contracts = table_new, db_quorum_queues = table_new,
      db_event_reference_blocks = table_new, db_kv_store = table_new, db_kv_atomics_counter = table_new\<rparr>"

end
