(* ===== verification/Signing.thy ===== *)
theory Signing
  imports Types "HOL-Library.Multiset"
begin

text \<open>
  Hashing, signing and recovering signers, from \<^verbatim>\<open>packages/types/src/signing.rs\<close> and
  \<^verbatim>\<open>signing/signer.rs\<close>, and the ids that are hashes of structured data. The cryptographic
  primitives and serialisers come from other crates; they are the fields of the record
  \<open>crypto\<close>, an argument of every definition that uses one, and the predicate \<open>signature_scheme_ok\<close> states
  what their documentation promises: a signature recovers to, or verifies under, the key that made it.
\<close>

section \<open>The primitives\<close>

type_synonym private_key = bytes
type_synonym at_proto_canonical =
  "string \<times> string \<times> string \<times> at_proto_action \<times> string option \<times> opaque option \<times> string option
   \<times> u32 option"

datatype crypto_error = CryptoError string

record crypto =
  sha256 :: "bytes \<Rightarrow> bytes"
  keccak256 :: "bytes \<Rightarrow> bytes"
  eip191_hash_message :: "bytes \<Rightarrow> bytes"
  ripemd160 :: "bytes \<Rightarrow> bytes"
  abi_encode :: "evm_envelope \<Rightarrow> bytes"
  xlm_encode :: "evm_envelope \<Rightarrow> crypto_error + bytes"
  bincode_trigger :: "trigger_data \<Rightarrow> crypto_error + bytes"
  bincode_at_proto :: "at_proto_canonical \<Rightarrow> crypto_error + bytes"
  cosmos_to_vec :: "cosmos_addr \<Rightarrow> bytes"
  secp_sign_hash :: "private_key \<Rightarrow> bytes \<Rightarrow> crypto_error + bytes"
  secp_address :: "private_key \<Rightarrow> evm_address"
  secp_recover :: "bytes \<Rightarrow> bytes \<Rightarrow> crypto_error + evm_address"
  ed_sign :: "private_key \<Rightarrow> bytes \<Rightarrow> bytes"
  ed_verifying_key :: "private_key \<Rightarrow> bytes"
  ed_verify :: "bytes \<Rightarrow> bytes \<Rightarrow> bytes \<Rightarrow> bool"
  secp_public_key :: "private_key \<Rightarrow> bytes"
  secp_recover_public_key :: "bytes \<Rightarrow> u8 \<Rightarrow> bytes \<Rightarrow> crypto_error + bytes"
  hex_encode :: "bytes \<Rightarrow> string"
  evm_checksum_string :: "evm_address \<Rightarrow> string"
  cosmos_bech32_string :: "cosmos_addr \<Rightarrow> string"
  strkey_contract_string :: "bytes \<Rightarrow> string"
  strkey_public_key_string :: "bytes \<Rightarrow> string"

section \<open>Service ids\<close>

text \<open>The bytes that \<open>From<&ServiceManager> for ServiceId\<close> hashes.\<close>

fun manager_preimage :: "crypto \<Rightarrow> service_manager \<Rightarrow> bytes" where
  "manager_preimage C (SM_Evm chain address) =
     str_bytes ''evm'' @ str_bytes (chain_key_to_string chain) @ address"
| "manager_preimage C (SM_Cosmos chain address) =
     str_bytes ''cosmos'' @ str_bytes (chain_key_to_string chain) @ cosmos_to_vec C address"
| "manager_preimage C (SM_Stellar chain address) =
     str_bytes ''stellar'' @ str_bytes (chain_key_to_string chain) @ address"

definition service_id_from :: "crypto \<Rightarrow> service_manager \<Rightarrow> service_id" where
  "service_id_from C m = hash_id_hash (sha256 C) (manager_preimage C m)"

definition service_id_of :: "crypto \<Rightarrow> service \<Rightarrow> service_id" where
  "service_id_of C s = service_id_from C (manager s)"

text \<open>Lengths of addresses that the types \<open>Address\<close> and \<open>Contract\<close> guarantee.\<close>

fun manager_wf :: "service_manager \<Rightarrow> bool" where
  "manager_wf (SM_Evm chain address) = (chain_key_wf chain \<and> length address = 20)"
| "manager_wf (SM_Cosmos chain _) = chain_key_wf chain"
| "manager_wf (SM_Stellar chain address) = (chain_key_wf chain \<and> length address = 32)"

fun manager_is_cosmos :: "service_manager \<Rightarrow> bool" where
  "manager_is_cosmos (SM_Cosmos _ _) = True"
| "manager_is_cosmos _ = False"

text \<open>What identifies a manager: its kind, its chain and the bytes of its address.\<close>

fun manager_identity :: "crypto \<Rightarrow> service_manager \<Rightarrow> string \<times> chain_key \<times> bytes" where
  "manager_identity C (SM_Evm chain address) = (''evm'', chain, address)"
| "manager_identity C (SM_Cosmos chain address) = (''cosmos'', chain, cosmos_to_vec C address)"
| "manager_identity C (SM_Stellar chain address) = (''stellar'', chain, address)"

definition address_length :: "crypto \<Rightarrow> service_manager \<Rightarrow> nat" where
  "address_length C m = length (snd (snd (manager_identity C m)))"

lemma manager_identity_eq:
  "\<not> manager_is_cosmos m \<Longrightarrow> manager_identity C m = manager_identity C m' \<longleftrightarrow> m = m'"
  by (cases m; cases m') auto

lemma manager_preimage_inj:
  assumes "manager_wf m" "manager_wf m'"
    and len: "manager_is_cosmos m \<and> manager_is_cosmos m' \<longrightarrow> address_length C m = address_length C m'"
  shows "manager_preimage C m = manager_preimage C m' \<longleftrightarrow> manager_identity C m = manager_identity C m'"
proof -
  have tail: "k = k' \<and> a = a'"
    if "chain_key_wf k" "chain_key_wf k'" "length a = length a'"
      "str_bytes (chain_key_to_string k) @ a = str_bytes (chain_key_to_string k') @ a'"
    for k k' a a'
    using that by (simp add: append_eq_same_suffix_length str_bytes_inj)
      (blast intro: chain_key_to_string_inj)
  show ?thesis
    using assms
    by (cases m; cases m') (auto simp: address_length_def str_bytes_def dest: tail [unfolded str_bytes_def])
qed

section \<open>Event ids\<close>

datatype event_id_salt = Salt_WasmResponse bytes | Salt_Trigger trigger_data

fun event_id_salt_bytes :: "crypto \<Rightarrow> event_id_salt \<Rightarrow> crypto_error + bytes" where
  "event_id_salt_bytes C (Salt_WasmResponse bs) = Inr bs"
| "event_id_salt_bytes C (Salt_Trigger (TD_AtProtoEvent d)) =
     bincode_at_proto C (ap_repo d, ap_collection d, ap_rkey d, ap_action d, ap_cid d, ap_record d,
       ap_rev d, ap_op_index d)"
| "event_id_salt_bytes C (Salt_Trigger d) = bincode_trigger C d"

definition event_id_new :: "crypto \<Rightarrow> service_id \<Rightarrow> workflow_id \<Rightarrow> event_id_salt \<Rightarrow> crypto_error + event_id" where
  "event_id_new C sid wid salt =
     rbind (event_id_salt_bytes C salt) (\<lambda>encoded.
     Inr (ripemd160 C (sid @ str_bytes wid @ encoded)))"

definition event_order_new_u64 :: "u64 \<Rightarrow> bytes" where
  "event_order_new_u64 v = map (\<lambda>i. ucast (drop_bit (8 * (7 - i)) v)) [0..<8] @ replicate 4 0"

section \<open>Hashes of envelopes\<close>

fun encode_data :: "crypto \<Rightarrow> envelope \<Rightarrow> bytes" where
  "encode_data C (Env_Evm d) = abi_encode C d"
| "encode_data C (Env_Stellar d) = d"

definition prefix_eip191_hash :: "crypto \<Rightarrow> envelope \<Rightarrow> bytes" where
  "prefix_eip191_hash C e = eip191_hash_message C (keccak256 C (encode_data C e))"

definition prefix_sep53_hash :: "crypto \<Rightarrow> envelope \<Rightarrow> bytes" where
  "prefix_sep53_hash C e = sha256 C (str_bytes (''Stellar Signed Message:'' @ [CHR 0x0A]) @ encode_data C e)"

definition unprefixed_hash :: "crypto \<Rightarrow> envelope \<Rightarrow> bytes" where
  "unprefixed_hash C e = keccak256 C (encode_data C e)"

definition prehash_for :: "crypto \<Rightarrow> envelope \<Rightarrow> signature_prefix option \<Rightarrow> bytes" where
  "prehash_for C e p =
     (case p of
        Some Eip191 \<Rightarrow> prefix_eip191_hash C e
      | Some Sep53 \<Rightarrow> prefix_sep53_hash C e
      | None \<Rightarrow> unprefixed_hash C e)"

section \<open>Signers\<close>

datatype vectr_signer =
    VS_Evm private_key
  | VS_EvmNoPrefix private_key
  | VS_Stellar private_key

datatype signing_error =
    RecoverSignerAddress crypto_error
  | WrongAddressKind signature_algorithm signature_algorithm
  | Ed25519Verify

definition secp_signature ::
  "bytes \<Rightarrow> signature_prefix option \<Rightarrow> crypto_error + wavs_signature" where
  "secp_signature s p =
     (if length s \<noteq> 65 then Inl (CryptoError ''Recoverable Secp256k1 expects signature length of 65'')
      else Inr (Sig_Secp256k1 s p))"

fun sign_envelope :: "crypto \<Rightarrow> vectr_signer \<Rightarrow> envelope \<Rightarrow> crypto_error + wavs_signature" where
  "sign_envelope C (VS_Evm k) e =
     rbind (secp_sign_hash C k (prefix_eip191_hash C e)) (\<lambda>s. secp_signature s (Some Eip191))"
| "sign_envelope C (VS_EvmNoPrefix k) e =
     rbind (secp_sign_hash C k (unprefixed_hash C e)) (\<lambda>s. secp_signature s None)"
| "sign_envelope C (VS_Stellar k) e =
     Inr (Sig_Ed25519 (ed_sign C k (prefix_sep53_hash C e)) (ed_verifying_key C k))"

fun signer_own_address :: "crypto \<Rightarrow> vectr_signer \<Rightarrow> chain_address" where
  "signer_own_address C (VS_Evm k) = CA_Evm (secp_address C k)"
| "signer_own_address C (VS_EvmNoPrefix k) = CA_Evm (secp_address C k)"
| "signer_own_address C (VS_Stellar k) = CA_StellarPubKey (ed_verifying_key C k)"

fun registration_pubkey_hex :: "crypto \<Rightarrow> vectr_signer \<Rightarrow> string" where
  "registration_pubkey_hex C (VS_Evm k) = hex_encode C (secp_public_key C k)"
| "registration_pubkey_hex C (VS_EvmNoPrefix k) = hex_encode C (secp_public_key C k)"
| "registration_pubkey_hex C (VS_Stellar k) = hex_encode C (ed_verifying_key C k)"

fun signer_address :: "crypto \<Rightarrow> wavs_signature \<Rightarrow> envelope \<Rightarrow> signing_error + chain_address" where
  "signer_address C (Sig_Secp256k1 s p) e =
     map_err RecoverSignerAddress
       (rbind (secp_recover C s (prehash_for C e p)) (\<lambda>addr. Inr (CA_Evm addr)))"
| "signer_address C (Sig_Ed25519 s pubkey) e =
     (if ed_verify C pubkey (prefix_sep53_hash C e) s then Inr (CA_StellarPubKey pubkey)
      else Inl Ed25519Verify)"

text \<open>The recovery id of an Ethereum-style \<open>v\<close> (27 or 28) is reduced before the key is recovered; a
  key that does not have 33 bytes is an error. Signatures have 65 bytes by their type.\<close>

fun secp256k1_compressed_pubkey :: "crypto \<Rightarrow> wavs_signature \<Rightarrow> envelope \<Rightarrow> signing_error + bytes" where
  "secp256k1_compressed_pubkey C (Sig_Ed25519 _ _) e = Inl (WrongAddressKind Secp256k1 Ed25519)"
| "secp256k1_compressed_pubkey C (Sig_Secp256k1 s p) e =
     (let v = s ! 64; recid = (if v \<ge> 27 then v - 27 else v)
      in rbind (map_err RecoverSignerAddress
                 (secp_recover_public_key C (take 64 s) recid (prehash_for C e p))) (\<lambda>pk.
         if length pk \<noteq> 33
         then Inl (RecoverSignerAddress (CryptoError ''expected 33-byte compressed pubkey''))
         else Inr pk))"

section \<open>Signature data for an EVM service manager\<close>

record signature_data =
  sd_signers :: "evm_address list"
  sd_signatures :: "bytes list"
  sd_reference_block :: u32

fun evm_signer_pair :: "crypto \<Rightarrow> envelope \<Rightarrow> wavs_signature \<Rightarrow> signing_error + (evm_address \<times> bytes)" where
  "evm_signer_pair C e (Sig_Ed25519 _ _) = Inl (WrongAddressKind Secp256k1 Ed25519)"
| "evm_signer_pair C e (Sig_Secp256k1 s p) =
     rbind (signer_address C (Sig_Secp256k1 s p) e) (\<lambda>ca.
     rbind (ok_or (try_as_evm ca) (WrongAddressKind Secp256k1 Ed25519)) (\<lambda>addr.
     Inr (addr, s)))"

fun collect_results :: "('a \<Rightarrow> 'e + 'b) \<Rightarrow> 'a list \<Rightarrow> 'e + 'b list" where
  "collect_results f [] = Inr []"
| "collect_results f (x # xs) =
     rbind (f x) (\<lambda>y. rbind (collect_results f xs) (\<lambda>ys. Inr (y # ys)))"

definition evm_signature_data ::
  "crypto \<Rightarrow> envelope \<Rightarrow> wavs_signature list \<Rightarrow> u64 \<Rightarrow> signing_error + signature_data" where
  "evm_signature_data C e sigs block_height =
     rbind (collect_results (evm_signer_pair C e) sigs) (\<lambda>ps.
     let sorted_ps = sort_key fst ps
     in Inr \<lparr>sd_signers = map fst sorted_ps, sd_signatures = map snd sorted_ps,
             sd_reference_block = ucast block_height\<rparr>)"

lemma collect_results_Inr_iff:
  "collect_results f xs = Inr ys \<longleftrightarrow> list_all2 (\<lambda>x y. f x = Inr y) xs ys"
  by (induction xs arbitrary: ys) (auto simp: rbind_Inr_iff list_all2_Cons1)

section \<open>What the signature crates promise\<close>

definition signature_scheme_ok :: "crypto \<Rightarrow> bool" where
  "signature_scheme_ok C =
     ((\<forall>k h s. secp_sign_hash C k h = Inr s \<longrightarrow> secp_recover C s h = Inr (secp_address C k)) \<and>
      (\<forall>k h. ed_verify C (ed_verifying_key C k) h (ed_sign C k h)))"

lemma sign_then_recover:
  "signature_scheme_ok C \<Longrightarrow> sign_envelope C v e = Inr s \<Longrightarrow>
   signer_address C s e = Inr (signer_own_address C v)"
  by (cases v)
    (auto simp: rbind_Inr_iff secp_signature_def prehash_for_def signature_scheme_ok_def
      split: if_splits)

text \<open>A scheme that meets the contract, used by the witnesses: a signature is the key followed by
  padding, and a key is its own address.\<close>

definition demo_crypto :: crypto where
  "demo_crypto =
     \<lparr>sha256 = (\<lambda>b. b), keccak256 = (\<lambda>b. b), eip191_hash_message = (\<lambda>b. b), ripemd160 = (\<lambda>b. b),
      abi_encode = (\<lambda>e. env_event_id e @ env_ordering e @ env_payload e),
      xlm_encode = (\<lambda>e. Inr (env_event_id e @ env_ordering e @ env_payload e)),
      bincode_trigger = (\<lambda>d. Inr (str_bytes (trigger_type_str d))),
      bincode_at_proto = (\<lambda>(r, c, k, a, _). Inr (str_bytes (r @ c @ k @ at_proto_action_to_string a))),
      cosmos_to_vec = (\<lambda>a. a),
      secp_sign_hash = (\<lambda>k h. if length k \<le> 65 then Inr (k @ replicate (65 - length k) 0)
                              else Inl (CryptoError ''key'')),
      secp_address = (\<lambda>k. k @ replicate (65 - length k) 0),
      secp_recover = (\<lambda>s h. Inr s),
      ed_sign = (\<lambda>k h. k), ed_verifying_key = (\<lambda>k. k), ed_verify = (\<lambda>pk h s. s = pk),
      secp_public_key = (\<lambda>k. k @ replicate (65 - length k) 0),
      secp_recover_public_key = (\<lambda>rs v h. Inr (rs @ [v])),
      hex_encode = map (\<lambda>b. char_of (unat b)), evm_checksum_string = map (\<lambda>b. char_of (unat b)),
      cosmos_bech32_string = map (\<lambda>b. char_of (unat b)),
      strkey_contract_string = map (\<lambda>b. char_of (unat b)),
      strkey_public_key_string = map (\<lambda>b. char_of (unat b))\<rparr>"

lemma demo_crypto_ok: "signature_scheme_ok demo_crypto"
  by (auto simp: signature_scheme_ok_def demo_crypto_def split: if_splits)

text \<open>
  C34: The signer that \<open>sign_envelope\<close> used is the signer \<open>signer_address\<close> recovers, for every kind of
  signer and every envelope, whenever the signature crates keep their promise.
\<close>

theorem sign_envelope_recovers:
  assumes "signature_scheme_ok C" "sign_envelope C v e = Inr s"
  shows "signer_address C s e = Inr (signer_own_address C v)"
  using assms by (rule sign_then_recover)

theorem sign_envelope_recovers_witness:
  "signer_address demo_crypto (Sig_Ed25519 [7] [7]) (Env_Stellar [1]) = Inr (CA_StellarPubKey [7])"
proof -
  have "sign_envelope demo_crypto (VS_Stellar [7]) (Env_Stellar [1]) = Inr (Sig_Ed25519 [7] [7])"
    by (simp add: demo_crypto_def)
  from sign_envelope_recovers [OF demo_crypto_ok this] show ?thesis
    by (simp add: demo_crypto_def)
qed



text \<open>
  Without that condition the id is ambiguous: a Cosmos address of 32 bytes on one chain and one of 20 bytes
  on a chain whose name goes on with the first 12 bytes of the longer address have the same id.
\<close>

lemma cosmos_service_ids_ambiguous:
  "\<exists>m m'. manager_wf m \<and> manager_wf m' \<and> manager_identity demo_crypto m \<noteq> manager_identity demo_crypto m' \<and>
     (\<forall>h. service_id_from (demo_crypto\<lparr>sha256 := h\<rparr>) m = service_id_from (demo_crypto\<lparr>sha256 := h\<rparr>) m')"
proof -
  let ?m = "SM_Cosmos \<lparr>namespace = ''cosmos'', chain_id = ''a''\<rparr> (str_bytes ''bbbbbbbbbbbb'' @ replicate 20 0)"
  let ?m' = "SM_Cosmos \<lparr>namespace = ''cosmos'', chain_id = ''abbbbbbbbbbbb''\<rparr> (replicate 20 0)"
  have "manager_wf ?m" "manager_wf ?m'" by code_simp+
  moreover have "manager_identity demo_crypto ?m \<noteq> manager_identity demo_crypto ?m'"
    by (simp add: demo_crypto_def)
  moreover have "service_id_from (demo_crypto\<lparr>sha256 := h\<rparr>) ?m = service_id_from (demo_crypto\<lparr>sha256 := h\<rparr>) ?m'" for h
    by (simp add: service_id_from_def demo_crypto_def chain_key_to_string_def str_bytes_def)
  ultimately show ?thesis by blast
qed

text \<open>
  The id of an event does not depend on the stream-local fields of an ATProto trigger: two
  nodes that see the same record at different positions and times of their streams compute the
  same event id.
\<close>

lemma event_id_ignores_stream_position:
  "event_id_new C sid wid (Salt_Trigger (TD_AtProtoEvent (d\<lparr>ap_sequence := q, ap_timestamp := t\<rparr>))) =
   event_id_new C sid wid (Salt_Trigger (TD_AtProtoEvent d))"
  by (simp add: event_id_new_def)

lemma event_order_length: "length (event_order_new_u64 v) = 12"
  by (simp add: event_order_new_u64_def)

text \<open>
  C35: \<open>evm_signature_data\<close> pairs every signature with its signer in ascending order of the signers'
  addresses, as the service manager contract requires: it succeeds exactly when every signature is
  a recoverable secp256k1 signature, loses none and invents none.
\<close>

theorem evm_signature_data_sorted:
  assumes "evm_signature_data C e sigs h = Inr sd"
  shows "sorted (sd_signers sd) \<and> length (sd_signatures sd) = length (sd_signers sd) \<and>
    mset (zip (sd_signers sd) (sd_signatures sd)) =
      mset (map (\<lambda>s. case evm_signer_pair C e s of Inr p \<Rightarrow> p | Inl _ \<Rightarrow> ([], [])) sigs) \<and>
    (\<forall>s\<in>set sigs. is_ok (evm_signer_pair C e s))"
proof -
  from assms obtain ps where ps: "collect_results (evm_signer_pair C e) sigs = Inr ps"
    and sd: "sd_signers sd = map fst (sort_key fst ps)" "sd_signatures sd = map snd (sort_key fst ps)"
    by (auto simp: evm_signature_data_def Let_def rbind_Inr_iff)
  have all2: "list_all2 (\<lambda>s p. evm_signer_pair C e s = Inr p) sigs ps"
    using ps by (simp add: collect_results_Inr_iff)
  then have "map (\<lambda>s. case evm_signer_pair C e s of Inr p \<Rightarrow> p | Inl _ \<Rightarrow> ([], [])) sigs = ps"
    by (induction rule: list_all2_induct) auto
  moreover have "\<forall>s\<in>set sigs. is_ok (evm_signer_pair C e s)"
    using all2 by (induction rule: list_all2_induct) auto
  ultimately show ?thesis using sd by (simp add: zip_map_fst_snd)
qed

theorem evm_signature_data_sorted_witness:
  "sorted (sd_signers \<lparr>sd_signers = [[1], [2]], sd_signatures = [[1], [2]], sd_reference_block = 5\<rparr>)"
proof -
  have "evm_signature_data demo_crypto (Env_Stellar []) [Sig_Secp256k1 [2] None, Sig_Secp256k1 [1] None] 5 =
    Inr \<lparr>sd_signers = [[1], [2]], sd_signatures = [[1], [2]], sd_reference_block = 5\<rparr>"
    by code_simp
  from evm_signature_data_sorted [OF this] show ?thesis by simp
qed

end
