(* ===== verification/Services.thy ===== *)
theory Services
  imports Db Signing
begin

text \<open>
  The service store of \<^verbatim>\<open>packages/warpdrive/src/services.rs\<close>: a view of two tables of the
  database. Saving a service with a Stellar manager also queries two contracts; the chain
  configuration and those queries are the record \<open>stellar_env\<close>, an argument of \<open>services_save\<close>.
\<close>

datatype services_error =
    UnknownService service_id
  | UnknownWorkflow string service_id workflow_id
  | MissingChainConfigS chain_key
  | StellarChainQuery chain_key string
  | UnknownServiceForStellarServiceManager service_id

record stellar_env =
  has_stellar_config :: "chain_key \<Rightarrow> bool"
  soroban_env :: "chain_key \<Rightarrow> string + unit"
  query_verification_contract :: "chain_key \<Rightarrow> stellar_contract \<Rightarrow> string + bytes"
  query_security_contract :: "chain_key \<Rightarrow> stellar_contract \<Rightarrow> string + bytes"

definition services_try_get :: "wavs_db \<Rightarrow> service_id \<Rightarrow> service option" where
  "services_try_get db i = get_cloned (db_services db) i"

definition services_get :: "wavs_db \<Rightarrow> service_id \<Rightarrow> services_error + service" where
  "services_get db i = ok_or (services_try_get db i) (UnknownService i)"

definition services_get_workflow :: "wavs_db \<Rightarrow> service_id \<Rightarrow> workflow_id \<Rightarrow> services_error + workflow" where
  "services_get_workflow db i w =
     rbind (services_get db i) (\<lambda>svc.
     ok_or (map_of (workflows svc) w) (UnknownWorkflow (svc_name svc) i w))"

definition get_stellar_service_manager_contracts ::
  "wavs_db \<Rightarrow> service_id \<Rightarrow> services_error + stellar_service_manager_contracts" where
  "get_stellar_service_manager_contracts db i =
     ok_or (get_cloned (db_stellar_contracts db) i) (UnknownServiceForStellarServiceManager i)"

definition services_exists :: "wavs_db \<Rightarrow> service_id \<Rightarrow> bool" where
  "services_exists db i = contains_key (db_services db) i"

definition services_is_active :: "wavs_db \<Rightarrow> service_id \<Rightarrow> bool" where
  "services_is_active db i =
     (case services_get db i of
        Inr svc \<Rightarrow> (case status svc of Active \<Rightarrow> True | Paused \<Rightarrow> False)
      | Inl _ \<Rightarrow> False)"

definition services_remove :: "service_id \<Rightarrow> wavs_db \<Rightarrow> wavs_db" where
  "services_remove i db = db\<lparr>db_services := snd (table_remove i (db_services db))\<rparr>"

text \<open>The service is stored before the manager is checked; an error leaves it stored.\<close>

definition services_save ::
  "crypto \<Rightarrow> stellar_env \<Rightarrow> service \<Rightarrow> wavs_db \<Rightarrow> (services_error + unit) \<times> wavs_db" where
  "services_save C X svc db =
     (let db1 = db\<lparr>db_services := table_insert (service_id_of C svc) svc (db_services db)\<rparr>
      in case manager svc of
           SM_Stellar chain address \<Rightarrow>
             (let checked =
                rbind (if has_stellar_config X chain then Inr () else Inl (MissingChainConfigS chain)) (\<lambda>_.
                rbind (map_err (StellarChainQuery chain) (soroban_env X chain)) (\<lambda>_.
                rbind (map_err (StellarChainQuery chain) (query_verification_contract X chain address)) (\<lambda>v.
                rbind (map_err (StellarChainQuery chain) (query_security_contract X chain address)) (\<lambda>s.
                Inr \<lparr>verifier = v, security = s\<rparr>))))
              in case checked of
                   Inl e \<Rightarrow> (Inl e, db1)
                 | Inr contracts \<Rightarrow>
                     (Inr (), db1\<lparr>db_stellar_contracts :=
                        table_insert (service_id_of C svc) contracts (db_stellar_contracts db1)\<rparr>))
         | _ \<Rightarrow> (Inr (), db1))"

definition services_get_signature_kind :: "wavs_db \<Rightarrow> service_id \<Rightarrow> services_error + signature_kind" where
  "services_get_signature_kind db i =
     ok_or (map_ref (db_services db) i svc_signature_kind) (UnknownService i)"

datatype bound = Unbounded | Included service_id | Excluded service_id

fun above_bound :: "bound \<Rightarrow> service_id \<Rightarrow> bool" where
  "above_bound Unbounded k = True"
| "above_bound (Included b) k = (b \<le> k)"
| "above_bound (Excluded b) k = (b < k)"

fun below_bound :: "bound \<Rightarrow> service_id \<Rightarrow> bool" where
  "below_bound Unbounded k = True"
| "below_bound (Included b) k = (k \<le> b)"
| "below_bound (Excluded b) k = (k < b)"

text \<open>\<open>BTreeMap::range\<close> panics when the start lies after the end, or when both exclude the same key.\<close>

fun range_panics :: "bound \<Rightarrow> bound \<Rightarrow> bool" where
  "range_panics Unbounded _ = False"
| "range_panics _ Unbounded = False"
| "range_panics (Excluded a) (Excluded b) = (a \<ge> b)"
| "range_panics (Included a) (Included b) = (a > b)"
| "range_panics (Included a) (Excluded b) = (a > b)"
| "range_panics (Excluded a) (Included b) = (a > b)"

fun collect_btree :: "('k::linorder \<times> 'v) list \<Rightarrow> ('k \<times> 'v) list \<Rightarrow> ('k \<times> 'v) list" where
  "collect_btree [] m = m"
| "collect_btree ((k, v) # t) m = collect_btree t (omap_insert k v m)"

definition services_list :: "wavs_db \<Rightarrow> bound \<Rightarrow> bound \<Rightarrow> service list option" where
  "services_list db s e =
     (if range_panics s e then None
      else Some (map snd (filter (\<lambda>p. above_bound s (fst p) \<and> below_bound e (fst p))
             (collect_btree (db_services db) []))))"

section \<open>Laws of the store\<close>

lemma services_get_Inr_iff: "services_get db i = Inr svc \<longleftrightarrow> get_cloned (db_services db) i = Some svc"
  by (simp add: services_get_def services_try_get_def ok_or_Inr_iff)

lemma services_is_active_iff:
  "services_is_active db i \<longleftrightarrow> (\<exists>svc. get_cloned (db_services db) i = Some svc \<and> status svc = Active)"
  by (auto simp: services_is_active_def services_get_def services_try_get_def ok_or_def
      split: option.splits sum.splits service_status.splits)

lemma services_exists_iff: "services_exists db i \<longleftrightarrow> get_cloned (db_services db) i \<noteq> None"
  by (simp add: services_exists_def contains_key_iff)

lemma services_save_db_services [simp]:
  "db_services (snd (services_save C X svc db)) = table_insert (service_id_of C svc) svc (db_services db)"
  by (auto simp: services_save_def Let_def split: service_manager.splits sum.splits)

lemma services_save_frame [simp]:
  "db_quorum_queues (snd (services_save C X svc db)) = db_quorum_queues db"
  "db_event_reference_blocks (snd (services_save C X svc db)) = db_event_reference_blocks db"
  by (auto simp: services_save_def Let_def split: service_manager.splits sum.splits)

lemma services_remove_db_services [simp]:
  "db_services (services_remove i db) = snd (table_remove i (db_services db))"
  by (simp add: services_remove_def)

lemma collect_btree_spec:
  assumes "omap_wf m" "distinct (map fst t)"
  shows "omap_wf (collect_btree t m)"
    and "map_of (collect_btree t m) = map_of m ++ map_of t"
proof -
  show "omap_wf (collect_btree t m)"
    using assms by (induction t m rule: collect_btree.induct) auto
  show "map_of (collect_btree t m) = map_of m ++ map_of t"
    using assms
  proof (induction t m rule: collect_btree.induct)
    case (2 k v t m)
    then have "map_of (collect_btree t (omap_insert k v m)) = (map_of m)(k \<mapsto> v) ++ map_of t"
      by (simp add: omap_wf_sorted fun_upd_def)
    also have "\<dots> = (map_of m ++ map_of t)(k \<mapsto> v)"
      using 2(3) by (intro map_add_upd_left) (simp add: dom_map_of_conv_image_fst)
    finally show ?case by (simp add: fun_upd_def map_add_def fun_eq_iff)
  qed simp
qed

text \<open>
  The list of services is complete, in ascending order of ids, and respects its bounds: it
  holds, for every stored id within the bounds, the stored service, and nothing else; an empty
  interval makes \<open>range\<close> panic.
\<close>

lemma services_list_correct:
  assumes "table_wf (db_services db)" "services_list db s e = Some svcs"
  shows "\<exists>ids. sorted ids \<and> distinct ids \<and> map Some svcs = map (get_cloned (db_services db)) ids \<and>
    set ids = {i. services_exists db i \<and> above_bound s i \<and> below_bound e i}"
proof -
  let ?m = "collect_btree (db_services db) []"
  let ?f = "filter (\<lambda>p. above_bound s (fst p) \<and> below_bound e (fst p)) ?m"
  have d: "distinct (map fst (db_services db))" using assms(1) by (simp add: table_wf_def)
  have m: "omap_wf ?m" "map_of ?m = map_of (db_services db)"
    using collect_btree_spec [OF omap_wf_Nil d] by simp_all
  have svcs: "svcs = map snd ?f" using assms(2) by (simp add: services_list_def split: if_splits)
  have val: "get_cloned (db_services db) (fst p) = Some (snd p)" if "p \<in> set ?m" for p
    using that m omap_wf_distinct [OF m(1)] by (simp add: get_cloned_def flip: m(2))
  have "sorted (map fst ?f)" "distinct (map fst ?f)"
    using m(1) by (simp_all add: omap_wf_def sorted_filter distinct_map_filter)
  moreover have "map Some svcs = map (get_cloned (db_services db)) (map fst ?f)"
    using val by (simp add: svcs)
  moreover have "fst ` set ?m = {i. services_exists db i}"
    using m(2) by (metis (mono_tags, lifting) Collect_cong dom_map_of_conv_image_fst dom_def
        get_cloned_def services_exists_iff)
  then have "set (map fst ?f) = {i. services_exists db i \<and> above_bound s i \<and> below_bound e i}" by force
  ultimately show ?thesis by blast
qed

text \<open>A concrete service for the witnesses of this and other theories.\<close>

definition demo_manager :: service_manager where
  "demo_manager = SM_Evm \<lparr>namespace = ''evm'', chain_id = ''1''\<rparr> (replicate 20 1)"

definition demo_service :: service where
  "demo_service = service_new_simple None Manual (Digest (replicate 32 0))
     (SubmitAggregator (component_new (Digest (replicate 32 1)))) demo_manager"

text \<open>
  Saving stores the service under its own id and touches no other service, on success and on
  every error alike: when the check of a Stellar manager fails, the error is returned but the
  service stays in the store and is reported as existing.
\<close>

lemma services_save_stores:
  "get_cloned (db_services (snd (services_save C X svc db))) i =
     (if i = service_id_of C svc then Some svc else get_cloned (db_services db) i) \<and>
   services_exists (snd (services_save C X svc db)) (service_id_of C svc) \<and>
   (fst (services_save C X svc db) = Inr () \<longleftrightarrow>
      (case manager svc of
         SM_Stellar chain address \<Rightarrow>
           has_stellar_config X chain \<and> is_ok (soroban_env X chain) \<and>
           is_ok (query_verification_contract X chain address) \<and> is_ok (query_security_contract X chain address)
       | _ \<Rightarrow> True))"
proof -
  have ok_iff: "(\<exists>a. r = Inr a) \<longleftrightarrow> is_ok r" for r :: "string + 'a" by (cases r) auto
  show ?thesis
    by (cases "manager svc")
      (auto simp: services_exists_iff services_save_def Let_def rbind_Inl_iff rbind_Inr_iff
        map_err_Inl_iff map_err_Inr_iff is_ok_def split: sum.splits)
qed

end
