(* ===== verification/Keyvalue.thy ===== *)
theory Keyvalue
  imports Services
begin

text \<open>
  The key-value store that components see, \<^verbatim>\<open>packages/engine/src/backend/wasi_keyvalue/\<close>: buckets,
  batches and atomics over two tables of the node's database, shared by all components and divided by
  a namespace, the printed id of the service (\<^verbatim>\<open>wasm_engine.rs\<close>). The handles that components hold
  live in wasmtime's \<open>ResourceTable\<close>, the parameter \<open>resource_ops\<close>; printing bytes as hex is a field of
  \<open>crypto\<close>. A host call that reads and then writes is split into its two accesses of the shared table
  where the interleaving with other components matters.
\<close>

type_synonym i64 = "64 word"

section \<open>Keys\<close>

record key_prefix =
  kp_namespace :: string
  kp_bucket_id :: string

record kv_key =
  k_prefix :: key_prefix
  k_key :: string

definition key_prefix_to_string :: "key_prefix \<Rightarrow> string" where
  "key_prefix_to_string p = kp_namespace p @ ''/'' @ kp_bucket_id p"

definition key_to_string :: "kv_key \<Rightarrow> string" where
  "key_to_string k = key_prefix_to_string (k_prefix k) @ ''/'' @ k_key k"

section \<open>Handles\<close>

type_synonym handle = u32

datatype kv_resource =
    KV_Bucket string
  | KV_Cas kv_key "bytes option"

record 'rt resource_ops =
  rt_push :: "kv_resource \<Rightarrow> 'rt \<Rightarrow> string + handle \<times> 'rt"
  rt_get :: "'rt \<Rightarrow> handle \<Rightarrow> string + kv_resource"
  rt_delete :: "handle \<Rightarrow> 'rt \<Rightarrow> string + 'rt"

text \<open>What \<open>ResourceTable\<close> documents: an entry is found under the handle its push returned, which was not
  in use before, until it is deleted.\<close>

definition resource_laws :: "'rt resource_ops \<Rightarrow> bool" where
  "resource_laws R =
     ((\<forall>t e h t'. rt_push R e t = Inr (h, t') \<longrightarrow>
        \<not> is_ok (rt_get R t h) \<and> rt_get R t' h = Inr e \<and> (\<forall>h'. h' \<noteq> h \<longrightarrow> rt_get R t' h' = rt_get R t h')) \<and>
      (\<forall>t h t'. rt_delete R h t = Inr t' \<longrightarrow>
        \<not> is_ok (rt_get R t' h) \<and> (\<forall>h'. h' \<noteq> h \<longrightarrow> rt_get R t' h' = rt_get R t h')))"

record 'rt kv_state =
  ks_db :: wavs_db
  ks_namespace :: string
  ks_resources :: 'rt
  ks_page_size :: "nat option"

text \<open>The context of a component of service \<open>i\<close>: \<open>KeyValueCtx::new(db, service.id().to_string())\<close>.\<close>

definition keyvalue_ctx_new :: "crypto \<Rightarrow> wavs_db \<Rightarrow> service_id \<Rightarrow> 'rt \<Rightarrow> 'rt kv_state" where
  "keyvalue_ctx_new C db i rt =
     \<lparr>ks_db = db, ks_namespace = hex_encode C i, ks_resources = rt, ks_page_size = None\<rparr>"

definition get_bucket :: "'rt resource_ops \<Rightarrow> 'rt kv_state \<Rightarrow> handle \<Rightarrow> string + string" where
  "get_bucket R K b =
     (case rt_get R (ks_resources K) b of
        Inr (KV_Bucket i) \<Rightarrow> Inr i
      | Inr (KV_Cas _ _) \<Rightarrow> Inl ''Failed to get keyvalue bucket: resource has another type''
      | Inl e \<Rightarrow> Inl (''Failed to get keyvalue bucket: '' @ e))"

definition get_key_prefix :: "'rt resource_ops \<Rightarrow> 'rt kv_state \<Rightarrow> handle \<Rightarrow> string + key_prefix" where
  "get_key_prefix R K b =
     rbind (get_bucket R K b) (\<lambda>i. Inr \<lparr>kp_namespace = ks_namespace K, kp_bucket_id = i\<rparr>)"

definition get_key :: "'rt resource_ops \<Rightarrow> 'rt kv_state \<Rightarrow> handle \<Rightarrow> string \<Rightarrow> string + kv_key" where
  "get_key R K b k = rbind (get_key_prefix R K b) (\<lambda>p. Inr \<lparr>k_prefix = p, k_key = k\<rparr>)"

definition get_keys :: "'rt resource_ops \<Rightarrow> 'rt kv_state \<Rightarrow> handle \<Rightarrow> string list \<Rightarrow> string + kv_key list" where
  "get_keys R K b ks = rbind (get_key_prefix R K b) (\<lambda>p. Inr (map (\<lambda>k. \<lparr>k_prefix = p, k_key = k\<rparr>) ks))"

definition get_store_value :: "'rt kv_state \<Rightarrow> kv_key \<Rightarrow> bytes option" where
  "get_store_value K k = get_cloned (db_kv_store (ks_db K)) (key_to_string k)"

definition set_store_value :: "kv_key \<Rightarrow> bytes \<Rightarrow> 'rt kv_state \<Rightarrow> 'rt kv_state" where
  "set_store_value k v K =
     K\<lparr>ks_db := (ks_db K)\<lparr>db_kv_store := table_insert (key_to_string k) v (db_kv_store (ks_db K))\<rparr>\<rparr>"

definition remove_store_value :: "kv_key \<Rightarrow> 'rt kv_state \<Rightarrow> 'rt kv_state" where
  "remove_store_value k K =
     K\<lparr>ks_db := (ks_db K)\<lparr>db_kv_store := snd (table_remove (key_to_string k) (db_kv_store (ks_db K)))\<rparr>\<rparr>"

section \<open>Buckets\<close>

definition kv_open :: "'rt resource_ops \<Rightarrow> string \<Rightarrow> 'rt kv_state \<Rightarrow> (string + handle) \<times> 'rt kv_state" where
  "kv_open R i K =
     (case rt_push R (KV_Bucket i) (ks_resources K) of
        Inl e \<Rightarrow> (Inl (''Failed to open keyvalue bucket: '' @ e), K)
      | Inr (h, t) \<Rightarrow> (Inr h, K\<lparr>ks_resources := t\<rparr>))"

definition kv_get :: "'rt resource_ops \<Rightarrow> handle \<Rightarrow> string \<Rightarrow> 'rt kv_state \<Rightarrow> string + bytes option" where
  "kv_get R b k K = rbind (get_key R K b k) (\<lambda>ky. Inr (get_store_value K ky))"

definition kv_set :: "'rt resource_ops \<Rightarrow> handle \<Rightarrow> string \<Rightarrow> bytes \<Rightarrow> 'rt kv_state \<Rightarrow> (string + unit) \<times> 'rt kv_state" where
  "kv_set R b k v K =
     (case get_key R K b k of Inl e \<Rightarrow> (Inl e, K) | Inr ky \<Rightarrow> (Inr (), set_store_value ky v K))"

definition kv_delete :: "'rt resource_ops \<Rightarrow> handle \<Rightarrow> string \<Rightarrow> 'rt kv_state \<Rightarrow> (string + unit) \<times> 'rt kv_state" where
  "kv_delete R b k K =
     (case get_key R K b k of Inl e \<Rightarrow> (Inl e, K) | Inr ky \<Rightarrow> (Inr (), remove_store_value ky K))"

definition kv_exists :: "'rt resource_ops \<Rightarrow> handle \<Rightarrow> string \<Rightarrow> 'rt kv_state \<Rightarrow> string + bool" where
  "kv_exists R b k K = rbind (kv_get R b k K) (\<lambda>x. Inr (x \<noteq> None))"

record key_response =
  kr_keys :: "string list"
  kr_cursor :: "string option"

text \<open>The last loop of \<open>list_keys\<close>; the number counts the keys taken so far.\<close>

fun list_page :: "string \<Rightarrow> nat option \<Rightarrow> nat \<Rightarrow> string list \<Rightarrow> string list \<times> string option" where
  "list_page pre page n [] = ([], None)"
| "list_page pre page n (k # ks) =
     (if starts_with k pre then
        (if (case page of Some p \<Rightarrow> n + 1 > p | None \<Rightarrow> False) then ([], Some k)
         else let (xs, c) = list_page pre page (n + 1) ks in (drop (length pre) k # xs, c))
      else ([], None))"

text \<open>\<open>position\<close> of the first key not below the cursor, or the length, is the number of keys dropped by
  \<open>dropWhile\<close>: the keys are sorted.\<close>

definition kv_list_keys ::
  "'rt resource_ops \<Rightarrow> handle \<Rightarrow> string option \<Rightarrow> 'rt kv_state \<Rightarrow> string + key_response" where
  "kv_list_keys R b cursor K =
     rbind (get_key_prefix R K b) (\<lambda>p.
     let prefix_str = key_prefix_to_string p @ ''/'';
         all_keys = sort (filter (\<lambda>k. starts_with k prefix_str) (map fst (db_kv_store (ks_db K))));
         keys_from_cursor =
           (case cursor of
              Some c \<Rightarrow> dropWhile (\<lambda>k. \<not> k \<ge> key_to_string \<lparr>k_prefix = p, k_key = c\<rparr>) all_keys
            | None \<Rightarrow> all_keys);
         (ks, next_cursor) = list_page prefix_str (ks_page_size K) 0 keys_from_cursor
     in Inr \<lparr>kr_keys = ks, kr_cursor = next_cursor\<rparr>)"

definition kv_drop :: "'rt resource_ops \<Rightarrow> handle \<Rightarrow> 'rt kv_state \<Rightarrow> (string + unit) \<times> 'rt kv_state" where
  "kv_drop R h K =
     (case rt_delete R h (ks_resources K) of
        Inl e \<Rightarrow> (Inl e, K)
      | Inr t \<Rightarrow> (Inr (), K\<lparr>ks_resources := t\<rparr>))"

section \<open>Batches\<close>

definition kv_get_many ::
  "'rt resource_ops \<Rightarrow> handle \<Rightarrow> string list \<Rightarrow> 'rt kv_state \<Rightarrow> string + (string \<times> bytes) option list" where
  "kv_get_many R b original_keys K =
     rbind (get_keys R K b original_keys) (\<lambda>kys.
     Inr (map (\<lambda>(original_key, ky). map_option (Pair original_key) (get_store_value K ky)) (zip original_keys kys)))"

definition kv_set_many ::
  "'rt resource_ops \<Rightarrow> handle \<Rightarrow> (string \<times> bytes) list \<Rightarrow> 'rt kv_state \<Rightarrow> (string + unit) \<times> 'rt kv_state" where
  "kv_set_many R b key_values K =
     (case get_key_prefix R K b of
        Inl e \<Rightarrow> (Inl e, K)
      | Inr p \<Rightarrow> (Inr (), fold (\<lambda>(k, v). set_store_value \<lparr>k_prefix = p, k_key = k\<rparr> v) key_values K))"

definition kv_delete_many ::
  "'rt resource_ops \<Rightarrow> handle \<Rightarrow> string list \<Rightarrow> 'rt kv_state \<Rightarrow> (string + unit) \<times> 'rt kv_state" where
  "kv_delete_many R b ks K =
     (case get_keys R K b ks of
        Inl e \<Rightarrow> (Inl e, K)
      | Inr kys \<Rightarrow> (Inr (), fold remove_store_value kys K))"

section \<open>Atomics\<close>

definition get_atomic_count :: "'rt kv_state \<Rightarrow> kv_key \<Rightarrow> i64 option" where
  "get_atomic_count K k = get_cloned (db_kv_atomics_counter (ks_db K)) (key_to_string k)"

definition save_atomic_count :: "kv_key \<Rightarrow> i64 \<Rightarrow> 'rt kv_state \<Rightarrow> 'rt kv_state" where
  "save_atomic_count k v K =
     K\<lparr>ks_db := (ks_db K)\<lparr>db_kv_atomics_counter :=
        table_insert (key_to_string k) v (db_kv_atomics_counter (ks_db K))\<rparr>\<rparr>"

definition incremented :: "'rt kv_state \<Rightarrow> kv_key \<Rightarrow> i64 \<Rightarrow> i64" where
  "incremented K k delta = (case get_atomic_count K k of Some c \<Rightarrow> c | None \<Rightarrow> 0) + delta"

definition kv_increment ::
  "'rt resource_ops \<Rightarrow> handle \<Rightarrow> string \<Rightarrow> i64 \<Rightarrow> 'rt kv_state \<Rightarrow> (string + i64) \<times> 'rt kv_state" where
  "kv_increment R b k delta K =
     (case get_key R K b k of
        Inl e \<Rightarrow> (Inl e, K)
      | Inr ky \<Rightarrow> let count = incremented K ky delta in (Inr count, save_atomic_count ky count K))"

datatype cas_error = CasStoreError string | CasFailed handle

definition get_cas_atomics :: "'rt resource_ops \<Rightarrow> 'rt kv_state \<Rightarrow> handle \<Rightarrow> string + kv_key \<times> bytes option" where
  "get_cas_atomics R K h =
     (case rt_get R (ks_resources K) h of
        Inr (KV_Cas k snapshot) \<Rightarrow> Inr (k, snapshot)
      | Inr (KV_Bucket _) \<Rightarrow> Inl ''Failed to get keyvalue cas: resource has another type''
      | Inl e \<Rightarrow> Inl (''Failed to get keyvalue cas: '' @ e))"

definition cas_new ::
  "'rt resource_ops \<Rightarrow> handle \<Rightarrow> string \<Rightarrow> 'rt kv_state \<Rightarrow> (string + handle) \<times> 'rt kv_state" where
  "cas_new R b k K =
     (case get_key R K b k of
        Inl e \<Rightarrow> (Inl e, K)
      | Inr ky \<Rightarrow>
          (case rt_push R (KV_Cas ky (get_store_value K ky)) (ks_resources K) of
             Inl e \<Rightarrow> (Inl (''Failed to create keyvalue cas: '' @ e), K)
           | Inr (h, t) \<Rightarrow> (Inr h, K\<lparr>ks_resources := t\<rparr>)))"

definition cas_current :: "'rt resource_ops \<Rightarrow> handle \<Rightarrow> 'rt kv_state \<Rightarrow> string + bytes option" where
  "cas_current R h K = rbind (get_cas_atomics R K h) (\<lambda>(_, snapshot). Inr snapshot)"

text \<open>A swap reads the key, compares, and then writes: two accesses of the shared table. The first part ends with the
  key to write, or with the error and the fresh handle.\<close>

definition swap_read ::
  "'rt resource_ops \<Rightarrow> handle \<Rightarrow> 'rt kv_state \<Rightarrow> (cas_error + kv_key) \<times> 'rt kv_state" where
  "swap_read R h K =
     (case get_cas_atomics R K h of
        Inl e \<Rightarrow> (Inl (CasStoreError e), K)
      | Inr (ky, snapshot) \<Rightarrow>
          let current = get_store_value K ky
          in if current \<noteq> snapshot
             then (case rt_push R (KV_Cas ky current) (ks_resources K) of
                     Inl e \<Rightarrow> (Inl (CasStoreError (''Failed to create replacement keyvalue cas: '' @ e)), K)
                   | Inr (h', t) \<Rightarrow> (Inl (CasFailed h'), K\<lparr>ks_resources := t\<rparr>))
             else (Inr ky, K))"

definition kv_swap ::
  "'rt resource_ops \<Rightarrow> handle \<Rightarrow> bytes \<Rightarrow> 'rt kv_state \<Rightarrow> (cas_error + unit) \<times> 'rt kv_state" where
  "kv_swap R h v K =
     (case swap_read R h K of
        (Inl e, K') \<Rightarrow> (Inl e, K')
      | (Inr ky, K') \<Rightarrow> (Inr (), set_store_value ky v K'))"

section \<open>Isolation of services\<close>

text \<open>Documented of \<open>const_hex::encode\<close>: two lower-case hex digits per byte, which determine it.\<close>

definition hex_laws :: "crypto \<Rightarrow> bool" where
  "hex_laws C = ((\<forall>i. CHR ''/'' \<notin> set (hex_encode C i)) \<and> inj (hex_encode C))"

text \<open>What a service sees: the entries under its id, by what follows the id and its slash.\<close>

definition store_view :: "crypto \<Rightarrow> service_id \<Rightarrow> wavs_db \<Rightarrow> string \<Rightarrow> bytes option" where
  "store_view C i db s = get_cloned (db_kv_store db) (hex_encode C i @ ''/'' @ s)"

definition counter_view :: "crypto \<Rightarrow> service_id \<Rightarrow> wavs_db \<Rightarrow> string \<Rightarrow> i64 option" where
  "counter_view C i db s = get_cloned (db_kv_atomics_counter db) (hex_encode C i @ ''/'' @ s)"

text \<open>One host call of a component, and what it is answered.\<close>

datatype kv_op =
    Op_Open string
  | Op_Get handle string
  | Op_Set handle string bytes
  | Op_Delete handle string
  | Op_Exists handle string
  | Op_ListKeys handle "string option"
  | Op_Drop handle
  | Op_GetMany handle "string list"
  | Op_SetMany handle "(string \<times> bytes) list"
  | Op_DeleteMany handle "string list"
  | Op_Increment handle string i64
  | Op_CasNew handle string
  | Op_CasCurrent handle
  | Op_Swap handle bytes

datatype kv_answer =
    An_Handle "string + handle"
  | An_Unit "string + unit"
  | An_Value "string + bytes option"
  | An_Bool "string + bool"
  | An_Keys "string + key_response"
  | An_Values "string + (string \<times> bytes) option list"
  | An_Count "string + i64"
  | An_Swap "cas_error + unit"

fun kv_exec :: "'rt resource_ops \<Rightarrow> kv_op \<Rightarrow> 'rt kv_state \<Rightarrow> kv_answer \<times> 'rt kv_state" where
  "kv_exec R (Op_Open i) K = apfst An_Handle (kv_open R i K)"
| "kv_exec R (Op_Get b k) K = (An_Value (kv_get R b k K), K)"
| "kv_exec R (Op_Set b k v) K = apfst An_Unit (kv_set R b k v K)"
| "kv_exec R (Op_Delete b k) K = apfst An_Unit (kv_delete R b k K)"
| "kv_exec R (Op_Exists b k) K = (An_Bool (kv_exists R b k K), K)"
| "kv_exec R (Op_ListKeys b c) K = (An_Keys (kv_list_keys R b c K), K)"
| "kv_exec R (Op_Drop h) K = apfst An_Unit (kv_drop R h K)"
| "kv_exec R (Op_GetMany b ks) K = (An_Values (kv_get_many R b ks K), K)"
| "kv_exec R (Op_SetMany b kvs) K = apfst An_Unit (kv_set_many R b kvs K)"
| "kv_exec R (Op_DeleteMany b ks) K = apfst An_Unit (kv_delete_many R b ks K)"
| "kv_exec R (Op_Increment b k d) K = apfst An_Count (kv_increment R b k d K)"
| "kv_exec R (Op_CasNew b k) K = apfst An_Handle (cas_new R b k K)"
| "kv_exec R (Op_CasCurrent h) K = (An_Value (cas_current R h K), K)"
| "kv_exec R (Op_Swap h v) K = apfst An_Swap (kv_swap R h v K)"

fun kv_run :: "'rt resource_ops \<Rightarrow> kv_op list \<Rightarrow> 'rt kv_state \<Rightarrow> kv_answer list \<times> 'rt kv_state" where
  "kv_run R [] K = ([], K)"
| "kv_run R (op # ops) K =
     (let (a, K1) = kv_exec R op K; (as, K2) = kv_run R ops K1 in (a # as, K2))"

text \<open>Every key a component can name, directly or by a handle, lies under its own namespace.\<close>

definition own_key :: "string \<Rightarrow> kv_key \<Rightarrow> bool" where
  "own_key ns k = (kp_namespace (k_prefix k) = ns)"

definition own_handles :: "'rt resource_ops \<Rightarrow> 'rt kv_state \<Rightarrow> bool" where
  "own_handles R K = (\<forall>h k s. rt_get R (ks_resources K) h = Inr (KV_Cas k s) \<longrightarrow> own_key (ks_namespace K) k)"

text \<open>A call changes entries of the namespace only.\<close>

definition within :: "string \<Rightarrow> wavs_db \<Rightarrow> wavs_db \<Rightarrow> bool" where
  "within ns db db' =
     ((\<exists>st ct. db' = db\<lparr>db_kv_store := st, db_kv_atomics_counter := ct\<rparr>) \<and>
      (\<forall>s. \<not> starts_with s (ns @ ''/'') \<longrightarrow>
         get_cloned (db_kv_store db') s = get_cloned (db_kv_store db) s \<and>
         get_cloned (db_kv_atomics_counter db') s = get_cloned (db_kv_atomics_counter db) s))"

lemma within_refl: "within ns db db"
  unfolding within_def by (cases db) auto

lemma within_trans: "within ns a b \<Longrightarrow> within ns b c \<Longrightarrow> within ns a c"
  unfolding within_def by (elim conjE exE, intro conjI) (force, simp)

lemma key_string_starts: "own_key ns k \<Longrightarrow> starts_with (key_to_string k) (ns @ ''/'')"
  by (simp add: own_key_def starts_with_iff key_to_string_def key_prefix_to_string_def)

lemma within_set: "own_key ns k \<Longrightarrow> within ns (ks_db K) (ks_db (set_store_value k v K))"
  unfolding within_def set_store_value_def using key_string_starts
  by (auto intro!: exI [of _ "db_kv_atomics_counter (ks_db K)"])

lemma within_remove: "own_key ns k \<Longrightarrow> within ns (ks_db K) (ks_db (remove_store_value k K))"
  unfolding within_def remove_store_value_def using key_string_starts
  by (auto intro!: exI [of _ "db_kv_atomics_counter (ks_db K)"])

lemma within_save: "own_key ns k \<Longrightarrow> within ns (ks_db K) (ks_db (save_atomic_count k v K))"
  unfolding within_def save_atomic_count_def using key_string_starts
  by (auto intro!: exI [of _ "db_kv_store (ks_db K)"])

lemma store_writes_frame [simp]:
  "ks_namespace (set_store_value k v K) = ks_namespace K" "ks_resources (set_store_value k v K) = ks_resources K"
  "ks_namespace (remove_store_value k K) = ks_namespace K" "ks_resources (remove_store_value k K) = ks_resources K"
  "ks_namespace (save_atomic_count k c K) = ks_namespace K" "ks_resources (save_atomic_count k c K) = ks_resources K"
  by (simp_all add: set_store_value_def remove_store_value_def save_atomic_count_def)

lemma get_key_prefix_own: "get_key_prefix R K b = Inr p \<Longrightarrow> kp_namespace p = ks_namespace K"
  by (auto simp: get_key_prefix_def rbind_Inr_iff)

lemma get_key_own: "get_key R K b k = Inr ky \<Longrightarrow> own_key (ks_namespace K) ky"
  by (auto simp: get_key_def rbind_Inr_iff own_key_def get_key_prefix_own)

lemma get_keys_own: "get_keys R K b ks = Inr kys \<Longrightarrow> \<forall>ky\<in>set kys. own_key (ks_namespace K) ky"
  by (auto simp: get_keys_def rbind_Inr_iff own_key_def get_key_prefix_own)

text \<open>What a call preserves.\<close>

definition call_ok :: "'rt resource_ops \<Rightarrow> 'rt kv_state \<Rightarrow> 'rt kv_state \<Rightarrow> bool" where
  "call_ok R K K' =
     (ks_namespace K' = ks_namespace K \<and> own_handles R K' \<and> within (ks_namespace K) (ks_db K) (ks_db K'))"

lemma call_ok_refl: "own_handles R K \<Longrightarrow> call_ok R K K"
  by (simp add: call_ok_def within_refl)

lemma call_ok_db:
  "own_handles R K \<Longrightarrow> ks_namespace K' = ks_namespace K \<Longrightarrow> ks_resources K' = ks_resources K \<Longrightarrow>
   within (ks_namespace K) (ks_db K) (ks_db K') \<Longrightarrow> call_ok R K K'"
  by (simp add: call_ok_def own_handles_def)

lemma call_ok_push:
  assumes "resource_laws R" "own_handles R K" "rt_push R e (ks_resources K) = Inr (h, t)"
    "\<And>k s. e = KV_Cas k s \<Longrightarrow> own_key (ks_namespace K) k"
  shows "call_ok R K (K\<lparr>ks_resources := t\<rparr>)"
proof -
  have "rt_get R t h' = (if h' = h then Inr e else rt_get R (ks_resources K) h')" for h'
    using assms(1,3) unfolding resource_laws_def by (metis (full_types))
  then show ?thesis using assms(2,4) by (auto simp: call_ok_def own_handles_def within_refl)
qed

lemma call_ok_fold_set:
  assumes "own_handles R K" "kp_namespace p = ks_namespace K"
  shows "call_ok R K (fold (\<lambda>(k, v). set_store_value \<lparr>k_prefix = p, k_key = k\<rparr> v) kvs K)"
  using assms
proof (induction kvs arbitrary: K)
  case Nil
  then show ?case by (simp add: call_ok_def within_refl)
next
  case (Cons kv kvs)
  obtain k v where kv: "kv = (k, v)" by (cases kv)
  let ?K = "set_store_value \<lparr>k_prefix = p, k_key = k\<rparr> v K"
  have "call_ok R K ?K"
    using Cons.prems by (intro call_ok_db within_set) (simp_all add: own_key_def)
  moreover have "call_ok R ?K (fold (\<lambda>(k, v). set_store_value \<lparr>k_prefix = p, k_key = k\<rparr> v) kvs ?K)"
    using Cons.prems by (intro Cons.IH) (simp_all add: own_handles_def)
  ultimately show ?case by (auto simp: kv call_ok_def intro: within_trans)
qed

lemma call_ok_fold_remove:
  assumes "own_handles R K" "\<forall>ky\<in>set kys. own_key (ks_namespace K) ky"
  shows "call_ok R K (fold remove_store_value kys K)"
  using assms
proof (induction kys arbitrary: K)
  case Nil
  then show ?case by (simp add: call_ok_def within_refl)
next
  case (Cons ky kys)
  let ?K = "remove_store_value ky K"
  have "call_ok R K ?K"
    using Cons.prems by (intro call_ok_db within_remove) simp_all
  moreover have "call_ok R ?K (fold remove_store_value kys ?K)"
    using Cons.prems by (intro Cons.IH) (simp_all add: own_handles_def)
  ultimately show ?case by (auto simp: call_ok_def intro: within_trans)
qed

lemma kv_drop_ok:
  assumes laws: "resource_laws R" and own: "own_handles R K"
  shows "call_ok R K (snd (kv_drop R h K))"
proof -
  have "\<not> is_ok (rt_get R t' h) \<and> (\<forall>h'. h' \<noteq> h \<longrightarrow> rt_get R t' h' = rt_get R t h')"
    if "rt_delete R h t = Inr t'" for t t' using laws that unfolding resource_laws_def by blast
  then have "own_handles R (K\<lparr>ks_resources := t'\<rparr>)" if "rt_delete R h (ks_resources K) = Inr t'" for t'
    using own that unfolding own_handles_def by (metis is_ok_simps(2) kv_state.select_convs(2) kv_state.select_convs(3)
        kv_state.surjective kv_state.update_convs(3))
  then show ?thesis using own
    by (auto simp: kv_drop_def call_ok_def within_refl split: sum.splits)
qed

lemma get_cas_atomics_own: "own_handles R K \<Longrightarrow> get_cas_atomics R K h = Inr (ky, s) \<Longrightarrow> own_key (ks_namespace K) ky"
  by (auto simp: get_cas_atomics_def own_handles_def split: sum.splits kv_resource.splits)

lemma swap_read_own: "own_handles R K \<Longrightarrow> swap_read R h K = (Inr ky, K') \<Longrightarrow> K' = K \<and> own_key (ks_namespace K) ky"
  by (auto simp: swap_read_def Let_def split: sum.splits prod.splits if_splits intro: get_cas_atomics_own)

lemma swap_read_ok:
  assumes laws: "resource_laws R" and own: "own_handles R K"
  shows "call_ok R K (snd (swap_read R h K))"
proof (cases "get_cas_atomics R K h")
  case (Inl e)
  then show ?thesis using own by (simp add: swap_read_def call_ok_def within_refl)
next
  case (Inr p)
  obtain ky s where p: "p = (ky, s)" by (cases p)
  then show ?thesis
    using Inr own get_cas_atomics_own [OF own] call_ok_push [OF laws own, of "KV_Cas ky (get_store_value K ky)"]
    by (auto simp: swap_read_def Let_def call_ok_refl split: sum.splits prod.splits)
qed

lemma kv_swap_ok:
  assumes laws: "resource_laws R" and own: "own_handles R K"
  shows "call_ok R K (snd (kv_swap R h v K))"
proof -
  obtain r K' where r: "swap_read R h K = (r, K')" by fastforce
  show ?thesis
  proof (cases r)
    case (Inl e)
    then show ?thesis using r swap_read_ok [OF laws own, of h] by (simp add: kv_swap_def)
  next
    case (Inr ky)
    with swap_read_own [OF own] r have "K' = K" "own_key (ks_namespace K) ky" by blast+
    then show ?thesis using r Inr own by (auto simp: kv_swap_def intro!: call_ok_db within_set)
  qed
qed

lemma kv_exec_ok:
  assumes laws: "resource_laws R" and own: "own_handles R K"
  shows "call_ok R K (snd (kv_exec R op K))"
proof (cases op)
  case (Op_Open i)
  then show ?thesis using call_ok_push [OF laws own] own
    by (auto simp: kv_open_def call_ok_refl split: sum.splits prod.splits)
next
  case (Op_Set b k v)
  then show ?thesis using own
    by (auto simp: kv_set_def call_ok_refl split: sum.splits intro!: call_ok_db within_set get_key_own)
next
  case (Op_Delete b k)
  then show ?thesis using own
    by (auto simp: kv_delete_def call_ok_refl split: sum.splits intro!: call_ok_db within_remove get_key_own)
next
  case (Op_SetMany b kvs)
  then show ?thesis using own
    by (auto simp: kv_set_many_def call_ok_refl split: sum.splits intro: call_ok_fold_set get_key_prefix_own)
next
  case (Op_DeleteMany b ks)
  then show ?thesis using own get_keys_own [of R K b ks]
    by (auto simp: kv_delete_many_def call_ok_refl split: sum.splits intro: call_ok_fold_remove)
next
  case (Op_Increment b k d)
  then show ?thesis using own
    by (auto simp: kv_increment_def Let_def call_ok_refl split: sum.splits intro!: call_ok_db within_save get_key_own)
next
  case (Op_CasNew b k)
  then show ?thesis using call_ok_push [OF laws own] own get_key_own [of R K b k]
    by (auto simp: cas_new_def call_ok_refl split: sum.splits prod.splits)
qed (use own kv_drop_ok [OF laws own] kv_swap_ok [OF laws own] in \<open>simp_all add: call_ok_refl\<close>)

lemma kv_run_ok:
  assumes "resource_laws R" "own_handles R K"
  shows "call_ok R K (snd (kv_run R ops K))"
  using assms(2)
proof (induction ops arbitrary: K)
  case Nil
  then show ?case by (simp add: call_ok_refl)
next
  case (Cons op ops)
  let ?K = "snd (kv_exec R op K)"
  have ok: "call_ok R K ?K" by (rule kv_exec_ok [OF assms(1) Cons.prems])
  then have "own_handles R ?K" by (simp add: call_ok_def)
  then have "call_ok R ?K (snd (kv_run R ops ?K))" by (rule Cons.IH)
  with ok show ?case by (auto simp: call_ok_def case_prod_unfold Let_def intro: within_trans)
qed

section \<open>What a service gets to see\<close>

text \<open>Two states that a component cannot tell apart: the same handles, and databases that agree on the entries of
  its namespace, whatever they hold elsewhere.\<close>

definition sees_same :: "'rt kv_state \<Rightarrow> 'rt kv_state \<Rightarrow> bool" where
  "sees_same K K' =
     (ks_namespace K' = ks_namespace K \<and> ks_resources K' = ks_resources K \<and> ks_page_size K' = ks_page_size K \<and>
      table_wf (db_kv_store (ks_db K)) \<and> table_wf (db_kv_store (ks_db K')) \<and>
      (\<forall>s. starts_with s (ks_namespace K @ ''/'') \<longrightarrow>
         get_cloned (db_kv_store (ks_db K')) s = get_cloned (db_kv_store (ks_db K)) s \<and>
         get_cloned (db_kv_atomics_counter (ks_db K')) s = get_cloned (db_kv_atomics_counter (ks_db K)) s))"

lemma sees_same_keys:
  assumes "sees_same K K'"
  shows "get_bucket R K' b = get_bucket R K b" "get_key_prefix R K' b = get_key_prefix R K b"
    "get_key R K' b k = get_key R K b k" "get_keys R K' b ks = get_keys R K b ks"
    "get_cas_atomics R K' h = get_cas_atomics R K h"
  using assms
  by (simp_all add: sees_same_def get_bucket_def get_key_prefix_def get_key_def get_keys_def get_cas_atomics_def)

lemma sees_same_values:
  assumes "sees_same K K'" "own_key (ks_namespace K) k"
  shows "get_store_value K' k = get_store_value K k" "get_atomic_count K' k = get_atomic_count K k"
  using assms key_string_starts by (simp_all add: sees_same_def get_store_value_def get_atomic_count_def)

lemma sees_same_resources: "sees_same K K' \<Longrightarrow> sees_same (K\<lparr>ks_resources := t\<rparr>) (K'\<lparr>ks_resources := t\<rparr>)"
  by (simp add: sees_same_def)

lemma sees_same_writes:
  assumes "sees_same K K'"
  shows "sees_same (set_store_value k v K) (set_store_value k v K')"
    "sees_same (remove_store_value k K) (remove_store_value k K')"
    "sees_same (save_atomic_count k c K) (save_atomic_count k c K')"
  using assms by (auto simp: sees_same_def set_store_value_def remove_store_value_def save_atomic_count_def)

lemma sees_same_folds:
  assumes "sees_same K K'"
  shows "sees_same (fold (\<lambda>(k, v). set_store_value \<lparr>k_prefix = p, k_key = k\<rparr> v) kvs K)
      (fold (\<lambda>(k, v). set_store_value \<lparr>k_prefix = p, k_key = k\<rparr> v) kvs K')"
    and "sees_same (fold remove_store_value kys K) (fold remove_store_value kys K')"
proof -
  show "sees_same (fold (\<lambda>(k, v). set_store_value \<lparr>k_prefix = p, k_key = k\<rparr> v) kvs K)
      (fold (\<lambda>(k, v). set_store_value \<lparr>k_prefix = p, k_key = k\<rparr> v) kvs K')"
    using assms by (induction kvs arbitrary: K K') (auto intro: sees_same_writes)
  show "sees_same (fold remove_store_value kys K) (fold remove_store_value kys K')"
    using assms by (induction kys arbitrary: K K') (auto intro: sees_same_writes)
qed

lemma sees_same_sorted_keys:
  assumes same: "sees_same K K'" and p: "kp_namespace p = ks_namespace K"
  defines "pre \<equiv> key_prefix_to_string p @ ''/''"
  shows "sort (filter (\<lambda>k. starts_with k pre) (map fst (db_kv_store (ks_db K')))) =
         sort (filter (\<lambda>k. starts_with k pre) (map fst (db_kv_store (ks_db K))))"
proof (rule sorted_distinct_set_unique)
  have dom: "k \<in> fst ` set t \<longleftrightarrow> get_cloned t k \<noteq> None" for k and t :: "(string, bytes) table"
    by (simp add: get_cloned_def map_of_eq_None_iff)
  have "starts_with k (ks_namespace K @ ''/'')" if "starts_with k pre" for k
    using that p by (auto simp: pre_def starts_with_iff key_prefix_to_string_def)
  then have "starts_with k pre \<Longrightarrow>
      get_cloned (db_kv_store (ks_db K')) k = get_cloned (db_kv_store (ks_db K)) k" for k
    using same by (simp add: sees_same_def)
  then show "set (sort (filter (\<lambda>k. starts_with k pre) (map fst (db_kv_store (ks_db K'))))) =
        set (sort (filter (\<lambda>k. starts_with k pre) (map fst (db_kv_store (ks_db K)))))"
    by (auto simp: dom)
qed (use same in \<open>simp_all add: sees_same_def table_wf_def\<close>)

lemma sees_same_list_keys:
  assumes "sees_same K K'"
  shows "kv_list_keys R b c K' = kv_list_keys R b c K"
proof (cases "get_key_prefix R K b")
  case (Inr p)
  note keys = sees_same_sorted_keys [OF assms get_key_prefix_own [OF Inr]]
  have page: "ks_page_size K' = ks_page_size K" using assms by (simp add: sees_same_def)
  show ?thesis unfolding kv_list_keys_def sees_same_keys(2) [OF assms] Inr rbind_simps Let_def keys page ..
qed (simp add: kv_list_keys_def sees_same_keys [OF assms])

lemma sees_same_reads:
  assumes "sees_same K K'"
  shows "kv_get R b k K' = kv_get R b k K" "kv_exists R b k K' = kv_exists R b k K"
    "kv_get_many R b ks K' = kv_get_many R b ks K" "cas_current R h K' = cas_current R h K"
proof -
  show g: "kv_get R b k K' = kv_get R b k K"
    using sees_same_values(1) [OF assms get_key_own]
    by (cases "get_key R K b k") (simp_all add: kv_get_def sees_same_keys [OF assms])
  show "kv_exists R b k K' = kv_exists R b k K" by (simp add: kv_exists_def g)
  show "cas_current R h K' = cas_current R h K" by (simp add: cas_current_def sees_same_keys [OF assms])
  show "kv_get_many R b ks K' = kv_get_many R b ks K"
  proof (cases "get_keys R K b ks")
    case (Inr kys)
    then have "\<forall>ky\<in>set kys. get_store_value K' ky = get_store_value K ky"
      using get_keys_own [OF Inr] sees_same_values(1) [OF assms] by blast
    then show ?thesis using Inr
      by (auto simp: kv_get_many_def sees_same_keys [OF assms] dest!: set_zip_rightD intro!: map_cong)
  qed (simp add: kv_get_many_def sees_same_keys [OF assms])
qed

lemma sees_same_pushes:
  assumes same: "sees_same K K'"
  shows "fst (kv_open R i K') = fst (kv_open R i K) \<and> sees_same (snd (kv_open R i K)) (snd (kv_open R i K'))"
    "fst (kv_drop R h K') = fst (kv_drop R h K) \<and> sees_same (snd (kv_drop R h K)) (snd (kv_drop R h K'))"
    "fst (cas_new R b k K') = fst (cas_new R b k K) \<and> sees_same (snd (cas_new R b k K)) (snd (cas_new R b k K'))"
proof -
  have r: "ks_resources K' = ks_resources K" using same by (simp add: sees_same_def)
  note sr = sees_same_resources [OF same]
  show "fst (kv_open R i K') = fst (kv_open R i K) \<and> sees_same (snd (kv_open R i K)) (snd (kv_open R i K'))"
    using same sr by (simp add: kv_open_def r split: sum.splits prod.splits)
  show "fst (kv_drop R h K') = fst (kv_drop R h K) \<and> sees_same (snd (kv_drop R h K)) (snd (kv_drop R h K'))"
    using same sr by (simp add: kv_drop_def r split: sum.splits)
  show "fst (cas_new R b k K') = fst (cas_new R b k K) \<and> sees_same (snd (cas_new R b k K)) (snd (cas_new R b k K'))"
  proof (cases "get_key R K b k")
    case (Inr ky)
    then have "get_store_value K' ky = get_store_value K ky" using sees_same_values(1) [OF same] get_key_own by blast
    with Inr same sr show ?thesis
      by (simp add: cas_new_def sees_same_keys [OF same] r split: sum.splits prod.splits)
  qed (use same in \<open>simp add: cas_new_def sees_same_keys\<close>)
qed

lemma sees_same_increment:
  assumes same: "sees_same K K'"
  shows "fst (kv_increment R b k d K') = fst (kv_increment R b k d K) \<and>
    sees_same (snd (kv_increment R b k d K)) (snd (kv_increment R b k d K'))"
proof (cases "get_key R K b k")
  case (Inr ky)
  then have "get_atomic_count K' ky = get_atomic_count K ky" using sees_same_values(2) [OF same] get_key_own by blast
  with Inr same show ?thesis
    by (simp add: kv_increment_def sees_same_keys [OF same] incremented_def Let_def sees_same_writes)
qed (use same in \<open>simp add: kv_increment_def sees_same_keys\<close>)

lemma sees_same_swap:
  assumes same: "sees_same K K'" and own: "own_handles R K"
  shows "fst (kv_swap R h v K') = fst (kv_swap R h v K) \<and> sees_same (snd (kv_swap R h v K)) (snd (kv_swap R h v K'))"
proof (cases "get_cas_atomics R K h")
  case (Inr p)
  obtain ky s where p: "p = (ky, s)" by (cases p)
  have "get_store_value K' ky = get_store_value K ky"
    using sees_same_values(1) [OF same] get_cas_atomics_own [OF own] Inr p by blast
  moreover have "ks_resources K' = ks_resources K" using same by (simp add: sees_same_def)
  ultimately show ?thesis
    using Inr p same sees_same_resources [OF same] sees_same_writes(1) [OF same]
    by (simp add: kv_swap_def swap_read_def sees_same_keys [OF same] Let_def split: sum.splits prod.splits)
qed (use same in \<open>simp add: kv_swap_def swap_read_def sees_same_keys\<close>)

lemma sees_same_exec:
  assumes same: "sees_same K K'" and own: "own_handles R K"
  shows "fst (kv_exec R op K') = fst (kv_exec R op K) \<and> sees_same (snd (kv_exec R op K)) (snd (kv_exec R op K'))"
proof (cases op)
  case (Op_Set b k v)
  then show ?thesis using same sees_same_writes [OF same]
    by (simp add: kv_set_def sees_same_keys [OF same] split: sum.splits)
next
  case (Op_Delete b k)
  then show ?thesis using same sees_same_writes [OF same]
    by (simp add: kv_delete_def sees_same_keys [OF same] split: sum.splits)
next
  case (Op_SetMany b kvs)
  then show ?thesis using same sees_same_folds [OF same]
    by (simp add: kv_set_many_def sees_same_keys [OF same] split: sum.splits)
next
  case (Op_DeleteMany b ks)
  then show ?thesis using same sees_same_folds [OF same]
    by (simp add: kv_delete_many_def sees_same_keys [OF same] split: sum.splits)
qed (use same sees_same_pushes [OF same] sees_same_increment [OF same] sees_same_swap [OF same own] in
    \<open>simp_all add: sees_same_reads [OF same] sees_same_list_keys [OF same]\<close>)

lemma sees_same_run:
  assumes "resource_laws R" "sees_same K K'" "own_handles R K"
  shows "fst (kv_run R ops K') = fst (kv_run R ops K)"
  using assms(2,3)
proof (induction ops arbitrary: K K')
  case (Cons op ops)
  have "own_handles R (snd (kv_exec R op K))" using kv_exec_ok [OF assms(1) Cons.prems(2)] by (simp add: call_ok_def)
  from Cons.IH [OF _ this] sees_same_exec [OF Cons.prems] show ?case by (simp add: case_prod_unfold Let_def)
qed simp

lemma other_namespace:
  assumes "hex_laws C" "i \<noteq> j"
  shows "\<not> starts_with (hex_encode C j @ ''/'' @ s) (hex_encode C i @ ''/'')"
proof
  assume "starts_with (hex_encode C j @ ''/'' @ s) (hex_encode C i @ ''/'')"
  then obtain t where "hex_encode C j @ CHR ''/'' # s = hex_encode C i @ CHR ''/'' # t"
    by (auto simp: starts_with_iff)
  then have "takeWhile (\<lambda>c. c \<noteq> CHR ''/'') (hex_encode C j @ CHR ''/'' # s) =
    takeWhile (\<lambda>c. c \<noteq> CHR ''/'') (hex_encode C i @ CHR ''/'' # t)" by simp
  then have "hex_encode C j = hex_encode C i"
    using assms(1) unfolding hex_laws_def by (metis takeWhile_split_first)
  then show False using assms by (simp add: hex_laws_def inj_eq)
qed

lemma get_store_value_view:
  "own_key (hex_encode C i) k \<Longrightarrow>
   get_store_value K k = store_view C i (ks_db K) (kp_bucket_id (k_prefix k) @ ''/'' @ k_key k)"
  by (simp add: own_key_def get_store_value_def store_view_def key_to_string_def key_prefix_to_string_def)

text \<open>
  C14: Services cannot reach each other's data. Whatever sequence of host calls the components of one
  service make, starting without handles, the values and the counters of every other service stay as
  they were, as does every other table of the database; and everything the calls answer (values, existence,
  listings, batches, counts, the values of compare-and-swap handles and the outcome of swaps) depends
  on the service's own entries alone: on every database with the same entries of the service the same calls
  get the same answers, whatever the other services stored.
\<close>

theorem keyvalue_services_isolated:
  assumes "hex_laws C" "resource_laws R" "\<And>h. \<not> is_ok (rt_get R rt h)" "i \<noteq> j"
    and run: "kv_run R ops (keyvalue_ctx_new C db i rt) = (answers, K)"
  shows "store_view C j (ks_db K) = store_view C j db \<and> counter_view C j (ks_db K) = counter_view C j db \<and>
    (\<exists>st ct. ks_db K = db\<lparr>db_kv_store := st, db_kv_atomics_counter := ct\<rparr>) \<and>
    (\<forall>db'. table_wf (db_kv_store db) \<and> table_wf (db_kv_store db') \<and>
       store_view C i db' = store_view C i db \<and> counter_view C i db' = counter_view C i db \<longrightarrow>
       fst (kv_run R ops (keyvalue_ctx_new C db' i rt)) = answers)"
proof -
  let ?K = "keyvalue_ctx_new C db i rt"
  have own: "own_handles R ?K"
    using assms(3) by (simp add: own_handles_def keyvalue_ctx_new_def) (metis is_ok_simps(2))
  from kv_run_ok [OF assms(2) own, of ops] run
  have w: "within (hex_encode C i) db (ks_db K)" by (simp add: call_ok_def keyvalue_ctx_new_def)
  have "store_view C j (ks_db K) = store_view C j db" "counter_view C j (ks_db K) = counter_view C j db"
    using w other_namespace [OF assms(1,4)]
    by (auto simp: within_def store_view_def counter_view_def fun_eq_iff)
  moreover have "fst (kv_run R ops (keyvalue_ctx_new C db' i rt)) = answers"
    if "table_wf (db_kv_store db) \<and> table_wf (db_kv_store db') \<and>
       store_view C i db' = store_view C i db \<and> counter_view C i db' = counter_view C i db" for db'
  proof -
    have "sees_same ?K (keyvalue_ctx_new C db' i rt)"
      using that by (auto simp: sees_same_def keyvalue_ctx_new_def starts_with_iff store_view_def counter_view_def fun_eq_iff)
    from sees_same_run [OF assms(2) this own, of ops] run show ?thesis by simp
  qed
  ultimately show ?thesis using w by (auto simp: within_def)
qed

text \<open>A resource table and a hex printer that keep these laws.\<close>

definition demo_resources :: "(handle \<times> kv_resource) list resource_ops" where
  "demo_resources =
     \<lparr>rt_push = (\<lambda>e t. let h = of_nat (length t) in
        if map_of t h = None then Inr (h, (h, e) # t) else Inl ''full''),
      rt_get = (\<lambda>t h. ok_or (map_of t h) ''not present''),
      rt_delete = (\<lambda>h t. if map_of t h = None then Inl ''not present'' else Inr (AList.delete h t))\<rparr>"

definition hex_byte :: "u8 \<Rightarrow> string" where
  "hex_byte b = [''0123456789abcdef'' ! (unat b div 16), ''0123456789abcdef'' ! (unat b mod 16)]"

definition hex_string :: "bytes \<Rightarrow> string" where
  "hex_string bs = concat (map hex_byte bs)"

definition hex_crypto :: crypto where
  "hex_crypto = demo_crypto\<lparr>hex_encode := hex_string\<rparr>"

lemma demo_resources_laws: "resource_laws demo_resources"
  by (auto simp: resource_laws_def demo_resources_def Let_def delete_conv' split: if_splits)

lemma hex_byte_digits: "set (hex_byte b) \<subseteq> set ''0123456789abcdef''"
proof -
  have "unat b < 256" using unsigned_less [of b, where ?'a = nat] by simp
  then have "unat b div 16 < length ''0123456789abcdef''" "unat b mod 16 < length ''0123456789abcdef''" by simp_all
  from nth_mem [OF this(1)] nth_mem [OF this(2)] show ?thesis unfolding hex_byte_def list.set by blast
qed

lemma hex_byte_inj: "hex_byte b = hex_byte c \<Longrightarrow> b = c"
proof -
  assume h: "hex_byte b = hex_byte c"
  have len: "unat x div 16 < length ''0123456789abcdef''" "unat x mod 16 < length ''0123456789abcdef''" for x :: u8
    using unsigned_less [of x, where ?'a = nat] by simp_all
  have d: "distinct ''0123456789abcdef''" by simp
  have "unat b div 16 = unat c div 16" "unat b mod 16 = unat c mod 16"
    using h nth_eq_iff_index_eq [OF d len(1) len(1)] nth_eq_iff_index_eq [OF d len(2) len(2)]
    unfolding hex_byte_def by blast+
  then have "unat b = unat c" by (metis div_mult_mod_eq)
  then show "b = c" by (rule unsigned_word_eqI)
qed

lemma hex_string_inj: "hex_string bs = hex_string cs \<Longrightarrow> bs = cs"
proof (induction bs arbitrary: cs)
  case Nil
  then show ?case by (cases cs) (simp_all add: hex_string_def hex_byte_def)
next
  case (Cons b bs)
  then obtain c cs' where cs: "cs = c # cs'" by (cases cs) (auto simp: hex_string_def hex_byte_def)
  have "hex_byte b @ hex_string bs = hex_byte c @ hex_string cs'"
    using Cons.prems by (simp add: cs hex_string_def)
  then have "hex_byte b = hex_byte c" "hex_string bs = hex_string cs'"
    by (simp_all add: hex_byte_def)
  then show ?case using Cons.IH hex_byte_inj cs by blast
qed

lemma hex_crypto_laws: "hex_laws hex_crypto"
proof -
  have "CHR ''/'' \<notin> set (hex_string i)" for i
    using hex_byte_digits by (fastforce simp: hex_string_def)
  then show ?thesis by (auto simp: hex_laws_def hex_crypto_def intro: injI hex_string_inj)
qed

text \<open>A service writes and lists a bucket; another service has the same keys in its own bucket of that name.\<close>

theorem keyvalue_services_isolated_witness:
  "let db = wavs_db_new\<lparr>db_kv_store := [(''02/b/k'', [9]), (''02/b/z'', [8])]\<rparr>;
       ops = [Op_Open ''b'', Op_Set 0 ''k'' [7], Op_Get 0 ''k'', Op_Get 0 ''z'', Op_ListKeys 0 None];
       (answers, K) = kv_run demo_resources ops (keyvalue_ctx_new hex_crypto db [1] [])
   in store_view hex_crypto [1] (ks_db K) ''b/k'' = Some [7] \<and>
      store_view hex_crypto [2] (ks_db K) ''b/k'' = Some [9] \<and>
      drop 2 answers = [An_Value (Inr (Some [7])), An_Value (Inr None), An_Keys (Inr \<lparr>kr_keys = [''k''], kr_cursor = None\<rparr>)] \<and>
      fst (kv_run demo_resources ops (keyvalue_ctx_new hex_crypto wavs_db_new [1] [])) = answers"
proof -
  define db where "db = wavs_db_new\<lparr>db_kv_store := [(''02/b/k'', [9]), (''02/b/z'', [8])]\<rparr>"
  define ops where "ops = [Op_Open ''b'', Op_Set 0 ''k'' [7], Op_Get 0 ''k'', Op_Get 0 ''z'', Op_ListKeys 0 None]"
  obtain answers K where r: "kv_run demo_resources ops (keyvalue_ctx_new hex_crypto db [1] []) = (answers, K)" by fastforce
  have no: "\<not> is_ok (rt_get demo_resources [] h)" for h by (simp add: demo_resources_def)
  note iso = keyvalue_services_isolated [OF hex_crypto_laws demo_resources_laws no, of "[1]" "[2]", OF _ r]
  have hx: "hex_encode hex_crypto [1] = ''01''" "hex_encode hex_crypto [2] = ''02''"
    by (simp_all add: hex_crypto_def hex_string_def hex_byte_def)
  have v: "store_view hex_crypto [1] wavs_db_new = store_view hex_crypto [1] db"
    "counter_view hex_crypto [1] wavs_db_new = counter_view hex_crypto [1] db"
    by (auto simp: store_view_def counter_view_def hx db_def wavs_db_new_def get_cloned_def table_new_def)
  have wf: "table_wf (db_kv_store db)" "table_wf (db_kv_store wavs_db_new)"
    by (simp_all add: db_def table_wf_def wavs_db_new_def table_new_def)
  have "fst (kv_run demo_resources ops (keyvalue_ctx_new hex_crypto wavs_db_new [1] [])) = answers"
    using iso v wf by auto
  moreover have "store_view hex_crypto [2] (ks_db K) ''b/k'' = Some [9]"
  proof -
    have "store_view hex_crypto [2] db ''b/k'' = Some [9]" by (simp add: store_view_def hx db_def get_cloned_def)
    then show ?thesis using iso by simp
  qed
  moreover have "store_view hex_crypto [1] (ks_db K) ''b/k'' = Some [7] \<and>
    drop 2 answers = [An_Value (Inr (Some [7])), An_Value (Inr None), An_Keys (Inr \<lparr>kr_keys = [''k''], kr_cursor = None\<rparr>)]"
    using r hx by (auto simp: ops_def db_def kv_open_def kv_set_def kv_get_def kv_list_keys_def get_key_def get_key_prefix_def
        get_bucket_def demo_resources_def keyvalue_ctx_new_def set_store_value_def get_store_value_def store_view_def
        key_to_string_def key_prefix_to_string_def table_insert_def get_cloned_def starts_with_def)
  ultimately show ?thesis unfolding Let_def ops_def [symmetric] db_def [symmetric] r prod.case by blast
qed

section \<open>Buckets of one service\<close>

text \<open>Buckets of one service are not separated: a key with a slash names an entry of another bucket.\<close>

lemma bucket_keys_collide:
  assumes "get_bucket R K b1 = Inr (x @ ''/'' @ y)" "get_bucket R K b2 = Inr x"
    and set: "kv_set R b1 z v K = (r, K')"
  shows "kv_get R b2 (y @ ''/'' @ z) K' = Inr (Some v)"
proof -
  have "get_bucket R K' b2 = Inr x"
    using set assms(2) by (auto simp: kv_set_def get_bucket_def split: sum.splits)
  with set assms(1) show ?thesis
    by (auto simp: kv_set_def kv_get_def get_key_def get_key_prefix_def set_store_value_def get_store_value_def
        key_to_string_def key_prefix_to_string_def split: sum.splits)
qed

lemma lexorder_same_prefix: "(p @ a :: string) \<le> p @ b \<longleftrightarrow> a \<le> b"
  by (induction p) simp_all

lemma sorted_append_prefix: "sorted (map (append p) ks) \<Longrightarrow> sorted (ks :: string list)"
  by (simp add: sorted_map lexorder_same_prefix)

lemma dropWhile_sorted:
  fixes xs :: "'a::linorder list"
  shows "sorted xs \<Longrightarrow> dropWhile (\<lambda>k. \<not> c \<le> k) xs = filter (\<lambda>k. c \<le> k) xs"
  by (induction xs) (auto intro!: filter_True [symmetric] dest: order_trans)

lemma list_page_all:
  "(\<forall>k\<in>set ks. starts_with k pre) \<Longrightarrow> list_page pre None n ks = (map (drop (length pre)) ks, None)"
  by (induction ks arbitrary: n) simp_all

text \<open>
  Listing a bucket, with the unlimited pages that the node gives its components, returns in
  ascending order, once each, exactly the keys under which the bucket has a value, from the cursor on
  when there is one, and no further cursor.
\<close>

lemma list_keys_exact:
  assumes wf: "table_wf (db_kv_store (ks_db K))" and page: "ks_page_size K = None"
    and bucket: "get_key_prefix R K b = Inr p"
  shows "\<exists>ks. kv_list_keys R b cursor K = Inr \<lparr>kr_keys = ks, kr_cursor = None\<rparr> \<and> sorted ks \<and> distinct ks \<and>
    set ks = {k. get_store_value K \<lparr>k_prefix = p, k_key = k\<rparr> \<noteq> None \<and> (\<forall>c. cursor = Some c \<longrightarrow> c \<le> k)}"
proof -
  let ?pre = "key_prefix_to_string p @ ''/''"
  let ?all = "sort (filter (\<lambda>k. starts_with k ?pre) (map fst (db_kv_store (ks_db K))))"
  let ?from = "\<lambda>k. \<forall>c. cursor = Some c \<longrightarrow> ?pre @ c \<le> k"
  let ?sel = "filter ?from ?all"
  have kts: "key_to_string \<lparr>k_prefix = p, k_key = k\<rparr> = ?pre @ k" for k by (simp add: key_to_string_def)
  have sel: "(case cursor of Some c \<Rightarrow> dropWhile (\<lambda>k. \<not> k \<ge> key_to_string \<lparr>k_prefix = p, k_key = c\<rparr>) ?all | None \<Rightarrow> ?all) = ?sel"
    unfolding kts by (cases cursor) (simp_all add: dropWhile_sorted)
  have st: "\<forall>k\<in>set ?sel. starts_with k ?pre" by simp
  let ?ks = "map (drop (length ?pre)) ?sel"
  have whole: "?sel = map (append ?pre) ?ks"
  proof -
    have "?pre @ drop (length ?pre) k = k" if "starts_with k ?pre" for k
      using that unfolding starts_with_def by (metis append_take_drop_id)
    then have "map (\<lambda>k. ?pre @ drop (length ?pre) k) ?sel = ?sel" using st by (intro map_idI) blast
    then show ?thesis by (simp add: comp_def)
  qed
  have "sorted ?sel" by (simp add: sorted_filter [of id, simplified])
  from subst [OF whole, of sorted, OF this] have sorted: "sorted ?ks" by (rule sorted_append_prefix)
  have "distinct ?sel" using wf by (simp add: table_wf_def)
  from subst [OF whole, of distinct, OF this] have dist: "distinct ?ks" unfolding distinct_map by (rule conjunct1)
  have mem: "k \<in> set ?ks \<longleftrightarrow> ?pre @ k \<in> set ?sel" for k
    by (subst whole) (simp add: image_iff del: map_map)
  have "set ?ks = {k. get_store_value K \<lparr>k_prefix = p, k_key = k\<rparr> \<noteq> None \<and> (\<forall>c. cursor = Some c \<longrightarrow> c \<le> k)}"
  proof (rule set_eqI)
    fix k
    have "get_store_value K \<lparr>k_prefix = p, k_key = k\<rparr> \<noteq> None \<longleftrightarrow> ?pre @ k \<in> fst ` set (db_kv_store (ks_db K))"
      unfolding get_store_value_def kts get_cloned_def by (simp add: map_of_eq_None_iff)
    moreover have "starts_with (?pre @ k) ?pre" by (simp add: starts_with_def)
    ultimately show "k \<in> set ?ks \<longleftrightarrow>
      k \<in> {k. get_store_value K \<lparr>k_prefix = p, k_key = k\<rparr> \<noteq> None \<and> (\<forall>c. cursor = Some c \<longrightarrow> c \<le> k)}"
      unfolding mem using lexorder_same_prefix [of ?pre] by auto
  qed
  moreover have "kv_list_keys R b cursor K = Inr \<lparr>kr_keys = ?ks, kr_cursor = None\<rparr>"
    unfolding kv_list_keys_def bucket rbind_simps Let_def sel page list_page_all [OF st] by simp
  ultimately show ?thesis using sorted dist by blast
qed

text \<open>A service with one open bucket and some keys, for the witnesses.\<close>

definition demo_kv :: "string list \<Rightarrow> (handle \<times> kv_resource) list kv_state" where
  "demo_kv ks =
     (keyvalue_ctx_new hex_crypto (wavs_db_new\<lparr>db_kv_store := map (\<lambda>k. (''01/b/'' @ k, [])) ks\<rparr>) [1] [(0, KV_Bucket ''b'')])"

lemma demo_kv_prefix: "get_key_prefix demo_resources (demo_kv ks) 0 = Inr \<lparr>kp_namespace = ''01'', kp_bucket_id = ''b''\<rparr>"
  by (simp add: get_key_prefix_def get_bucket_def demo_kv_def demo_resources_def keyvalue_ctx_new_def hex_crypto_def
      hex_string_def hex_byte_def)

lemma demo_kv_value:
  "get_store_value (demo_kv ks) \<lparr>k_prefix = \<lparr>kp_namespace = ''01'', kp_bucket_id = ''b''\<rparr>, k_key = k\<rparr> \<noteq> None \<longleftrightarrow> k \<in> set ks"
proof -
  have "get_store_value (demo_kv ks) \<lparr>k_prefix = \<lparr>kp_namespace = ''01'', kp_bucket_id = ''b''\<rparr>, k_key = k\<rparr> =
    map_of (map (\<lambda>k. (''01/b/'' @ k, [])) ks) (''01/b/'' @ k)"
    by (simp add: get_store_value_def demo_kv_def keyvalue_ctx_new_def get_cloned_def key_to_string_def
        key_prefix_to_string_def)
  then show ?thesis by (simp only: map_of_eq_None_iff) (force simp: image_iff)
qed

lemma list_keys_exact_witness:
  "\<exists>ks. kv_list_keys demo_resources 0 (Some ''b'') (demo_kv [''c'', ''a'', ''b'']) =
      Inr \<lparr>kr_keys = ks, kr_cursor = None\<rparr> \<and> set ks = {''b'', ''c''}"
proof -
  let ?K = "demo_kv [''c'', ''a'', ''b'']" and ?p = "\<lparr>kp_namespace = ''01'', kp_bucket_id = ''b''\<rparr>"
  have "table_wf (db_kv_store (ks_db ?K))" "ks_page_size ?K = None"
    by (simp_all add: table_wf_def demo_kv_def keyvalue_ctx_new_def)
  from list_keys_exact [OF this demo_kv_prefix, of "Some ''b''"] obtain ks where
    ks: "kv_list_keys demo_resources 0 (Some ''b'') ?K = Inr \<lparr>kr_keys = ks, kr_cursor = None\<rparr>"
      "set ks = {k. get_store_value ?K \<lparr>k_prefix = ?p, k_key = k\<rparr> \<noteq> None \<and> ''b'' \<le> k}"
    by auto
  have "set ks = {''b'', ''c''}" unfolding ks(2) demo_kv_value by auto
  with ks(1) show ?thesis by blast
qed

text \<open>A page ends with the full name of the next key as its cursor, and the next call takes the cursor for
  a name within the bucket: with pages of one key, the second page is the first one again.\<close>

lemma list_keys_pages_repeat:
  "let K = (demo_kv [''a'', ''b'', ''z''])\<lparr>ks_page_size := Some 1\<rparr>
   in kv_list_keys demo_resources 0 None K = Inr \<lparr>kr_keys = [''a''], kr_cursor = Some ''01/b/b''\<rparr> \<and>
      kv_list_keys demo_resources 0 (Some ''01/b/b'') K = Inr \<lparr>kr_keys = [''a''], kr_cursor = Some ''01/b/b''\<rparr>"
proof -
  define K where "K = (demo_kv [''a'', ''b'', ''z''])\<lparr>ks_page_size := Some 1\<rparr>"
  have p: "get_key_prefix demo_resources K 0 = Inr \<lparr>kp_namespace = ''01'', kp_bucket_id = ''b''\<rparr>"
    using demo_kv_prefix [of "[''a'', ''b'', ''z'']"] by (simp add: K_def get_key_prefix_def get_bucket_def)
  have db: "map fst (db_kv_store (ks_db K)) = [''01/b/a'', ''01/b/b'', ''01/b/z'']" "ks_page_size K = Some 1"
    by (simp_all add: K_def demo_kv_def keyvalue_ctx_new_def)
  show ?thesis unfolding Let_def K_def [symmetric] kv_list_keys_def p rbind_simps db
    by (simp add: key_to_string_def key_prefix_to_string_def starts_with_def)
qed

section \<open>Compare and swap\<close>

lemma push_get: "resource_laws R \<Longrightarrow> rt_push R e t = Inr (h, t') \<Longrightarrow> rt_get R t' h = Inr e"
  unfolding resource_laws_def by blast

text \<open>Swaps of components that run at the same time: each reads and then, if the value is the one it saw, writes.\<close>

datatype swap_task = Swap_Call handle bytes | Swap_Write kv_key bytes | Swap_Done "cas_error + unit"

inductive swap_step :: "'rt resource_ops \<Rightarrow> 'rt kv_state \<times> swap_task list \<Rightarrow> 'rt kv_state \<times> swap_task list \<Rightarrow> bool" for R where
  swap_differs: "n < length ts \<Longrightarrow> ts ! n = Swap_Call h v \<Longrightarrow> swap_read R h K = (Inl e, K') \<Longrightarrow>
    swap_step R (K, ts) (K', ts[n := Swap_Done (Inl e)])"
| swap_same: "n < length ts \<Longrightarrow> ts ! n = Swap_Call h v \<Longrightarrow> swap_read R h K = (Inr ky, K') \<Longrightarrow>
    swap_step R (K, ts) (K', ts[n := Swap_Write ky v])"
| swap_write: "n < length ts \<Longrightarrow> ts ! n = Swap_Write ky v \<Longrightarrow>
    swap_step R (K, ts) (set_store_value ky v K, ts[n := Swap_Done (Inr ())])"

text \<open>The host call is these steps without another task in between.\<close>

lemma swap_steps_alone:
  assumes "kv_swap R h v K = (r, K')"
  shows "(swap_step R)\<^sup>*\<^sup>* (K, [Swap_Call h v]) (K', [Swap_Done r])"
proof -
  obtain q K1 where q: "swap_read R h K = (q, K1)" by fastforce
  show ?thesis
  proof (cases q)
    case (Inl e)
    then have "swap_step R (K, [Swap_Call h v]) (K', [Swap_Done r])"
      using swap_differs [of 0 "[Swap_Call h v]" h v R K e K1] q assms by (simp add: kv_swap_def)
    then show ?thesis by blast
  next
    case (Inr ky)
    then have "swap_step R (K, [Swap_Call h v]) (K1, [Swap_Write ky v])"
      using swap_same [of 0 "[Swap_Call h v]" h v R K ky K1] q by simp
    moreover have "swap_step R (K1, [Swap_Write ky v]) (K', [Swap_Done r])"
      using swap_write [of 0 "[Swap_Write ky v]" ky v R K1] q Inr assms by (simp add: kv_swap_def)
    ultimately show ?thesis by (meson converse_rtranclp_into_rtranclp rtranclp.rtrancl_refl)
  qed
qed

lemma four_steps: "r a b \<Longrightarrow> r b c \<Longrightarrow> r c d \<Longrightarrow> r d e \<Longrightarrow> r\<^sup>*\<^sup>* a e"
  by (meson converse_rtranclp_into_rtranclp rtranclp.rtrancl_refl)

lemma swaps_race:
  assumes "get_cas_atomics R K h = Inr (ky, get_store_value K ky)" "get_cas_atomics R K h' = Inr (ky, get_store_value K ky)"
  shows "(swap_step R)\<^sup>*\<^sup>* (K, [Swap_Call h v, Swap_Call h' w])
    (set_store_value ky w (set_store_value ky v K), [Swap_Done (Inr ()), Swap_Done (Inr ())])"
proof -
  have r: "swap_read R h K = (Inr ky, K)" "swap_read R h' K = (Inr ky, K)"
    using assms by (simp_all add: swap_read_def Let_def)
  let ?K1 = "set_store_value ky v K"
  have "swap_step R (K, [Swap_Call h v, Swap_Call h' w]) (K, [Swap_Write ky v, Swap_Call h' w])"
    using swap_same [of 0 "[Swap_Call h v, Swap_Call h' w]" h v R K ky K] r by simp
  moreover have "swap_step R (K, [Swap_Write ky v, Swap_Call h' w]) (K, [Swap_Write ky v, Swap_Write ky w])"
    using swap_same [of 1 "[Swap_Write ky v, Swap_Call h' w]" h' w R K ky K] r by simp
  moreover have "swap_step R (K, [Swap_Write ky v, Swap_Write ky w]) (?K1, [Swap_Done (Inr ()), Swap_Write ky w])"
    using swap_write [of 0 "[Swap_Write ky v, Swap_Write ky w]" ky v R K] by simp
  moreover have "swap_step R (?K1, [Swap_Done (Inr ()), Swap_Write ky w])
      (set_store_value ky w ?K1, [Swap_Done (Inr ()), Swap_Done (Inr ())])"
    using swap_write [of 1 "[Swap_Done (Inr ()), Swap_Write ky w]" ky w R ?K1] by simp
  ultimately show ?thesis by (rule four_steps)
qed



section \<open>Counters\<close>

text \<open>Components of one service that run at the same time. A call of \<open>increment\<close> reads the counter and
  later saves it: two accesses of a table, each atomic by itself.\<close>

datatype inc_task = Inc_Call kv_key i64 | Inc_Read kv_key i64 | Inc_Done i64

inductive inc_step :: "'rt kv_state \<times> inc_task list \<Rightarrow> 'rt kv_state \<times> inc_task list \<Rightarrow> bool" where
  inc_read: "n < length ts \<Longrightarrow> ts ! n = Inc_Call k d \<Longrightarrow> inc_step (K, ts) (K, ts[n := Inc_Read k (incremented K k d)])"
| inc_save: "n < length ts \<Longrightarrow> ts ! n = Inc_Read k c \<Longrightarrow> inc_step (K, ts) (save_atomic_count k c K, ts[n := Inc_Done c])"

text \<open>The host call is the two steps without another task in between.\<close>

lemma increment_two_steps:
  assumes "get_key R K b k = Inr ky" "kv_increment R b k d K = (r, K')"
  shows "\<exists>c. r = Inr c \<and> inc_step\<^sup>*\<^sup>* (K, [Inc_Call ky d]) (K', [Inc_Done c])"
proof -
  have "inc_step (K, [Inc_Call ky d]) (K, [Inc_Read ky (incremented K ky d)])"
    using inc_read [of 0 "[Inc_Call ky d]" ky d K] by simp
  moreover have "inc_step (K, [Inc_Read ky (incremented K ky d)]) (K', [Inc_Done (incremented K ky d)])"
    using assms inc_save [of 0 "[Inc_Read ky (incremented K ky d)]" ky "incremented K ky d" K] by (simp add: kv_increment_def Let_def)
  ultimately show ?thesis using assms by (auto simp: kv_increment_def Let_def)
qed

text \<open>
  C40: Increments are not atomic. One after the other, two calls add both amounts to the counter,
  modulo two to the 64; but two components of the same service can also both read the counter before
  either saves it, and then both calls return the same number and one of the increments is lost.
\<close>

theorem increments_can_be_lost:
  "(\<exists>K'. inc_step\<^sup>*\<^sup>* (K, [Inc_Call k d, Inc_Call k e])
      (K', [Inc_Done (incremented K k d), Inc_Done (incremented K k d + e)]) \<and>
      get_atomic_count K' k = Some (incremented K k d + e)) \<and>
   (\<exists>K'. inc_step\<^sup>*\<^sup>* (K, [Inc_Call k d, Inc_Call k d])
      (K', [Inc_Done (incremented K k d), Inc_Done (incremented K k d)]) \<and>
      get_atomic_count K' k = Some (incremented K k d))"
proof (intro conjI exI)
  let ?c = "incremented K k d"
  let ?K1 = "save_atomic_count k ?c K" and ?K2 = "save_atomic_count k (?c + e) (save_atomic_count k ?c K)"
  have c2: "incremented ?K1 k e = ?c + e"
    unfolding incremented_def [of ?K1] by (simp add: get_atomic_count_def save_atomic_count_def)
  have r0: "inc_step (M, [Inc_Call k x, t]) (M, [Inc_Read k (incremented M k x), t])" for M :: "'a kv_state" and x t
    using inc_read [of 0 "[Inc_Call k x, t]" k x M] by simp
  have r1: "inc_step (M, [t, Inc_Call k x]) (M, [t, Inc_Read k (incremented M k x)])" for M :: "'a kv_state" and x t
    using inc_read [of 1 "[t, Inc_Call k x]" k x M] by simp
  have s0: "inc_step (M, [Inc_Read k x, t]) (save_atomic_count k x M, [Inc_Done x, t])" for M :: "'a kv_state" and x t
    using inc_save [of 0 "[Inc_Read k x, t]" k x M] by simp
  have s1: "inc_step (M, [t, Inc_Read k x]) (save_atomic_count k x M, [t, Inc_Done x])" for M :: "'a kv_state" and x t
    using inc_save [of 1 "[t, Inc_Read k x]" k x M] by simp
  show "inc_step\<^sup>*\<^sup>* (K, [Inc_Call k d, Inc_Call k e]) (?K2, [Inc_Done ?c, Inc_Done (?c + e)])"
    by (rule four_steps [of inc_step, OF r0 [of K d] s0 [of K ?c] r1 [of ?K1 "Inc_Done ?c" e, unfolded c2]
        s1 [of ?K1 "Inc_Done ?c" "?c + e"]])
  show "inc_step\<^sup>*\<^sup>* (K, [Inc_Call k d, Inc_Call k d]) (save_atomic_count k ?c ?K1, [Inc_Done ?c, Inc_Done ?c])"
    by (rule four_steps [of inc_step, OF r0 [of K d] r1 [of K "Inc_Read k ?c" d] s0 [of K ?c] s1 [of ?K1 "Inc_Done ?c" ?c]])
  show "get_atomic_count ?K2 k = Some (?c + e)" "get_atomic_count (save_atomic_count k ?c ?K1) k = Some ?c"
    by (simp_all add: get_atomic_count_def save_atomic_count_def)
qed

end
