(* ===== verification/Chain_Address.thy ===== *)
theory Chain_Address
  imports Signing
begin

text \<open>
  Printing and parsing of chain addresses and their bytes, from
  \<^verbatim>\<open>packages/types/src/chain_address.rs\<close>. The printers of the address types of other crates
  are fields of \<open>crypto\<close>, their parsers fields of \<open>address_parsers\<close>; \<open>parsers_ok\<close> states that each
  parser reads back what the printer of its crate writes.
\<close>

definition chain_address_as_bytes :: "crypto \<Rightarrow> chain_address \<Rightarrow> bytes" where
  "chain_address_as_bytes C a =
     (case a of
        CA_Evm addr \<Rightarrow> addr
      | CA_Cosmos addr \<Rightarrow> cosmos_to_vec C addr
      | CA_StellarContract contract \<Rightarrow> contract
      | CA_StellarPubKey key \<Rightarrow> key)"

definition chain_address_to_string :: "crypto \<Rightarrow> chain_address \<Rightarrow> string" where
  "chain_address_to_string C a =
     (case a of
        CA_Evm addr \<Rightarrow> ''evm:'' @ evm_checksum_string C addr
      | CA_Cosmos addr \<Rightarrow> ''cosmos:'' @ cosmos_bech32_string C addr
      | CA_StellarContract contract \<Rightarrow> ''stellar_contract:'' @ strkey_contract_string C contract
      | CA_StellarPubKey pubkey \<Rightarrow> ''stellar_pubkey:'' @ ''0x'' @ hex_encode C pubkey)"

record address_parsers =
  parse_evm :: "string \<Rightarrow> string + evm_address"
  parse_cosmos :: "string \<Rightarrow> string + cosmos_addr"
  parse_contract :: "string \<Rightarrow> string + stellar_contract"
  parse_hex32 :: "string \<Rightarrow> string + bytes"

datatype chain_address_parse_error =
    MissingNamespace
  | UnknownNamespace string
  | ParseEvm string
  | ParseCosmos string
  | ParseStellarContract string
  | ParseStellarPubkey string

text \<open>\<open>str::split_once\<close> with a character: the parts before and after its first occurrence.\<close>

definition split_once :: "char \<Rightarrow> string \<Rightarrow> (string \<times> string) option" where
  "split_once c s =
     (if c \<in> set s then Some (takeWhile (\<lambda>x. x \<noteq> c) s, tl (dropWhile (\<lambda>x. x \<noteq> c) s)) else None)"

definition chain_address_from_str ::
  "address_parsers \<Rightarrow> string \<Rightarrow> chain_address_parse_error + chain_address" where
  "chain_address_from_str P s =
     rbind (ok_or (split_once (CHR '':'') s) MissingNamespace) (\<lambda>(ns, rest).
       if ns = ''evm'' then rbind (map_err ParseEvm (parse_evm P rest)) (\<lambda>a. Inr (CA_Evm a))
       else if ns = ''cosmos'' then rbind (map_err ParseCosmos (parse_cosmos P rest)) (\<lambda>a. Inr (CA_Cosmos a))
       else if ns = ''stellar_contract''
         then rbind (map_err ParseStellarContract (parse_contract P rest)) (\<lambda>a. Inr (CA_StellarContract a))
       else if ns = ''stellar_pubkey''
         then rbind (map_err ParseStellarPubkey (parse_hex32 P rest)) (\<lambda>a. Inr (CA_StellarPubKey a))
       else Inl (UnknownNamespace ns))"

text \<open>The addresses of \<^verbatim>\<open>layer_climb_address\<close>, which knows EVM and Cosmos only.\<close>

datatype layer_climb_address = LC_Evm evm_address | LC_Cosmos cosmos_addr

fun from_layer_climb :: "layer_climb_address \<Rightarrow> chain_address" where
  "from_layer_climb (LC_Evm evm) = CA_Evm evm"
| "from_layer_climb (LC_Cosmos cosmos) = CA_Cosmos cosmos"

fun try_into_layer_climb :: "chain_address \<Rightarrow> layer_climb_address option" where
  "try_into_layer_climb (CA_Evm addr) = Some (LC_Evm addr)"
| "try_into_layer_climb (CA_Cosmos addr) = Some (LC_Cosmos addr)"
| "try_into_layer_climb (CA_StellarContract _) = None"
| "try_into_layer_climb (CA_StellarPubKey _) = None"

definition parsers_ok :: "crypto \<Rightarrow> address_parsers \<Rightarrow> bool" where
  "parsers_ok C P =
     ((\<forall>a. length a = 20 \<longrightarrow> parse_evm P (evm_checksum_string C a) = Inr a) \<and>
      (\<forall>a. parse_cosmos P (cosmos_bech32_string C a) = Inr a) \<and>
      (\<forall>a. length a = 32 \<longrightarrow> parse_contract P (strkey_contract_string C a) = Inr a) \<and>
      (\<forall>a. length a = 32 \<longrightarrow> parse_hex32 P (''0x'' @ hex_encode C a) = Inr a))"

text \<open>The lengths that the types of the addresses guarantee.\<close>

fun chain_address_wf :: "chain_address \<Rightarrow> bool" where
  "chain_address_wf (CA_Evm a) = (length a = 20)"
| "chain_address_wf (CA_Cosmos _) = True"
| "chain_address_wf (CA_StellarContract a) = (length a = 32)"
| "chain_address_wf (CA_StellarPubKey a) = (length a = 32)"

lemma split_once_first: "c \<notin> set a \<Longrightarrow> split_once c (a @ c # b) = Some (a, b)"
  by (simp add: split_once_def takeWhile_split_first dropWhile_split_first)

lemma split_once_namespaces:
  "split_once CHR '':'' (''evm:'' @ r) = Some (''evm'', r)"
  "split_once CHR '':'' (''cosmos:'' @ r) = Some (''cosmos'', r)"
  "split_once CHR '':'' (''stellar_contract:'' @ r) = Some (''stellar_contract'', r)"
  "split_once CHR '':'' (''stellar_pubkey:'' @ r) = Some (''stellar_pubkey'', r)"
  by (simp_all add: split_once_def)

lemma layer_climb_roundtrip: "try_into_layer_climb (from_layer_climb a) = Some a"
  by (cases a) simp_all

text \<open>
  Parsing reads back what printing writes, for addresses of all four kinds, even when the
  printed address itself holds a colon, as long as the address crates read back what they print.
\<close>

lemma chain_address_roundtrip:
  assumes "parsers_ok C P" "chain_address_wf a"
  shows "chain_address_from_str P (chain_address_to_string C a) = Inr a"
  using assms
  by (cases a)
    (simp_all add: chain_address_to_string_def chain_address_from_str_def parsers_ok_def
      split_once_namespaces [simplified])

lemma demo_string_inverse: "map (\<lambda>c. of_nat (of_char c)) (map (\<lambda>b::u8. char_of (unat b)) bs) = bs"
  by (induction bs) (simp_all add: of_char_of unsigned_less [where ?'a = nat, of "_ :: u8", simplified]
      take_bit_nat_eq_self flip: take_bit_eq_mod)

definition demo_parsers :: address_parsers where
  "demo_parsers =
     (let p = (\<lambda>s. Inr (map (\<lambda>c. of_nat (of_char c)) s))
      in \<lparr>parse_evm = p, parse_cosmos = p, parse_contract = p, parse_hex32 = (\<lambda>s. p (drop 2 s))\<rparr>)"

lemma chain_address_roundtrip_witness:
  "chain_address_from_str demo_parsers (chain_address_to_string demo_crypto (CA_StellarPubKey (replicate 32 58))) =
     Inr (CA_StellarPubKey (replicate 32 58))"
proof -
  have "parsers_ok demo_crypto demo_parsers"
    unfolding parsers_ok_def demo_crypto_def demo_parsers_def Let_def
    using demo_string_inverse by (simp del: map_map)
  moreover have "chain_address_wf (CA_StellarPubKey (replicate 32 58))" by simp
  ultimately show ?thesis by (rule chain_address_roundtrip)
qed

end
