(* ===== verification/Ca_Storage.thy ===== *)
theory Ca_Storage
  imports Keyvalue Chain_Address
begin

text \<open>
  Content-addressed storage of component code, \<^verbatim>\<open>packages/utils/src/storage/\<close>: the trait \<open>CAStorage\<close>
  (\<^verbatim>\<open>prelude.rs\<close>) is the locale \<open>ca_storage\<close>, interpreted on the storage in memory (\<^verbatim>\<open>memory.rs\<close>)
  and on the storage in files (\<^verbatim>\<open>fs.rs\<close>). Files are a table from paths to contents; what the file
  system answers to each access is an argument. A lock is poisoned only after a panic of another
  thread, and then the error is \<open>CA_PoisonedLock\<close>; the model of the memory storage has no such panic.
\<close>

type_synonym any_digest = hash_id

datatype ca_error =
    CA_NotFound any_digest
  | CA_Digest string
  | CA_IO string
  | CA_PoisonedLock
  | CA_Other string

section \<open>The contract\<close>

locale ca_storage =
  fixes hash :: "bytes \<Rightarrow> any_digest" and inv :: "'s \<Rightarrow> bool"
    and reset :: "'s \<Rightarrow> 's" and set_data :: "bytes \<Rightarrow> 's \<Rightarrow> (ca_error + any_digest) \<times> 's"
    and get_data :: "'s \<Rightarrow> any_digest \<Rightarrow> ca_error + bytes" and data_exists :: "'s \<Rightarrow> any_digest \<Rightarrow> ca_error + bool"
  assumes inv_reset: "inv (reset s)"
    and get_reset: "get_data (reset s) d = Inl (CA_NotFound d)"
    and set_ok: "inv s \<Longrightarrow> fst (set_data data s) = Inr (hash data)"
    and inv_set: "inv s \<Longrightarrow> inv (snd (set_data data s))"
    and get_set: "inv s \<Longrightarrow> get_data (snd (set_data data s)) d =
      (if d = hash data \<and> \<not> is_ok (get_data s d) then Inr data else get_data s d)"
    and exists_get: "inv s \<Longrightarrow> data_exists s d = Inr (is_ok (get_data s d))"
    and get_fail: "inv s \<Longrightarrow> \<not> is_ok (get_data s d) \<Longrightarrow> get_data s d = Inl (CA_NotFound d)"
    and get_hash: "inv s \<Longrightarrow> get_data s d = Inr data \<Longrightarrow> hash data = d"
begin

text \<open>What was stored is never replaced, whatever is stored later.\<close>

fun set_all :: "bytes list \<Rightarrow> 's \<Rightarrow> 's" where
  "set_all [] s = s"
| "set_all (data # rest) s = set_all rest (snd (set_data data s))"

lemma inv_set_all: "inv s \<Longrightarrow> inv (set_all xs s)"
  by (induction xs s rule: set_all.induct) (simp_all add: inv_set)

lemma set_all_keeps: "inv s \<Longrightarrow> get_data s d = Inr data \<Longrightarrow> get_data (set_all xs s) d = Inr data"
  by (induction xs s rule: set_all.induct) (simp_all add: inv_set get_set)

lemma set_all_stores:
  assumes "inv s" "data \<in> set xs"
  shows "\<exists>data'. get_data (set_all xs s) (hash data) = Inr data' \<and> hash data' = hash data"
proof -
  have "is_ok (get_data (set_all xs s) (hash data))"
    using assms
  proof (induction xs s rule: set_all.induct)
    case (2 x rest s)
    show ?case
    proof (cases "data = x")
      case True
      obtain y where "get_data (snd (set_data x s)) (hash data) = Inr y"
        using True 2(2) by (cases "get_data s (hash x)") (simp_all add: get_set)
      then show ?thesis using set_all_keeps [OF inv_set [OF 2(2)]] by simp
    next
      case False
      then show ?thesis using 2 by (simp add: inv_set)
    qed
  qed simp
  then show ?thesis using get_hash [OF inv_set_all [OF assms(1)]]
    by (cases "get_data (set_all xs s) (hash data)") auto
qed

end

section \<open>In memory\<close>

type_synonym memory_storage = "(any_digest \<times> bytes) list"

definition memory_reset :: "memory_storage \<Rightarrow> memory_storage" where
  "memory_reset tree = []"

definition memory_set_data :: "crypto \<Rightarrow> bytes \<Rightarrow> memory_storage \<Rightarrow> (ca_error + any_digest) \<times> memory_storage" where
  "memory_set_data C data tree =
     (let digest = hash_id_hash (sha256 C) data
      in (Inr digest, if map_of tree digest = None then omap_insert digest data tree else tree))"

definition memory_get_data :: "memory_storage \<Rightarrow> any_digest \<Rightarrow> ca_error + bytes" where
  "memory_get_data tree d = ok_or (map_of tree d) (CA_NotFound d)"

definition memory_data_exists :: "memory_storage \<Rightarrow> any_digest \<Rightarrow> ca_error + bool" where
  "memory_data_exists tree d = Inr (map_of tree d \<noteq> None)"

definition memory_digests :: "memory_storage \<Rightarrow> any_digest list" where
  "memory_digests tree = map fst tree"

definition memory_inv :: "crypto \<Rightarrow> memory_storage \<Rightarrow> bool" where
  "memory_inv C tree = (omap_wf tree \<and> (\<forall>d data. map_of tree d = Some data \<longrightarrow> hash_id_hash (sha256 C) data = d))"

interpretation memory: ca_storage "hash_id_hash (sha256 C)" "memory_inv C" memory_reset "memory_set_data C"
  memory_get_data memory_data_exists
  by unfold_locales
    (auto simp: memory_inv_def memory_reset_def memory_set_data_def memory_get_data_def memory_data_exists_def Let_def
      omap_wf_sorted ok_or_def split: option.splits)

section \<open>In files\<close>

text \<open>What the file system does: creating the two directories, writing a new file, reading one. A
  write that fails may leave a part of the data in the file.\<close>

datatype write_outcome = Written | Write_Failed string "bytes option"

record file_io =
  io_ensure_dir :: "string + unit"
  io_write :: write_outcome
  io_read :: "string + unit"

type_synonym file_storage = "(string list \<times> bytes) list"

definition digest_to_path :: "crypto \<Rightarrow> file_io \<Rightarrow> any_digest \<Rightarrow> ca_error + string list" where
  "digest_to_path C io d =
     (let digest = hex_encode C d
      in rbind (map_err CA_IO (io_ensure_dir io)) (\<lambda>_.
         Inr [take 2 digest, take 2 (drop 2 digest), digest]))"

definition file_reset :: "file_storage \<Rightarrow> file_storage" where
  "file_reset fs = []"

definition file_set_data :: "crypto \<Rightarrow> file_io \<Rightarrow> bytes \<Rightarrow> file_storage \<Rightarrow> (ca_error + any_digest) \<times> file_storage" where
  "file_set_data C io data fs =
     (let digest = hash_id_hash (sha256 C) data
      in case digest_to_path C io digest of
           Inl e \<Rightarrow> (Inl e, fs)
         | Inr path \<Rightarrow>
             (if map_of fs path = None
              then (case io_write io of
                      Written \<Rightarrow> (Inr digest, AList.update path data fs)
                    | Write_Failed e None \<Rightarrow> (Inl (CA_IO e), fs)
                    | Write_Failed e (Some part) \<Rightarrow> (Inl (CA_IO e), AList.update path part fs))
              else (Inr digest, fs)))"

definition file_get_data :: "crypto \<Rightarrow> file_io \<Rightarrow> file_storage \<Rightarrow> any_digest \<Rightarrow> ca_error + bytes" where
  "file_get_data C io fs d =
     rbind (digest_to_path C io d) (\<lambda>path.
     case map_of fs path of
       None \<Rightarrow> Inl (CA_NotFound d)
     | Some data \<Rightarrow> rbind (map_err CA_IO (io_read io)) (\<lambda>_. Inr data))"

definition file_data_exists :: "crypto \<Rightarrow> file_io \<Rightarrow> file_storage \<Rightarrow> any_digest \<Rightarrow> ca_error + bool" where
  "file_data_exists C io fs d = rbind (digest_to_path C io d) (\<lambda>path. Inr (map_of fs path \<noteq> None))"

text \<open>The names of all files, parsed as digests; \<open>list_digests\<close> stops at the first that is none.\<close>

definition file_digests :: "(string \<Rightarrow> string + any_digest) \<Rightarrow> file_storage \<Rightarrow> (ca_error + any_digest) list" where
  "file_digests from_str fs = map (\<lambda>(path, _). map_err CA_Digest (from_str (last path))) fs"

definition good_io :: file_io where
  "good_io = \<lparr>io_ensure_dir = Inr (), io_write = Written, io_read = Inr ()\<rparr>"

definition file_path :: "crypto \<Rightarrow> any_digest \<Rightarrow> string list" where
  "file_path C d = [take 2 (hex_encode C d), take 2 (drop 2 (hex_encode C d)), hex_encode C d]"

definition file_inv :: "crypto \<Rightarrow> file_storage \<Rightarrow> bool" where
  "file_inv C fs = (\<forall>d data. map_of fs (file_path C d) = Some data \<longrightarrow> hash_id_hash (sha256 C) data = d)"

lemma file_path_inj: "hex_laws C \<Longrightarrow> file_path C d = file_path C d' \<longleftrightarrow> d = d'"
  by (auto simp: file_path_def hex_laws_def inj_eq)

lemma digest_to_path_good [simp]: "digest_to_path C good_io d = Inr (file_path C d)"
  by (simp add: digest_to_path_def good_io_def file_path_def Let_def)

lemma good_io_simps [simp]: "io_write good_io = Written" "io_read good_io = Inr ()"
  by (simp_all add: good_io_def)

lemma file_storage_laws:
  assumes "hex_laws C"
  shows "ca_storage (hash_id_hash (sha256 C)) (file_inv C) file_reset (file_set_data C good_io)
    (file_get_data C good_io) (file_data_exists C good_io)"
  by unfold_locales
    (auto simp: file_inv_def file_reset_def file_set_data_def file_get_data_def file_data_exists_def Let_def
      update_conv' file_path_inj [OF assms] split: option.splits if_splits)

interpretation hex_files: ca_storage "hash_id_hash (sha256 hex_crypto)" "file_inv hex_crypto" file_reset
  "file_set_data hex_crypto good_io" "file_get_data hex_crypto good_io" "file_data_exists hex_crypto good_io"
  by (rule file_storage_laws [OF hex_crypto_laws])

text \<open>What each operation does to the content addressed storage when the file system may fail: the file of
  a digest has either the bytes of that digest, or what a failed write left there.\<close>

definition clean_io :: "file_io \<Rightarrow> bool" where
  "clean_io io = (case io_write io of Write_Failed _ (Some _) \<Rightarrow> False | _ \<Rightarrow> True)"

lemma file_set_data_inv:
  assumes "hex_laws C" "clean_io io" "file_inv C fs"
  shows "file_inv C (snd (file_set_data C io data fs))"
proof (cases "io_ensure_dir io")
  case (Inl e)
  then show ?thesis using assms(3) by (simp add: file_set_data_def digest_to_path_def Let_def)
next
  case (Inr u)
  then have "digest_to_path C io d = Inr (file_path C d)" for d by (simp add: digest_to_path_def file_path_def Let_def)
  then show ?thesis using assms
    by (auto simp: file_set_data_def Let_def file_inv_def clean_io_def update_conv' file_path_inj
        split: write_outcome.splits option.splits if_splits)
qed

text \<open>With any file system: the files of all digests but those in \<open>T\<close> are in order, where \<open>T\<close> collects the digests of
  data whose write may have been cut short.\<close>

definition file_inv_but :: "crypto \<Rightarrow> any_digest set \<Rightarrow> file_storage \<Rightarrow> bool" where
  "file_inv_but C T fs =
     (\<forall>d data. d \<notin> T \<and> map_of fs (file_path C d) = Some data \<longrightarrow> hash_id_hash (sha256 C) data = d)"

definition suspects :: "file_io \<Rightarrow> any_digest set \<Rightarrow> any_digest set" where
  "suspects io D = (if clean_io io then {} else D)"

lemma file_inv_but_mono: "file_inv_but C T fs \<Longrightarrow> T \<subseteq> T' \<Longrightarrow> file_inv_but C T' fs"
  unfolding file_inv_but_def by blast

lemma file_set_data_inv_but:
  assumes "hex_laws C" "file_inv_but C T fs"
  shows "file_inv_but C (T \<union> suspects io {hash_id_hash (sha256 C) data}) (snd (file_set_data C io data fs))"
proof (cases "io_ensure_dir io")
  case (Inl e)
  then show ?thesis using assms(2) by (auto simp: file_set_data_def digest_to_path_def Let_def file_inv_but_def)
next
  case (Inr u)
  then have "digest_to_path C io d = Inr (file_path C d)" for d by (simp add: digest_to_path_def file_path_def Let_def)
  then show ?thesis using assms
    by (auto simp: file_set_data_def Let_def file_inv_but_def suspects_def clean_io_def update_conv' file_path_inj
        split: write_outcome.splits option.splits if_splits)
qed

lemma file_get_data_hash_but:
  assumes "file_inv_but C T fs" "file_get_data C io fs d = Inr data" "d \<notin> T"
  shows "hash_id_hash (sha256 C) data = d"
  using assms by (auto simp: file_get_data_def rbind_Inr_iff digest_to_path_def Let_def file_inv_but_def file_path_def
      split: option.splits)

lemma file_get_data_hash:
  assumes "file_inv C fs" "file_get_data C io fs d = Inr data"
  shows "hash_id_hash (sha256 C) data = d"
  using assms by (auto simp: file_get_data_def rbind_Inr_iff digest_to_path_def Let_def file_inv_def file_path_def
      split: option.splits)

lemma file_set_data_ok:
  assumes "file_set_data C io data fs = (Inr d, fs')"
  shows "d = hash_id_hash (sha256 C) data"
  using assms by (auto simp: file_set_data_def Let_def split: sum.splits option.splits if_splits write_outcome.splits)

definition file_set_all :: "crypto \<Rightarrow> (file_io \<times> bytes) list \<Rightarrow> file_storage \<Rightarrow> file_storage" where
  "file_set_all C ops fs = fold (\<lambda>(io, data) fs. snd (file_set_data C io data fs)) ops fs"

lemma file_set_data_keeps:
  "map_of fs path = Some data \<Longrightarrow> map_of (snd (file_set_data C io x fs)) path = Some data"
  by (auto simp: file_set_data_def Let_def update_conv' split: sum.splits write_outcome.splits option.splits)

text \<open>
  Component code is what its digest says. After any sequence of writes, with errors of the file
  system anywhere as long as a failed write leaves no file behind, whatever is read under a digest
  hashes to that digest, and what could be read once is never replaced.
\<close>

lemma stored_code_matches_digest:
  assumes "hex_laws C" "file_inv C fs" "list_all (\<lambda>(io, _). clean_io io) ops"
  shows "file_inv C (file_set_all C ops fs) \<and>
    (file_get_data C io (file_set_all C ops fs) d = Inr data \<longrightarrow> hash_id_hash (sha256 C) data = d) \<and>
    (file_get_data C good_io fs d = Inr data \<longrightarrow> file_get_data C good_io (file_set_all C ops fs) d = Inr data)"
proof -
  have inv: "file_inv C (file_set_all C ops fs)"
    using assms(2,3) unfolding file_set_all_def
    by (induction ops arbitrary: fs) (auto intro: file_set_data_inv [OF assms(1)])
  have keep: "map_of (file_set_all C ops fs) path = Some data" if "map_of fs path = Some data" for path
    using that unfolding file_set_all_def
    by (induction ops arbitrary: fs) (auto intro: file_set_data_keeps)
  have "file_get_data C good_io (file_set_all C ops fs) d = Inr data" if "file_get_data C good_io fs d = Inr data"
    using that keep by (auto simp: file_get_data_def split: option.splits)
  then show ?thesis using inv file_get_data_hash [OF inv] by blast
qed

lemma stored_code_matches_digest_witness:
  "file_get_data hex_crypto good_io (file_set_all hex_crypto [(good_io, [1]), (good_io, [2])] []) (sha256 hex_crypto [1]) = Inr [1] \<and>
   file_inv hex_crypto (file_set_all hex_crypto [(good_io, [1]), (good_io, [2])] [])"
proof -
  let ?fs = "file_set_all hex_crypto [(good_io, [1])] []"
  have inv: "file_inv hex_crypto []" by (simp add: file_inv_def)
  have "file_inv hex_crypto ?fs" "file_inv hex_crypto (file_set_all hex_crypto [(good_io, [1]), (good_io, [2])] [])"
    using stored_code_matches_digest [OF hex_crypto_laws inv] by (simp_all add: clean_io_def)
  moreover have "file_get_data hex_crypto good_io ?fs (sha256 hex_crypto [1]) = Inr [1]"
    by (simp add: file_set_all_def file_set_data_def file_get_data_def hash_id_hash_def Let_def)
  then have "file_get_data hex_crypto good_io (file_set_all hex_crypto [(good_io, [2])] ?fs) (sha256 hex_crypto [1]) = Inr [1]"
    using stored_code_matches_digest [OF hex_crypto_laws \<open>file_inv hex_crypto ?fs\<close>, of "[(good_io, [2])]"]
    by (simp add: clean_io_def)
  ultimately show ?thesis by (simp add: file_set_all_def)
qed

text \<open>
  A write that fails half-way cannot be repaired by storing the data again: the file exists, so the
  second attempt reports success without writing, and every later read returns the truncated bytes.
\<close>

lemma partial_write_never_repaired:
  assumes "file_get_data C good_io fs (hash_id_hash (sha256 C) data) = Inl (CA_NotFound (hash_id_hash (sha256 C) data))"
    and "file_set_data C (good_io\<lparr>io_write := Write_Failed e (Some part)\<rparr>) data fs = (r, fs1)"
    and "file_set_data C good_io data fs1 = (r', fs2)"
  shows "r = Inl (CA_IO e) \<and> r' = Inr (hash_id_hash (sha256 C) data) \<and> fs2 = fs1 \<and>
    file_get_data C good_io fs2 (hash_id_hash (sha256 C) data) = Inr part"
proof -
  let ?d = "hash_id_hash (sha256 C) data"
  have none: "map_of fs (file_path C ?d) = None"
    using assms(1) by (simp add: file_get_data_def split: option.splits)
  have "digest_to_path C (good_io\<lparr>io_write := Write_Failed e (Some part)\<rparr>) ?d = Inr (file_path C ?d)"
    by (simp add: digest_to_path_def good_io_def file_path_def Let_def)
  then have 1: "r = Inl (CA_IO e)" "fs1 = AList.update (file_path C ?d) part fs"
    using assms(2) none by (simp_all add: file_set_data_def Let_def)
  then have "map_of fs1 (file_path C ?d) = Some part" by (simp add: update_conv')
  with assms(3) 1 show ?thesis by (auto simp: file_set_data_def file_get_data_def Let_def)
qed

lemma partial_write_never_repaired_witness:
  "\<exists>fs1. file_set_data hex_crypto (good_io\<lparr>io_write := Write_Failed ''disk full'' (Some [1])\<rparr>) [1, 2] [] =
      (Inl (CA_IO ''disk full''), fs1) \<and>
    file_get_data hex_crypto good_io fs1 (hash_id_hash (sha256 hex_crypto) [1, 2]) = Inr [1]"
proof -
  have "file_get_data hex_crypto good_io [] d = Inl (CA_NotFound d)" for d by (simp add: file_get_data_def)
  from partial_write_never_repaired [OF this, of "''disk full''" "[1]" "[1, 2]"] show ?thesis
    by (metis prod.collapse)
qed

end
