(* ===== verification/Interval.thy ===== *)
theory Interval
  imports Prelude "HOL-Library.Multiset"
begin

text \<open>
  The interval scheduler of \<^verbatim>\<open>subsystems/trigger/schedulers/interval_scheduler.rs\<close>, generic in
  the trait \<open>IntervalState\<close>. The trait is a record of operations; a method that takes
  \<open>&mut self\<close> returns the new state as well. The locale \<open>interval_state\<close> is the contract the scheduler
  relies on: the operations keep the identity and the end time of a state. The block and cron
  schedulers interpret it.
\<close>

type_synonym lookup_id = u64

record ('s, 't) interval_ops =
  op_lookup_id :: "'s \<Rightarrow> lookup_id"
  op_interval_hit :: "'s \<Rightarrow> 't \<Rightarrow> 't option option \<times> 's"
  op_initialize :: "'s \<Rightarrow> 't \<Rightarrow> 't option \<times> 's"
  op_start_time :: "'s \<Rightarrow> 't option"
  op_end_time :: "'s \<Rightarrow> 't option"

record ('s, 't) interval_scheduler =
  sch_triggers :: "('t \<times> 's list) list"
  unadded_triggers :: "'s list"
  trigger_ids :: "lookup_id set"

datatype interval_error = IntervalStartAfterEnd

definition scheduler_new :: "('s, 't) interval_scheduler" where
  "scheduler_new = \<lparr>sch_triggers = [], unadded_triggers = [], trigger_ids = {}\<rparr>"

definition scheduler_len :: "('s, 't) interval_scheduler \<Rightarrow> nat" where
  "scheduler_len S = length (sch_triggers S) + length (unadded_triggers S)"

definition scheduler_is_empty :: "('s, 't) interval_scheduler \<Rightarrow> bool" where
  "scheduler_is_empty S = (sch_triggers S = [] \<and> unadded_triggers S = [])"

definition scheduler_add_trigger ::
  "('s, 't::linorder) interval_ops \<Rightarrow> 's \<Rightarrow> ('s, 't) interval_scheduler \<Rightarrow>
   interval_error + bool \<times> ('s, 't) interval_scheduler" where
  "scheduler_add_trigger ops st S =
     (if (case (op_start_time ops st, op_end_time ops st) of
            (Some start, Some end) \<Rightarrow> start > end | _ \<Rightarrow> False)
      then Inl IntervalStartAfterEnd
      else let i = op_lookup_id ops st
           in if i \<in> trigger_ids S then Inr (False, S)
              else Inr (True, S\<lparr>trigger_ids := insert i (trigger_ids S),
                                unadded_triggers := unadded_triggers S @ [st]\<rparr>))"

text \<open>\<open>self.triggers.entry(t).or_default().push(state)\<close>\<close>

definition entry_push :: "'t::linorder \<Rightarrow> 's \<Rightarrow> ('t \<times> 's list) list \<Rightarrow> ('t \<times> 's list) list" where
  "entry_push t st m =
     (case map_of m t of
        None \<Rightarrow> omap_insert t [st] m
      | Some sts \<Rightarrow> omap_insert t (sts @ [st]) m)"

fun drain_unadded ::
  "('s, 't::linorder) interval_ops \<Rightarrow> 't \<Rightarrow> 's list \<Rightarrow> ('t \<times> 's list) list \<Rightarrow> ('t \<times> 's list) list" where
  "drain_unadded ops now [] m = m"
| "drain_unadded ops now (st # sts) m =
     (case op_initialize ops st now of
        (Some next_time, st') \<Rightarrow> drain_unadded ops now sts (entry_push next_time st' m)
      | (None, _) \<Rightarrow> drain_unadded ops now sts m)"

fun process_states ::
  "('s, 't::linorder) interval_ops \<Rightarrow> 't \<Rightarrow> 't \<Rightarrow> 's list \<Rightarrow> (lookup_id \<times> 't) list \<times> ('t \<times> 's) list \<Rightarrow>
   (lookup_id \<times> 't) list \<times> ('t \<times> 's) list" where
  "process_states ops now next_time [] acc = acc"
| "process_states ops now next_time (st # sts) (results, re_add) =
     (let (hit, st') = op_interval_hit ops st now;
          (results', re_insert_time) =
            (case hit of
               Some new_next_time \<Rightarrow> (results @ [(op_lookup_id ops st', next_time)], new_next_time)
             | None \<Rightarrow> (results, Some next_time));
          re_insert_time' =
            (case op_end_time ops st' of
               Some end_time \<Rightarrow> if now \<ge> end_time then None else re_insert_time
             | None \<Rightarrow> re_insert_time)
      in process_states ops now next_time sts
           (results', case re_insert_time' of Some t \<Rightarrow> re_add @ [(t, st')] | None \<Rightarrow> re_add))"

text \<open>The loop pops first entries until the first key is past \<open>now\<close>; nothing is inserted meanwhile, so
  it runs down the ordered list.\<close>

fun pop_due ::
  "('s, 't::linorder) interval_ops \<Rightarrow> 't \<Rightarrow> ('t \<times> 's list) list \<Rightarrow>
   (lookup_id \<times> 't) list \<times> ('t \<times> 's) list \<Rightarrow>
   ('t \<times> 's list) list \<times> (lookup_id \<times> 't) list \<times> ('t \<times> 's) list" where
  "pop_due ops now [] acc = ([], acc)"
| "pop_due ops now ((next_time, sts) # m) acc =
     (if next_time > now then ((next_time, sts) # m, acc)
      else pop_due ops now m (process_states ops now next_time sts acc))"

fun push_all :: "('t::linorder \<times> 's) list \<Rightarrow> ('t \<times> 's list) list \<Rightarrow> ('t \<times> 's list) list" where
  "push_all [] m = m"
| "push_all ((t, st) # ps) m = push_all ps (entry_push t st m)"

definition scheduler_tick ::
  "('s, 't::linorder) interval_ops \<Rightarrow> 't \<Rightarrow> ('s, 't) interval_scheduler \<Rightarrow>
   (lookup_id \<times> 't) list \<times> ('s, 't) interval_scheduler" where
  "scheduler_tick ops now S =
     (let m = drain_unadded ops now (unadded_triggers S) (sch_triggers S);
          (rest, results, re_add) = pop_due ops now m ([], [])
      in (results, S\<lparr>sch_triggers := push_all re_add rest, unadded_triggers := []\<rparr>))"

definition scheduler_remove_trigger ::
  "('s, 't) interval_ops \<Rightarrow> lookup_id \<Rightarrow> ('s, 't) interval_scheduler \<Rightarrow>
   bool \<times> ('s, 't) interval_scheduler" where
  "scheduler_remove_trigger ops i S =
     (i \<in> trigger_ids S,
      S\<lparr>trigger_ids := trigger_ids S - {i},
        sch_triggers :=
          filter (\<lambda>p. snd p \<noteq> [])
            (map (\<lambda>(t, sts). (t, filter (\<lambda>st. op_lookup_id ops st \<noteq> i) sts)) (sch_triggers S)),
        unadded_triggers := filter (\<lambda>st. op_lookup_id ops st \<noteq> i) (unadded_triggers S)\<rparr>)"

section \<open>The queue as a multiset of timed states\<close>

definition timed :: "('t \<times> 's list) list \<Rightarrow> ('t \<times> 's) list" where
  "timed m = concat (map (\<lambda>(t, sts). map (Pair t) sts) m)"

lemma timed_simps [simp]:
  "timed [] = []" "timed ((t, sts) # m) = map (Pair t) sts @ timed m"
  by (simp_all add: timed_def)

text \<open>What the loop does with one due state: the fired result and the entry put back.\<close>

definition state_step ::
  "('s, 't::linorder) interval_ops \<Rightarrow> 't \<Rightarrow> 't \<times> 's \<Rightarrow> (lookup_id \<times> 't) option \<times> ('t \<times> 's) option" where
  "state_step ops now = (\<lambda>(t, st).
     let (hit, st') = op_interval_hit ops st now;
         next = (case hit of Some n \<Rightarrow> n | None \<Rightarrow> Some t);
         ended = (case op_end_time ops st' of Some e \<Rightarrow> e \<le> now | None \<Rightarrow> False)
     in (if hit = None then None else Some (op_lookup_id ops st', t),
         if ended then None else map_option (\<lambda>n. (n, st')) next))"

definition init_state :: "('s, 't) interval_ops \<Rightarrow> 't \<Rightarrow> 's \<Rightarrow> ('t \<times> 's) option" where
  "init_state ops now st = (case op_initialize ops st now of (n, st') \<Rightarrow> map_option (\<lambda>t. (t, st')) n)"

definition initialised :: "('s, 't::linorder) interval_ops \<Rightarrow> 't \<Rightarrow> ('s, 't) interval_scheduler \<Rightarrow> ('t \<times> 's) list" where
  "initialised ops now S = timed (sch_triggers S) @ List.map_filter (init_state ops now) (unadded_triggers S)"

lemma map_filter_simps' [simp]:
  "List.map_filter f [] = []"
  "List.map_filter f (x # xs) = (case f x of None \<Rightarrow> List.map_filter f xs | Some y \<Rightarrow> y # List.map_filter f xs)"
  by (auto simp: List.map_filter_def split: option.splits)

lemma map_filter_append [simp]: "List.map_filter f (xs @ ys) = List.map_filter f xs @ List.map_filter f ys"
  by (simp add: List.map_filter_def)

lemma process_states_eq:
  "process_states ops now t sts (results, re_add) =
     (results @ List.map_filter (\<lambda>st. fst (state_step ops now (t, st))) sts,
      re_add @ List.map_filter (\<lambda>st. snd (state_step ops now (t, st))) sts)"
proof (induction sts arbitrary: results re_add)
  case (Cons st sts)
  obtain hit st' where h: "op_interval_hit ops st now = (hit, st')" by fastforce
  show ?case
    by (cases hit; cases "op_end_time ops st'")
      (auto simp: h state_step_def Let_def Cons.IH split: option.splits)
qed simp

lemma map_filter_map_Pair:
  "List.map_filter f (map (Pair t) sts) = List.map_filter (\<lambda>st. f (t, st)) sts"
  by (induction sts) (auto split: option.splits)

lemma pop_due_eq:
  assumes "omap_wf m"
  shows "\<exists>rest. pop_due ops now m (results, re_add) =
      (rest, results @ List.map_filter (\<lambda>p. fst (state_step ops now p)) (filter (\<lambda>p. fst p \<le> now) (timed m)),
       re_add @ List.map_filter (\<lambda>p. snd (state_step ops now p)) (filter (\<lambda>p. fst p \<le> now) (timed m)))
    \<and> timed rest = filter (\<lambda>p. now < fst p) (timed m) \<and> omap_wf rest
    \<and> (\<forall>p\<in>set rest. p \<in> set m)"
  using assms
proof (induction m arbitrary: results re_add)
  case (Cons p m)
  obtain t sts where p: "p = (t, sts)" by fastforce
  from Cons.prems have wf: "omap_wf m" and gt: "\<forall>q\<in>set m. t < fst q"
    by (auto simp: p omap_wf_Cons)
  show ?case
  proof (cases "now < t")
    case True
    then have late: "\<forall>q\<in>set (timed m). now < fst q" using gt by (fastforce simp: timed_def)
    have "filter (\<lambda>p. fst p \<le> now) (timed (p # m)) = []"
      using True late by (auto simp: p filter_empty_conv)
    moreover have "filter (\<lambda>p. now < fst p) (timed (p # m)) = timed (p # m)"
      using True late by (auto simp: p intro: filter_True)
    ultimately show ?thesis using True Cons.prems by (simp add: p)
  next
    case False
    let ?r = "results @ List.map_filter (\<lambda>st. fst (state_step ops now (t, st))) sts"
    let ?a = "re_add @ List.map_filter (\<lambda>st. snd (state_step ops now (t, st))) sts"
    have keep: "filter (\<lambda>p. fst p \<le> now) (map (Pair t) sts) = map (Pair t) sts"
      "filter (\<lambda>p. now < fst p) (map (Pair t) sts) = []"
      using False by (simp_all add: filter_map comp_def not_less)
    show ?thesis
      using Cons.IH [OF wf, of ?r ?a] False
      by (auto simp: p process_states_eq keep map_filter_map_Pair)
  qed
qed simp

lemma mset_timed_entry_push:
  assumes "omap_wf m"
  shows "mset (timed (entry_push t st m)) = add_mset (t, st) (mset (timed m))"
  using assms
proof (induction m)
  case Nil
  then show ?case by (simp add: entry_push_def)
next
  case (Cons p m)
  obtain k v where p: "p = (k, v)" by fastforce
  from Cons.prems have wf: "omap_wf m" and gt: "\<forall>q\<in>set m. k < fst q"
    by (auto simp: p omap_wf_Cons)
  consider "t < k" | "t = k" | "k < t" by force
  then show ?case
  proof cases
    case 1
    then have "map_of m t = None" using gt by (force simp: map_of_eq_None_iff)
    with 1 show ?thesis by (auto simp: p entry_push_def)
  next
    case 2
    then show ?thesis by (simp add: p entry_push_def)
  next
    case 3
    then have "entry_push t st (p # m) = p # entry_push t st m"
      by (auto simp: p entry_push_def split: option.splits)
    with Cons.IH [OF wf] show ?thesis by (simp add: p)
  qed
qed

lemma omap_wf_entry_push [simp, intro]: "omap_wf m \<Longrightarrow> omap_wf (entry_push t st m)"
  by (auto simp: entry_push_def split: option.splits)

lemma set_omap_insert: "p \<in> set (omap_insert k v m) \<Longrightarrow> p = (k, v) \<or> p \<in> set m"
  by (induction k v m rule: omap_insert.induct) (auto split: if_splits)

lemma entry_push_nonempty:
  "\<forall>p\<in>set m. snd p \<noteq> [] \<Longrightarrow> \<forall>p\<in>set (entry_push t st m). snd p \<noteq> []"
  by (auto simp: entry_push_def split: option.splits dest!: set_omap_insert)

lemma push_all_spec:
  assumes "omap_wf m"
  shows "omap_wf (push_all ps m)" "mset (timed (push_all ps m)) = mset (timed m) + mset ps"
    "\<forall>p\<in>set m. snd p \<noteq> [] \<Longrightarrow> \<forall>p\<in>set (push_all ps m). snd p \<noteq> []"
  using assms by (induction ps m rule: push_all.induct)
    (auto simp: mset_timed_entry_push entry_push_nonempty)

lemma drain_unadded_eq:
  "drain_unadded ops now sts m = push_all (List.map_filter (init_state ops now) sts) m"
  by (induction sts arbitrary: m) (auto simp: init_state_def split: option.splits prod.splits)

text \<open>The effect of a tick: due states fire and move, the others stay.\<close>

definition queue_ok :: "('s, 't::linorder) interval_scheduler \<Rightarrow> bool" where
  "queue_ok S = (omap_wf (sch_triggers S) \<and> (\<forall>p\<in>set (sch_triggers S). snd p \<noteq> []))"

lemma scheduler_tick_spec:
  assumes "queue_ok S" "scheduler_tick ops now S = (results, S')"
  shows "queue_ok S' \<and> unadded_triggers S' = [] \<and> trigger_ids S' = trigger_ids S \<and>
    (\<exists>all. mset all = mset (initialised ops now S) \<and>
      results = List.map_filter (\<lambda>p. fst (state_step ops now p)) (filter (\<lambda>p. fst p \<le> now) all) \<and>
      mset (timed (sch_triggers S')) =
        mset (filter (\<lambda>p. now < fst p) all) +
        mset (List.map_filter (\<lambda>p. snd (state_step ops now p)) (filter (\<lambda>p. fst p \<le> now) all)))"
proof -
  let ?m = "drain_unadded ops now (unadded_triggers S) (sch_triggers S)"
  have wf: "omap_wf (sch_triggers S)" and ne: "\<forall>p\<in>set (sch_triggers S). snd p \<noteq> []"
    using assms(1) by (auto simp: queue_ok_def)
  note spec = push_all_spec [OF wf]
  have m: "omap_wf ?m" "mset (timed ?m) = mset (initialised ops now S)" "\<forall>p\<in>set ?m. snd p \<noteq> []"
    using spec ne by (auto simp: drain_unadded_eq initialised_def)
  obtain rest where pop: "pop_due ops now ?m ([], []) =
      (rest, List.map_filter (\<lambda>p. fst (state_step ops now p)) (filter (\<lambda>p. fst p \<le> now) (timed ?m)),
       List.map_filter (\<lambda>p. snd (state_step ops now p)) (filter (\<lambda>p. fst p \<le> now) (timed ?m)))"
    and rest: "timed rest = filter (\<lambda>p. now < fst p) (timed ?m)" "omap_wf rest" "\<forall>p\<in>set rest. p \<in> set ?m"
    using pop_due_eq [OF m(1), of ops now "[]" "[]"] by auto
  have rne: "\<forall>p\<in>set rest. snd p \<noteq> []" using rest(3) m(3) by blast
  from assms(2) pop have res:
    "results = List.map_filter (\<lambda>p. fst (state_step ops now p)) (filter (\<lambda>p. fst p \<le> now) (timed ?m))"
    "S' = S\<lparr>sch_triggers := push_all
        (List.map_filter (\<lambda>p. snd (state_step ops now p)) (filter (\<lambda>p. fst p \<le> now) (timed ?m))) rest,
        unadded_triggers := []\<rparr>"
    by (auto simp: scheduler_tick_def Let_def)
  show ?thesis
    using push_all_spec [OF rest(2)] rne m(2) rest(1) res by (auto simp: queue_ok_def)
qed

section \<open>The contract of a state and what the scheduler makes of it\<close>

definition sched_ids :: "('s, 't) interval_ops \<Rightarrow> ('s, 't) interval_scheduler \<Rightarrow> lookup_id list" where
  "sched_ids ops S =
     map (\<lambda>p. op_lookup_id ops (snd p)) (timed (sch_triggers S)) @ map (op_lookup_id ops) (unadded_triggers S)"

lemma remove_trigger_timed:
  "timed (filter (\<lambda>p. snd p \<noteq> []) (map (\<lambda>(t, sts). (t, filter P sts)) m)) = filter (\<lambda>p. P (snd p)) (timed m)"
  by (induction m) (auto simp: filter_map comp_def)

text \<open>What waits in a scheduler: the queued states with their times, and the states not yet initialised.\<close>

definition waiting :: "('s, 't) interval_scheduler \<Rightarrow> ('t option \<times> 's) list" where
  "waiting S = map (\<lambda>(t, st). (Some t, st)) (timed (sch_triggers S)) @ map (Pair None) (unadded_triggers S)"

lemma sched_ids_waiting: "sched_ids ops S = map (\<lambda>p. op_lookup_id ops (snd p)) (waiting S)"
  by (simp add: sched_ids_def waiting_def comp_def case_prod_unfold)

lemma waiting_remove:
  "waiting (snd (scheduler_remove_trigger ops i S)) = filter (\<lambda>p. op_lookup_id ops (snd p) \<noteq> i) (waiting S)"
  unfolding waiting_def scheduler_remove_trigger_def
  by (simp add: remove_trigger_timed del: filter_map) (simp add: filter_map comp_def case_prod_unfold)

lemma waiting_new [simp]: "waiting scheduler_new = []"
  by (simp add: waiting_def scheduler_new_def)

text \<open>The queue is ordered without empty slots, every state occurs once, and every state's id is in the
  duplicate check.\<close>

definition sched_inv :: "('s, 't::linorder) interval_ops \<Rightarrow> ('s, 't) interval_scheduler \<Rightarrow> bool" where
  "sched_inv ops S =
     (queue_ok S \<and> distinct (sched_ids ops S) \<and> set (sched_ids ops S) \<subseteq> trigger_ids S)"

fun run_ticks ::
  "('s, 't::linorder) interval_ops \<Rightarrow> 't list \<Rightarrow> ('s, 't) interval_scheduler \<Rightarrow>
   (lookup_id \<times> 't) list list \<times> ('s, 't) interval_scheduler" where
  "run_ticks ops [] S = ([], S)"
| "run_ticks ops (now # nows) S =
     (let (r, S1) = scheduler_tick ops now S; (rs, S2) = run_ticks ops nows S1 in (r # rs, S2))"

lemma distinct_mset_subset:
  assumes "mset xs \<subseteq># mset ys" "distinct ys"
  shows "distinct xs"
proof -
  have le: "count (mset xs) a \<le> 1" for a
  proof -
    have "count (mset xs) a \<le> count (mset ys) a" using assms(1) by (rule mset_subset_eq_count)
    also have "\<dots> \<le> 1" using assms(2) by (simp add: distinct_count_atmost_1)
    finally show ?thesis .
  qed
  have "count (mset xs) a = (if a \<in> set xs then 1 else 0)" for a
  proof (cases "a \<in> set xs")
    case True
    then have "count (mset xs) a \<noteq> 0" by simp
    with le [of a] have "count (mset xs) a = 1" by linarith
    with True show ?thesis by simp
  next
    case False
    then have "a \<notin># mset xs" by simp
    then show ?thesis using False by (simp add: not_in_iff)
  qed
  then show ?thesis by (simp only: distinct_count_atmost_1) simp
qed

lemma map_filter_map_ids:
  assumes "\<And>p y. f p = Some y \<Longrightarrow> g y = h p"
  shows "map g (List.map_filter f xs) = map h (filter (\<lambda>p. f p \<noteq> None) xs)"
  using assms by (induction xs) (auto split: option.splits)

lemma mset_filter_subset: "mset (filter P xs) \<subseteq># mset xs"
  by simp

locale interval_state =
  fixes ops :: "('s, 't::linorder) interval_ops"
  assumes hit_id: "op_lookup_id ops (snd (op_interval_hit ops st now)) = op_lookup_id ops st"
    and init_id: "op_lookup_id ops (snd (op_initialize ops st now)) = op_lookup_id ops st"
    and hit_end: "op_end_time ops (snd (op_interval_hit ops st now)) = op_end_time ops st"
    and init_end: "op_end_time ops (snd (op_initialize ops st now)) = op_end_time ops st"
begin

abbreviation pid :: "'t \<times> 's \<Rightarrow> lookup_id" where
  "pid p \<equiv> op_lookup_id ops (snd p)"

lemma step_fired_id: "fst (state_step ops now p) = Some r \<Longrightarrow> fst r = pid p"
  using hit_id [of "snd p" now]
  by (cases p) (auto simp: state_step_def Let_def split: prod.splits if_splits)

lemma step_kept_id: "snd (state_step ops now p) = Some q \<Longrightarrow> pid q = pid p"
  using hit_id [of "snd p" now]
  by (cases p) (auto simp: state_step_def Let_def split: prod.splits if_splits)

lemma init_state_id: "init_state ops now st = Some q \<Longrightarrow> pid q = op_lookup_id ops st"
  using init_id [of st now] by (auto simp: init_state_def split: prod.splits)

lemma initialised_ids: "mset (map pid (initialised ops now S)) \<subseteq># mset (sched_ids ops S)"
proof -
  have "map pid (List.map_filter (init_state ops now) us) =
      map (op_lookup_id ops) (filter (\<lambda>st. init_state ops now st \<noteq> None) us)" for us
    by (rule map_filter_map_ids) (rule init_state_id)
  then show ?thesis
    by (simp add: initialised_def sched_ids_def image_mset_subseteq_mono)
qed

lemma tick_ids_initialised:
  assumes "sched_inv ops S" "scheduler_tick ops now S = (results, S')"
  shows "mset (map fst results) \<subseteq># mset (map pid (initialised ops now S))"
    "mset (sched_ids ops S') \<subseteq># mset (map pid (initialised ops now S))"
    "queue_ok S'" "unadded_triggers S' = []" "trigger_ids S' = trigger_ids S"
proof -
  have "queue_ok S" using assms(1) by (simp add: sched_inv_def)
  from scheduler_tick_spec [OF this assms(2)] obtain all where
    all: "mset all = mset (initialised ops now S)"
    and r: "results = List.map_filter (\<lambda>p. fst (state_step ops now p)) (filter (\<lambda>p. fst p \<le> now) all)"
    and q: "mset (timed (sch_triggers S')) = mset (filter (\<lambda>p. now < fst p) all) +
        mset (List.map_filter (\<lambda>p. snd (state_step ops now p)) (filter (\<lambda>p. fst p \<le> now) all))"
    and S': "queue_ok S'" "unadded_triggers S' = []" "trigger_ids S' = trigger_ids S"
    by blast
  show "queue_ok S'" "unadded_triggers S' = []" "trigger_ids S' = trigger_ids S" by fact+
  have ids: "mset (map pid all) = mset (map pid (initialised ops now S))"
    using all by (metis mset_map)
  have "map fst results =
      map pid (filter (\<lambda>p. fst (state_step ops now p) \<noteq> None) (filter (\<lambda>p. fst p \<le> now) all))"
    unfolding r by (rule map_filter_map_ids) (rule step_fired_id)
  also have "mset \<dots> \<subseteq># mset (map pid all)"
    by (simp add: image_mset_subseteq_mono subset_mset.order_trans [OF multiset_filter_subset])
  finally show "mset (map fst results) \<subseteq># mset (map pid (initialised ops now S))"
    unfolding ids .
  have kept: "image_mset pid (mset (List.map_filter (\<lambda>p. snd (state_step ops now p)) xs)) =
      image_mset pid (filter_mset (\<lambda>p. snd (state_step ops now p) \<noteq> None) (mset xs))" for xs
    using arg_cong [OF map_filter_map_ids [of "\<lambda>p. snd (state_step ops now p)" pid pid xs], of mset]
      step_kept_id by simp
  have "mset (sched_ids ops S') = image_mset pid (mset (timed (sch_triggers S')))"
    using S'(2) by (simp add: sched_ids_def)
  also have "\<dots> = image_mset pid (filter_mset (\<lambda>p. now < fst p) (mset all)) +
      image_mset pid (filter_mset (\<lambda>p. snd (state_step ops now p) \<noteq> None)
        (filter_mset (\<lambda>p. fst p \<le> now) (mset all)))"
    unfolding q image_mset_union kept by (simp only: mset_filter)
  also have "\<dots> \<subseteq># image_mset pid (filter_mset (\<lambda>p. now < fst p) (mset all)) +
      image_mset pid (filter_mset (\<lambda>p. \<not> now < fst p) (mset all))"
    by (intro subset_mset.add_left_mono image_mset_subseteq_mono) (simp add: not_less)
  also have "\<dots> = mset (map pid all)"
    by (simp flip: image_mset_union multiset_partition)
  finally show "mset (sched_ids ops S') \<subseteq># mset (map pid (initialised ops now S))"
    unfolding ids .
qed

lemma tick_ids:
  assumes "sched_inv ops S" "scheduler_tick ops now S = (results, S')"
  shows "mset (map fst results) \<subseteq># mset (sched_ids ops S)"
    "mset (sched_ids ops S') \<subseteq># mset (sched_ids ops S)"
    "queue_ok S'" "unadded_triggers S' = []" "trigger_ids S' = trigger_ids S"
  using tick_ids_initialised [OF assms] initialised_ids [of now S] subset_mset.order_trans by blast+

lemma tick_from_initialised:
  assumes "sched_inv ops S" "scheduler_tick ops now S = (results, S')"
  shows "fst ` set results \<subseteq> pid ` set (initialised ops now S) \<and>
    set (sched_ids ops S') \<subseteq> pid ` set (initialised ops now S)"
  using set_mset_mono [OF tick_ids_initialised(1) [OF assms]]
    set_mset_mono [OF tick_ids_initialised(2) [OF assms]] by simp

lemma sched_inv_new: "sched_inv ops scheduler_new"
  by (simp add: sched_inv_def queue_ok_def scheduler_new_def sched_ids_def)

lemma sched_inv_add:
  assumes "sched_inv ops S" "scheduler_add_trigger ops st S = Inr (b, S')"
  shows "sched_inv ops S'"
proof (cases b)
  case False
  with assms show ?thesis by (auto simp: scheduler_add_trigger_def Let_def split: if_splits)
next
  case True
  with assms(2) have i: "op_lookup_id ops st \<notin> trigger_ids S"
    and S': "S' = S\<lparr>trigger_ids := insert (op_lookup_id ops st) (trigger_ids S),
      unadded_triggers := unadded_triggers S @ [st]\<rparr>"
    by (auto simp: scheduler_add_trigger_def Let_def split: if_splits)
  have "sched_ids ops S' = sched_ids ops S @ [op_lookup_id ops st]" by (simp add: S' sched_ids_def)
  with assms(1) i show ?thesis by (auto simp: sched_inv_def queue_ok_def S')
qed

lemma sched_inv_tick:
  assumes "sched_inv ops S" "scheduler_tick ops now S = (results, S')"
  shows "sched_inv ops S'" "distinct (map fst results)" "fst ` set results \<subseteq> set (sched_ids ops S)"
proof -
  have d: "distinct (sched_ids ops S)" and sub: "set (sched_ids ops S) \<subseteq> trigger_ids S"
    using assms(1) by (auto simp: sched_inv_def)
  note t = tick_ids [OF assms]
  have "set (sched_ids ops S') \<subseteq> set (sched_ids ops S)"
    using set_mset_mono [OF t(2)] by simp
  then show "sched_inv ops S'"
    using t(2-5) d sub distinct_mset_subset by (auto simp: sched_inv_def)
  show "distinct (map fst results)" using t(1) d by (rule distinct_mset_subset)
  show "fst ` set results \<subseteq> set (sched_ids ops S)"
    using set_mset_mono [OF t(1)] by simp
qed

text \<open>Seen from one trigger: what a tick reports for it and where it is afterwards.\<close>

lemma tick_one:
  assumes inv: "sched_inv ops S" and tick: "scheduler_tick ops now S = (results, S')"
    and p: "p \<in> set (initialised ops now S)"
  shows "pid p \<in> fst ` set results \<longleftrightarrow> fst p \<le> now \<and> fst (state_step ops now p) \<noteq> None"
    and "now < fst p \<Longrightarrow> p \<in> set (timed (sch_triggers S'))"
    and "fst p \<le> now \<Longrightarrow> snd (state_step ops now p) = Some q \<Longrightarrow> q \<in> set (timed (sch_triggers S'))"
    and "fst p \<le> now \<Longrightarrow> fst (state_step ops now p) = Some r \<Longrightarrow> r \<in> set results"
    and "fst p \<le> now \<Longrightarrow> snd (state_step ops now p) = None \<Longrightarrow> pid p \<notin> pid ` set (timed (sch_triggers S'))"
proof -
  have "queue_ok S" using inv by (simp add: sched_inv_def)
  from scheduler_tick_spec [OF this tick] obtain all where
    all: "mset all = mset (initialised ops now S)"
    and r: "results = List.map_filter (\<lambda>p. fst (state_step ops now p)) (filter (\<lambda>p. fst p \<le> now) all)"
    and q: "mset (timed (sch_triggers S')) = mset (filter (\<lambda>p. now < fst p) all) +
        mset (List.map_filter (\<lambda>p. snd (state_step ops now p)) (filter (\<lambda>p. fst p \<le> now) all))"
    by blast
  have sets: "set all = set (initialised ops now S)" using all by (metis set_mset_mset)
  have "distinct (map pid (initialised ops now S))"
    using distinct_mset_subset [OF initialised_ids] inv by (simp add: sched_inv_def)
  then have inj: "inj_on pid (set (initialised ops now S))" by (simp add: distinct_map)
  have res: "set results = {r. \<exists>p'\<in>set all. fst p' \<le> now \<and> fst (state_step ops now p') = Some r}"
    unfolding r List.map_filter_def by force
  have tim: "set (timed (sch_triggers S')) = {p'\<in>set all. now < fst p'} \<union>
      {r. \<exists>p'\<in>set all. fst p' \<le> now \<and> snd (state_step ops now p') = Some r}"
    using arg_cong [OF q, of set_mset] unfolding List.map_filter_def by force
  show "pid p \<in> fst ` set results \<longleftrightarrow> fst p \<le> now \<and> fst (state_step ops now p) \<noteq> None"
  proof
    assume "pid p \<in> fst ` set results"
    then obtain p' r where "p' \<in> set all" "fst p' \<le> now" "fst (state_step ops now p') = Some r" "fst r = pid p"
      unfolding res by force
    moreover have "p' = p"
      using calculation step_fired_id [of now p' r] inj p sets by (auto dest: inj_onD)
    ultimately show "fst p \<le> now \<and> fst (state_step ops now p) \<noteq> None" by simp
  next
    assume "fst p \<le> now \<and> fst (state_step ops now p) \<noteq> None"
    then obtain r where "fst p \<le> now" "fst (state_step ops now p) = Some r" by auto
    with p sets step_fired_id [of now p r] show "pid p \<in> fst ` set results"
      unfolding res by force
  qed
  show "p \<in> set (timed (sch_triggers S'))" if "now < fst p"
    using that p sets by (simp add: tim)
  show "q \<in> set (timed (sch_triggers S'))" if "fst p \<le> now" "snd (state_step ops now p) = Some q"
    unfolding tim using that p sets by blast
  show "r \<in> set results" if "fst p \<le> now" "fst (state_step ops now p) = Some r"
    unfolding res using that p sets by blast
  show "pid p \<notin> pid ` set (timed (sch_triggers S'))" if d: "fst p \<le> now" "snd (state_step ops now p) = None"
  proof
    assume "pid p \<in> pid ` set (timed (sch_triggers S'))"
    then obtain q where q: "q \<in> set (timed (sch_triggers S'))" "pid q = pid p" by auto
    then consider "q \<in> set all" "now < fst q"
      | p' where "p' \<in> set all" "fst p' \<le> now" "snd (state_step ops now p') = Some q"
      unfolding tim by blast
    then show False
    proof cases
      case 1
      then have "q = p" using q(2) inj p sets by (auto dest: inj_onD)
      with 1 d show False by simp
    next
      case 2
      then have "p' = p" using q(2) step_kept_id [OF 2(3)] inj p sets by (auto dest: inj_onD)
      with 2 d show False by simp
    qed
  qed
qed

lemma uninitialised_gone:
  assumes inv: "sched_inv ops S" and tick: "scheduler_tick ops now S = (results, S')"
    and st: "st \<in> set (unadded_triggers S)" "init_state ops now st = None"
  shows "op_lookup_id ops st \<notin> fst ` set results \<and> op_lookup_id ops st \<notin> set (sched_ids ops S')"
proof -
  have d: "distinct (sched_ids ops S)" using inv by (simp add: sched_inv_def)
  have "op_lookup_id ops st \<notin> pid ` set (initialised ops now S)"
  proof
    assume "op_lookup_id ops st \<in> pid ` set (initialised ops now S)"
    then obtain p where "p \<in> set (initialised ops now S)" "pid p = op_lookup_id ops st" by auto
    then consider "p \<in> set (timed (sch_triggers S))"
      | st' where "st' \<in> set (unadded_triggers S)" "init_state ops now st' = Some p"
      by (auto simp: initialised_def List.map_filter_def)
    then show False
    proof cases
      case 1
      with d st(1) \<open>pid p = op_lookup_id ops st\<close> show False
        by (auto simp: sched_ids_def image_iff disjoint_iff)
    next
      case 2
      have "op_lookup_id ops st' = op_lookup_id ops st"
        using init_state_id [OF 2(2)] \<open>pid p = op_lookup_id ops st\<close> by simp
      then have "st' = st" using d st(1) 2(1) by (auto simp: sched_ids_def distinct_map dest: inj_onD)
      with 2 st(2) show False by simp
    qed
  qed
  moreover have "fst ` set results \<subseteq> pid ` set (initialised ops now S)"
    and "set (sched_ids ops S') \<subseteq> pid ` set (initialised ops now S)"
    using tick_from_initialised [OF inv tick] by blast+
  ultimately show ?thesis by blast
qed

lemma sched_ids_remove:
  "sched_ids ops (snd (scheduler_remove_trigger ops i S)) = filter (\<lambda>j. j \<noteq> i) (sched_ids ops S)"
  unfolding sched_ids_def scheduler_remove_trigger_def
  by (simp add: remove_trigger_timed del: filter_map) (simp add: filter_map comp_def)

lemma queue_ok_remove: "queue_ok S \<Longrightarrow> queue_ok (snd (scheduler_remove_trigger ops i S))"
proof -
  assume "queue_ok S"
  then have d: "omap_wf (map (\<lambda>(t, sts). (t, filter (\<lambda>st. op_lookup_id ops st \<noteq> i) sts)) (sch_triggers S))"
    by (simp add: queue_ok_def omap_wf_def comp_def case_prod_unfold)
  then show ?thesis
    by (auto simp: queue_ok_def scheduler_remove_trigger_def omap_wf_def sorted_filter
        distinct_map_filter)
qed

lemma sched_inv_remove: "sched_inv ops S \<Longrightarrow> sched_inv ops (snd (scheduler_remove_trigger ops i S))"
  by (auto simp: sched_inv_def sched_ids_remove queue_ok_remove) (auto simp: scheduler_remove_trigger_def)

lemma run_ticks_ids:
  assumes "sched_inv ops S" "run_ticks ops nows S = (rs, S')"
  shows "sched_inv ops S' \<and> set (sched_ids ops S') \<subseteq> set (sched_ids ops S) \<and>
    (\<forall>r\<in>set rs. distinct (map fst r) \<and> fst ` set r \<subseteq> set (sched_ids ops S))"
  using assms
proof (induction nows arbitrary: S rs)
  case (Cons now nows)
  obtain r S1 where t: "scheduler_tick ops now S = (r, S1)" by fastforce
  obtain rs2 where rest: "run_ticks ops nows S1 = (rs2, S')" "rs = r # rs2"
    using Cons.prems(2) t by (auto split: prod.splits)
  note tick = sched_inv_tick [OF Cons.prems(1) t]
  have "set (sched_ids ops S1) \<subseteq> set (sched_ids ops S)"
    using set_mset_mono [OF tick_ids(2) [OF Cons.prems(1) t]] by simp
  with Cons.IH [OF tick(1) rest(1)] tick(2,3) rest(2) show ?case by force
qed simp

text \<open>A removed trigger is gone for good: no later tick reports it.\<close>

lemma removed_never_fires:
  assumes "sched_inv ops S" "run_ticks ops nows (snd (scheduler_remove_trigger ops i S)) = (rs, S')"
  shows "\<forall>r\<in>set rs. i \<notin> fst ` set r"
proof -
  have "i \<notin> set (sched_ids ops (snd (scheduler_remove_trigger ops i S)))"
    by (simp add: sched_ids_remove)
  with run_ticks_ids [OF sched_inv_remove [OF assms(1)] assms(2)] show ?thesis by blast
qed

end

end
