(* ===== verification/Block_Sched.thy ===== *)
theory Block_Sched
  imports Interval
begin

text \<open>
  Block interval triggers, from \<^verbatim>\<open>schedulers/block_scheduler.rs\<close>: the state of one trigger,
  the instance of the interval scheduler for block heights, and when a trigger fires. Heights are
  \<open>NonZeroU64\<close>; the arithmetic is at 64 bits. The bound \<open>height_ok\<close> leaves room for
  one interval below \<open>2 ^ 64\<close>, so that no sum of the schedule wraps.
\<close>

type_synonym block_height = u64

record block_interval_state =
  bi_interval :: u32
  kickoff_time :: "block_height option"
  bi_lookup_id :: lookup_id
  bi_start_time :: "block_height option"
  bi_end_time :: "block_height option"

definition nonzero_new :: "u64 \<Rightarrow> block_height option" where
  "nonzero_new n = (if n = 0 then None else Some n)"

definition block_interval_state_new ::
  "lookup_id \<Rightarrow> u32 \<Rightarrow> block_height option \<Rightarrow> block_height option \<Rightarrow> block_interval_state" where
  "block_interval_state_new i interval start_time end_time =
     \<lparr>bi_interval = interval, kickoff_time = None, bi_lookup_id = i,
      bi_start_time = start_time, bi_end_time = end_time\<rparr>"

definition block_initialize ::
  "block_interval_state \<Rightarrow> block_height \<Rightarrow> block_height option \<times> block_interval_state" where
  "block_initialize st now =
     (let interval = (ucast (bi_interval st) :: u64);
          start = (case bi_start_time st of Some h \<Rightarrow> h | None \<Rightarrow> now);
          st' = st\<lparr>kickoff_time := nonzero_new start\<rparr>;
          delta = saturating_sub now start;
          periods = div_ceil delta interval;
          next = start + periods * interval
      in (nonzero_new next, st'))"

definition block_interval_hit ::
  "block_interval_state \<Rightarrow> block_height \<Rightarrow> block_height option option \<times> block_interval_state" where
  "block_interval_hit st now =
     (case kickoff_time st of
        None \<Rightarrow> (None, st)
      | Some kickoff \<Rightarrow>
          let interval = (ucast (bi_interval st) :: u64)
          in if (now - kickoff) mod interval = 0 then (Some (nonzero_new (now + interval)), st)
             else (None, st))"

definition block_ops :: "(block_interval_state, block_height) interval_ops" where
  "block_ops =
     \<lparr>op_lookup_id = bi_lookup_id, op_interval_hit = block_interval_hit,
      op_initialize = block_initialize, op_start_time = bi_start_time, op_end_time = bi_end_time\<rparr>"

type_synonym block_scheduler = "(block_interval_state, block_height) interval_scheduler"

lemma block_ops_simps [simp]:
  "op_lookup_id block_ops = bi_lookup_id" "op_interval_hit block_ops = block_interval_hit"
  "op_initialize block_ops = block_initialize" "op_start_time block_ops = bi_start_time"
  "op_end_time block_ops = bi_end_time"
  by (simp_all add: block_ops_def)

lemma snd_block_interval_hit [simp]: "snd (block_interval_hit st now) = st"
  by (simp add: block_interval_hit_def Let_def split: option.splits)

interpretation blk: interval_state block_ops
  by unfold_locales (simp_all add: block_initialize_def Let_def)

section \<open>The first firing height\<close>

definition height_ok :: "block_height \<Rightarrow> bool" where
  "height_ok h = (h \<noteq> 0 \<and> unat h + 2 ^ 32 \<le> 2 ^ 64)"

definition block_start :: "block_interval_state \<Rightarrow> block_height \<Rightarrow> block_height" where
  "block_start st now = (case bi_start_time st of Some h \<Rightarrow> h | None \<Rightarrow> now)"

definition block_state_ok :: "block_interval_state \<Rightarrow> bool" where
  "block_state_ok st = (bi_interval st \<noteq> 0 \<and> (\<forall>h. bi_start_time st = Some h \<longrightarrow> height_ok h))"

text \<open>Heights at which a trigger anchored at \<open>k\<close> with period \<open>i\<close> is meant to fire.\<close>

definition aligned :: "nat \<Rightarrow> nat \<Rightarrow> nat \<Rightarrow> bool" where
  "aligned k i n = (k \<le> n \<and> i dvd (n - k))"

lemma unat_interval [simp]: "unat (ucast (x :: u32) :: u64) = unat x"
  using unsigned_less [of x, where ?'a = nat]
  by (simp add: unsigned_ucast_eq take_bit_nat_eq_self)

lemma interval_bound: "unat (x :: u32) < 2 ^ 32"
  using unsigned_less [of x, where ?'a = nat] by simp

lemma ceil_mult_bounds:
  assumes "0 < (i :: nat)"
  shows "d \<le> (d + i - 1) div i * i" "(d + i - 1) div i * i < d + i"
proof -
  have "(d + i - 1) div i * i + (d + i - 1) mod i = d + i - 1" by simp
  moreover have "(d + i - 1) mod i < i" using assms by simp
  ultimately show "d \<le> (d + i - 1) div i * i" "(d + i - 1) div i * i < d + i"
    using assms by linarith+
qed

lemma block_initialize_next:
  assumes "block_state_ok st" "height_ok now"
  shows "\<exists>t st'. block_initialize st now = (Some t, st') \<and> kickoff_time st' = Some (block_start st now) \<and>
    bi_interval st' = bi_interval st \<and> bi_lookup_id st' = bi_lookup_id st \<and> bi_end_time st' = bi_end_time st \<and>
    unat t = unat (block_start st now) +
      (unat now - unat (block_start st now) + unat (bi_interval st) - 1) div unat (bi_interval st)
        * unat (bi_interval st)"
proof -
  let ?s = "block_start st now" and ?i = "ucast (bi_interval st) :: u64"
  let ?I = "unat (bi_interval st)"
  have s: "height_ok ?s"
    using assms by (auto simp: block_state_ok_def block_start_def split: option.splits)
  have i0: "0 < ?I" using assms(1) by (simp add: block_state_ok_def unat_gt_0)
  let ?D = "unat now - unat ?s"
  let ?P = "(?D + ?I - 1) div ?I"
  have p: "unat (div_ceil (saturating_sub now ?s) ?i) = ?P"
    using i0 by (simp add: unat_div_ceil unat_saturating_sub)
  have lt: "unat ?s + ?P * ?I < 2 ^ 64"
    using ceil_mult_bounds(2) [OF i0, of ?D] interval_bound [of "bi_interval st"] s assms(2)
    by (simp add: height_ok_def) linarith
  have m: "unat (div_ceil (saturating_sub now ?s) ?i * ?i) = ?P * ?I"
    using lt p by (simp add: unat_mult_lem [THEN iffD1])
  have n: "unat (?s + div_ceil (saturating_sub now ?s) ?i * ?i) = unat ?s + ?P * ?I"
    using lt m by (simp add: unat_add_lem [THEN iffD1])
  have "?s + div_ceil (saturating_sub now ?s) ?i * ?i \<noteq> 0"
    using n s by (metis add_is_0 height_ok_def unat_eq_zero)
  then show ?thesis
    using n s by (auto simp: block_initialize_def Let_def block_start_def nonzero_new_def height_ok_def
        split: option.splits)
qed

lemma ceil_least:
  assumes "0 < (i :: nat)" "aligned k i u" "n \<le> u"
  shows "k + (n - k + i - 1) div i * i \<le> u"
proof -
  obtain q where q: "u - k = i * q" using assms(2) by (auto simp: aligned_def elim: dvdE)
  have "(n - k + i - 1) div i * i < (n - k) + i" using ceil_mult_bounds(2) [OF assms(1)] .
  also have "\<dots> \<le> i * q + i" using assms(3) q by linarith
  finally have "(n - k + i - 1) div i * i < Suc q * i" by (simp add: algebra_simps)
  then have "(n - k + i - 1) div i < Suc q" using assms(1) by (metis mult_less_cancel2)
  then have "(n - k + i - 1) div i * i \<le> q * i" by (intro mult_le_mono1) simp
  moreover have "k \<le> u" using assms(2) by (simp add: aligned_def)
  moreover have "u - k = q * i" using q by (simp add: mult.commute)
  ultimately show ?thesis by linarith
qed

text \<open>
  The first height at which a block trigger is scheduled is the least height that is not
  below the current block and lies a whole number of intervals after the anchor, which is the
  configured start block or, without one, the block of the first tick. The anchor is kept for later
  ticks, and no 64-bit sum wraps.
\<close>

lemma block_initialize_least:
  assumes "block_state_ok st" "height_ok now" "block_initialize st now = (nt, st')"
  shows "kickoff_time st' = Some (block_start st now) \<and>
    (\<exists>t. nt = Some t \<and> unat now \<le> unat t \<and>
       aligned (unat (block_start st now)) (unat (bi_interval st)) (unat t) \<and>
       (\<forall>u. aligned (unat (block_start st now)) (unat (bi_interval st)) u \<and> unat now \<le> u \<longrightarrow> unat t \<le> u))"
proof -
  let ?K = "unat (block_start st now)" and ?I = "unat (bi_interval st)"
  have i0: "0 < ?I" using assms(1) by (simp add: block_state_ok_def unat_gt_0)
  from block_initialize_next [OF assms(1,2)] assms(3) obtain t where
    t: "nt = Some t" "unat t = ?K + (unat now - ?K + ?I - 1) div ?I * ?I"
    and k: "kickoff_time st' = Some (block_start st now)" by auto
  have "unat now \<le> unat t" using ceil_mult_bounds(1) [OF i0, of "unat now - ?K"] t(2) by linarith
  moreover have "aligned ?K ?I (unat t)" using t(2) by (simp add: aligned_def)
  moreover have "unat t \<le> u" if "aligned ?K ?I u" "unat now \<le> u" for u
    using ceil_least [OF i0 that] t(2) by simp
  ultimately show ?thesis using t(1) k by blast
qed

section \<open>When a trigger fires\<close>

definition block_pending_ok :: "block_height \<times> block_interval_state \<Rightarrow> bool" where
  "block_pending_ok p =
     (bi_interval (snd p) \<noteq> 0 \<and>
      (case kickoff_time (snd p) of
         None \<Rightarrow> False
       | Some k \<Rightarrow> aligned (unat k) (unat (bi_interval (snd p))) (unat (fst p))))"

definition blocks_ok :: "block_scheduler \<Rightarrow> bool" where
  "blocks_ok S = ((\<forall>p\<in>set (timed (sch_triggers S)). block_pending_ok p) \<and>
                  (\<forall>st\<in>set (unadded_triggers S). block_state_ok st))"

lemma hit_iff_aligned:
  fixes k now :: u64 and i :: u32
  assumes "k \<le> now"
  shows "(now - k) mod (ucast i :: u64) = 0 \<longleftrightarrow> aligned (unat k) (unat i) (unat now)"
proof -
  have le: "unat k \<le> unat now" using assms by (simp add: word_le_nat_alt)
  have "unat ((now - k) mod (ucast i :: u64)) = (unat now - unat k) mod unat i"
    using assms by (simp add: unat_mod_distrib unat_sub)
  then show ?thesis using le
    by (metis aligned_def dvd_eq_mod_eq_0 unat_eq_zero)
qed

lemma unat_next:
  "height_ok now \<Longrightarrow> unat (now + (ucast (i :: u32) :: u64)) = unat now + unat i"
  using interval_bound [of i] unat_add_lem [of now "ucast i :: u64"]
  by (simp add: height_ok_def)

lemma block_step:
  assumes ok: "block_pending_ok (t, st)" and now: "height_ok now" and due: "t \<le> now"
    and k: "kickoff_time st = Some k"
  shows "k \<le> now"
    and "fst (state_step block_ops now (t, st)) =
      (if aligned (unat k) (unat (bi_interval st)) (unat now) then Some (bi_lookup_id st, t) else None)"
    and "snd (state_step block_ops now (t, st)) =
      (if (case bi_end_time st of Some e \<Rightarrow> e \<le> now | None \<Rightarrow> False) then None
       else Some (if aligned (unat k) (unat (bi_interval st)) (unat now)
                  then now + ucast (bi_interval st) else t, st))"
proof -
  show le: "k \<le> now"
    using ok k due by (simp add: block_pending_ok_def aligned_def word_le_nat_alt)
  have "now + ucast (bi_interval st) \<noteq> 0"
    using unat_next [OF now, of "bi_interval st"] now by (metis add_is_0 height_ok_def unat_eq_zero)
  then show "fst (state_step block_ops now (t, st)) =
      (if aligned (unat k) (unat (bi_interval st)) (unat now) then Some (bi_lookup_id st, t) else None)"
    and "snd (state_step block_ops now (t, st)) =
      (if (case bi_end_time st of Some e \<Rightarrow> e \<le> now | None \<Rightarrow> False) then None
       else Some (if aligned (unat k) (unat (bi_interval st)) (unat now)
                  then now + ucast (bi_interval st) else t, st))"
    using hit_iff_aligned [OF le, of "bi_interval st"] k
    by (simp_all add: state_step_def block_interval_hit_def nonzero_new_def Let_def)
qed

lemma aligned_next: "aligned k i n \<Longrightarrow> aligned k i (n + i)"
proof -
  assume a: "aligned k i n"
  then have "n + i - k = (n - k) + i" by (simp add: aligned_def)
  then have "i dvd n + i - k" using a by (metis aligned_def dvd_add_triv_right_iff)
  with a show ?thesis by (simp add: aligned_def)
qed

lemma init_pending_ok:
  assumes "block_state_ok st" "height_ok now" "init_state block_ops now st = Some p"
  shows "block_pending_ok p"
proof -
  obtain nt st' where e: "block_initialize st now = (nt, st')" by fastforce
  with assms(3) obtain t where p: "p = (t, st')" "nt = Some t" by (auto simp: init_state_def)
  have "bi_interval st' = bi_interval st" using e by (auto simp: block_initialize_def Let_def)
  with block_initialize_next [OF assms(1,2)] e p assms(1) show ?thesis
    by (auto simp: block_pending_ok_def block_state_ok_def aligned_def)
qed

lemma initialised_pending_ok:
  assumes "blocks_ok S" "height_ok now" "p \<in> set (initialised block_ops now S)"
  shows "block_pending_ok p"
proof -
  consider "p \<in> set (timed (sch_triggers S))"
    | st where "st \<in> set (unadded_triggers S)" "init_state block_ops now st = Some p"
    using assms(3) by (auto simp: initialised_def List.map_filter_def)
  then show ?thesis
    using assms(1,2) by cases (auto simp: blocks_ok_def intro: init_pending_ok)
qed

lemma block_tick_blocks_ok:
  assumes "sched_inv block_ops S" "blocks_ok S" "height_ok now"
    and tick: "scheduler_tick block_ops now S = (results, S')"
  shows "blocks_ok S'"
proof -
  have "queue_ok S" using assms(1) by (simp add: sched_inv_def)
  from scheduler_tick_spec [OF this tick] obtain all where
    all: "mset all = mset (initialised block_ops now S)"
    and q: "mset (timed (sch_triggers S')) = mset (filter (\<lambda>p. now < fst p) all) +
        mset (List.map_filter (\<lambda>p. snd (state_step block_ops now p)) (filter (\<lambda>p. fst p \<le> now) all))"
    and un: "unadded_triggers S' = []" by blast
  have ok: "block_pending_ok p" if "p \<in> set all" for p
    using initialised_pending_ok [OF assms(2,3)] that all by (metis set_mset_mset)
  have moved: "block_pending_ok r" if p: "p \<in> set all" "fst p \<le> now" "snd (state_step block_ops now p) = Some r" for p r
  proof -
    obtain t st where ts: "p = (t, st)" by fastforce
    from ok [OF p(1)] ts obtain k where k: "kickoff_time st = Some k"
      by (auto simp: block_pending_ok_def split: option.splits)
    have "block_pending_ok (t, st)" "t \<le> now" using ok [OF p(1)] p(2) ts by auto
    from block_step(3) [OF this(1) assms(3) this(2) k] p(3) ts k ok [OF p(1)] show ?thesis
      by (auto simp: block_pending_ok_def unat_next [OF assms(3)] aligned_next split: if_splits)
  qed
  have "set (timed (sch_triggers S')) = {p\<in>set all. now < fst p} \<union>
      {r. \<exists>p\<in>set all. fst p \<le> now \<and> snd (state_step block_ops now p) = Some r}"
    using arg_cong [OF q, of set_mset] unfolding List.map_filter_def by force
  then show ?thesis using ok moved un by (auto simp: blocks_ok_def)
qed

text \<open>
  The subtraction \<open>now - kickoff_time\<close> in \<open>interval_hit\<close> never goes below zero: in every scheduler
  that ticks can reach, each state the loop examines has its anchor at or before the current block.
  The invariant behind it is kept by every tick.
\<close>

lemma block_hit_no_underflow:
  assumes "sched_inv block_ops S" "blocks_ok S" "height_ok now"
    and "scheduler_tick block_ops now S = (results, S')"
  shows "blocks_ok S' \<and> sched_inv block_ops S' \<and>
    (\<forall>p\<in>set (initialised block_ops now S). fst p \<le> now \<longrightarrow>
       (\<exists>k. kickoff_time (snd p) = Some k \<and> k \<le> now))"
proof (intro conjI ballI impI)
  show "blocks_ok S'" by (rule block_tick_blocks_ok [OF assms])
  show "sched_inv block_ops S'" by (rule blk.sched_inv_tick(1) [OF assms(1,4)])
next
  fix p assume p: "p \<in> set (initialised block_ops now S)" "fst p \<le> now"
  obtain t st where ts: "p = (t, st)" by fastforce
  have ok: "block_pending_ok (t, st)" using initialised_pending_ok [OF assms(2,3) p(1)] ts by simp
  then obtain k where k: "kickoff_time st = Some k"
    by (auto simp: block_pending_ok_def split: option.splits)
  with block_step(1) [OF ok assms(3) _ k] p(2) ts show "\<exists>k. kickoff_time (snd p) = Some k \<and> k \<le> now" by auto
qed

lemma block_hit_no_underflow_witness:
  "\<exists>S' results. scheduler_tick block_ops 6 (scheduler_new\<lparr>trigger_ids := {0},
     unadded_triggers := [block_interval_state_new 0 3 (Some 2) None]\<rparr>) = (results, S') \<and> blocks_ok S'"
proof -
  let ?S = "scheduler_new\<lparr>trigger_ids := {0}, unadded_triggers := [block_interval_state_new 0 3 (Some 2) None]\<rparr>"
  have ok: "sched_inv block_ops ?S" "blocks_ok ?S" "height_ok 6"
    by (simp_all add: sched_inv_def blocks_ok_def queue_ok_def sched_ids_def scheduler_new_def
        block_interval_state_new_def block_state_ok_def height_ok_def)
  obtain r S' where t: "scheduler_tick block_ops 6 ?S = (r, S')" by fastforce
  from block_hit_no_underflow [OF ok t] t show ?thesis by blast
qed

text \<open>The trigger followed through a run: its entry lies at the next aligned height after the last tick
  \<open>n\<close> or at an earlier aligned one that no tick has reached yet.\<close>

definition tracked ::
  "lookup_id \<Rightarrow> nat \<Rightarrow> nat \<Rightarrow> (block_height \<times> block_interval_state) list \<Rightarrow> nat \<Rightarrow> bool" where
  "tracked i k iv ps n =
     (\<exists>t st. (t, st) \<in> set ps \<and> bi_lookup_id st = i \<and> bi_end_time st = None \<and> bi_interval st \<noteq> 0 \<and>
        unat (bi_interval st) = iv \<and> map_option unat (kickoff_time st) = Some k \<and>
        aligned k iv (unat t) \<and> (\<forall>u. aligned k iv u \<and> n < u \<longrightarrow> unat t \<le> u))"

lemma aligned_step: "0 < i \<Longrightarrow> aligned k i n \<Longrightarrow> aligned k i u \<Longrightarrow> n < u \<Longrightarrow> n + i \<le> u"
proof -
  assume a: "0 < i" "aligned k i n" "aligned k i u" "n < u"
  then have "i dvd (u - k) - (n - k)" unfolding aligned_def by (blast intro: dvd_diff_nat)
  moreover have "(u - k) - (n - k) = u - n" using a by (simp add: aligned_def)
  ultimately have "i dvd u - n" by metis
  then have "i \<le> u - n" using a(4) by (intro dvd_imp_le) auto
  with a(4) show ?thesis by linarith
qed

lemma tracked_tick:
  assumes inv: "sched_inv block_ops S" and tick: "scheduler_tick block_ops now S = (results, S')"
    and now: "height_ok now" and tr: "tracked i k iv (initialised block_ops now S) n" and later: "n < unat now"
  shows "i \<in> fst ` set results \<longleftrightarrow> aligned k iv (unat now)"
    and "tracked i k iv (timed (sch_triggers S')) (unat now)"
proof -
  from tr obtain t st kk where p: "(t, st) \<in> set (initialised block_ops now S)"
    and st: "bi_lookup_id st = i" "bi_end_time st = None" "bi_interval st \<noteq> 0" "unat (bi_interval st) = iv"
      "kickoff_time st = Some kk" "unat kk = k"
    and al: "aligned k iv (unat t)" and least: "\<And>u. aligned k iv u \<Longrightarrow> n < u \<Longrightarrow> unat t \<le> u"
    unfolding tracked_def by (auto simp: map_option_case split: option.splits)
  have iv: "0 < iv" using st(3,4) by (metis unat_gt_0)
  have ok: "block_pending_ok (t, st)" using st al by (simp add: block_pending_ok_def)
  note one = blk.tick_one [OF inv tick p, simplified]
  note step = block_step [OF ok now _ st(5)]
  show "i \<in> fst ` set results \<longleftrightarrow> aligned k iv (unat now)"
    using one(1) step(2) st least [of "unat now"] later
    by (auto simp: word_le_nat_alt split: if_splits)
  show "tracked i k iv (timed (sch_triggers S')) (unat now)"
  proof (cases "t \<le> now")
    case False
    then have "(t, st) \<in> set (timed (sch_triggers S'))" using one(2) by simp
    moreover have "\<forall>u. aligned k iv u \<and> unat now < u \<longrightarrow> unat t \<le> u" using least later by auto
    ultimately show ?thesis using st al unfolding tracked_def by force
  next
    case True
    let ?t' = "if aligned k iv (unat now) then now + ucast (bi_interval st) else t"
    have "(?t', st) \<in> set (timed (sch_triggers S'))"
      using one(3) step(3) True st by simp
    moreover have "aligned k iv (unat ?t')"
      using al unat_next [OF now, of "bi_interval st"] st(4) aligned_next by auto
    moreover have "unat ?t' \<le> u" if "aligned k iv u" "unat now < u" for u
      using that aligned_step [OF iv _ that(1)] unat_next [OF now, of "bi_interval st"] st(4) least later by auto
    ultimately show ?thesis using st unfolding tracked_def by force
  qed
qed

lemma tracked_init:
  assumes "st \<in> set (unadded_triggers S)" "block_state_ok st" "bi_end_time st = None" "height_ok now"
  shows "tracked (bi_lookup_id st) (unat (block_start st now)) (unat (bi_interval st))
    (initialised block_ops now S) (unat now - 1)"
proof -
  obtain nt st' where e: "block_initialize st now = (nt, st')" by fastforce
  from block_initialize_next [OF assms(2,4)] e obtain t where t: "nt = Some t"
    and st': "kickoff_time st' = Some (block_start st now)" "bi_interval st' = bi_interval st"
      "bi_lookup_id st' = bi_lookup_id st" "bi_end_time st' = bi_end_time st"
      "unat t = unat (block_start st now) + (unat now - unat (block_start st now) + unat (bi_interval st) - 1)
         div unat (bi_interval st) * unat (bi_interval st)"
    by auto
  have "init_state block_ops now st = Some (t, st')" using e t by (simp add: init_state_def)
  then have "(t, st') \<in> set (initialised block_ops now S)"
    using assms(1) by (force simp: initialised_def List.map_filter_def)
  moreover have "0 < unat (bi_interval st)" "bi_interval st \<noteq> 0"
    using assms(2) by (simp_all add: block_state_ok_def unat_gt_0)
  moreover have "aligned (unat (block_start st now)) (unat (bi_interval st)) (unat t)"
    using st'(5) by (simp add: aligned_def)
  moreover have "unat t \<le> u"
    if "aligned (unat (block_start st now)) (unat (bi_interval st)) u" "unat now - 1 < u" for u
    using ceil_least [OF calculation(2) that(1), of "unat now"] that(2) st'(5) by linarith
  ultimately show ?thesis using st'(1-4) assms(3) unfolding tracked_def by force
qed

lemma run_ticks_tracked:
  assumes "sched_inv block_ops S" "tracked i k iv (timed (sch_triggers S)) n" "unadded_triggers S = []"
    and "sorted_wrt (<) (map unat nows)" "\<forall>h\<in>set nows. height_ok h \<and> n < unat h"
    and "run_ticks block_ops nows S = (rs, S')" "j < length nows"
  shows "i \<in> fst ` set (rs ! j) \<longleftrightarrow> aligned k iv (unat (nows ! j))"
  using assms
proof (induction nows arbitrary: S n rs j)
  case (Cons now nows)
  obtain r S1 where t: "scheduler_tick block_ops now S = (r, S1)" by fastforce
  obtain rs2 where rest: "run_ticks block_ops nows S1 = (rs2, S')" "rs = r # rs2"
    using Cons.prems(6) t by (auto split: prod.splits)
  have init: "initialised block_ops now S = timed (sch_triggers S)"
    using Cons.prems(3) by (simp add: initialised_def)
  have hn: "height_ok now" "n < unat now" using Cons.prems(5) by auto
  note tt = tracked_tick [OF Cons.prems(1) t hn(1) Cons.prems(2) [folded init] hn(2)]
  show ?case
  proof (cases j)
    case 0
    then show ?thesis using tt(1) rest by simp
  next
    case (Suc j')
    have "unadded_triggers S1 = []" by (rule blk.tick_ids(4) [OF Cons.prems(1) t])
    moreover have "\<forall>h\<in>set nows. height_ok h \<and> unat now < unat h"
      using Cons.prems(4,5) by auto
    ultimately show ?thesis
      using Cons.IH [OF blk.sched_inv_tick(1) [OF Cons.prems(1) t] tt(2) _ _ _ rest(1), of j']
        Cons.prems(4,7) Suc rest(2) by auto
  qed
qed simp

text \<open>
  C25: A block interval trigger without an end block fires exactly when it should: for any strictly
  increasing sequence of observed blocks, whatever other triggers share the scheduler, the trigger
  is reported at a block if and only if the block lies a whole number of intervals after the
  anchor, the configured start block or else the first observed block.
\<close>

theorem block_trigger_fires_exactly:
  assumes "sched_inv block_ops S" "st \<in> set (unadded_triggers S)" "block_state_ok st" "bi_end_time st = None"
    and "sorted_wrt (<) (map unat nows)" "\<forall>h\<in>set nows. height_ok h"
    and "run_ticks block_ops nows S = (rs, S')" "j < length nows"
  shows "bi_lookup_id st \<in> fst ` set (rs ! j) \<longleftrightarrow>
    aligned (unat (block_start st (hd nows))) (unat (bi_interval st)) (unat (nows ! j))"
proof -
  obtain now nows' where n: "nows = now # nows'" using assms(8) by (cases nows) auto
  obtain r S1 where t: "scheduler_tick block_ops now S = (r, S1)" by fastforce
  obtain rs2 where rest: "run_ticks block_ops nows' S1 = (rs2, S')" "rs = r # rs2"
    using assms(7) t by (auto simp: n split: prod.splits)
  have now: "height_ok now" "unat now - 1 < unat now"
    using assms(6) by (auto simp: n height_ok_def unat_gt_0)
  note tt = tracked_tick [OF assms(1) t now(1) tracked_init [OF assms(2-4) now(1)] now(2)]
  show ?thesis
  proof (cases j)
    case 0
    then show ?thesis using tt(1) rest by (simp add: n)
  next
    case (Suc j')
    have "\<forall>h\<in>set nows'. height_ok h \<and> unat now < unat h" using assms(5,6) by (auto simp: n)
    then show ?thesis
      using run_ticks_tracked [OF blk.sched_inv_tick(1) [OF assms(1) t] tt(2)
          blk.tick_ids(4) [OF assms(1) t] _ _ rest(1), of j'] assms(5,8) Suc rest(2)
      by (auto simp: n)
  qed
qed

theorem block_trigger_fires_exactly_witness:
  "(7 :: u64) \<in> fst ` set (fst (run_ticks block_ops [4, 5, 8]
     (scheduler_new\<lparr>trigger_ids := {7}, unadded_triggers := [block_interval_state_new 7 3 (Some 2) None]\<rparr>)) ! 2)"
proof -
  let ?st = "block_interval_state_new 7 3 (Some 2) None"
  let ?S = "scheduler_new\<lparr>trigger_ids := {7}, unadded_triggers := [?st]\<rparr>"
  have S: "sched_inv block_ops ?S" "?st \<in> set (unadded_triggers ?S)" "block_state_ok ?st" "bi_end_time ?st = None"
    "sorted_wrt (<) (map unat [4, 5, 8 :: u64])" "\<forall>h\<in>set [4, 5, 8 :: u64]. height_ok h"
    by (simp_all add: sched_inv_def queue_ok_def sched_ids_def scheduler_new_def
        block_interval_state_new_def block_state_ok_def height_ok_def)
  obtain rs S' where r: "run_ticks block_ops [4, 5, 8] ?S = (rs, S')" by fastforce
  from block_trigger_fires_exactly [OF S r, of 2] r show ?thesis
    by (simp add: block_interval_state_new_def block_start_def aligned_def)
qed

text \<open>
  A trigger with an end block can fire after it: with start 2, interval 3 and end 10, ticks at
  every block from 2 to 11 report the trigger at block 11, and a trigger whose end block has
  passed before its first tick still fires once. The loop consults the end block only for states
  that are due, and only after \<open>interval_hit\<close> has been reported.
\<close>

lemma block_trigger_fires_after_end:
  "fst (run_ticks block_ops [2, 3, 4, 5, 6, 7, 8, 9, 10, 11]
     (scheduler_new\<lparr>trigger_ids := {7}, unadded_triggers := [block_interval_state_new 7 3 (Some 2) (Some 10)]\<rparr>))
   = [[(7, 2)], [], [], [(7, 5)], [], [], [(7, 8)], [], [], [(7, 11)]] \<and>
   fst (scheduler_tick block_ops 20
     (scheduler_new\<lparr>trigger_ids := {7}, unadded_triggers := [block_interval_state_new 7 3 (Some 2) (Some 10)]\<rparr>))
   = [(7, 20)]"
  by (simp add: scheduler_new_def scheduler_tick_def block_interval_state_new_def block_initialize_def
      block_interval_hit_def nonzero_new_def entry_push_def saturating_sub_def div_ceil_def Let_def)

end
