(* ===== verification/Cron_Sched.thy ===== *)
theory Cron_Sched
  imports Interval Types
begin

text \<open>
  Cron triggers, from \<^verbatim>\<open>schedulers/cron_scheduler.rs\<close>, and the timestamps of
  \<^verbatim>\<open>packages/types/src/time.rs\<close>. A \<open>DateTime<Utc>\<close> is a number of nanoseconds since the epoch.
  The parser of cron expressions and the iterator over a schedule come from the crate \<open>cron\<close>: the
  parser is an argument, and a schedule is what its method \<open>after_owned\<close> returns, the sequence of
  its times after a given one.
\<close>

section \<open>Timestamps\<close>

type_synonym datetime = int

definition from_datetime :: "datetime \<Rightarrow> string + timestamp" where
  "from_datetime d =
     (if d < - (2 ^ 63) \<or> 2 ^ 63 \<le> d then Inl ''Invalid timestamp''
      else if d < 0 then Inl ''Timestamp cannot represent dates before 1970''
      else Inr (word_of_int d))"

definition into_datetime :: "timestamp \<Rightarrow> datetime" where
  "into_datetime t = sint t"

lemma into_datetime_small: "t < 2 ^ 63 \<Longrightarrow> into_datetime t = uint t"
proof -
  assume t: "t < 2 ^ 63"
  have u: "uint (2 ^ 63 :: u64) = 2 ^ 63" by simp
  have "uint t < 2 ^ 63" using t u by (metis word_less_def)
  moreover have "- (2 ^ 63) \<le> uint t" by (rule order_trans [OF _ uint_ge_0]) simp
  ultimately have "signed_take_bit 63 (uint t) = uint t" by (intro signed_take_bit_int_eq_self)
  then show ?thesis by (simp add: into_datetime_def sint_uint)
qed

lemma timestamp_roundtrip: "t < 2 ^ 63 \<Longrightarrow> from_datetime (into_datetime t) = Inr t"
proof -
  assume t: "t < 2 ^ 63"
  have u: "uint (2 ^ 63 :: u64) = 2 ^ 63" by simp
  have "uint t < 2 ^ 63" using t u by (metis word_less_def)
  moreover have "- (2 ^ 63) \<le> uint t" by (rule order_trans [OF _ uint_ge_0]) simp
  ultimately show ?thesis using into_datetime_small [OF t] by (simp add: from_datetime_def not_less)
qed

section \<open>The state of a cron trigger\<close>

type_synonym cron_schedule = "datetime \<Rightarrow> nat \<Rightarrow> datetime option"

record cron_interval_state =
  ci_schedule :: cron_schedule
  ci_iterator :: "((nat \<Rightarrow> datetime option) \<times> nat) option"
  next_trigger_time :: "timestamp option"
  ci_lookup_id :: lookup_id
  ci_start_time :: "timestamp option"
  ci_end_time :: "timestamp option"

datatype cron_error = CronError string string

definition cron_interval_state_new ::
  "(string \<Rightarrow> string + cron_schedule) \<Rightarrow> lookup_id \<Rightarrow> string \<Rightarrow> timestamp option \<Rightarrow> timestamp option \<Rightarrow>
   cron_error + cron_interval_state" where
  "cron_interval_state_new parse i schedule_str start_time end_time =
     rbind (map_err (CronError schedule_str) (parse schedule_str)) (\<lambda>sched.
     Inr \<lparr>ci_schedule = sched, ci_iterator = None, next_trigger_time = None, ci_lookup_id = i,
          ci_start_time = start_time, ci_end_time = end_time\<rparr>)"

definition set_next_trigger_time :: "cron_interval_state \<Rightarrow> cron_interval_state" where
  "set_next_trigger_time st =
     (case ci_iterator st of
        None \<Rightarrow> st\<lparr>next_trigger_time := None\<rparr>
      | Some (it, pos) \<Rightarrow>
          let st' = st\<lparr>ci_iterator := Some (it, Suc pos)\<rparr>
          in case map_option from_datetime (it pos) of
               Some (Inr time) \<Rightarrow>
                 (case ci_end_time st of
                    Some end_time \<Rightarrow>
                      if time > end_time then st'\<lparr>next_trigger_time := None\<rparr>
                      else st'\<lparr>next_trigger_time := Some time\<rparr>
                  | None \<Rightarrow> st'\<lparr>next_trigger_time := Some time\<rparr>)
             | Some (Inl _) \<Rightarrow> st'\<lparr>next_trigger_time := None\<rparr>
             | None \<Rightarrow> st'\<lparr>next_trigger_time := None\<rparr>)"

definition cron_effective_now :: "cron_interval_state \<Rightarrow> timestamp \<Rightarrow> datetime" where
  "cron_effective_now st now =
     (case ci_start_time st of
        Some start_time \<Rightarrow> if start_time > now then into_datetime start_time else into_datetime now
      | None \<Rightarrow> into_datetime now)"

definition cron_initialize ::
  "cron_interval_state \<Rightarrow> timestamp \<Rightarrow> timestamp option \<times> cron_interval_state" where
  "cron_initialize st now =
     (let st1 = st\<lparr>ci_iterator := Some (ci_schedule st (cron_effective_now st now), 0)\<rparr>;
          st2 = set_next_trigger_time st1
      in (next_trigger_time st2, st2))"

definition cron_interval_hit ::
  "cron_interval_state \<Rightarrow> timestamp \<Rightarrow> timestamp option option \<times> cron_interval_state" where
  "cron_interval_hit st now =
     (case next_trigger_time st of
        Some t \<Rightarrow>
          if now \<ge> t
          then let st' = set_next_trigger_time st in (Some (next_trigger_time st'), st')
          else (None, st)
      | None \<Rightarrow> (None, st))"

definition cron_ops :: "(cron_interval_state, timestamp) interval_ops" where
  "cron_ops =
     \<lparr>op_lookup_id = ci_lookup_id, op_interval_hit = cron_interval_hit,
      op_initialize = cron_initialize, op_start_time = ci_start_time, op_end_time = ci_end_time\<rparr>"

lemma cron_ops_simps [simp]:
  "op_lookup_id cron_ops = ci_lookup_id" "op_interval_hit cron_ops = cron_interval_hit"
  "op_initialize cron_ops = cron_initialize" "op_start_time cron_ops = ci_start_time"
  "op_end_time cron_ops = ci_end_time"
  by (simp_all add: cron_ops_def)

lemma set_next_trigger_time_frame [simp]:
  "ci_lookup_id (set_next_trigger_time st) = ci_lookup_id st"
  "ci_end_time (set_next_trigger_time st) = ci_end_time st"
  "ci_start_time (set_next_trigger_time st) = ci_start_time st"
  by (auto simp: set_next_trigger_time_def Let_def split: option.splits prod.splits sum.splits)

interpretation crn: interval_state cron_ops
  by unfold_locales
    (auto simp: cron_initialize_def cron_interval_hit_def Let_def split: option.splits)

section \<open>Which times a trigger fires at\<close>

text \<open>The times of a schedule as timestamps, up to the first one that is missing, out of range or past the
  end.\<close>

definition sched_time :: "(nat \<Rightarrow> datetime option) \<Rightarrow> timestamp option \<Rightarrow> nat \<Rightarrow> timestamp option" where
  "sched_time it end_time n =
     (case it n of
        None \<Rightarrow> None
      | Some d \<Rightarrow>
          (case from_datetime d of
             Inl _ \<Rightarrow> None
           | Inr t \<Rightarrow> (case end_time of Some e \<Rightarrow> if t > e then None else Some t | None \<Rightarrow> Some t)))"

lemma set_next_trigger_time_eq:
  "ci_iterator st = Some (it, pos) \<Longrightarrow>
   set_next_trigger_time st =
     st\<lparr>ci_iterator := Some (it, Suc pos), next_trigger_time := sched_time it (ci_end_time st) pos\<rparr>"
  by (auto simp: set_next_trigger_time_def sched_time_def Let_def split: option.splits sum.splits)

text \<open>A pending cron state waits for the time before its iterator's position.\<close>

definition cron_pending :: "(nat \<Rightarrow> datetime option) \<Rightarrow> timestamp option \<Rightarrow> nat \<Rightarrow> timestamp \<times> cron_interval_state \<Rightarrow> bool" where
  "cron_pending it e n p =
     (ci_iterator (snd p) = Some (it, Suc n) \<and> ci_end_time (snd p) = e \<and>
      next_trigger_time (snd p) = Some (fst p) \<and> sched_time it e n = Some (fst p))"

lemma cron_init_pending:
  "init_state cron_ops now st =
     (case sched_time (ci_schedule st (cron_effective_now st now)) (ci_end_time st) 0 of
        None \<Rightarrow> None
      | Some t \<Rightarrow> Some (t, st\<lparr>ci_iterator := Some (ci_schedule st (cron_effective_now st now), 1),
                             next_trigger_time := Some t\<rparr>))"
  by (simp add: init_state_def cron_initialize_def Let_def set_next_trigger_time_eq split: option.splits)

definition past_end :: "timestamp option \<Rightarrow> timestamp \<Rightarrow> bool" where
  "past_end e now = (case e of Some x \<Rightarrow> x \<le> now | None \<Rightarrow> False)"

lemma past_end_simps [simp]: "past_end None now = False" "past_end (Some x) now = (x \<le> now)"
  by (simp_all add: past_end_def)

lemma sched_time_end: "sched_time it e n = Some t \<Longrightarrow> past_end e now \<Longrightarrow> t \<le> now"
  by (auto simp: past_end_def sched_time_def split: option.splits sum.splits if_splits)

lemma cron_step:
  assumes "cron_pending it e n p" "fst p \<le> now"
  shows "fst (state_step cron_ops now p) = Some (ci_lookup_id (snd p), fst p)"
    and "snd (state_step cron_ops now p) = Some q \<Longrightarrow>
      cron_pending it e (Suc n) q \<and> ci_lookup_id (snd q) = ci_lookup_id (snd p)"
    and "snd (state_step cron_ops now p) = None \<longleftrightarrow> past_end e now \<or> sched_time it e (Suc n) = None"
  using assms
  by (cases p, auto simp: cron_pending_def state_step_def cron_interval_hit_def Let_def past_end_def
      set_next_trigger_time_eq split: option.splits if_splits)+

section \<open>What a schedule promises\<close>

text \<open>
  The times one trigger should report at each of a sequence of ticks: its next time is reported
  at the first tick that is not before it, one time per tick, and a tick at or after the end
  time is the last one.
\<close>

fun cron_spec :: "(nat \<Rightarrow> timestamp option) \<Rightarrow> timestamp option \<Rightarrow> nat option \<Rightarrow> timestamp list \<Rightarrow> timestamp list list" where
  "cron_spec f e n [] = []"
| "cron_spec f e None (now # nows) = [] # cron_spec f e None nows"
| "cron_spec f e (Some n) (now # nows) =
     (case f n of
        None \<Rightarrow> [] # cron_spec f e None nows
      | Some t \<Rightarrow>
          if t \<le> now then [t] # cron_spec f e (if past_end e now then None else Some (Suc n)) nows
          else [] # cron_spec f e (Some n) nows)"

lemma length_cron_spec [simp]: "length (cron_spec f e n nows) = length nows"
  by (induction f e n nows rule: cron_spec.induct) (auto split: option.splits)

lemma cron_spec_None: "cron_spec f e None nows = replicate (length nows) []"
  by (induction nows) auto

lemma cron_spec_ended: "f n = None \<Longrightarrow> cron_spec f e (Some n) nows = replicate (length nows) []"
  by (cases nows) (auto simp: cron_spec_None)

text \<open>The same tick by tick, with the number of times reported so far.\<close>

lemma cron_spec_nth:
  assumes "\<And>n t now. f n = Some t \<Longrightarrow> past_end e now \<Longrightarrow> t \<le> now" "k < length nows"
  shows "cron_spec f e (Some n) nows ! k =
     (if \<exists>j<k. past_end e (nows ! j) then []
      else case f (n + length (concat (take k (cron_spec f e (Some n) nows)))) of
             Some t \<Rightarrow> if t \<le> nows ! k then [t] else []
           | None \<Rightarrow> [])"
  using assms(2)
proof (induction nows arbitrary: n k)
  case (Cons now nows)
  show ?case
  proof (cases k)
    case 0
    then show ?thesis by (auto split: option.splits)
  next
    case (Suc i)
    with Cons.prems have i: "i < length nows" by simp
    have ex: "(\<exists>j<k. past_end e ((now # nows) ! j)) \<longleftrightarrow> past_end e now \<or> (\<exists>j<i. past_end e (nows ! j))"
      unfolding Suc by (auto simp: less_Suc_eq_0_disj)
    have nk: "(now # nows) ! k = nows ! i" unfolding Suc by simp
    show ?thesis
    proof (cases "f n")
      case None
      with i show ?thesis
        by (simp add: Suc cron_spec_None cron_spec_ended)
    next
      case (Some t)
      show ?thesis
      proof (cases "t \<le> now")
        case False
        then have "\<not> past_end e now" using assms(1) Some by blast
        with Cons.IH [OF i, of n] Some False i show ?thesis unfolding ex nk by (auto simp: Suc)
      next
        case True
        with Cons.IH [OF i, of "Suc n"] Some i show ?thesis unfolding ex nk by (auto simp: Suc cron_spec_None)
      qed
    qed
  qed
qed simp

lemma cron_spec_sched_nth:
  assumes "k < length nows"
  shows "cron_spec (sched_time it e) e (Some n) nows ! k =
     (if \<exists>j<k. past_end e (nows ! j) then []
      else case sched_time it e (n + length (concat (take k (cron_spec (sched_time it e) e (Some n) nows)))) of
             Some t \<Rightarrow> if t \<le> nows ! k then [t] else []
           | None \<Rightarrow> [])"
  using cron_spec_nth [of "sched_time it e", OF _ assms] sched_time_end by blast

section \<open>The scheduler keeps the promise\<close>

definition reported :: "lookup_id \<Rightarrow> (lookup_id \<times> timestamp) list \<Rightarrow> timestamp list" where
  "reported i r = map snd (filter (\<lambda>x. fst x = i) r)"

lemma filter_distinct_fst:
  "distinct (map fst xs) \<Longrightarrow> (i, t) \<in> set xs \<Longrightarrow> filter (\<lambda>x. fst x = i) xs = [(i, t)]"
  by (induction xs) (auto simp: filter_empty_conv image_iff)

lemma not_reported: "i \<notin> fst ` set r \<Longrightarrow> reported i r = []"
  by (force simp: reported_def filter_empty_conv)

text \<open>The scheduler holds trigger \<open>i\<close> waiting for time \<open>n\<close> of its schedule, or not at all.\<close>

definition cron_holds ::
  "(nat \<Rightarrow> datetime option) \<Rightarrow> timestamp option \<Rightarrow> lookup_id \<Rightarrow> nat option \<Rightarrow> (timestamp \<times> cron_interval_state) list \<Rightarrow> bool" where
  "cron_holds it e i n ps =
     (case n of
        Some k \<Rightarrow>
          if sched_time it e k = None then i \<notin> (\<lambda>p. ci_lookup_id (snd p)) ` set ps
          else \<exists>p\<in>set ps. cron_pending it e k p \<and> ci_lookup_id (snd p) = i
      | None \<Rightarrow> i \<notin> (\<lambda>p. ci_lookup_id (snd p)) ` set ps)"

lemma cron_tick:
  assumes inv: "sched_inv cron_ops S" and tick: "scheduler_tick cron_ops now S = (results, S')"
    and holds: "cron_holds it e i (Some n) (initialised cron_ops now S)"
    and t: "sched_time it e n = Some t"
  shows "t \<le> now \<Longrightarrow> reported i results = [t]"
    and "now < t \<Longrightarrow> reported i results = []"
    and "now < t \<Longrightarrow> cron_holds it e i (Some n) (timed (sch_triggers S'))"
    and "t \<le> now \<Longrightarrow>
      cron_holds it e i (if past_end e now then None else Some (Suc n)) (timed (sch_triggers S'))"
proof -
  from holds t obtain p where p: "p \<in> set (initialised cron_ops now S)" "cron_pending it e n p"
    "ci_lookup_id (snd p) = i" by (auto simp: cron_holds_def)
  have pt: "fst p = t" using p(2) t by (simp add: cron_pending_def)
  note one = crn.tick_one [OF inv tick p(1), simplified]
  have un: "unadded_triggers S' = []" by (rule crn.tick_ids(4) [OF inv tick])
  show "reported i results = [t]" if "t \<le> now"
    using one(4) [OF _ cron_step(1) [OF p(2)]] that pt p(3)
      filter_distinct_fst [OF crn.sched_inv_tick(2) [OF inv tick]] by (auto simp: reported_def)
  show "reported i results = []" if "now < t"
    using one(1) that p(3) pt by (intro not_reported) force
  show "cron_holds it e i (Some n) (timed (sch_triggers S'))" if "now < t"
    using one(2) that t pt p by (auto simp: cron_holds_def)
  show "cron_holds it e i (if past_end e now then None else Some (Suc n)) (timed (sch_triggers S'))"
    if due: "t \<le> now"
  proof (cases "snd (state_step cron_ops now p)")
    case None
    with one(5) due p(3) un pt have "i \<notin> (\<lambda>p. ci_lookup_id (snd p)) ` set (timed (sch_triggers S'))"
      by (auto simp: sched_ids_def)
    with None cron_step(3) [OF p(2)] due pt show ?thesis by (auto simp: cron_holds_def)
  next
    case (Some q)
    have "\<not> past_end e now" "sched_time it e (Suc n) \<noteq> None"
      using cron_step(3) [OF p(2), of now] Some due pt by auto
    with one(3) cron_step(2) [OF p(2) _ Some] Some p(3) due pt show ?thesis by (auto simp: cron_holds_def)
  qed
qed

lemma cron_tick_absent:
  assumes inv: "sched_inv cron_ops S" and tick: "scheduler_tick cron_ops now S = (results, S')"
    and un: "unadded_triggers S = []" and absent: "i \<notin> (\<lambda>p. ci_lookup_id (snd p)) ` set (timed (sch_triggers S))"
  shows "reported i results = []" and "i \<notin> (\<lambda>p. ci_lookup_id (snd p)) ` set (timed (sch_triggers S'))"
proof -
  have i: "i \<notin> set (sched_ids cron_ops S)" using un absent by (auto simp: sched_ids_def)
  show "reported i results = []"
    using crn.sched_inv_tick(3) [OF inv tick] i by (intro not_reported) blast
  have "i \<notin> set (sched_ids cron_ops S')"
    using set_mset_mono [OF crn.tick_ids(2) [OF inv tick]] i by auto
  then show "i \<notin> (\<lambda>p. ci_lookup_id (snd p)) ` set (timed (sch_triggers S'))"
    by (auto simp: sched_ids_def)
qed

lemma run_ticks_cron:
  assumes "sched_inv cron_ops S" "unadded_triggers S = []" "cron_holds it e i n (timed (sch_triggers S))"
    and "run_ticks cron_ops nows S = (rs, S')"
  shows "map (reported i) rs = cron_spec (sched_time it e) e n nows"
  using assms
proof (induction nows arbitrary: S n rs)
  case (Cons now nows)
  obtain r S1 where t: "scheduler_tick cron_ops now S = (r, S1)" by fastforce
  obtain rs2 where rest: "run_ticks cron_ops nows S1 = (rs2, S')" "rs = r # rs2"
    using Cons.prems(4) t by (auto split: prod.splits)
  note IH = Cons.IH [OF crn.sched_inv_tick(1) [OF Cons.prems(1) t] crn.tick_ids(4) [OF Cons.prems(1) t] _ rest(1)]
  have ini: "initialised cron_ops now S = timed (sch_triggers S)"
    using Cons.prems(2) by (simp add: initialised_def)
  show ?case
  proof (cases "\<exists>k u. n = Some k \<and> sched_time it e k = Some u")
    case False
    with Cons.prems(3) have "i \<notin> (\<lambda>p. ci_lookup_id (snd p)) ` set (timed (sch_triggers S))"
      by (cases n) (auto simp: cron_holds_def)
    note gone = cron_tick_absent [OF Cons.prems(1) t Cons.prems(2) this]
    from gone(2) have "cron_holds it e i None (timed (sch_triggers S1))" by (simp add: cron_holds_def)
    from IH [OF this] False gone(1) rest(2) show ?thesis by (cases n) auto
  next
    case True
    then obtain k u where k: "n = Some k" "sched_time it e k = Some u" by blast
    note ct = cron_tick [OF Cons.prems(1) t Cons.prems(3) [unfolded k(1), folded ini] k(2)]
    show ?thesis
    proof (cases "u \<le> now")
      case True
      with IH [OF ct(4)] ct(1) k rest(2) show ?thesis by simp
    next
      case False
      with IH [OF ct(3)] ct(2) k rest(2) show ?thesis by simp
    qed
  qed
qed simp

lemma cron_added_holds:
  assumes "st \<in> set (unadded_triggers S)" "sched_inv cron_ops S"
  shows "cron_holds (ci_schedule st (cron_effective_now st now)) (ci_end_time st) (ci_lookup_id st) (Some 0)
     (initialised cron_ops now S) \<or>
   sched_time (ci_schedule st (cron_effective_now st now)) (ci_end_time st) 0 = None"
proof (cases "sched_time (ci_schedule st (cron_effective_now st now)) (ci_end_time st) 0")
  case (Some t0)
  let ?it = "ci_schedule st (cron_effective_now st now)"
  let ?p = "(t0, st\<lparr>ci_iterator := Some (?it, 1), next_trigger_time := Some t0\<rparr>)"
  have "?p \<in> set (initialised cron_ops now S)"
    using assms(1) Some
    by (auto simp: initialised_def cron_init_pending List.map_filter_def intro!: image_eqI [of _ _ st])
  moreover have "cron_pending ?it (ci_end_time st) 0 ?p" "ci_lookup_id (snd ?p) = ci_lookup_id st"
    using Some by (simp_all add: cron_pending_def)
  ultimately show ?thesis using Some by (auto simp: cron_holds_def)
qed simp

lemma run_ticks_cron_added:
  assumes "sched_inv cron_ops S" "st \<in> set (unadded_triggers S)"
    and "run_ticks cron_ops (now # nows) S = (rs, S')"
  shows "map (reported (ci_lookup_id st)) rs =
    cron_spec (sched_time (ci_schedule st (cron_effective_now st now)) (ci_end_time st)) (ci_end_time st) (Some 0) (now # nows)"
    (is "_ = cron_spec ?f ?e _ _")
proof -
  let ?it = "ci_schedule st (cron_effective_now st now)" and ?i = "ci_lookup_id st"
  obtain r S1 where t: "scheduler_tick cron_ops now S = (r, S1)" by fastforce
  obtain rs2 where rest: "run_ticks cron_ops nows S1 = (rs2, S')" "rs = r # rs2"
    using assms(3) t by (auto split: prod.splits)
  note run = run_ticks_cron [OF crn.sched_inv_tick(1) [OF assms(1) t] crn.tick_ids(4) [OF assms(1) t] _ rest(1)]
  show ?thesis
  proof (cases "?f 0")
    case None
    have gone: "?i \<notin> fst ` set r \<and> ?i \<notin> set (sched_ids cron_ops S1)"
      using crn.uninitialised_gone [OF assms(1) t assms(2)] None by (simp add: cron_init_pending)
    then have "cron_holds ?it ?e ?i None (timed (sch_triggers S1))" by (auto simp: cron_holds_def sched_ids_def)
    from run [OF this] None gone rest(2) show ?thesis by (simp add: not_reported)
  next
    case (Some t0)
    with cron_added_holds [OF assms(2,1), of now]
    have "cron_holds ?it ?e ?i (Some 0) (initialised cron_ops now S)" by simp
    note ct = cron_tick [OF assms(1) t this Some]
    show ?thesis
    proof (cases "t0 \<le> now")
      case True
      with run [OF ct(4)] ct(1) Some rest(2) show ?thesis by simp
    next
      case False
      with run [OF ct(3)] ct(2) Some rest(2) show ?thesis by simp
    qed
  qed
qed

text \<open>
  C26: A cron trigger reports exactly the times of its schedule that are due. Let a trigger be added
  and then the scheduler be ticked any number of times. At each tick the trigger reports the
  earliest time of its schedule, counted from the first tick or from its later start time, that it
  has not reported yet, if that time is not after the tick, and nothing if it is; a tick at or
  after its end time is the last at which it reports, and no time past the end or out of range is
  ever reported. So the times reported are a prefix of the schedule: none is skipped or
  repeated.
\<close>

theorem cron_trigger_fires_in_order:
  assumes "sched_inv cron_ops S" "st \<in> set (unadded_triggers S)"
    and "run_ticks cron_ops (now # nows) S = (rs, S')" "k \<le> length nows"
  shows "reported (ci_lookup_id st) (rs ! k) =
     (if \<exists>j<k. past_end (ci_end_time st) ((now # nows) ! j) then []
      else case sched_time (ci_schedule st (cron_effective_now st now)) (ci_end_time st)
                  (length (concat (map (reported (ci_lookup_id st)) (take k rs)))) of
             Some t \<Rightarrow> if t \<le> (now # nows) ! k then [t] else []
           | None \<Rightarrow> [])"
proof -
  note run = run_ticks_cron_added [OF assms(1-3)]
  have "length rs = Suc (length nows)" using arg_cong [OF run, of length] by (simp del: cron_spec.simps)
  then have k: "k < length (now # nows)" "k < length rs" using assms(4) by auto
  have "0 + length (concat (take k (map (reported (ci_lookup_id st)) rs))) =
      length (concat (map (reported (ci_lookup_id st)) (take k rs)))"
    by (simp add: take_map)
  with cron_spec_sched_nth [OF k(1), where n = 0 and e = "ci_end_time st"
      and it = "ci_schedule st (cron_effective_now st now)", folded run] k(2) show ?thesis by (simp only: nth_map)
qed

text \<open>The schedule has the times 160, 220, 280 and is ticked at 100, 165, 170, 300 and 310 with end 290: it
  reports 160 at the second tick, 220 at the fourth, which is past the end, and then nothing more.\<close>

theorem cron_trigger_fires_in_order_witness:
  "\<exists>rs S'. run_ticks cron_ops [100, 165, 170, 300, 310]
     (scheduler_new\<lparr>trigger_ids := {1}, unadded_triggers :=
       [\<lparr>ci_schedule = (\<lambda>d n. Some (d + 60 * (1 + int n))), ci_iterator = None, next_trigger_time = None,
         ci_lookup_id = 1, ci_start_time = None, ci_end_time = Some 290\<rparr>]\<rparr>) = (rs, S') \<and>
     map (reported 1) rs = [[], [160], [], [220], []] \<and>
     reported 1 (rs ! 1) = [160] \<and> reported 1 (rs ! 3) = [220] \<and> reported 1 (rs ! 4) = []"
proof -
  let ?st = "\<lparr>ci_schedule = (\<lambda>d n. Some (d + 60 * (1 + int n))), ci_iterator = None, next_trigger_time = None,
         ci_lookup_id = 1, ci_start_time = None, ci_end_time = Some 290\<rparr> :: cron_interval_state"
  let ?S = "scheduler_new\<lparr>trigger_ids := {1}, unadded_triggers := [?st]\<rparr>"
  have S: "sched_inv cron_ops ?S" "?st \<in> set (unadded_triggers ?S)"
    by (simp_all add: sched_inv_def queue_ok_def sched_ids_def scheduler_new_def)
  obtain rs S' where r: "run_ticks cron_ops [100, 165, 170, 300, 310] ?S = (rs, S')" by fastforce
  have e: "cron_effective_now ?st 100 = 100" by (simp add: cron_effective_now_def into_datetime_def)
  have rs: "map (reported 1) rs = [[], [160], [], [220], []]"
    using run_ticks_cron_added [OF S r] e by (simp add: sched_time_def from_datetime_def)
  note c = cron_trigger_fires_in_order [OF S r]
  have "reported 1 (rs ! 1) = [160]"
    using c [of 1] e rs by (simp add: sched_time_def from_datetime_def take_map [symmetric])
  moreover have "reported 1 (rs ! 3) = [220] \<and> reported 1 (rs ! 4) = []"
    using rs by (auto simp: map_eq_Cons_conv)
  ultimately show ?thesis using rs by (intro exI [of _ rs] exI [of _ S'] conjI r) simp_all
qed

text \<open>
  Timestamps round-trip through dates up to the largest signed 64-bit number of nanoseconds; the
  first timestamp beyond it is read as the earliest representable date, before 1970, and is not
  recovered.
\<close>

lemma timestamp_datetime_roundtrip:
  "(t < 2 ^ 63 \<longrightarrow> from_datetime (into_datetime t) = Inr t) \<and>
   into_datetime (2 ^ 63) = - (2 ^ 63) \<and> \<not> is_ok (from_datetime (into_datetime (2 ^ 63)))"
proof (intro conjI impI)
  show "from_datetime (into_datetime t) = Inr t" if "t < 2 ^ 63" using that by (rule timestamp_roundtrip)
  show e: "into_datetime (2 ^ 63) = - (2 ^ 63)" by (simp add: into_datetime_def)
  show "\<not> is_ok (from_datetime (into_datetime (2 ^ 63)))" unfolding e by (simp add: from_datetime_def)
qed

end
