(* ===== verification/Slotmap.thy ===== *)
theory Slotmap
  imports Prelude
begin

text \<open>
  The slot map of the \<^verbatim>\<open>slotmap\<close> crate, which mints the ids of Stellar filters and of EVM requests. It is a
  record of operations, an argument of the definitions that use it; \<open>slotmap_laws\<close> is what its
  documentation promises: an insertion returns a key that is not in use, a lookup finds what was
  inserted, a removal returns and forgets it, and clearing forgets everything.

  A key is opaque. (A slot map panics beyond \<open>2 ^ 32 - 2\<close> live entries; the model has no such bound.)
\<close>

type_synonym slot_key = nat

record ('v, 'sm) slotmap_ops =
  sm_new :: 'sm
  sm_insert :: "'v \<Rightarrow> 'sm \<Rightarrow> slot_key \<times> 'sm"
  sm_remove :: "slot_key \<Rightarrow> 'sm \<Rightarrow> 'v option \<times> 'sm"
  sm_get :: "'sm \<Rightarrow> slot_key \<Rightarrow> 'v option"
  sm_clear :: "'sm \<Rightarrow> 'sm"

definition slotmap_laws :: "('v, 'sm) slotmap_ops \<Rightarrow> ('sm \<Rightarrow> bool) \<Rightarrow> bool" where
  "slotmap_laws M ok =
     (ok (sm_new M) \<and> (\<forall>i. sm_get M (sm_new M) i = None) \<and>
      (\<forall>m f i m'. ok m \<longrightarrow> sm_insert M f m = (i, m') \<longrightarrow>
         ok m' \<and> sm_get M m i = None \<and> sm_get M m' = (sm_get M m)(i \<mapsto> f)) \<and>
      (\<forall>m i r m'. ok m \<longrightarrow> sm_remove M i m = (r, m') \<longrightarrow>
         ok m' \<and> r = sm_get M m i \<and> sm_get M m' = (sm_get M m)(i := None)) \<and>
      (\<forall>m i. ok m \<longrightarrow> ok (sm_clear M m) \<and> sm_get M (sm_clear M m) i = None))"

lemma slotmap_newD: "slotmap_laws M ok \<Longrightarrow> ok (sm_new M) \<and> sm_get M (sm_new M) i = None"
  unfolding slotmap_laws_def by blast

lemma slotmap_insertD:
  "slotmap_laws M ok \<Longrightarrow> ok m \<Longrightarrow> sm_insert M f m = (i, m') \<Longrightarrow>
   ok m' \<and> sm_get M m i = None \<and> sm_get M m' = (sm_get M m)(i \<mapsto> f)"
  unfolding slotmap_laws_def by blast

lemma slotmap_removeD:
  "slotmap_laws M ok \<Longrightarrow> ok m \<Longrightarrow> sm_remove M i m = (r, m') \<Longrightarrow>
   ok m' \<and> r = sm_get M m i \<and> sm_get M m' = (sm_get M m)(i := None)"
  unfolding slotmap_laws_def by blast

lemma slotmap_clearD: "slotmap_laws M ok \<Longrightarrow> ok m \<Longrightarrow> ok (sm_clear M m) \<and> sm_get M (sm_clear M m) i = None"
  unfolding slotmap_laws_def by blast

text \<open>A slot map that counts its keys.\<close>

definition demo_slotmap :: "('v, nat \<times> (nat \<times> 'v) list) slotmap_ops" where
  "demo_slotmap =
     \<lparr>sm_new = (0, []),
      sm_insert = (\<lambda>f (n, m). (n, (Suc n, (n, f) # m))),
      sm_remove = (\<lambda>i (n, m). (map_of m i, (n, filter (\<lambda>p. fst p \<noteq> i) m))),
      sm_get = (\<lambda>(n, m). map_of m),
      sm_clear = (\<lambda>(n, m). (n, []))\<rparr>"

definition demo_slotmap_ok :: "nat \<times> (nat \<times> 'v) list \<Rightarrow> bool" where
  "demo_slotmap_ok = (\<lambda>(n, m). list_all (\<lambda>p. fst p < n) m)"

lemma map_of_filter_neq: "map_of (filter (\<lambda>p. fst p \<noteq> i) m) = (map_of m)(i := None)"
  by (induction m) (auto simp: fun_eq_iff)

lemma demo_slotmap_laws: "slotmap_laws demo_slotmap demo_slotmap_ok"
proof -
  have fresh: "map_of m n = None" if "list_all (\<lambda>p. fst p < n) m" for n :: nat and m :: "(nat \<times> 'v) list"
    using that by (auto simp: map_of_eq_None_iff list_all_iff)
  have mono: "list_all (\<lambda>p. fst p < Suc n) m" if "list_all (\<lambda>p. fst p < n) m"
    for n :: nat and m :: "(nat \<times> 'v) list"
    using that by (auto simp: list_all_iff)
  show ?thesis
    unfolding slotmap_laws_def
  proof (intro conjI allI impI; (elim exE)?)
    show "demo_slotmap_ok (sm_new demo_slotmap)" "sm_get demo_slotmap (sm_new demo_slotmap) i = None" for i
      by (simp_all add: demo_slotmap_def demo_slotmap_ok_def)
  next
    fix m f i m'
    assume ok: "demo_slotmap_ok m" and ins: "sm_insert demo_slotmap f m = (i, m')"
    obtain n t where m: "m = (n, t)" by fastforce
    have all: "list_all (\<lambda>p. fst p < n) t" using ok by (simp add: m demo_slotmap_ok_def)
    have m': "i = n" "m' = (Suc n, (n, f) # t)" using ins by (auto simp: m demo_slotmap_def)
    show "demo_slotmap_ok m'" using mono [OF all] by (simp add: m' demo_slotmap_ok_def)
    show "sm_get demo_slotmap m i = None" using fresh [OF all] by (simp add: m m' demo_slotmap_def)
    show "sm_get demo_slotmap m' = (sm_get demo_slotmap m)(i \<mapsto> f)" by (simp add: m m' demo_slotmap_def)
  next
    fix m :: "nat \<times> (nat \<times> 'v) list" and i
    obtain n t where m: "m = (n, t)" by fastforce
    show "demo_slotmap_ok (sm_clear demo_slotmap m)" "sm_get demo_slotmap (sm_clear demo_slotmap m) i = None"
      by (simp_all add: m demo_slotmap_def demo_slotmap_ok_def)
  next
    fix m i r m'
    assume ok: "demo_slotmap_ok m" and rm: "sm_remove demo_slotmap i m = (r, m')"
    obtain n t where m: "m = (n, t)" by fastforce
    have m': "r = map_of t i" "m' = (n, filter (\<lambda>p. fst p \<noteq> i) t)" using rm by (auto simp: m demo_slotmap_def)
    show "demo_slotmap_ok m'" using ok by (auto simp: m m' demo_slotmap_ok_def list_all_iff)
    show "r = sm_get demo_slotmap m i" by (simp add: m m' demo_slotmap_def)
    show "sm_get demo_slotmap m' = (sm_get demo_slotmap m)(i := None)"
      by (simp add: m m' demo_slotmap_def map_of_filter_neq)
  qed
qed

end
