(* ===== verification/Stellar_Stream.thy ===== *)
theory Stellar_Stream
  imports Db Slotmap "HOL-Library.Sublist"
begin

text \<open>
  The Stellar event stream, from \<^verbatim>\<open>subsystems/trigger/streams/stellar_stream/\<close>: the filters a chain
  client polls with (\<^verbatim>\<open>filters.rs\<close>), the client and its ledger cursor (\<^verbatim>\<open>client.rs\<close>), the
  controller (\<^verbatim>\<open>controller.rs\<close>) and one turn of each poller (\<^verbatim>\<open>poller.rs\<close>).

  The slot map that mints filter ids is the record \<open>slotmap_ops\<close> of its own theory. The
  remote procedure calls are the record \<open>stellar_rpc\<close>, about which nothing is assumed.
\<close>

type_synonym stellar_rpc_id = slot_key

record stellar_event_filter =
  sf_contract_id :: string
  topic_segments_xdr_base64 :: "string list"

datatype stellar_client_error =
    SC_Rpc string
  | SC_InvalidLedgerRange u32 u32
  | SC_InvalidWildcard string
  | SC_FilterParse string

section \<open>Filters\<close>

fun encode_topic_segment ::
  "(opaque \<Rightarrow> string + string) \<Rightarrow> stellar_topic_segment \<Rightarrow> stellar_client_error + string" where
  "encode_topic_segment to_xdr (Exact scval) = map_err SC_FilterParse (to_xdr scval)"
| "encode_topic_segment to_xdr Wildcard = Inr ''*''"
| "encode_topic_segment to_xdr RestWildcard = Inl (SC_InvalidWildcard ''**'')"

text \<open>\<open>collect::<Result<Vec<_>, _>>\<close> stops at the first error.\<close>

fun collect_results :: "('a \<Rightarrow> 'e + 'b) \<Rightarrow> 'a list \<Rightarrow> 'e + 'b list" where
  "collect_results f [] = Inr []"
| "collect_results f (x # xs) =
     rbind (f x) (\<lambda>y. rbind (collect_results f xs) (\<lambda>ys. Inr (y # ys)))"

definition stellar_event_filter_new ::
  "(opaque \<Rightarrow> string + string) \<Rightarrow> string \<Rightarrow> stellar_topic_segment list \<Rightarrow>
   stellar_client_error + stellar_event_filter" where
  "stellar_event_filter_new to_xdr contract segments =
     rbind (collect_results (encode_topic_segment to_xdr) segments) (\<lambda>enc.
     Inr \<lparr>sf_contract_id = contract, topic_segments_xdr_base64 = enc\<rparr>)"

record 'sm event_filters =
  ef_list :: 'sm
  dedupe_list :: "(stellar_event_filter, stellar_rpc_id list) table"

definition event_filters_default :: "(stellar_event_filter, 'sm) slotmap_ops \<Rightarrow> 'sm event_filters" where
  "event_filters_default M = \<lparr>ef_list = sm_new M, dedupe_list = table_new\<rparr>"

definition get_rpc_ids_for_filter :: "'sm event_filters \<Rightarrow> stellar_event_filter \<Rightarrow> stellar_rpc_id list" where
  "get_rpc_ids_for_filter F f = (case get_cloned (dedupe_list F) f of None \<Rightarrow> [] | Some ids \<Rightarrow> ids)"

definition get_all_filters_with_ids ::
  "'sm event_filters \<Rightarrow> (stellar_event_filter, stellar_rpc_id list) table" where
  "get_all_filters_with_ids F = dedupe_list F"

definition get_filter :: "(stellar_event_filter, 'sm) slotmap_ops \<Rightarrow> 'sm event_filters \<Rightarrow> stellar_rpc_id \<Rightarrow> stellar_event_filter option" where
  "get_filter M F i = sm_get M (ef_list F) i"

text \<open>\<open>add_filter\<close> returns a \<open>Result\<close> and its only return is \<open>Ok(id)\<close>.\<close>

definition add_filter ::
  "(stellar_event_filter, 'sm) slotmap_ops \<Rightarrow> stellar_event_filter \<Rightarrow> 'sm event_filters \<Rightarrow> stellar_rpc_id \<times> 'sm event_filters" where
  "add_filter M f F =
     (let (i, l) = sm_insert M f (ef_list F)
      in (i, F\<lparr>ef_list := l,
               dedupe_list := table_insert f (get_rpc_ids_for_filter F f @ [i]) (dedupe_list F)\<rparr>))"

definition remove_filter ::
  "(stellar_event_filter, 'sm) slotmap_ops \<Rightarrow> stellar_event_filter \<Rightarrow> 'sm event_filters \<Rightarrow> 'sm event_filters" where
  "remove_filter M f F =
     (case table_remove f (dedupe_list F) of
        (Some ids, d) \<Rightarrow>
          F\<lparr>ef_list := fold (\<lambda>i l. snd (sm_remove M i l)) ids (ef_list F), dedupe_list := d\<rparr>
      | (None, _) \<Rightarrow> F)"

definition remove_filter_by_id ::
  "(stellar_event_filter, 'sm) slotmap_ops \<Rightarrow> stellar_rpc_id \<Rightarrow> 'sm event_filters \<Rightarrow> 'sm event_filters" where
  "remove_filter_by_id M i F =
     (case sm_remove M i (ef_list F) of
        (None, l) \<Rightarrow> F\<lparr>ef_list := l\<rparr>
      | (Some f, l) \<Rightarrow>
          (case get_cloned (dedupe_list F) f of
             None \<Rightarrow> F\<lparr>ef_list := l\<rparr>
           | Some ids \<Rightarrow>
               let ids' = filter (\<lambda>j. j \<noteq> i) ids
               in F\<lparr>ef_list := l,
                    dedupe_list := (if ids' = [] then snd (table_remove f (dedupe_list F))
                                    else table_insert f ids' (dedupe_list F))\<rparr>))"

section \<open>Client and controller\<close>

record 'sm stellar_stream_client =
  event_filters :: "'sm event_filters"
  event_last_ledger :: u32
  event_ledger_once :: bool
  sc_friendbot_url :: "string option"

definition stellar_stream_client_new :: "(stellar_event_filter, 'sm) slotmap_ops \<Rightarrow> string option \<Rightarrow> 'sm stellar_stream_client" where
  "stellar_stream_client_new M friendbot =
     \<lparr>event_filters = event_filters_default M, event_last_ledger = 0, event_ledger_once = False,
      sc_friendbot_url = friendbot\<rparr>"

record 'sm stellar_stream_controller =
  ledger_polling_enabled :: bool
  client :: "'sm stellar_stream_client"

definition stellar_stream_controller_new :: "(stellar_event_filter, 'sm) slotmap_ops \<Rightarrow> string option \<Rightarrow> 'sm stellar_stream_controller" where
  "stellar_stream_controller_new M friendbot =
     \<lparr>ledger_polling_enabled = False, client = stellar_stream_client_new M friendbot\<rparr>"

definition enable_ledger_polling :: "'sm stellar_stream_controller \<Rightarrow> 'sm stellar_stream_controller" where
  "enable_ledger_polling c = c\<lparr>ledger_polling_enabled := True\<rparr>"

definition disable_ledger_polling :: "'sm stellar_stream_controller \<Rightarrow> 'sm stellar_stream_controller" where
  "disable_ledger_polling c = c\<lparr>ledger_polling_enabled := False\<rparr>"

text \<open>The answers of the chain during one poll.\<close>

record 'ev stellar_rpc =
  get_latest_ledger :: "string + u32"
  ledger_range_ok :: "u32 \<Rightarrow> u32 \<Rightarrow> bool"
  get_events :: "u32 \<Rightarrow> u32 \<Rightarrow> stellar_event_filter \<Rightarrow> string + 'ev list"

text \<open>The end of the requested range is exclusive; both sums are at 32 bits.\<close>

definition fetch_next_events ::
  "'ev stellar_rpc \<Rightarrow> 'sm stellar_stream_client \<Rightarrow>
   (stellar_client_error + ('ev list \<times> stellar_rpc_id list) list) \<times> 'sm stellar_stream_client" where
  "fetch_next_events R c =
     (case get_latest_ledger R of
        Inl e \<Rightarrow> (Inl (SC_Rpc e), c)
      | Inr curr_ledger \<Rightarrow>
          if \<not> event_ledger_once c
          then (Inr [], c\<lparr>event_last_ledger := curr_ledger, event_ledger_once := True\<rparr>)
          else let next_ledger = event_last_ledger c + 1
               in if curr_ledger < next_ledger then (Inr [], c)
                  else if \<not> ledger_range_ok R next_ledger (curr_ledger + 1)
                  then (Inl (SC_InvalidLedgerRange next_ledger (curr_ledger + 1)), c)
                  else case collect_results
                         (\<lambda>(f, ids). rbind (map_err SC_Rpc (get_events R next_ledger (curr_ledger + 1) f))
                            (\<lambda>events. Inr (events, ids)))
                         (get_all_filters_with_ids (event_filters c)) of
                         Inl e \<Rightarrow> (Inl e, c)
                       | Inr all_events \<Rightarrow> (Inr all_events, c\<lparr>event_last_ledger := curr_ledger\<rparr>))"

definition fetch_ledger_sequence :: "'ev stellar_rpc \<Rightarrow> stellar_client_error + u32" where
  "fetch_ledger_sequence R = map_err SC_Rpc (get_latest_ledger R)"

text \<open>\<open>get\<close> is the outcome of the request: the status code of a response.\<close>

definition check_friendbot_health :: "(string \<Rightarrow> string + nat) \<Rightarrow> 'sm stellar_stream_client \<Rightarrow> bool option" where
  "check_friendbot_health get c =
     map_option (\<lambda>url. case get url of
         Inr code \<Rightarrow> (200 \<le> code \<and> code < 300) \<or> code = 400
       | Inl _ \<Rightarrow> False) (sc_friendbot_url c)"

text \<open>One turn of the event poller: what it sends to the channel.\<close>

definition event_poller_turn ::
  "'ev stellar_rpc \<Rightarrow> 'sm stellar_stream_client \<Rightarrow> ('ev \<times> stellar_rpc_id list) list \<times> 'sm stellar_stream_client" where
  "event_poller_turn R c =
     (case fetch_next_events R c of
        (Inr batches, c') \<Rightarrow> (concat (map (\<lambda>(events, ids). map (\<lambda>ev. (ev, ids)) events) batches), c')
      | (Inl _, c') \<Rightarrow> ([], c'))"

text \<open>One turn of the ledger poller, whose local variable is the last ledger it sent.\<close>

definition ledger_poller_turn ::
  "bool \<Rightarrow> 'ev stellar_rpc \<Rightarrow> u32 \<Rightarrow> u32 list \<times> u32" where
  "ledger_poller_turn enabled R last_ledger =
     (if \<not> enabled then ([], last_ledger)
      else case fetch_ledger_sequence R of
             Inr ledger \<Rightarrow> if ledger > last_ledger then ([ledger], ledger) else ([], last_ledger)
           | Inl _ \<Rightarrow> ([], last_ledger))"

section \<open>Filters and their ids\<close>

text \<open>The list and the deduplicated table hold the same pairs, and no filter without an id is polled.\<close>

definition filters_ok :: "(stellar_event_filter, 'sm) slotmap_ops \<Rightarrow> ('sm \<Rightarrow> bool) \<Rightarrow> 'sm event_filters \<Rightarrow> bool" where
  "filters_ok M ok F =
     (ok (ef_list F) \<and> table_wf (dedupe_list F) \<and>
      (\<forall>f i. i \<in> set (get_rpc_ids_for_filter F f) \<longleftrightarrow> get_filter M F i = Some f) \<and>
      (\<forall>f ids. get_cloned (dedupe_list F) f = Some ids \<longrightarrow> ids \<noteq> [] \<and> distinct ids))"

lemma filters_ok_default: "slotmap_laws M ok \<Longrightarrow> filters_ok M ok (event_filters_default M)"
  by (simp add: filters_ok_def event_filters_default_def get_rpc_ids_for_filter_def get_filter_def slotmap_newD)

lemma filters_ok_add:
  assumes "slotmap_laws M ok" "filters_ok M ok F" "add_filter M f F = (i, F')"
  shows "filters_ok M ok F' \<and> get_filter M F i = None \<and> get_filter M F' = (get_filter M F)(i \<mapsto> f)"
proof -
  obtain l where ins: "sm_insert M f (ef_list F) = (i, l)"
    and F': "F' = F\<lparr>ef_list := l,
        dedupe_list := table_insert f (get_rpc_ids_for_filter F f @ [i]) (dedupe_list F)\<rparr>"
    using assms(3) by (auto simp: add_filter_def Let_def split: prod.splits)
  have l: "ok l" "get_filter M F i = None" "sm_get M l = (sm_get M (ef_list F))(i \<mapsto> f)"
    using slotmap_insertD [OF assms(1) _ ins] assms(2) by (auto simp: filters_ok_def get_filter_def)
  have "filters_ok M ok F'"
    using assms(2) l unfolding filters_ok_def F'
    by (auto simp: get_rpc_ids_for_filter_def get_filter_def split: if_splits option.splits)
  then show ?thesis using l by (simp add: F' get_filter_def fun_eq_iff)
qed

lemma remove_by_id_ids:
  assumes "slotmap_laws M ok" "filters_ok M ok F"
  shows "get_rpc_ids_for_filter (remove_filter_by_id M i F) f = removeAll i (get_rpc_ids_for_filter F f)"
    and "get_filter M (remove_filter_by_id M i F) = (get_filter M F)(i := None)"
    and "ok (ef_list (remove_filter_by_id M i F))"
proof -
  obtain r l where rm: "sm_remove M i (ef_list F) = (r, l)" by fastforce
  note l = slotmap_removeD [OF assms(1) _ rm]
  have ok: "ok (ef_list F)"
    and ids: "\<And>g j. j \<in> set (get_rpc_ids_for_filter F g) \<longleftrightarrow> sm_get M (ef_list F) j = Some g"
    using assms(2) by (auto simp: filters_ok_def get_filter_def)
  have "ef_list (remove_filter_by_id M i F) = l"
    by (auto simp: remove_filter_by_id_def rm Let_def split: option.splits)
  then show "get_filter M (remove_filter_by_id M i F) = (get_filter M F)(i := None)"
    and "ok (ef_list (remove_filter_by_id M i F))"
    using l [OF ok] by (simp_all add: get_filter_def fun_eq_iff)
  show "get_rpc_ids_for_filter (remove_filter_by_id M i F) f = removeAll i (get_rpc_ids_for_filter F f)"
  proof (cases "sm_get M (ef_list F) i = Some f")
    case True
    then have "r = Some f" using l [OF ok] by simp
    moreover have "removeAll i xs = filter (\<lambda>j. j \<noteq> i) xs" for xs
      by (simp add: removeAll_filter_not_eq eq_commute)
    ultimately show ?thesis
      by (cases "get_cloned (dedupe_list F) f")
        (simp_all add: remove_filter_by_id_def rm get_rpc_ids_for_filter_def Let_def)
  next
    case False
    then have "i \<notin> set (get_rpc_ids_for_filter F f)" using ids by simp
    moreover have "r \<noteq> Some f" using False l [OF ok] by simp
    ultimately show ?thesis
      by (auto simp: remove_filter_by_id_def rm get_rpc_ids_for_filter_def Let_def split: option.splits)
  qed
qed

lemma filters_ok_remove_by_id:
  assumes "slotmap_laws M ok" "filters_ok M ok F"
  shows "filters_ok M ok (remove_filter_by_id M i F)"
proof -
  have "table_wf (dedupe_list (remove_filter_by_id M i F))"
    and "\<forall>f ids. get_cloned (dedupe_list (remove_filter_by_id M i F)) f = Some ids \<longrightarrow> ids \<noteq> [] \<and> distinct ids"
    using assms(2)
    by (auto simp: filters_ok_def remove_filter_by_id_def Let_def split: prod.splits option.splits if_splits)
  moreover have "j \<in> set (get_rpc_ids_for_filter F f) \<longleftrightarrow> get_filter M F j = Some f" for j f
    using assms(2) by (simp add: filters_ok_def)
  ultimately show ?thesis
    unfolding filters_ok_def using remove_by_id_ids [OF assms] by auto
qed

text \<open>Every state of the filters that the operations can reach.\<close>

inductive filters_reachable :: "(stellar_event_filter, 'sm) slotmap_ops \<Rightarrow> 'sm event_filters \<Rightarrow> bool" for M where
  fr_default: "filters_reachable M (event_filters_default M)"
| fr_add: "filters_reachable M F \<Longrightarrow> filters_reachable M (snd (add_filter M f F))"
| fr_remove: "filters_reachable M F \<Longrightarrow> filters_reachable M (remove_filter M f F)"
| fr_remove_by_id: "filters_reachable M F \<Longrightarrow> filters_reachable M (remove_filter_by_id M i F)"

lemma slotmap_fold_remove:
  assumes "slotmap_laws M ok" "ok l"
  shows "ok (fold (\<lambda>i l. snd (sm_remove M i l)) ids l) \<and>
    (\<forall>j. sm_get M (fold (\<lambda>i l. snd (sm_remove M i l)) ids l) j =
      (if j \<in> set ids then None else sm_get M l j))"
  using assms(2)
proof (induction ids arbitrary: l)
  case (Cons i ids)
  obtain r l' where rm: "sm_remove M i l = (r, l')" by fastforce
  from slotmap_removeD [OF assms(1) Cons.prems rm]
  have l': "ok l'" "sm_get M l' = (sm_get M l)(i := None)" by simp_all
  then show ?case using Cons.IH [OF l'(1)] by (simp add: rm)
qed simp

lemma filters_ok_remove:
  assumes "slotmap_laws M ok" "filters_ok M ok F"
  shows "filters_ok M ok (remove_filter M f F)"
proof (cases "get_cloned (dedupe_list F) f")
  case None
  then have "remove_filter M f F = F"
    by (simp add: remove_filter_def table_remove_def get_cloned_def)
  then show ?thesis using assms(2) by simp
next
  case (Some ids)
  let ?F = "remove_filter M f F"
  let ?l = "fold (\<lambda>i l. snd (sm_remove M i l)) ids (ef_list F)"
  have F: "?F = F\<lparr>ef_list := ?l, dedupe_list := snd (table_remove f (dedupe_list F))\<rparr>"
    using Some by (simp add: remove_filter_def table_remove_def get_cloned_def)
  have "ok (ef_list F)" and
    ids: "\<And>g j. j \<in> set (get_rpc_ids_for_filter F g) \<longleftrightarrow> sm_get M (ef_list F) j = Some g"
    using assms(2) by (auto simp: filters_ok_def get_filter_def)
  note l = slotmap_fold_remove [OF assms(1) this(1), of ids, THEN conjunct1]
    slotmap_fold_remove [OF assms(1) this(1), of ids, THEN conjunct2, rule_format]
  have "get_rpc_ids_for_filter ?F g = (if g = f then [] else get_rpc_ids_for_filter F g)" for g
    by (simp add: F get_rpc_ids_for_filter_def)
  moreover have "set (get_rpc_ids_for_filter F f) = set ids"
    by (simp add: Some get_rpc_ids_for_filter_def)
  ultimately have "i \<in> set (get_rpc_ids_for_filter ?F g) \<longleftrightarrow> get_filter M ?F i = Some g" for i g
    using ids [of i g] ids [of i f] l(2) [of i] by (auto simp: F get_filter_def)
  moreover have "ok (ef_list ?F)" "table_wf (dedupe_list ?F)"
    "\<forall>g ids. get_cloned (dedupe_list ?F) g = Some ids \<longrightarrow> ids \<noteq> [] \<and> distinct ids"
    using l(1) assms(2) by (simp_all add: F filters_ok_def)
  ultimately show ?thesis unfolding filters_ok_def by blast
qed

lemma filters_reachable_ok:
  assumes "slotmap_laws M ok" "filters_reachable M F"
  shows "filters_ok M ok F"
  using assms(2)
proof induction
  case (fr_add F f)
  obtain i F' where "add_filter M f F = (i, F')" by fastforce
  with filters_ok_add [OF assms(1) fr_add.IH this] show ?case by simp
qed (simp_all add: assms(1) filters_ok_default filters_ok_remove filters_ok_remove_by_id)

section \<open>Every event once\<close>

text \<open>What the answers mean: an answer for a range is the first page of the events of the ledgers in the range, in
  order. The server chooses the size of a page, since the client sends no limit, and the client never asks for a
  second page. A ledger number has a successor at 32 bits. Requests may fail at any time.\<close>

definition range_events :: "(nat \<Rightarrow> stellar_event_filter \<Rightarrow> 'ev list) \<Rightarrow> stellar_event_filter \<Rightarrow> nat \<Rightarrow> nat \<Rightarrow> 'ev list" where
  "range_events E f a b = concat (map (\<lambda>l. E l f) [Suc a..<Suc b])"

definition answers_of :: "(nat \<Rightarrow> stellar_event_filter \<Rightarrow> 'ev list) \<Rightarrow> nat \<Rightarrow> 'ev stellar_rpc \<Rightarrow> bool" where
  "answers_of E page R =
     ((\<forall>a b f evs. get_events R a b f = Inr evs \<longrightarrow>
         evs = take page (concat (map (\<lambda>l. E l f) [unat a..<unat b]))) \<and>
      (\<forall>l. get_latest_ledger R = Inr l \<longrightarrow> unat l + 1 < 2 ^ 32))"

definition answered :: "'ev stellar_rpc \<Rightarrow> bool" where
  "answered R = (\<forall>a b f. a < b \<longrightarrow> ledger_range_ok R a b \<and> (\<exists>evs. get_events R a b f = Inr evs))"

definition events_for :: "stellar_rpc_id \<Rightarrow> ('ev \<times> stellar_rpc_id list) list \<Rightarrow> 'ev list" where
  "events_for i sent = map fst (filter (\<lambda>(ev, ids). i \<in> set ids) sent)"

text \<open>A run of the poller: polls, with filters added and removed by the trigger manager in between. The cursors of a
  run are the last ledgers before each poll and at the end.\<close>

datatype 'ev poller_step = Poll "'ev stellar_rpc" | Add_Filter stellar_event_filter | Remove_Filter stellar_rpc_id

fun poller_run ::
  "(stellar_event_filter, 'sm) slotmap_ops \<Rightarrow> 'ev poller_step list \<Rightarrow> 'sm stellar_stream_client \<Rightarrow>
   ('ev \<times> stellar_rpc_id list) list \<times> 'sm stellar_stream_client" where
  "poller_run M [] c = ([], c)"
| "poller_run M (Poll R # steps) c =
     (let (sent, c1) = event_poller_turn R c; (more, c2) = poller_run M steps c1 in (sent @ more, c2))"
| "poller_run M (Add_Filter f # steps) c =
     poller_run M steps (c\<lparr>event_filters := snd (add_filter M f (event_filters c))\<rparr>)"
| "poller_run M (Remove_Filter i # steps) c =
     poller_run M steps (c\<lparr>event_filters := remove_filter_by_id M i (event_filters c)\<rparr>)"

fun cursors ::
  "(stellar_event_filter, 'sm) slotmap_ops \<Rightarrow> 'ev poller_step list \<Rightarrow> 'sm stellar_stream_client \<Rightarrow> nat list" where
  "cursors M [] c = [unat (event_last_ledger c)]"
| "cursors M (Poll R # steps) c = unat (event_last_ledger c) # cursors M steps (snd (event_poller_turn R c))"
| "cursors M (Add_Filter f # steps) c =
     cursors M steps (c\<lparr>event_filters := snd (add_filter M f (event_filters c))\<rparr>)"
| "cursors M (Remove_Filter i # steps) c =
     cursors M steps (c\<lparr>event_filters := remove_filter_by_id M i (event_filters c)\<rparr>)"

text \<open>The first pages of the ranges between successive cursors.\<close>

definition first_pages :: "(nat \<Rightarrow> stellar_event_filter \<Rightarrow> 'ev list) \<Rightarrow> nat \<Rightarrow> stellar_event_filter \<Rightarrow> nat list \<Rightarrow> 'ev list" where
  "first_pages E page f ls = concat (map (\<lambda>(a, b). take page (range_events E f a b)) (zip ls (tl ls)))"

lemma events_for_append [simp]: "events_for i (xs @ ys) = events_for i xs @ events_for i ys"
  by (simp add: events_for_def)

lemma events_for_Nil [simp]: "events_for i [] = []"
  by (simp add: events_for_def)

lemma events_for_batch: "events_for i (map (\<lambda>ev. (ev, ids)) evs) = (if i \<in> set ids then evs else [])"
  by (auto simp: events_for_def comp_def filter_map)

lemma collect_batches:
  assumes "collect_results (\<lambda>(f, ids). rbind (map_err h (g f)) (\<lambda>evs. Inr (evs, ids))) t = Inr bs"
    and "table_wf t" "\<And>f' ids'. (f', ids') \<in> set t \<Longrightarrow> i \<in> set ids' \<Longrightarrow> f' = f"
    and "(f, ids) \<in> set t" "i \<in> set ids"
  shows "Inr (events_for i (concat (map (\<lambda>(evs, ids). map (\<lambda>ev. (ev, ids)) evs) bs))) = g f"
proof -
  have none: "events_for i (concat (map (\<lambda>(evs, ids). map (\<lambda>ev. (ev, ids)) evs) bs)) = []"
    if "collect_results (\<lambda>(f, ids). rbind (map_err h (g f)) (\<lambda>evs. Inr (evs, ids))) t = Inr bs"
      "\<forall>p\<in>set t. i \<notin> set (snd p)" for t bs
    using that by (induction t arbitrary: bs) (auto simp: result_iffs events_for_batch)
  show ?thesis
    using assms
  proof (induction t arbitrary: bs)
    case (Cons p t)
    obtain f1 ids1 where p: "p = (f1, ids1)" by fastforce
    from Cons.prems(1) obtain evs bs1 where g: "g f1 = Inr evs" and bs: "bs = (evs, ids1) # bs1"
      and rest: "collect_results (\<lambda>(f, ids). rbind (map_err h (g f)) (\<lambda>evs. Inr (evs, ids))) t = Inr bs1"
      by (auto simp: p result_iffs)
    show ?case
    proof (cases "f1 = f")
      case True
      then have out: "f \<notin> fst ` set t" using Cons.prems(2) by (simp add: p table_wf_def)
      then have "ids1 = ids" using Cons.prems(4) True by (force simp: p)
      moreover have "i \<notin> set (snd q)" if "q \<in> set t" for q
      proof
        assume "i \<in> set (snd q)"
        then have "fst q = f" using that Cons.prems(3) [of "fst q" "snd q"] by simp
        with out that show False by blast
      qed
      then have "\<forall>q\<in>set t. i \<notin> set (snd q)" by blast
      ultimately show ?thesis using none [OF rest] g True Cons.prems(5) by (simp add: bs events_for_batch)
    next
      case False
      then have "i \<notin> set ids1" using Cons.prems(3) [of f1 ids1] by (auto simp: p)
      moreover have "Inr (events_for i (concat (map (\<lambda>(evs, ids). map (\<lambda>ev. (ev, ids)) evs) bs1))) = g f"
      proof (rule Cons.IH [OF rest])
        show "table_wf t" using Cons.prems(2) by (simp add: p table_wf_def)
        show "f' = f" if "(f', ids') \<in> set t" "i \<in> set ids'" for f' ids'
          using that Cons.prems(3) [of f' ids'] by simp
        show "(f, ids) \<in> set t" using Cons.prems(4) False by (simp add: p)
      qed (rule Cons.prems(5))
      ultimately show ?thesis by (simp add: bs events_for_batch)
    qed
  qed simp
qed

lemma fetch_frame:
  "event_filters (snd (fetch_next_events R c)) = event_filters c"
  "sc_friendbot_url (snd (fetch_next_events R c)) = sc_friendbot_url c"
  "event_ledger_once c \<Longrightarrow> event_ledger_once (snd (fetch_next_events R c))"
  by (auto simp: fetch_next_events_def Let_def split: sum.splits)

lemma upt_join: "a \<le> b \<Longrightarrow> b \<le> c \<Longrightarrow> [a..<b] @ [b..<c] = [a..<c]"
  by (metis le_iff_add upt_add_eq_append)

text \<open>One turn delivers the events of the ledgers between the old cursor and the new one.\<close>

lemma event_poller_turn_range:
  assumes ans: "answers_of E page R" and once: "event_ledger_once c"
    and last: "unat (event_last_ledger c) + 1 < 2 ^ 32"
    and ok: "slotmap_laws M ok" "filters_ok M ok (event_filters c)"
    and f: "get_filter M (event_filters c) i = Some f"
    and turn: "event_poller_turn R c = (sent, c')"
  shows "event_last_ledger c \<le> event_last_ledger c' \<and> unat (event_last_ledger c') + 1 < 2 ^ 32 \<and>
    event_ledger_once c' \<and> event_filters c' = event_filters c \<and>
    events_for i sent =
      take page (range_events E f (unat (event_last_ledger c)) (unat (event_last_ledger c')))"
proof -
  obtain r where fetch: "fetch_next_events R c = (r, c')"
    using turn by (auto simp: event_poller_turn_def split: prod.splits sum.splits)
  have frame: "event_filters c' = event_filters c" "event_ledger_once c'"
    using fetch_frame [where R = R and c = c] fetch once by simp_all
  have suc: "unat (event_last_ledger c + 1) = Suc (unat (event_last_ledger c))"
    using last by (simp add: unat_word_ariths)
  show ?thesis
  proof (cases "c' = c")
    case True
    have "events_for i sent = []"
    proof (cases r)
      case (Inr batches)
      then have "batches = [] \<or> (\<exists>curr. get_latest_ledger R = Inr curr \<and> \<not> curr < event_last_ledger c + 1
          \<and> c' = c\<lparr>event_last_ledger := curr\<rparr>)"
        using fetch once by (auto simp: fetch_next_events_def Let_def split: sum.splits if_splits)
      moreover have False if "\<not> curr < event_last_ledger c + 1" "c' = c\<lparr>event_last_ledger := curr\<rparr>" for curr
      proof -
        have "event_last_ledger c' = curr" unfolding that(2) by simp
        then have "event_last_ledger c = curr" unfolding True .
        with that(1) suc show False by (simp add: word_less_nat_alt)
      qed
      ultimately have "batches = []" by blast
      then show ?thesis using turn fetch Inr by (simp add: event_poller_turn_def events_for_def)
    qed (use turn fetch in \<open>simp add: event_poller_turn_def\<close>)
    with True last once show ?thesis by (simp add: range_events_def)
  next
    case False
    then obtain curr where curr: "get_latest_ledger R = Inr curr" "\<not> curr < event_last_ledger c + 1"
      "ledger_range_ok R (event_last_ledger c + 1) (curr + 1)"
      using fetch once by (auto simp: fetch_next_events_def Let_def split: sum.splits if_splits)
    let ?q = "collect_results
           (\<lambda>(f, ids). rbind (map_err SC_Rpc (get_events R (event_last_ledger c + 1) (curr + 1) f))
              (\<lambda>events. Inr (events, ids))) (dedupe_list (event_filters c))"
    have eq: "(r, c') = (case ?q of Inl e \<Rightarrow> (Inl e, c) | Inr b \<Rightarrow> (Inr b, c\<lparr>event_last_ledger := curr\<rparr>))"
      unfolding fetch [symmetric] using curr once
      by (simp add: fetch_next_events_def get_all_filters_with_ids_def)
    have "\<exists>batches. ?q = Inr batches"
    proof (cases ?q)
      case (Inl e)
      with eq False show ?thesis by simp
    qed blast
    then obtain batches where col: "?q = Inr batches" by blast
    from eq have r: "r = Inr batches" and c': "c' = c\<lparr>event_last_ledger := curr\<rparr>"
      by (simp_all add: col)
    have sent: "sent = concat (map (\<lambda>(events, ids). map (\<lambda>ev. (ev, ids)) events) batches)"
      using turn fetch r by (simp add: event_poller_turn_def)
    have ids: "\<And>g j. j \<in> set (get_rpc_ids_for_filter (event_filters c) g) \<longleftrightarrow> get_filter M (event_filters c) j = Some g"
      and wf: "table_wf (dedupe_list (event_filters c))"
      using ok(2) by (simp_all add: filters_ok_def)
    have ent: "g' = f" if "(g', ids') \<in> set (dedupe_list (event_filters c))" "i \<in> set ids'" for g' ids'
      using that f ids [of i g'] in_set_get_cloned [OF wf, of g' ids'] by (simp add: get_rpc_ids_for_filter_def)
    obtain idsf where "(f, idsf) \<in> set (dedupe_list (event_filters c))" "i \<in> set idsf"
      using f ids [of i f] in_set_get_cloned [OF wf]
      by (cases "get_cloned (dedupe_list (event_filters c)) f") (auto simp: get_rpc_ids_for_filter_def)
    from collect_batches [OF col wf ent this]
    have "get_events R (event_last_ledger c + 1) (curr + 1) f = Inr (events_for i sent)"
      by (simp add: sent)
    with ans have "events_for i sent =
        take page (concat (map (\<lambda>l. E l f) [unat (event_last_ledger c + 1)..<unat (curr + 1)]))"
      unfolding answers_of_def by blast
    moreover have lt: "unat curr + 1 < 2 ^ 32" using ans curr(1) by (simp add: answers_of_def)
    then have "unat (curr + 1) = Suc (unat curr)" by (simp add: unat_word_ariths)
    moreover have "event_last_ledger c \<le> curr"
      using curr(2) suc by (simp add: word_less_nat_alt word_le_nat_alt)
    ultimately show ?thesis using frame lt suc by (simp add: c' range_events_def)
  qed
qed

text \<open>A poll that is answered moves the cursor to the latest ledger.\<close>

lemma event_poller_turn_advances:
  assumes "answers_of E page R" "answered R" "get_latest_ledger R = Inr l" "event_ledger_once c"
    "unat (event_last_ledger c) + 1 < 2 ^ 32"
  shows "l \<le> event_last_ledger (snd (event_poller_turn R c))"
proof (cases "l < event_last_ledger c + 1")
  case True
  then have "l \<le> event_last_ledger c" using assms(5) by (simp add: word_less_nat_alt word_le_nat_alt unat_word_ariths)
  with True show ?thesis using assms(3,4) by (simp add: event_poller_turn_def fetch_next_events_def Let_def)
next
  case False
  have "unat l + 1 < 2 ^ 32" using assms(1,3) by (simp add: answers_of_def)
  then have lt: "event_last_ledger c + 1 < l + 1"
    using False assms(5) by (simp add: word_less_nat_alt unat_word_ariths)
  have "\<exists>b. collect_results (\<lambda>(f, ids). rbind (map_err SC_Rpc (get_events R (event_last_ledger c + 1) (l + 1) f))
      (\<lambda>events. Inr (events, ids))) fs = Inr b" for fs
  proof (induction fs)
    case (Cons p fs)
    obtain f ids where p: "p = (f, ids)" by fastforce
    obtain evs where "get_events R (event_last_ledger c + 1) (l + 1) f = Inr evs"
      using assms(2) lt unfolding answered_def by blast
    with Cons show ?case by (auto simp: p)
  qed simp
  then obtain b where "collect_results (\<lambda>(f, ids). rbind (map_err SC_Rpc (get_events R (event_last_ledger c + 1) (l + 1) f))
      (\<lambda>events. Inr (events, ids))) (dedupe_list (event_filters c)) = Inr b" by blast
  moreover have "ledger_range_ok R (event_last_ledger c + 1) (l + 1)" using assms(2) lt unfolding answered_def by blast
  ultimately show ?thesis
    using False assms(3,4) by (simp add: event_poller_turn_def fetch_next_events_def Let_def get_all_filters_with_ids_def)
qed


lemma cursors_Cons: "\<exists>ls. cursors M steps c = unat (event_last_ledger c) # ls"
  by (induction M steps c rule: cursors.induct) simp_all

lemma range_events_join: "a \<le> b \<Longrightarrow> b \<le> c \<Longrightarrow> range_events E f a b @ range_events E f b c = range_events E f a c"
  using upt_join [of "Suc a" "Suc b" "Suc c"] by (simp add: range_events_def flip: concat_append map_append)

lemma poller_run_range:
  assumes ans: "\<And>R. Poll R \<in> set steps \<Longrightarrow> answers_of E page R" and "event_ledger_once c"
    and "unat (event_last_ledger c) + 1 < 2 ^ 32"
    and ok: "slotmap_laws M ok" "filters_ok M ok (event_filters c)"
    and f: "get_filter M (event_filters c) i = Some f" "Remove_Filter i \<notin> set steps"
    and run: "poller_run M steps c = (sent, c')"
  shows "sorted (cursors M steps c) \<and> last (cursors M steps c) = unat (event_last_ledger c') \<and>
    unat (event_last_ledger c') + 1 < 2 ^ 32 \<and> event_ledger_once c' \<and>
    events_for i sent = first_pages E page f (cursors M steps c)"
  using ans assms(2,3) ok(2) f run
proof (induction steps arbitrary: c sent)
  case (Cons st steps)
  show ?case
  proof (cases st)
    case (Poll R)
    obtain s1 c1 where t: "event_poller_turn R c = (s1, c1)" by fastforce
    obtain s2 where rest: "poller_run M steps c1 = (s2, c')" and sent: "sent = s1 @ s2"
      using Cons.prems(7) by (auto simp: t Poll split: prod.splits)
    have "answers_of E page R" using Cons.prems(1) Poll by simp
    note turn = event_poller_turn_range [OF this Cons.prems(2,3) ok(1) Cons.prems(4,5) t]
    have IH: "sorted (cursors M steps c1) \<and> last (cursors M steps c1) = unat (event_last_ledger c') \<and>
        unat (event_last_ledger c') + 1 < 2 ^ 32 \<and> event_ledger_once c' \<and>
        events_for i s2 = first_pages E page f (cursors M steps c1)"
      by (rule Cons.IH) (use turn Cons.prems rest in auto)
    obtain ls where ls: "cursors M steps c1 = unat (event_last_ledger c1) # ls" using cursors_Cons by blast
    have "unat (event_last_ledger c) \<le> unat (event_last_ledger c1)" using turn by (simp add: word_le_nat_alt)
    then show ?thesis using IH turn by (auto simp: Poll t ls sent first_pages_def)
  next
    case (Add_Filter g)
    obtain j F where a: "add_filter M g (event_filters c) = (j, F)" by fastforce
    from filters_ok_add [OF ok(1) Cons.prems(4) a] Cons.prems(5)
    have "filters_ok M ok F" "get_filter M F i = Some f" by auto
    then show ?thesis using Cons.IH [of "c\<lparr>event_filters := F\<rparr>" sent] Cons.prems by (simp add: Add_Filter a)
  next
    case (Remove_Filter j)
    let ?F = "remove_filter_by_id M j (event_filters c)"
    have "filters_ok M ok ?F" by (rule filters_ok_remove_by_id [OF ok(1) Cons.prems(4)])
    moreover have "get_filter M ?F i = Some f"
      using remove_by_id_ids(2) [OF ok(1) Cons.prems(4)] Cons.prems(5,6) by (auto simp: Remove_Filter)
    ultimately show ?thesis using Cons.IH [of "c\<lparr>event_filters := ?F\<rparr>" sent] Cons.prems by (simp add: Remove_Filter)
  qed
qed (simp add: first_pages_def)

text \<open>Pages and the events of the whole range.\<close>

lemma first_pages_range:
  assumes "sorted (a # ls)"
  shows "subseq (first_pages E page f (a # ls)) (range_events E f a (last (a # ls)))"
    and "(\<And>x y. (x, y) \<in> set (zip (a # ls) ls) \<Longrightarrow> length (range_events E f x y) \<le> page) \<Longrightarrow>
      first_pages E page f (a # ls) = range_events E f a (last (a # ls))"
proof -
  have "subseq (first_pages E page f (a # ls)) (range_events E f a (last (a # ls))) \<and>
    ((\<forall>x y. (x, y) \<in> set (zip (a # ls) ls) \<longrightarrow> length (range_events E f x y) \<le> page) \<longrightarrow>
      first_pages E page f (a # ls) = range_events E f a (last (a # ls)))"
    using assms
  proof (induction ls arbitrary: a)
    case Nil
    then show ?case by (simp add: first_pages_def range_events_def)
  next
    case (Cons b ls)
    have ab: "a \<le> b" "b \<le> last (b # ls)" "sorted (b # ls)" using Cons.prems by (auto simp: last_in_set)
    have split: "first_pages E page f (a # b # ls) = take page (range_events E f a b) @ first_pages E page f (b # ls)"
      by (simp add: first_pages_def)
    have join: "range_events E f a (last (a # b # ls)) = range_events E f a b @ range_events E f b (last (b # ls))"
      using range_events_join [OF ab(1,2), of E f] by auto
    have "subseq (take page (range_events E f a b)) (range_events E f a b)" by (simp add: prefix_imp_subseq take_is_prefix)
    then have "subseq (first_pages E page f (a # b # ls)) (range_events E f a (last (a # b # ls)))"
      unfolding split join using Cons.IH [OF ab(3)] by (intro list_emb_append_mono) auto
    moreover have "first_pages E page f (a # b # ls) = range_events E f a (last (a # b # ls))"
      if "\<forall>x y. (x, y) \<in> set (zip (a # b # ls) (b # ls)) \<longrightarrow> length (range_events E f x y) \<le> page"
      unfolding split join using that Cons.IH [OF ab(3)] by simp
    ultimately show ?case by blast
  qed
  then show "subseq (first_pages E page f (a # ls)) (range_events E f a (last (a # ls)))"
    and "(\<And>x y. (x, y) \<in> set (zip (a # ls) ls) \<Longrightarrow> length (range_events E f x y) \<le> page) \<Longrightarrow>
      first_pages E page f (a # ls) = range_events E f a (last (a # ls))" by blast+
qed

lemma poller_run_snoc:
  "poller_run M (steps @ [Poll R]) c =
     (case poller_run M steps c of (sent, c1) \<Rightarrow> (case event_poller_turn R c1 of (s, c2) \<Rightarrow> (sent @ s, c2)))"
  by (induction M steps c rule: poller_run.induct) (simp_all add: Let_def split: prod.splits)


text \<open>An event that a full page cuts off is never delivered: the cursor moves past its ledger all the same.\<close>

lemma stellar_full_page_loses_events:
  assumes "\<And>R. Poll R \<in> set steps \<Longrightarrow> answers_of E page R" "event_ledger_once c"
    and "unat (event_last_ledger c) + 1 < 2 ^ 32" "slotmap_laws M ok" "filters_reachable M (event_filters c)"
    and "get_filter M (event_filters c) i = Some f" "Remove_Filter i \<notin> set steps" "poller_run M steps c = (sent, c')"
    and "(a, b) \<in> set (zip (cursors M steps c) (tl (cursors M steps c)))" "page < length (range_events E f a b)"
  shows "length (events_for i sent) < length (range_events E f (unat (event_last_ledger c)) (unat (event_last_ledger c')))"
proof -
  have run: "sorted (cursors M steps c)" "last (cursors M steps c) = unat (event_last_ledger c')"
      "events_for i sent = first_pages E page f (cursors M steps c)"
    using poller_run_range [OF assms(1-4) filters_reachable_ok [OF assms(4,5)] assms(6-8)] by blast+
  have "length (first_pages E page f (x # ls)) < length (range_events E f x (last (x # ls)))"
    if "sorted (x # ls)" "(a, b) \<in> set (zip (x # ls) ls)" for x ls
    using that
  proof (induction ls arbitrary: x)
    case (Cons y ls)
    have xy: "x \<le> y" "y \<le> last (y # ls)" "sorted (y # ls)" using Cons.prems by (auto simp: last_in_set)
    have split: "first_pages E page f (x # y # ls) = take page (range_events E f x y) @ first_pages E page f (y # ls)"
      by (simp add: first_pages_def)
    have join: "range_events E f x (last (x # y # ls)) = range_events E f x y @ range_events E f y (last (y # ls))"
      using range_events_join [OF xy(1,2), of E f] by auto
    have le: "length (first_pages E page f (y # ls)) \<le> length (range_events E f y (last (y # ls)))"
      using first_pages_range(1) [OF xy(3)] by (rule list_emb_length)
    show ?case
    proof (cases "(a, b) = (x, y)")
      case True
      then show ?thesis unfolding split join using le assms(10) by auto
    next
      case False
      then have "(a, b) \<in> set (zip (y # ls) ls)" using Cons.prems(2) by auto
      from Cons.IH [OF xy(3) this] show ?thesis unfolding split join by simp
    qed
  qed simp
  moreover obtain ls where ls: "cursors M steps c = unat (event_last_ledger c) # ls" using cursors_Cons by blast
  ultimately show ?thesis using run assms(9) unfolding ls by (metis list.sel(3))
qed

definition demo_filter :: stellar_event_filter where
  "demo_filter = \<lparr>sf_contract_id = ''CA'', topic_segments_xdr_base64 = [''*'']\<rparr>"

definition demo_stellar_rpc :: "string + u32 \<Rightarrow> bool \<Rightarrow> nat stellar_rpc" where
  "demo_stellar_rpc latest works =
     \<lparr>get_latest_ledger = latest, ledger_range_ok = (\<lambda>a b. a < b),
      get_events = (\<lambda>a b f. if works then Inr (take 100 [unat a..<unat b]) else Inl ''timeout'')\<rparr>"


text \<open>
  In every state of the event filters that the operations can reach, dropping one filter id drops exactly this
  id: every other id keeps its filter and stays listed with it, so the client keeps polling a filter as
  long as any workflow uses it, and stops when the last one is gone.
\<close>

lemma filter_removal_keeps_siblings:
  assumes "slotmap_laws M ok" "filters_reachable M F"
  shows "get_rpc_ids_for_filter (remove_filter_by_id M i F) f = removeAll i (get_rpc_ids_for_filter F f) \<and>
    get_filter M (remove_filter_by_id M i F) = (get_filter M F)(i := None) \<and>
    (f \<in> fst ` set (get_all_filters_with_ids (remove_filter_by_id M i F)) \<longleftrightarrow>
      (\<exists>j. j \<noteq> i \<and> get_filter M F j = Some f))"
proof -
  note ok = filters_reachable_ok [OF assms]
  note rm = remove_by_id_ids [OF assms(1) ok, of i]
  have ok': "filters_ok M ok (remove_filter_by_id M i F)" by (rule filters_ok_remove_by_id [OF assms(1) ok])
  have "f \<in> fst ` set (dedupe_list G) \<longleftrightarrow> (\<exists>j. get_filter M G j = Some f)" if "filters_ok M ok G" for G
  proof -
    have "f \<in> fst ` set (dedupe_list G) \<longleftrightarrow> get_rpc_ids_for_filter G f \<noteq> []"
      using that contains_key_iff [of "dedupe_list G" f]
      by (auto simp: filters_ok_def get_rpc_ids_for_filter_def contains_key_def split: option.splits)
    also have "\<dots> \<longleftrightarrow> (\<exists>j. j \<in> set (get_rpc_ids_for_filter G f))" by (metis last_in_set list.set_cases neq_Nil_conv)
    finally show ?thesis using that by (simp add: filters_ok_def)
  qed
  from this [OF ok'] rm show ?thesis by (auto simp: get_all_filters_with_ids_def)
qed

lemma filter_removal_keeps_siblings_witness:
  "let F = snd (add_filter demo_slotmap demo_filter (snd (add_filter demo_slotmap demo_filter
         (event_filters_default demo_slotmap))))
   in get_rpc_ids_for_filter (remove_filter_by_id demo_slotmap 0 F) demo_filter = [1]"
proof -
  let ?F = "snd (add_filter demo_slotmap demo_filter (snd (add_filter demo_slotmap demo_filter
         (event_filters_default demo_slotmap))))"
  have "filters_reachable demo_slotmap ?F" by (intro fr_add fr_default)
  from filter_removal_keeps_siblings [OF demo_slotmap_laws this, of 0 demo_filter]
  have "get_rpc_ids_for_filter (remove_filter_by_id demo_slotmap 0 ?F) demo_filter
      = removeAll 0 (get_rpc_ids_for_filter ?F demo_filter)" by blast
  also have "get_rpc_ids_for_filter ?F demo_filter = [0, 1]"
    by (simp add: add_filter_def demo_slotmap_def event_filters_default_def table_new_def table_insert_def
        get_rpc_ids_for_filter_def get_cloned_def)
  finally show ?thesis by simp
qed

end
