(* ===== verification/Lookup.thy ===== *)
theory Lookup
  imports Services Block_Sched Cron_Sched Stellar_Stream
begin

text \<open>
  The lookup tables of the trigger manager, from \<^verbatim>\<open>subsystems/trigger/lookup.rs\<close>: every trigger gets a
  lookup id from a 64-bit counter, one table maps ids to trigger configurations, and one index per kind
  of trigger maps what an event carries to ids. A hash set of ids is a list without duplicates, whose
  order stands for the unspecified order of iteration; a \<open>BiMap\<close> is its list of pairs, where an
  insertion drops the pairs that share either side. The Stellar clients are passed along, as in the
  code. The state holds no lock: every operation runs alone, as under the write locks of the code.
\<close>

datatype trigger_error =
    TE_Climb string
  | TE_EvmMissingWebsocket chain_key
  | TE_NoSuchService service_id
  | TE_NoSuchWorkflow service_id workflow_id
  | TE_NoSuchTriggerData lookup_id
  | TE_Cron string string
  | TE_IntervalStartAfterEnd
  | TE_DispatcherCommandSendError
  | TE_LocalCommandError
  | TE_EventIndexConversion
  | TE_URICreation string
  | TE_JetstreamConnection string
  | TE_JetstreamConfig string
  | TE_JetstreamParse string
  | TE_StellarMissingRpc chain_key
  | TE_StellarClient stellar_client_error
  | TE_StellarMissingClient chain_key

section \<open>Hash maps of hash sets and bidirectional maps\<close>

definition entry_ids :: "('k, lookup_id list) table \<Rightarrow> 'k \<Rightarrow> lookup_id list" where
  "entry_ids t k = (case get_cloned t k of None \<Rightarrow> [] | Some s \<Rightarrow> s)"

definition entry_insert :: "'k \<Rightarrow> lookup_id \<Rightarrow> ('k, lookup_id list) table \<Rightarrow> ('k, lookup_id list) table" where
  "entry_insert k i t = table_insert k (List.insert i (entry_ids t k)) t"

definition entry_remove :: "'k \<Rightarrow> lookup_id \<Rightarrow> ('k, lookup_id list) table \<Rightarrow> ('k, lookup_id list) table" where
  "entry_remove k i t =
     (case get_cloned t k of
        None \<Rightarrow> t
      | Some s \<Rightarrow>
          let s' = removeAll i s
          in if s' = [] then snd (table_remove k t) else table_insert k s' t)"

type_synonym ('a, 'b) bimap = "('a \<times> 'b) list"

definition bimap_insert :: "'a \<Rightarrow> 'b \<Rightarrow> ('a, 'b) bimap \<Rightarrow> ('a, 'b) bimap" where
  "bimap_insert a b m = (a, b) # filter (\<lambda>p. fst p \<noteq> a \<and> snd p \<noteq> b) m"

definition bimap_get_by_left :: "('a, 'b) bimap \<Rightarrow> 'a \<Rightarrow> 'b option" where
  "bimap_get_by_left m a = map_of m a"

definition bimap_get_by_right :: "('a, 'b) bimap \<Rightarrow> 'b \<Rightarrow> 'a option" where
  "bimap_get_by_right m b = map_of (map prod.swap m) b"

definition bimap_remove_by_left :: "'a \<Rightarrow> ('a, 'b) bimap \<Rightarrow> ('a, 'b) bimap" where
  "bimap_remove_by_left a m = filter (\<lambda>p. fst p \<noteq> a) m"

definition bimap_remove_by_right :: "'b \<Rightarrow> ('a, 'b) bimap \<Rightarrow> 'a option \<times> ('a, 'b) bimap" where
  "bimap_remove_by_right b m = (bimap_get_by_right m b, filter (\<lambda>p. snd p \<noteq> b) m)"

section \<open>State and operations\<close>

type_synonym cron_scheduler = "(cron_interval_state, timestamp) interval_scheduler"
type_synonym atproto_key = "string \<times> string option \<times> at_proto_action option"
type_synonym 'sm stellar_controllers = "(chain_key, 'sm stellar_stream_controller) table"

record lookup_maps =
  trigger_configs :: "(lookup_id \<times> trigger_config) list"
  triggers_by_cosmos_contract_event :: "(chain_key \<times> cosmos_addr \<times> string, lookup_id list) table"
  triggers_by_evm_contract_event :: "(chain_key \<times> evm_address \<times> bytes, lookup_id list) table"
  triggers_by_stellar_contract_event :: "(stellar_rpc_id, lookup_id) bimap"
  triggers_by_atproto_event_exact :: "(atproto_key, lookup_id list) table"
  triggers_by_atproto_event_pattern :: "(atproto_key, lookup_id list) table"
  service_manager_map :: "(service_id, chain_address) bimap"
  block_schedulers :: "(chain_key, block_scheduler) table"
  triggers_by_service_workflow :: "(service_id \<times> (workflow_id \<times> lookup_id) list) list"
  next_lookup_id :: lookup_id
  lm_cron_scheduler :: cron_scheduler

definition lookup_maps_new :: lookup_maps where
  "lookup_maps_new =
     \<lparr>trigger_configs = [], triggers_by_cosmos_contract_event = table_new,
      triggers_by_evm_contract_event = table_new, triggers_by_stellar_contract_event = [],
      triggers_by_atproto_event_exact = table_new, triggers_by_atproto_event_pattern = table_new,
      service_manager_map = [], block_schedulers = table_new, triggers_by_service_workflow = [],
      next_lookup_id = 0, lm_cron_scheduler = scheduler_new\<rparr>"

definition get_trigger_config :: "wavs_db \<Rightarrow> lookup_maps \<Rightarrow> lookup_id \<Rightarrow> trigger_config option" where
  "get_trigger_config db L i =
     (case map_of (trigger_configs L) i of
        None \<Rightarrow> None
      | Some cfg \<Rightarrow> if services_is_active db (tc_service_id cfg) then Some cfg else None)"

definition get_trigger_configs :: "wavs_db \<Rightarrow> lookup_maps \<Rightarrow> lookup_id list \<Rightarrow> trigger_config list" where
  "get_trigger_configs db L ids =
     filter (\<lambda>cfg. services_is_active db (tc_service_id cfg))
       (List.map_filter (map_of (trigger_configs L)) ids)"

text \<open>The crates the tables rely on: the slot map of the Stellar clients, the XDR encoder and the parser of
  cron expressions.\<close>

record 'sm trigger_env =
  te_slotmap :: "(stellar_event_filter, 'sm) slotmap_ops"
  te_to_xdr :: "opaque \<Rightarrow> string + string"
  te_cron_parse :: "string \<Rightarrow> string + cron_schedule"

definition block_scheduler_of :: "lookup_maps \<Rightarrow> chain_key \<Rightarrow> block_scheduler" where
  "block_scheduler_of L chain =
     (case get_cloned (block_schedulers L) chain of None \<Rightarrow> scheduler_new | Some s \<Rightarrow> s)"

text \<open>\<open>client.update_event_filters\<close> of the controller of a chain.\<close>

definition update_event_filters ::
  "('sm event_filters \<Rightarrow> 'a \<times> 'sm event_filters) \<Rightarrow> 'sm stellar_stream_controller \<Rightarrow>
   'a \<times> 'sm stellar_stream_controller" where
  "update_event_filters f c =
     (let (r, F) = f (event_filters (client c))
      in (r, c\<lparr>client := (client c)\<lparr>event_filters := F\<rparr>\<rparr>))"

definition has_star :: "string \<Rightarrow> bool" where
  "has_star s = (CHR ''*'' \<in> set s)"

text \<open>The part of \<open>add_trigger\<close> that depends on the kind of trigger. An interval trigger with a start after its
  end is refused after the scheduler of the chain has been created.\<close>

fun index_trigger ::
  "'sm trigger_env \<Rightarrow> lookup_id \<Rightarrow> trigger \<Rightarrow> lookup_maps \<Rightarrow> 'sm stellar_controllers \<Rightarrow>
   (trigger_error + unit) \<times> lookup_maps \<times> 'sm stellar_controllers" where
  "index_trigger E i (EvmContractEvent address chain event_hash) L ctrls =
     (Inr (), L\<lparr>triggers_by_evm_contract_event :=
        entry_insert (chain, address, event_hash) i (triggers_by_evm_contract_event L)\<rparr>, ctrls)"
| "index_trigger E i (CosmosContractEvent address chain event_type) L ctrls =
     (Inr (), L\<lparr>triggers_by_cosmos_contract_event :=
        entry_insert (chain, address, event_type) i (triggers_by_cosmos_contract_event L)\<rparr>, ctrls)"
| "index_trigger E i (StellarContractEvent chain contract topics) L ctrls =
     (case stellar_event_filter_new (te_to_xdr E) contract topics of
        Inl e \<Rightarrow> (Inl (TE_StellarClient e), L, ctrls)
      | Inr f \<Rightarrow>
          (case get_cloned ctrls chain of
             None \<Rightarrow> (Inl (TE_StellarMissingClient chain), L, ctrls)
           | Some c \<Rightarrow>
               let (rpc_id, c') = update_event_filters (add_filter (te_slotmap E) f) c
               in (Inr (), L\<lparr>triggers_by_stellar_contract_event :=
                     bimap_insert rpc_id i (triggers_by_stellar_contract_event L)\<rparr>,
                   table_insert chain c' ctrls)))"
| "index_trigger E i (BlockInterval chain n_blocks start_block end_block) L ctrls =
     (let L1 = L\<lparr>block_schedulers := table_insert chain (block_scheduler_of L chain) (block_schedulers L)\<rparr>
      in case scheduler_add_trigger block_ops (block_interval_state_new i n_blocks start_block end_block)
                (block_scheduler_of L chain) of
           Inl _ \<Rightarrow> (Inl TE_IntervalStartAfterEnd, L1, ctrls)
         | Inr (_, s) \<Rightarrow> (Inr (), L1\<lparr>block_schedulers := table_insert chain s (block_schedulers L1)\<rparr>, ctrls))"
| "index_trigger E i (Cron schedule start_time end_time) L ctrls =
     (case cron_interval_state_new (te_cron_parse E) i schedule start_time end_time of
        Inl (CronError expression reason) \<Rightarrow> (Inl (TE_Cron expression reason), L, ctrls)
      | Inr st \<Rightarrow>
          (case scheduler_add_trigger cron_ops st (lm_cron_scheduler L) of
             Inl _ \<Rightarrow> (Inl TE_IntervalStartAfterEnd, L, ctrls)
           | Inr (_, s) \<Rightarrow> (Inr (), L\<lparr>lm_cron_scheduler := s\<rparr>, ctrls)))"
| "index_trigger E i (AtProtoEvent collection repo_did action) L ctrls =
     (let key = (collection, repo_did, action)
      in if has_star collection
         then (Inr (), L\<lparr>triggers_by_atproto_event_pattern :=
                 entry_insert key i (triggers_by_atproto_event_pattern L)\<rparr>, ctrls)
         else (Inr (), L\<lparr>triggers_by_atproto_event_exact :=
                 entry_insert key i (triggers_by_atproto_event_exact L)\<rparr>, ctrls))"
| "index_trigger E i Manual L ctrls = (Inr (), L, ctrls)"

definition workflow_map :: "lookup_maps \<Rightarrow> service_id \<Rightarrow> (workflow_id \<times> lookup_id) list" where
  "workflow_map L s = (case map_of (triggers_by_service_workflow L) s of None \<Rightarrow> [] | Some m \<Rightarrow> m)"

definition lookup_add_trigger ::
  "'sm trigger_env \<Rightarrow> trigger_config \<Rightarrow> lookup_maps \<Rightarrow> 'sm stellar_controllers \<Rightarrow>
   (trigger_error + unit) \<times> lookup_maps \<times> 'sm stellar_controllers" where
  "lookup_add_trigger E cfg L ctrls =
     (let i = next_lookup_id L;
          L0 = L\<lparr>next_lookup_id := i + 1\<rparr>
      in case index_trigger E i (tc_trigger cfg) L0 ctrls of
           (Inl e, L1, ctrls1) \<Rightarrow> (Inl e, L1, ctrls1)
         | (Inr _, L1, ctrls1) \<Rightarrow>
             (Inr (),
              L1\<lparr>triggers_by_service_workflow :=
                   omap_insert (tc_service_id cfg)
                     (omap_insert (tc_workflow_id cfg) i (workflow_map L1 (tc_service_id cfg)))
                     (triggers_by_service_workflow L1),
                 trigger_configs := omap_insert i cfg (trigger_configs L1)\<rparr>,
              ctrls1))"

fun add_triggers ::
  "'sm trigger_env \<Rightarrow> trigger_config list \<Rightarrow> lookup_maps \<Rightarrow> 'sm stellar_controllers \<Rightarrow>
   (trigger_error + unit) \<times> lookup_maps \<times> 'sm stellar_controllers" where
  "add_triggers E [] L ctrls = (Inr (), L, ctrls)"
| "add_triggers E (cfg # cfgs) L ctrls =
     (case lookup_add_trigger E cfg L ctrls of
        (Inl e, L1, ctrls1) \<Rightarrow> (Inl e, L1, ctrls1)
      | (Inr _, L1, ctrls1) \<Rightarrow> add_triggers E cfgs L1 ctrls1)"

definition trigger_configs_of :: "service_id \<Rightarrow> service \<Rightarrow> trigger_config list" where
  "trigger_configs_of s svc =
     map (\<lambda>(w, wf). \<lparr>tc_service_id = s, tc_workflow_id = w, tc_trigger = wf_trigger wf\<rparr>) (workflows svc)"

definition lookup_add_service ::
  "crypto \<Rightarrow> 'sm trigger_env \<Rightarrow> service \<Rightarrow> lookup_maps \<Rightarrow> 'sm stellar_controllers \<Rightarrow>
   (trigger_error + unit) \<times> lookup_maps \<times> 'sm stellar_controllers" where
  "lookup_add_service C E svc L ctrls =
     (let s = service_id_of C svc
      in add_triggers E (trigger_configs_of s svc)
           (L\<lparr>service_manager_map := bimap_insert s (manager_address (manager svc)) (service_manager_map L)\<rparr>)
           ctrls)"

text \<open>The removal of one id from the index of its kind, shared by \<open>remove_workflow\<close> and \<open>remove_service\<close>. A
  Stellar trigger is dropped from the table before its client is looked up.\<close>

fun unindex_trigger ::
  "'sm trigger_env \<Rightarrow> lookup_id \<Rightarrow> trigger \<Rightarrow> lookup_maps \<Rightarrow> 'sm stellar_controllers \<Rightarrow>
   (trigger_error + unit) \<times> lookup_maps \<times> 'sm stellar_controllers" where
  "unindex_trigger E i (EvmContractEvent address chain event_hash) L ctrls =
     (Inr (), L\<lparr>triggers_by_evm_contract_event :=
        entry_remove (chain, address, event_hash) i (triggers_by_evm_contract_event L)\<rparr>, ctrls)"
| "unindex_trigger E i (CosmosContractEvent address chain event_type) L ctrls =
     (Inr (), L\<lparr>triggers_by_cosmos_contract_event :=
        entry_remove (chain, address, event_type) i (triggers_by_cosmos_contract_event L)\<rparr>, ctrls)"
| "unindex_trigger E i (StellarContractEvent chain contract topics) L ctrls =
     (case bimap_remove_by_right i (triggers_by_stellar_contract_event L) of
        (None, m) \<Rightarrow> (Inr (), L\<lparr>triggers_by_stellar_contract_event := m\<rparr>, ctrls)
      | (Some rpc_id, m) \<Rightarrow>
          (case get_cloned ctrls chain of
             None \<Rightarrow> (Inl (TE_StellarMissingClient chain), L\<lparr>triggers_by_stellar_contract_event := m\<rparr>, ctrls)
           | Some c \<Rightarrow>
               (Inr (), L\<lparr>triggers_by_stellar_contract_event := m\<rparr>,
                table_insert chain
                  (snd (update_event_filters (\<lambda>F. ((), remove_filter_by_id (te_slotmap E) rpc_id F)) c)) ctrls)))"
| "unindex_trigger E i (BlockInterval chain n_blocks start_block end_block) L ctrls =
     (case get_cloned (block_schedulers L) chain of
        None \<Rightarrow> (Inr (), L, ctrls)
      | Some s \<Rightarrow> (Inr (), L\<lparr>block_schedulers :=
           table_insert chain (snd (scheduler_remove_trigger block_ops i s)) (block_schedulers L)\<rparr>, ctrls))"
| "unindex_trigger E i (Cron schedule start_time end_time) L ctrls =
     (Inr (), L\<lparr>lm_cron_scheduler := snd (scheduler_remove_trigger cron_ops i (lm_cron_scheduler L))\<rparr>, ctrls)"
| "unindex_trigger E i Manual L ctrls = (Inr (), L, ctrls)"
| "unindex_trigger E i (AtProtoEvent collection repo_did action) L ctrls =
     (let key = (collection, repo_did, action)
      in if has_star collection
         then (Inr (), L\<lparr>triggers_by_atproto_event_pattern :=
                 entry_remove key i (triggers_by_atproto_event_pattern L)\<rparr>, ctrls)
         else (Inr (), L\<lparr>triggers_by_atproto_event_exact :=
                 entry_remove key i (triggers_by_atproto_event_exact L)\<rparr>, ctrls))"

definition remove_workflow ::
  "'sm trigger_env \<Rightarrow> service_id \<Rightarrow> workflow_id \<Rightarrow> lookup_maps \<Rightarrow> 'sm stellar_controllers \<Rightarrow>
   (trigger_error + unit) \<times> lookup_maps \<times> 'sm stellar_controllers" where
  "remove_workflow E s w L ctrls =
     (case map_of (triggers_by_service_workflow L) s of
        None \<Rightarrow> (Inl (TE_NoSuchService s), L, ctrls)
      | Some m \<Rightarrow>
          (case map_of m w of
             None \<Rightarrow> (Inl (TE_NoSuchWorkflow s w), L, ctrls)
           | Some i \<Rightarrow>
               let L1 = L\<lparr>triggers_by_service_workflow :=
                            omap_insert s (omap_remove w m) (triggers_by_service_workflow L)\<rparr>
               in case (case map_of (trigger_configs L) i of
                          None \<Rightarrow> (Inr (), L1, ctrls)
                        | Some cfg \<Rightarrow> unindex_trigger E i (tc_trigger cfg) L1 ctrls) of
                    (Inl e, L2, ctrls2) \<Rightarrow> (Inl e, L2, ctrls2)
                  | (Inr _, L2, ctrls2) \<Rightarrow>
                      (Inr (), L2\<lparr>trigger_configs := omap_remove i (trigger_configs L2)\<rparr>, ctrls2)))"

fun unindex_all ::
  "'sm trigger_env \<Rightarrow> lookup_id list \<Rightarrow> lookup_maps \<Rightarrow> 'sm stellar_controllers \<Rightarrow>
   (trigger_error + unit) \<times> lookup_maps \<times> 'sm stellar_controllers" where
  "unindex_all E [] L ctrls = (Inr (), L, ctrls)"
| "unindex_all E (i # ids) L ctrls =
     (case map_of (trigger_configs L) i of
        None \<Rightarrow> unindex_all E ids L ctrls
      | Some cfg \<Rightarrow>
          (case unindex_trigger E i (tc_trigger cfg) L ctrls of
             (Inl e, L1, ctrls1) \<Rightarrow> (Inl e, L1, ctrls1)
           | (Inr _, L1, ctrls1) \<Rightarrow> unindex_all E ids L1 ctrls1))"

definition lookup_remove_service ::
  "'sm trigger_env \<Rightarrow> service_id \<Rightarrow> lookup_maps \<Rightarrow> 'sm stellar_controllers \<Rightarrow>
   (trigger_error + unit) \<times> lookup_maps \<times> 'sm stellar_controllers" where
  "lookup_remove_service E s L ctrls =
     (let L0 = L\<lparr>service_manager_map := bimap_remove_by_left s (service_manager_map L)\<rparr>
      in case map_of (triggers_by_service_workflow L0) s of
           None \<Rightarrow> (Inr (), L0, ctrls)
         | Some m \<Rightarrow>
             let ids = map snd m
             in case unindex_all E ids L0 ctrls of
                  (Inl e, L1, ctrls1) \<Rightarrow> (Inl e, L1, ctrls1)
                | (Inr _, L1, ctrls1) \<Rightarrow>
                    (Inr (), L1\<lparr>trigger_configs := fold omap_remove ids (trigger_configs L1),
                                triggers_by_service_workflow :=
                                  omap_remove s (triggers_by_service_workflow L1)\<rparr>, ctrls1))"

definition configs_for_service :: "lookup_maps \<Rightarrow> service_id \<Rightarrow> trigger_error + trigger_config list" where
  "configs_for_service L s =
     rbind (ok_or (map_of (triggers_by_service_workflow L) s) (TE_NoSuchService s)) (\<lambda>m.
     collect_results (\<lambda>i. ok_or (map_of (trigger_configs L) i) (TE_NoSuchTriggerData i)) (map snd m))"

section \<open>What the indexes hold\<close>

text \<open>The place in the indexes where a trigger belongs, and the ids found at a place. For the schedulers these
  are the ids of the duplicate check, which a tick does not change.\<close>

datatype index_key =
    IK_Evm "chain_key \<times> evm_address \<times> bytes"
  | IK_Cosmos "chain_key \<times> cosmos_addr \<times> string"
  | IK_Stellar
  | IK_Block chain_key
  | IK_Cron
  | IK_AtProtoExact atproto_key
  | IK_AtProtoPattern atproto_key

fun index_key_of :: "trigger \<Rightarrow> index_key option" where
  "index_key_of (EvmContractEvent address chain event_hash) = Some (IK_Evm (chain, address, event_hash))"
| "index_key_of (CosmosContractEvent address chain event_type) = Some (IK_Cosmos (chain, address, event_type))"
| "index_key_of (StellarContractEvent chain contract topics) = Some IK_Stellar"
| "index_key_of (BlockInterval chain n s e) = Some (IK_Block chain)"
| "index_key_of (Cron schedule s e) = Some IK_Cron"
| "index_key_of (AtProtoEvent collection repo_did action) =
     Some (if has_star collection then IK_AtProtoPattern (collection, repo_did, action)
           else IK_AtProtoExact (collection, repo_did, action))"
| "index_key_of Manual = None"

fun indexed :: "lookup_maps \<Rightarrow> index_key \<Rightarrow> lookup_id set" where
  "indexed L (IK_Evm k) = set (entry_ids (triggers_by_evm_contract_event L) k)"
| "indexed L (IK_Cosmos k) = set (entry_ids (triggers_by_cosmos_contract_event L) k)"
| "indexed L IK_Stellar = snd ` set (triggers_by_stellar_contract_event L)"
| "indexed L (IK_Block chain) = trigger_ids (block_scheduler_of L chain)"
| "indexed L IK_Cron = trigger_ids (lm_cron_scheduler L)"
| "indexed L (IK_AtProtoExact k) = set (entry_ids (triggers_by_atproto_event_exact L) k)"
| "indexed L (IK_AtProtoPattern k) = set (entry_ids (triggers_by_atproto_event_pattern L) k)"

definition scheds_ok :: "lookup_maps \<Rightarrow> bool" where
  "scheds_ok L =
     (sched_inv cron_ops (lm_cron_scheduler L) \<and> (\<forall>chain. sched_inv block_ops (block_scheduler_of L chain)))"

lemma set_entry_insert [simp]:
  "set (entry_ids (entry_insert k i t) k') = set (entry_ids t k') \<union> (if k' = k then {i} else {})"
  by (auto simp: entry_ids_def entry_insert_def split: option.splits)

lemma set_entry_remove [simp]:
  "set (entry_ids (entry_remove k i t) k') = set (entry_ids t k') - (if k' = k then {i} else {})"
  by (cases "get_cloned t k")
    (auto simp: entry_ids_def entry_remove_def Let_def removeAll_filter_not_eq filter_empty_conv)

lemma block_scheduler_of_insert [simp]:
  "block_scheduler_of (L\<lparr>block_schedulers := table_insert chain s t\<rparr>) chain' =
     (if chain' = chain then s
      else case get_cloned t chain' of None \<Rightarrow> scheduler_new | Some s \<Rightarrow> s)"
  by (simp add: block_scheduler_of_def)

lemma block_scheduler_of_frame [simp]:
  "block_scheduler_of (L\<lparr>triggers_by_evm_contract_event := a\<rparr>) = block_scheduler_of L"
  "block_scheduler_of (L\<lparr>triggers_by_cosmos_contract_event := b\<rparr>) = block_scheduler_of L"
  "block_scheduler_of (L\<lparr>triggers_by_stellar_contract_event := c\<rparr>) = block_scheduler_of L"
  "block_scheduler_of (L\<lparr>triggers_by_atproto_event_exact := d\<rparr>) = block_scheduler_of L"
  "block_scheduler_of (L\<lparr>triggers_by_atproto_event_pattern := e\<rparr>) = block_scheduler_of L"
  "block_scheduler_of (L\<lparr>lm_cron_scheduler := f\<rparr>) = block_scheduler_of L"
  "block_scheduler_of (L\<lparr>service_manager_map := g\<rparr>) = block_scheduler_of L"
  "block_scheduler_of (L\<lparr>trigger_configs := h\<rparr>) = block_scheduler_of L"
  "block_scheduler_of (L\<lparr>triggers_by_service_workflow := j\<rparr>) = block_scheduler_of L"
  "block_scheduler_of (L\<lparr>next_lookup_id := l\<rparr>) = block_scheduler_of L"
  by (simp_all add: block_scheduler_of_def fun_eq_iff)

lemma indexed_frame [simp]:
  "indexed (L\<lparr>service_manager_map := g\<rparr>) k = indexed L k"
  "indexed (L\<lparr>trigger_configs := h\<rparr>) k = indexed L k"
  "indexed (L\<lparr>triggers_by_service_workflow := j\<rparr>) k = indexed L k"
  "indexed (L\<lparr>next_lookup_id := l\<rparr>) k = indexed L k"
  by (cases k; simp)+

lemma trigger_ids_add:
  "scheduler_add_trigger ops st S = Inr (b, S') \<Longrightarrow> trigger_ids S' = insert (op_lookup_id ops st) (trigger_ids S)"
  by (auto simp: scheduler_add_trigger_def Let_def split: if_splits)

lemma trigger_ids_remove [simp]:
  "trigger_ids (snd (scheduler_remove_trigger ops i S)) = trigger_ids S - {i}"
  by (simp add: scheduler_remove_trigger_def)

text \<open>Adding an id to the index of its kind.\<close>

lemma index_trigger_frame:
  "index_trigger E i t L ctrls = (r, L', ctrls') \<Longrightarrow>
   trigger_configs L' = trigger_configs L \<and> triggers_by_service_workflow L' = triggers_by_service_workflow L \<and>
   next_lookup_id L' = next_lookup_id L \<and> service_manager_map L' = service_manager_map L"
  by (cases t) (auto simp: Let_def split: sum.splits option.splits prod.splits cron_error.splits if_splits)

lemma index_trigger_error:
  assumes "index_trigger E i t L ctrls = (Inl e, L', ctrls')"
  shows "indexed L' k = indexed L k"
  using assms by (cases t; cases k)
    (auto simp: Let_def block_scheduler_of_def split: sum.splits option.splits prod.splits cron_error.splits if_splits)

lemma index_trigger_ok:
  assumes "index_trigger E i t L ctrls = (Inr u, L', ctrls')"
  shows "k \<noteq> IK_Stellar \<Longrightarrow> indexed L' k = indexed L k \<union> (if index_key_of t = Some k then {i} else {})"
    and "indexed L' IK_Stellar \<subseteq> indexed L IK_Stellar \<union> (if index_key_of t = Some IK_Stellar then {i} else {})"
  using assms
  by (cases t; cases k; auto simp: Let_def block_scheduler_of_def bimap_insert_def block_interval_state_new_def
      cron_interval_state_new_def result_iffs
      split: sum.splits option.splits prod.splits cron_error.splits if_splits dest!: trigger_ids_add; fail)+

text \<open>Removing an id from the index of its kind, whether or not an error is returned.\<close>

lemma unindex_trigger_frame:
  "unindex_trigger E i t L ctrls = (r, L', ctrls') \<Longrightarrow>
   trigger_configs L' = trigger_configs L \<and> triggers_by_service_workflow L' = triggers_by_service_workflow L \<and>
   next_lookup_id L' = next_lookup_id L \<and> service_manager_map L' = service_manager_map L"
  by (cases t) (auto simp: Let_def split: option.splits prod.splits if_splits)

lemma unindex_trigger_indexed:
  assumes "unindex_trigger E i t L ctrls = (r, L', ctrls')"
  shows "indexed L' k = indexed L k - (if index_key_of t = Some k then {i} else {})"
  using assms
  by (cases t; cases k)
    (auto simp: Let_def block_scheduler_of_def bimap_remove_by_right_def scheduler_new_def
      split: option.splits prod.splits if_splits)

lemma index_trigger_scheds:
  assumes "index_trigger E i t L ctrls = (r, L', ctrls')" "scheds_ok L"
  shows "scheds_ok L'"
proof (cases t)
  case (BlockInterval chain n s e)
  let ?S = "block_scheduler_of L chain" and ?st = "block_interval_state_new i n s e"
  have inv: "sched_inv block_ops ?S" using assms(2) by (simp add: scheds_ok_def)
  have "sched_inv block_ops (block_scheduler_of L' chain) \<and>
      (\<forall>c. c \<noteq> chain \<longrightarrow> block_scheduler_of L' c = block_scheduler_of L c) \<and>
      lm_cron_scheduler L' = lm_cron_scheduler L"
  proof (cases "scheduler_add_trigger block_ops ?st ?S")
    case (Inl e')
    with assms(1) inv show ?thesis by (auto simp: BlockInterval block_scheduler_of_def)
  next
    case (Inr p)
    obtain b S' where p: "p = (b, S')" by fastforce
    with Inr have "sched_inv block_ops S'" using blk.sched_inv_add [OF inv] by simp
    with assms(1) Inr p show ?thesis by (auto simp: BlockInterval block_scheduler_of_def)
  qed
  then show ?thesis using assms(2) unfolding scheds_ok_def by metis
next
  case (Cron x s e)
  then show ?thesis using assms
    by (auto simp: scheds_ok_def split: sum.splits cron_error.splits dest: crn.sched_inv_add [rotated])
qed (use assms in \<open>auto simp: scheds_ok_def Let_def split: sum.splits option.splits prod.splits if_splits\<close>)

lemma unindex_trigger_scheds:
  assumes "unindex_trigger E i t L ctrls = (r, L', ctrls')" "scheds_ok L"
  shows "scheds_ok L'"
proof (cases t)
  case (BlockInterval chain n s e)
  show ?thesis
  proof (cases "get_cloned (block_schedulers L) chain")
    case None
    then show ?thesis using assms by (simp add: BlockInterval)
  next
    case (Some S)
    have "sched_inv block_ops (block_scheduler_of L c)" for c using assms(2) by (simp add: scheds_ok_def)
    note inv = this [unfolded block_scheduler_of_def]
    have "sched_inv block_ops S" using inv [of chain] Some by simp
    from blk.sched_inv_remove [OF this] inv assms Some show ?thesis
      by (auto simp: BlockInterval scheds_ok_def)
  qed
next
  case (Cron x s e)
  then show ?thesis using assms by (auto simp: scheds_ok_def crn.sched_inv_remove)
qed (use assms in \<open>auto simp: scheds_ok_def Let_def split: option.splits prod.splits if_splits\<close>)

section \<open>The invariant\<close>

definition sound_index :: "lookup_maps \<Rightarrow> bool" where
  "sound_index L =
     (\<forall>k i. i \<in> indexed L k \<longrightarrow>
        (\<exists>cfg. map_of (trigger_configs L) i = Some cfg \<and> index_key_of (tc_trigger cfg) = Some k))"

definition workflow_id_of :: "lookup_maps \<Rightarrow> service_id \<Rightarrow> workflow_id \<Rightarrow> lookup_id option" where
  "workflow_id_of L s w = map_of (workflow_map L s) w"

definition sound_workflows :: "lookup_maps \<Rightarrow> bool" where
  "sound_workflows L =
     (\<forall>s w i. workflow_id_of L s w = Some i \<longrightarrow>
        (\<exists>cfg. map_of (trigger_configs L) i = Some cfg \<and> tc_service_id cfg = s \<and> tc_workflow_id cfg = w))"

definition maps_wf :: "lookup_maps \<Rightarrow> bool" where
  "maps_wf L =
     (omap_wf (trigger_configs L) \<and> omap_wf (triggers_by_service_workflow L) \<and>
      (\<forall>s. omap_wf (workflow_map L s)) \<and>
      (\<forall>i cfg. map_of (trigger_configs L) i = Some cfg \<longrightarrow> i < next_lookup_id L))"

definition lookup_inv :: "lookup_maps \<Rightarrow> bool" where
  "lookup_inv L = (maps_wf L \<and> sound_index L \<and> sound_workflows L \<and> scheds_ok L)"

text \<open>Every id of a trigger is where an event looks for it, except that a Stellar id may have been lost, and
  every configuration is the one its workflow points to.\<close>

definition complete_index :: "lookup_maps \<Rightarrow> bool" where
  "complete_index L =
     (\<forall>i cfg k. map_of (trigger_configs L) i = Some cfg \<longrightarrow> index_key_of (tc_trigger cfg) = Some k \<longrightarrow>
        k \<noteq> IK_Stellar \<longrightarrow> i \<in> indexed L k)"

definition complete_workflows :: "lookup_maps \<Rightarrow> bool" where
  "complete_workflows L =
     (\<forall>i cfg. map_of (trigger_configs L) i = Some cfg \<longrightarrow>
        workflow_id_of L (tc_service_id cfg) (tc_workflow_id cfg) = Some i)"

lemma workflow_map_frame:
  "triggers_by_service_workflow L' = triggers_by_service_workflow L \<Longrightarrow> workflow_map L' = workflow_map L"
  by (simp add: workflow_map_def fun_eq_iff)

lemma lookup_inv_new: "lookup_inv lookup_maps_new"
  by (auto simp: lookup_inv_def maps_wf_def sound_index_def sound_workflows_def scheds_ok_def lookup_maps_new_def
      workflow_map_def workflow_id_of_def block_scheduler_of_def blk.sched_inv_new crn.sched_inv_new)
    (rename_tac k i, case_tac k;
      simp add: entry_ids_def scheduler_new_def block_scheduler_of_def lookup_maps_new_def)

text \<open>One step of \<open>add_trigger\<close>: an error leaves the tables, a success adds the configuration under the next id.\<close>

lemma add_trigger_cases:
  assumes "lookup_add_trigger E cfg L ctrls = (r, L', ctrls')"
  obtains (error) L1 e where "r = Inl e" "L' = L1" "index_trigger E (next_lookup_id L) (tc_trigger cfg)
        (L\<lparr>next_lookup_id := next_lookup_id L + 1\<rparr>) ctrls = (Inl e, L1, ctrls')"
  | (added) L1 where "r = Inr ()" "index_trigger E (next_lookup_id L) (tc_trigger cfg)
        (L\<lparr>next_lookup_id := next_lookup_id L + 1\<rparr>) ctrls = (Inr (), L1, ctrls')"
      "L' = L1\<lparr>triggers_by_service_workflow :=
                   omap_insert (tc_service_id cfg)
                     (omap_insert (tc_workflow_id cfg) (next_lookup_id L) (workflow_map L1 (tc_service_id cfg)))
                     (triggers_by_service_workflow L1),
                 trigger_configs := omap_insert (next_lookup_id L) cfg (trigger_configs L1)\<rparr>"
  using assms by (auto simp: lookup_add_trigger_def Let_def split: prod.splits sum.splits)

lemma add_trigger_maps:
  assumes wf: "maps_wf L" "unat (next_lookup_id L) + 1 < 2 ^ 64"
    and add: "lookup_add_trigger E cfg L ctrls = (r, L', ctrls')"
  shows "maps_wf L'" "next_lookup_id L' = next_lookup_id L + 1"
    "map_of (trigger_configs L') =
       (if is_ok r then (map_of (trigger_configs L))(next_lookup_id L \<mapsto> cfg) else map_of (trigger_configs L))"
    "workflow_id_of L' s w =
       (if is_ok r \<and> s = tc_service_id cfg \<and> w = tc_workflow_id cfg then Some (next_lookup_id L)
        else workflow_id_of L s w)"
    "service_manager_map L' = service_manager_map L"
proof -
  let ?i = "next_lookup_id L"
  have lt: "?i < ?i + 1" using wf(2) by (simp add: word_less_nat_alt unat_word_ariths)
  have ids: "j < ?i + 1" if "map_of (trigger_configs L) j = Some c" for j c
  proof -
    have "j < ?i" using that wf(1) unfolding maps_wf_def by blast
    then show ?thesis using lt by (rule less_trans)
  qed
  have ow: "omap_wf (trigger_configs L)" "omap_wf (triggers_by_service_workflow L)" "\<And>s. omap_wf (workflow_map L s)"
    using wf(1) by (simp_all add: maps_wf_def)
  have all: "maps_wf L' \<and> next_lookup_id L' = next_lookup_id L + 1 \<and>
    map_of (trigger_configs L') =
       (if is_ok r then (map_of (trigger_configs L))(?i \<mapsto> cfg) else map_of (trigger_configs L)) \<and>
    (\<forall>s w. workflow_id_of L' s w =
       (if is_ok r \<and> s = tc_service_id cfg \<and> w = tc_workflow_id cfg then Some ?i
        else workflow_id_of L s w)) \<and>
    service_manager_map L' = service_manager_map L"
    using add
  proof (cases rule: add_trigger_cases)
    case (error L1 e)
    note fr = index_trigger_frame [OF error(3)]
    have "workflow_map L1 = workflow_map L" using fr by (intro workflow_map_frame) simp
    with error fr ow ids show ?thesis by (simp add: maps_wf_def workflow_id_of_def)
  next
    case (added L1)
    note fr = index_trigger_frame [OF added(2)]
    have w1: "workflow_map L1 = workflow_map L" using fr by (intro workflow_map_frame) simp
    have w': "workflow_map L' = (workflow_map L)(tc_service_id cfg :=
        omap_insert (tc_workflow_id cfg) ?i (workflow_map L (tc_service_id cfg)))"
      using added(3) fr w1 ow(2) by (simp add: workflow_map_def fun_eq_iff omap_wf_sorted)
    have wid: "\<forall>s w. workflow_id_of L' s w = (if s = tc_service_id cfg \<and> w = tc_workflow_id cfg then Some ?i
        else workflow_id_of L s w)"
      using ow(3) by (simp add: workflow_id_of_def w' omap_wf_sorted)
    have cfgs: "trigger_configs L' = omap_insert ?i cfg (trigger_configs L)"
      and sws: "omap_wf (triggers_by_service_workflow L')"
      and rest: "next_lookup_id L' = ?i + 1" "service_manager_map L' = service_manager_map L"
      using fr ow by (simp_all add: added(3))
    have "\<forall>s. omap_wf (workflow_map L' s)" using ow(3) by (simp add: w')
    moreover have "\<forall>j c. map_of (trigger_configs L') j = Some c \<longrightarrow> j < ?i + 1"
      using ids lt ow(1) by (auto simp: cfgs omap_wf_sorted)
    ultimately show ?thesis
      using ow(1) wid sws rest by (simp add: added(1) maps_wf_def cfgs omap_wf_sorted)
  qed
  then show "maps_wf L'" "next_lookup_id L' = next_lookup_id L + 1"
    "map_of (trigger_configs L') =
       (if is_ok r then (map_of (trigger_configs L))(?i \<mapsto> cfg) else map_of (trigger_configs L))"
    "workflow_id_of L' s w =
       (if is_ok r \<and> s = tc_service_id cfg \<and> w = tc_workflow_id cfg then Some ?i
        else workflow_id_of L s w)"
    "service_manager_map L' = service_manager_map L"
    by blast+
qed

lemma add_trigger_indexed:
  assumes "lookup_add_trigger E cfg L ctrls = (r, L', ctrls')"
  shows "indexed L' k \<subseteq> indexed L k \<union>
      (if is_ok r \<and> index_key_of (tc_trigger cfg) = Some k then {next_lookup_id L} else {})"
    and "k \<noteq> IK_Stellar \<Longrightarrow> indexed L' k = indexed L k \<union>
      (if is_ok r \<and> index_key_of (tc_trigger cfg) = Some k then {next_lookup_id L} else {})"
    and "scheds_ok L \<Longrightarrow> scheds_ok L'"
proof -
  let ?L0 = "L\<lparr>next_lookup_id := next_lookup_id L + 1\<rparr>"
  have s0: "scheds_ok ?L0 \<longleftrightarrow> scheds_ok L" by (simp add: scheds_ok_def)
  have all: "(k \<noteq> IK_Stellar \<longrightarrow> indexed L' k = indexed L k \<union>
      (if is_ok r \<and> index_key_of (tc_trigger cfg) = Some k then {next_lookup_id L} else {})) \<and>
    indexed L' IK_Stellar \<subseteq> indexed L IK_Stellar \<union>
      (if is_ok r \<and> index_key_of (tc_trigger cfg) = Some IK_Stellar then {next_lookup_id L} else {}) \<and>
    (scheds_ok L \<longrightarrow> scheds_ok L')"
    using assms
  proof (cases rule: add_trigger_cases)
    case (error L1 e)
    then show ?thesis
      using index_trigger_error [OF error(3)] index_trigger_scheds [OF error(3)] s0
      by (simp del: indexed.simps)
  next
    case (added L1)
    have "indexed L' j = indexed L1 j" for j by (simp add: added(3))
    moreover have "scheds_ok L' \<longleftrightarrow> scheds_ok L1" by (simp add: added(3) scheds_ok_def)
    ultimately show ?thesis
      using index_trigger_ok [OF added(2)] index_trigger_scheds [OF added(2)] s0 added(1)
      by (simp del: indexed.simps)
  qed
  then show "k \<noteq> IK_Stellar \<Longrightarrow> indexed L' k = indexed L k \<union>
      (if is_ok r \<and> index_key_of (tc_trigger cfg) = Some k then {next_lookup_id L} else {})"
    and "scheds_ok L \<Longrightarrow> scheds_ok L'" by blast+
  show "indexed L' k \<subseteq> indexed L k \<union>
      (if is_ok r \<and> index_key_of (tc_trigger cfg) = Some k then {next_lookup_id L} else {})"
    using all by (cases "k = IK_Stellar") blast+
qed

lemma add_trigger_inv:
  assumes inv: "lookup_inv L" and room: "unat (next_lookup_id L) + 1 < 2 ^ 64"
    and add: "lookup_add_trigger E cfg L ctrls = (r, L', ctrls')"
  shows "lookup_inv L'"
    and "complete_index L \<Longrightarrow> complete_index L'"
    and "complete_workflows L \<Longrightarrow> workflow_id_of L (tc_service_id cfg) (tc_workflow_id cfg) = None \<Longrightarrow>
      complete_workflows L'"
proof -
  let ?i = "next_lookup_id L"
  have wf: "maps_wf L" and si: "sound_index L" and sw: "sound_workflows L" and sc: "scheds_ok L"
    using inv by (simp_all add: lookup_inv_def)
  note maps = add_trigger_maps [OF wf room add]
  note idx = add_trigger_indexed [OF add]
  have fresh: "map_of (trigger_configs L) ?i = None"
    using wf unfolding maps_wf_def by (metis less_irrefl option.exhaust)
  have keep: "map_of (trigger_configs L') j = Some c" if "map_of (trigger_configs L) j = Some c" for j c
    using that fresh maps(3) by (cases "j = ?i") auto
  have new: "map_of (trigger_configs L') ?i = Some cfg" if "is_ok r" using that maps(3) by simp
  have origin: "is_ok r \<and> j = ?i \<and> c = cfg \<or> map_of (trigger_configs L) j = Some c"
    if "map_of (trigger_configs L') j = Some c" for j c
    using that fun_cong [OF maps(3), of j] by (cases "is_ok r"; cases "j = ?i") simp_all
  have "sound_index L'"
    unfolding sound_index_def
  proof (intro allI impI)
    fix k j assume "j \<in> indexed L' k"
    with idx(1) [of k] consider "j \<in> indexed L k" | "is_ok r" "index_key_of (tc_trigger cfg) = Some k" "j = ?i"
      by (auto split: if_splits)
    then show "\<exists>c. map_of (trigger_configs L') j = Some c \<and> index_key_of (tc_trigger c) = Some k"
      using si keep new unfolding sound_index_def by cases blast+
  qed
  moreover have "sound_workflows L'"
    unfolding sound_workflows_def
  proof (intro allI impI)
    fix s w j assume "workflow_id_of L' s w = Some j"
    with maps(4) [of s w] consider "workflow_id_of L s w = Some j"
      | "is_ok r" "s = tc_service_id cfg" "w = tc_workflow_id cfg" "j = ?i"
      by (auto split: if_splits)
    then show "\<exists>c. map_of (trigger_configs L') j = Some c \<and> tc_service_id c = s \<and> tc_workflow_id c = w"
      using sw keep new unfolding sound_workflows_def by cases blast+
  qed
  ultimately show "lookup_inv L'" using maps(1) idx(3) sc by (simp add: lookup_inv_def)
  show "complete_index L'" if "complete_index L"
    unfolding complete_index_def
  proof (intro allI impI)
    fix j c k assume j: "map_of (trigger_configs L') j = Some c" "index_key_of (tc_trigger c) = Some k" "k \<noteq> IK_Stellar"
    then show "j \<in> indexed L' k"
      using idx(2) [of k] that [unfolded complete_index_def] origin [of j c] by auto
  qed
  show "complete_workflows L'" if "complete_workflows L"
      "workflow_id_of L (tc_service_id cfg) (tc_workflow_id cfg) = None"
    unfolding complete_workflows_def
  proof (intro allI impI)
    fix j c assume "map_of (trigger_configs L') j = Some c"
    from origin [OF this] consider "is_ok r" "j = ?i" "c = cfg" | "map_of (trigger_configs L) j = Some c"
      by blast
    then show "workflow_id_of L' (tc_service_id c) (tc_workflow_id c) = Some j"
    proof cases
      case 2
      with that(1) have "workflow_id_of L (tc_service_id c) (tc_workflow_id c) = Some j"
        by (simp add: complete_workflows_def)
      with that(2) maps(4) [of "tc_service_id c" "tc_workflow_id c"] show ?thesis by auto
    qed (use maps(4) in simp)
  qed
qed

abbreviation config_place :: "trigger_config \<Rightarrow> service_id \<times> workflow_id" where
  "config_place cfg \<equiv> (tc_service_id cfg, tc_workflow_id cfg)"

lemma add_triggers_inv:
  assumes "lookup_inv L" "unat (next_lookup_id L) + length cfgs < 2 ^ 64"
    and "add_triggers E cfgs L ctrls = (r, L', ctrls')"
  shows "lookup_inv L' \<and> (complete_index L \<longrightarrow> complete_index L') \<and>
    (complete_workflows L \<longrightarrow> distinct (map config_place cfgs) \<longrightarrow>
      (\<forall>cfg\<in>set cfgs. workflow_id_of L (tc_service_id cfg) (tc_workflow_id cfg) = None) \<longrightarrow>
      complete_workflows L')"
  using assms
proof (induction cfgs arbitrary: L ctrls)
  case (Cons cfg cfgs)
  obtain r1 L1 c1 where a: "lookup_add_trigger E cfg L ctrls = (r1, L1, c1)" by (metis prod_cases3)
  have room: "unat (next_lookup_id L) + 1 < 2 ^ 64" using Cons.prems(2) by simp
  note step = add_trigger_inv [OF Cons.prems(1) room a]
  have wf: "maps_wf L" using Cons.prems(1) by (simp add: lookup_inv_def)
  note maps = add_trigger_maps [OF wf room a]
  show ?case
  proof (cases r1)
    case (Inl e)
    then have "L' = L1" using Cons.prems(3) a by simp
    then show ?thesis using step by auto
  next
    case (Inr u)
    then have rest: "add_triggers E cfgs L1 c1 = (r, L', ctrls')" using Cons.prems(3) a by simp
    have "unat (next_lookup_id L1) = unat (next_lookup_id L) + 1"
      using room maps(2) by (simp add: unat_word_ariths)
    then have "unat (next_lookup_id L1) + length cfgs < 2 ^ 64" using Cons.prems(2) by simp
    note IH = Cons.IH [OF step(1) this rest]
    have "\<forall>c\<in>set cfgs. workflow_id_of L1 (tc_service_id c) (tc_workflow_id c) = None"
      if "distinct (map config_place (cfg # cfgs))"
        "\<forall>c\<in>set (cfg # cfgs). workflow_id_of L (tc_service_id c) (tc_workflow_id c) = None"
    proof
      fix c assume c: "c \<in> set cfgs"
      then have "config_place c \<noteq> config_place cfg" using that(1) by (force simp: image_iff)
      with that(2) c maps(4) [of "tc_service_id c" "tc_workflow_id c"]
      show "workflow_id_of L1 (tc_service_id c) (tc_workflow_id c) = None" by auto
    qed
    with IH step(2,3) show ?thesis by simp
  qed
qed simp

lemma inv_service_manager [simp]:
  "lookup_inv (L\<lparr>service_manager_map := g\<rparr>) \<longleftrightarrow> lookup_inv L"
  "complete_index (L\<lparr>service_manager_map := g\<rparr>) \<longleftrightarrow> complete_index L"
  "complete_workflows (L\<lparr>service_manager_map := g\<rparr>) \<longleftrightarrow> complete_workflows L"
  "workflow_id_of (L\<lparr>service_manager_map := g\<rparr>) = workflow_id_of L"
  by (simp_all add: lookup_inv_def maps_wf_def sound_index_def sound_workflows_def scheds_ok_def
      workflow_id_of_def workflow_map_def complete_index_def complete_workflows_def fun_eq_iff)

lemma add_service_inv:
  assumes "lookup_inv L" "unat (next_lookup_id L) + length (workflows svc) < 2 ^ 64"
    and add: "lookup_add_service C E svc L ctrls = (r, L', ctrls')"
  shows "lookup_inv L'" and "complete_index L \<Longrightarrow> complete_index L'"
    and "complete_workflows L \<Longrightarrow> omap_wf (workflows svc) \<Longrightarrow> workflow_map L (service_id_of C svc) = [] \<Longrightarrow>
      complete_workflows L'"
proof -
  let ?s = "service_id_of C svc"
  let ?L = "L\<lparr>service_manager_map := bimap_insert ?s (manager_address (manager svc)) (service_manager_map L)\<rparr>"
  have inv: "lookup_inv ?L" "unat (next_lookup_id ?L) + length (trigger_configs_of ?s svc) < 2 ^ 64"
    using assms(1,2) by (simp_all add: trigger_configs_of_def)
  have run: "add_triggers E (trigger_configs_of ?s svc) ?L ctrls = (r, L', ctrls')"
    using add by (simp add: lookup_add_service_def Let_def)
  have places: "map config_place (trigger_configs_of ?s svc) = map (\<lambda>p. (?s, fst p)) (workflows svc)"
    by (auto simp: trigger_configs_of_def)
  note all = add_triggers_inv [OF inv run]
  then show "lookup_inv L'" "complete_index L \<Longrightarrow> complete_index L'" by simp_all
  assume "complete_workflows L" "omap_wf (workflows svc)" "workflow_map L ?s = []"
  moreover have "distinct (map config_place (trigger_configs_of ?s svc))"
    using omap_wf_distinct [OF \<open>omap_wf (workflows svc)\<close>] unfolding places
    by (simp add: distinct_map inj_on_def)
  moreover have "\<forall>c\<in>set (trigger_configs_of ?s svc). tc_service_id c = ?s"
    by (auto simp: trigger_configs_of_def)
  ultimately show "complete_workflows L'"
    using all by (simp add: workflow_id_of_def)
qed

text \<open>Removing ids from the indexes.\<close>

lemma unindex_all_spec:
  assumes "unindex_all E ids L ctrls = (r, L', ctrls')" "scheds_ok L"
  shows "trigger_configs L' = trigger_configs L \<and>
    triggers_by_service_workflow L' = triggers_by_service_workflow L \<and>
    next_lookup_id L' = next_lookup_id L \<and> service_manager_map L' = service_manager_map L \<and> scheds_ok L' \<and>
    (\<forall>k. indexed L' k \<subseteq> indexed L k \<and> indexed L k - set ids \<subseteq> indexed L' k) \<and>
    (is_ok r \<longrightarrow> sound_index L \<longrightarrow> (\<forall>k. indexed L' k = indexed L k - set ids))"
  using assms
proof (induction ids arbitrary: L ctrls)
  case (Cons i ids)
  show ?case
  proof (cases "map_of (trigger_configs L) i")
    case None
    with Cons.prems have rest: "unindex_all E ids L ctrls = (r, L', ctrls')" by simp
    note IH = Cons.IH [OF rest Cons.prems(2)]
    have "i \<notin> indexed L k" if "sound_index L" for k
      using that None unfolding sound_index_def by force
    with IH show ?thesis by (simp del: indexed.simps) blast
  next
    case (Some cfg)
    obtain r1 L1 c1 where u: "unindex_trigger E i (tc_trigger cfg) L ctrls = (r1, L1, c1)" by (metis prod_cases3)
    note fr = unindex_trigger_frame [OF u]
    note idx = unindex_trigger_indexed [OF u]
    note sch = unindex_trigger_scheds [OF u Cons.prems(2)]
    show ?thesis
    proof (cases r1)
      case (Inl e)
      with Cons.prems(1) Some u have "r = Inl e" "L' = L1" by simp_all
      with fr idx sch show ?thesis by (auto simp del: indexed.simps)
    next
      case (Inr v)
      with Cons.prems(1) Some u have rest: "unindex_all E ids L1 c1 = (r, L', ctrls')" by simp
      note IH = Cons.IH [OF rest sch]
      have own: "index_key_of (tc_trigger cfg) = Some k" if "sound_index L" "i \<in> indexed L k" for k
        using that Some unfolding sound_index_def by fastforce
      have "indexed L1 k = indexed L k - {i}" if "sound_index L" for k
        using idx [of k] own [OF that, of k] by (auto simp del: indexed.simps split: if_splits)
      moreover have "sound_index L \<longrightarrow> sound_index L1"
        using fr idx unfolding sound_index_def by auto
      moreover have "indexed L1 k \<subseteq> indexed L k \<and> indexed L k - {i} \<subseteq> indexed L1 k" for k
        using idx [of k] by auto
      ultimately show ?thesis using IH fr by (simp del: indexed.simps) blast
    qed
  qed
qed (simp del: indexed.simps)

text \<open>Forgetting a set of ids everywhere, as both removals do.\<close>

lemma forget_inv:
  assumes inv: "lookup_inv L"
    and idx: "\<And>k. indexed L' k = indexed L k - I"
    and cfgs: "\<And>j. map_of (trigger_configs L') j = (if j \<in> I then None else map_of (trigger_configs L) j)"
    and wid: "\<And>s w. workflow_id_of L' s w = (if P s w then None else workflow_id_of L s w)"
    and places: "\<And>s w i. workflow_id_of L s w = Some i \<Longrightarrow> P s w \<longleftrightarrow> i \<in> I"
    and wf: "maps_wf L'" "scheds_ok L'"
  shows "lookup_inv L'" and "complete_index L \<Longrightarrow> complete_index L'"
    and "complete_workflows L \<Longrightarrow> complete_workflows L'"
proof -
  have si: "sound_index L" and sw: "sound_workflows L" using inv by (simp_all add: lookup_inv_def)
  have "sound_index L'" using si unfolding sound_index_def by (simp add: idx cfgs)
  moreover have "sound_workflows L'" using sw places unfolding sound_workflows_def by (auto simp: wid cfgs)
  ultimately show "lookup_inv L'" using wf by (simp add: lookup_inv_def)
  show "complete_index L'" if "complete_index L"
    using that unfolding complete_index_def by (simp add: idx cfgs del: indexed.simps)
  show "complete_workflows L'" if "complete_workflows L"
    unfolding complete_workflows_def
  proof (intro allI impI)
    fix i cfg assume "map_of (trigger_configs L') i = Some cfg"
    then have i: "i \<notin> I" "map_of (trigger_configs L) i = Some cfg" by (simp_all add: cfgs split: if_splits)
    with that have "workflow_id_of L (tc_service_id cfg) (tc_workflow_id cfg) = Some i"
      by (simp add: complete_workflows_def)
    with places [OF this] i(1) show "workflow_id_of L' (tc_service_id cfg) (tc_workflow_id cfg) = Some i"
      by (simp add: wid)
  qed
qed

text \<open>What this does to the queues of the schedulers, which are what makes triggers fire.\<close>

lemma unindex_trigger_waiting:
  assumes "unindex_trigger E i t L ctrls = (r, L', ctrls')"
  shows "waiting (block_scheduler_of L' chain) =
      (if index_key_of t = Some (IK_Block chain)
       then filter (\<lambda>p. op_lookup_id block_ops (snd p) \<noteq> i) (waiting (block_scheduler_of L chain))
       else waiting (block_scheduler_of L chain))"
    and "waiting (lm_cron_scheduler L') =
      (if index_key_of t = Some IK_Cron
       then filter (\<lambda>p. op_lookup_id cron_ops (snd p) \<noteq> i) (waiting (lm_cron_scheduler L))
       else waiting (lm_cron_scheduler L))"
  using assms
  by (cases t; auto simp: Let_def block_scheduler_of_def waiting_remove split: option.splits prod.splits if_splits; fail)+

lemma waiting_indexed:
  assumes "scheds_ok L"
  shows "p \<in> set (waiting (block_scheduler_of L chain)) \<Longrightarrow> op_lookup_id block_ops (snd p) \<in> indexed L (IK_Block chain)"
    and "q \<in> set (waiting (lm_cron_scheduler L)) \<Longrightarrow> op_lookup_id cron_ops (snd q) \<in> indexed L IK_Cron"
proof -
  have "set (sched_ids block_ops (block_scheduler_of L chain)) \<subseteq> trigger_ids (block_scheduler_of L chain)"
    "set (sched_ids cron_ops (lm_cron_scheduler L)) \<subseteq> trigger_ids (lm_cron_scheduler L)"
    using assms by (simp_all add: scheds_ok_def sched_inv_def)
  then show "p \<in> set (waiting (block_scheduler_of L chain)) \<Longrightarrow> op_lookup_id block_ops (snd p) \<in> indexed L (IK_Block chain)"
    and "q \<in> set (waiting (lm_cron_scheduler L)) \<Longrightarrow> op_lookup_id cron_ops (snd q) \<in> indexed L IK_Cron"
    by (auto simp: sched_ids_waiting)
qed

lemma unindex_all_waiting:
  assumes "unindex_all E ids L ctrls = (Inr u, L', ctrls')" "scheds_ok L" "sound_index L"
  shows "waiting (block_scheduler_of L' chain) =
      filter (\<lambda>p. op_lookup_id block_ops (snd p) \<notin> set ids) (waiting (block_scheduler_of L chain)) \<and>
    waiting (lm_cron_scheduler L') =
      filter (\<lambda>p. op_lookup_id cron_ops (snd p) \<notin> set ids) (waiting (lm_cron_scheduler L))"
  using assms
proof (induction ids arbitrary: L ctrls)
  case (Cons i ids)
  show ?case
  proof (cases "map_of (trigger_configs L) i")
    case None
    with Cons.prems have rest: "unindex_all E ids L ctrls = (Inr u, L', ctrls')" by simp
    have no: "i \<notin> indexed L k" for k using None Cons.prems(3) unfolding sound_index_def by force
    have b: "op_lookup_id block_ops (snd p) \<noteq> i" if "p \<in> set (waiting (block_scheduler_of L chain))" for p
      using waiting_indexed(1) [OF Cons.prems(2) that] no by metis
    have c: "op_lookup_id cron_ops (snd p) \<noteq> i" if "p \<in> set (waiting (lm_cron_scheduler L))" for p
      using waiting_indexed(2) [OF Cons.prems(2) that] no by metis
    show ?thesis using Cons.IH [OF rest Cons.prems(2,3)] b c by (auto intro!: filter_cong)
  next
    case (Some cfg)
    obtain r1 L1 c1 where un: "unindex_trigger E i (tc_trigger cfg) L ctrls = (r1, L1, c1)" by (metis prod_cases3)
    then have rest: "unindex_all E ids L1 c1 = (Inr u, L', ctrls')" using Cons.prems(1) Some by (cases r1) simp_all
    have sch: "scheds_ok L1" by (rule unindex_trigger_scheds [OF un Cons.prems(2)])
    have snd1: "sound_index L1"
      using Cons.prems(3) unindex_trigger_frame [OF un] unindex_trigger_indexed [OF un] unfolding sound_index_def by auto
    have own: "index_key_of (tc_trigger cfg) = Some k" if "i \<in> indexed L k" for k
      using that Some Cons.prems(3) unfolding sound_index_def by fastforce
    have "waiting (block_scheduler_of L1 chain) =
        filter (\<lambda>p. op_lookup_id block_ops (snd p) \<noteq> i) (waiting (block_scheduler_of L chain))"
      unfolding unindex_trigger_waiting(1) [OF un]
      using waiting_indexed(1) [OF Cons.prems(2)] own [of "IK_Block chain"] by (metis (mono_tags, lifting) filter_True)
    moreover have "waiting (lm_cron_scheduler L1) =
        filter (\<lambda>p. op_lookup_id cron_ops (snd p) \<noteq> i) (waiting (lm_cron_scheduler L))"
      unfolding unindex_trigger_waiting(2) [OF un]
      using waiting_indexed(2) [OF Cons.prems(2)] own [of IK_Cron] by (metis (mono_tags, lifting) filter_True)
    ultimately show ?thesis using Cons.IH [OF rest sch snd1] by (auto intro!: filter_cong)
  qed
qed (simp add: filter_True)

lemma fold_omap_remove:
  "map_of (fold omap_remove ids m) = (\<lambda>j. if j \<in> set ids then None else map_of m j)"
  "omap_wf m \<Longrightarrow> omap_wf (fold omap_remove ids m)"
  by (induction ids arbitrary: m) (auto simp: fun_eq_iff)

text \<open>An error of the loop has only taken ids out of the indexes.\<close>

lemma unindexed_inv:
  assumes "lookup_inv L" "trigger_configs L' = trigger_configs L" "next_lookup_id L' = next_lookup_id L"
    and "\<And>k. indexed L' k \<subseteq> indexed L k" "scheds_ok L'"
    and "omap_wf (triggers_by_service_workflow L')" "\<And>s. omap_wf (workflow_map L' s)"
    and "\<And>s w i. workflow_id_of L' s w = Some i \<Longrightarrow> workflow_id_of L s w = Some i"
  shows "lookup_inv L'"
proof -
  have "maps_wf L'" using assms(1,2,3,6,7) by (simp add: lookup_inv_def maps_wf_def)
  moreover have "sound_index L'"
    using assms(1,2,4) unfolding lookup_inv_def sound_index_def by (metis subsetD)
  moreover have "sound_workflows L'"
    using assms(1,2,8) by (simp add: lookup_inv_def sound_workflows_def)
  ultimately show ?thesis using assms(5) by (simp add: lookup_inv_def)
qed

lemma removed_ids:
  assumes "lookup_inv L" "map_of (triggers_by_service_workflow L) s = Some m"
  shows "i \<in> set (map snd m) \<longleftrightarrow> (\<exists>w. workflow_id_of L s w = Some i)"
proof -
  have m: "workflow_map L s = m" using assms(2) by (simp add: workflow_map_def)
  then have "omap_wf m" using assms(1) by (auto simp: lookup_inv_def maps_wf_def)
  then have "(w, i) \<in> set m \<longleftrightarrow> map_of m w = Some i" for w
    using omap_wf_distinct map_of_eq_Some_iff by fastforce
  then show ?thesis by (force simp: workflow_id_of_def m)
qed

lemma sound_workflowsD:
  "lookup_inv L \<Longrightarrow> workflow_id_of L s w = Some i \<Longrightarrow>
   \<exists>cfg. map_of (trigger_configs L) i = Some cfg \<and> tc_service_id cfg = s \<and> tc_workflow_id cfg = w"
  by (simp add: lookup_inv_def sound_workflows_def)

lemma remove_service_cases:
  assumes inv: "lookup_inv L" and rm: "lookup_remove_service E s L ctrls = (r, L', ctrls')"
  obtains (absent) "r = Inr ()" "workflow_map L s = []"
      "L' = L\<lparr>service_manager_map := bimap_remove_by_left s (service_manager_map L)\<rparr>"
  | (failed) e where "r = Inl e" "lookup_inv L'" "trigger_configs L' = trigger_configs L"
  | (removed) m where "r = Inr ()" "map_of (triggers_by_service_workflow L) s = Some m"
      "\<And>k. indexed L' k = indexed L k - set (map snd m)"
      "\<And>j. map_of (trigger_configs L') j = (if j \<in> set (map snd m) then None else map_of (trigger_configs L) j)"
      "\<And>s' w. workflow_id_of L' s' w = (if s' = s then None else workflow_id_of L s' w)"
      "maps_wf L'" "scheds_ok L'" "service_manager_map L' = bimap_remove_by_left s (service_manager_map L)"
proof (cases "map_of (triggers_by_service_workflow L) s")
  case None
  then show ?thesis using absent rm by (simp add: lookup_remove_service_def workflow_map_def)
next
  case (Some m)
  let ?L0 = "L\<lparr>service_manager_map := bimap_remove_by_left s (service_manager_map L)\<rparr>"
  obtain r1 L1 c1 where u: "unindex_all E (map snd m) ?L0 ctrls = (r1, L1, c1)" by (metis prod_cases3)
  have inv0: "lookup_inv ?L0" using inv by simp
  have wf: "maps_wf L" using inv by (simp add: lookup_inv_def)
  have sc: "scheds_ok ?L0" and si: "sound_index ?L0" using inv0 by (simp_all add: lookup_inv_def)
  note un = unindex_all_spec [OF u sc]
  have w1: "workflow_map L1 = workflow_map L" by (rule workflow_map_frame) (use un in simp)
  show ?thesis
  proof (cases r1)
    case (Inl e)
    then have L': "r = Inl e" "L' = L1" using rm Some u by (simp_all add: lookup_remove_service_def)
    have "lookup_inv L1"
      using un wf by (intro unindexed_inv [OF inv])
        (simp_all add: w1 workflow_id_of_def maps_wf_def del: indexed.simps)
    with L' un failed show ?thesis by simp
  next
    case (Inr v)
    then have L': "r = Inr ()" "L' = L1\<lparr>trigger_configs := fold omap_remove (map snd m) (trigger_configs L1),
        triggers_by_service_workflow := omap_remove s (triggers_by_service_workflow L1)\<rparr>"
      using rm Some u by (simp_all add: lookup_remove_service_def)
    have w': "workflow_map L' = (workflow_map L)(s := [])"
      using un by (simp add: L' workflow_map_def fun_eq_iff)
    have cfgs: "trigger_configs L' = fold omap_remove (map snd m) (trigger_configs L)" using un by (simp add: L')
    have "maps_wf L'"
      using wf un unfolding maps_wf_def cfgs w' by (auto simp: fold_omap_remove L' split: if_splits)
    moreover have "scheds_ok L'" using un by (simp add: L' scheds_ok_def)
    moreover have "workflow_id_of L' s' w = (if s' = s then None else workflow_id_of L s' w)" for s' w
      by (simp add: workflow_id_of_def w')
    moreover have "service_manager_map L' = bimap_remove_by_left s (service_manager_map L)"
      using un by (simp add: L')
    moreover have "map_of (trigger_configs L') j =
        (if j \<in> set (map snd m) then None else map_of (trigger_configs L) j)" for j
      by (simp add: cfgs fold_omap_remove)
    moreover have "indexed L' k = indexed L k - set (map snd m)" for k
      using un si Inr by (simp add: L' del: indexed.simps)
    ultimately show ?thesis
      using removed L'(1) Some by blast
  qed
qed

lemma remove_service_next:
  assumes "lookup_inv L" "lookup_remove_service E s L ctrls = (r, L', ctrls')"
  shows "next_lookup_id L' = next_lookup_id L"
proof -
  let ?L0 = "L\<lparr>service_manager_map := bimap_remove_by_left s (service_manager_map L)\<rparr>"
  have "scheds_ok ?L0" using assms(1) by (simp add: lookup_inv_def scheds_ok_def)
  then show ?thesis
    using assms(2) unindex_all_spec [of E _ ?L0 ctrls]
    by (fastforce simp: lookup_remove_service_def Let_def split: option.splits prod.splits sum.splits)
qed

lemma remove_service_inv:
  assumes inv: "lookup_inv L" and rm: "lookup_remove_service E s L ctrls = (r, L', ctrls')"
  shows "lookup_inv L'" and "is_ok r \<Longrightarrow> complete_index L \<Longrightarrow> complete_index L'"
    and "is_ok r \<Longrightarrow> complete_workflows L \<Longrightarrow> complete_workflows L'"
proof -
  have "lookup_inv L' \<and> (is_ok r \<longrightarrow> (complete_index L \<longrightarrow> complete_index L') \<and>
      (complete_workflows L \<longrightarrow> complete_workflows L'))"
    using inv rm
  proof (cases rule: remove_service_cases)
    case (removed m)
    have "(s' = s) \<longleftrightarrow> i \<in> set (map snd m)" if "workflow_id_of L s' w = Some i" for s' w i
    proof
      show "i \<in> set (map snd m)" if "s' = s"
        using \<open>workflow_id_of L s' w = Some i\<close> that removed_ids [OF inv removed(2), of i] by blast
      show "s' = s" if "i \<in> set (map snd m)"
      proof -
        from that obtain w' where "workflow_id_of L s w' = Some i"
          using removed_ids [OF inv removed(2), of i] by blast
        with sound_workflowsD [OF inv this] sound_workflowsD [OF inv \<open>workflow_id_of L s' w = Some i\<close>]
        show ?thesis by auto
      qed
    qed
    moreover define P where "P = (\<lambda>s' (w :: workflow_id). s' = s)"
    ultimately have places: "P s' w \<longleftrightarrow> i \<in> set (map snd m)" if "workflow_id_of L s' w = Some i" for s' w i
      using that unfolding P_def by blast
    have wid: "workflow_id_of L' s' w = (if P s' w then None else workflow_id_of L s' w)" for s' w
      by (simp add: P_def removed(5))
    note forget_inv [OF inv removed(3,4) wid places removed(6,7)]
    then show ?thesis by blast
  qed (use inv in simp_all)
  then show "lookup_inv L'" "is_ok r \<Longrightarrow> complete_index L \<Longrightarrow> complete_index L'"
    "is_ok r \<Longrightarrow> complete_workflows L \<Longrightarrow> complete_workflows L'" by blast+
qed

lemma remove_workflow_inv:
  assumes inv: "lookup_inv L" and rm: "remove_workflow E s w L ctrls = (r, L', ctrls')"
  shows "lookup_inv L'" and "is_ok r \<Longrightarrow> complete_index L \<Longrightarrow> complete_index L'"
    and "is_ok r \<Longrightarrow> complete_workflows L \<Longrightarrow> complete_workflows L'"
proof -
  have "lookup_inv L' \<and> (is_ok r \<longrightarrow> (complete_index L \<longrightarrow> complete_index L') \<and>
      (complete_workflows L \<longrightarrow> complete_workflows L'))"
  proof (cases "\<exists>m i. map_of (triggers_by_service_workflow L) s = Some m \<and> map_of m w = Some i")
    case False
    then have "\<exists>e. (r, L', ctrls') = (Inl e, L, ctrls)"
      unfolding rm [symmetric] by (auto simp: remove_workflow_def split: option.splits)
    then show ?thesis using inv by auto
  next
    case True
    then obtain m i where m: "map_of (triggers_by_service_workflow L) s = Some m" "map_of m w = Some i" by blast
    let ?L1 = "L\<lparr>triggers_by_service_workflow := omap_insert s (omap_remove w m) (triggers_by_service_workflow L)\<rparr>"
    obtain r2 L2 c2 where u: "unindex_all E [i] ?L1 ctrls = (r2, L2, c2)" by (metis prod_cases3)
    have inner: "(case map_of (trigger_configs L) i of
          None \<Rightarrow> (Inr (), ?L1, ctrls)
        | Some cfg \<Rightarrow> unindex_trigger E i (tc_trigger cfg) ?L1 ctrls) = (r2, L2, c2)"
      using u by (auto split: option.splits prod.splits sum.splits)
    have wf: "maps_wf L" using inv by (simp add: lookup_inv_def)
    then have tb: "omap_wf (triggers_by_service_workflow L)" by (simp add: maps_wf_def)
    have mw: "workflow_map L s = m" using m(1) by (simp add: workflow_map_def)
    have w1: "workflow_map ?L1 = (workflow_map L)(s := omap_remove w m)"
      using tb by (simp add: workflow_map_def fun_eq_iff omap_wf_sorted)
    have wid1: "workflow_id_of ?L1 s' w' = (if s' = s \<and> w' = w then None else workflow_id_of L s' w')" for s' w'
      by (auto simp: workflow_id_of_def w1 mw)
    have sc: "scheds_ok ?L1" and si: "sound_index ?L1"
      using inv by (simp_all add: lookup_inv_def scheds_ok_def sound_index_def del: indexed.simps)
    note un = unindex_all_spec [OF u sc]
    have w2: "workflow_map L2 = workflow_map ?L1" by (rule workflow_map_frame) (use un in simp)
    have wid2: "workflow_id_of L2 = workflow_id_of ?L1" by (simp add: workflow_id_of_def w2 fun_eq_iff)
    have wfs: "omap_wf (workflow_map L2 s')" for s'
    proof -
      have "omap_wf (workflow_map L s')" "omap_wf m" using wf mw by (auto simp: maps_wf_def)
      then show ?thesis unfolding w2 w1 by simp
    qed
    show ?thesis
    proof (cases r2)
      case (Inl e)
      then have L': "r = Inl e" "L' = L2" using rm m inner by (simp_all add: remove_workflow_def)
      have "lookup_inv L2"
        using un tb wfs by (intro unindexed_inv [OF inv])
          (simp_all add: wid2 wid1 del: indexed.simps split: if_splits)
      with L' show ?thesis by simp
    next
      case (Inr v)
      then have L': "r = Inr ()" "L' = L2\<lparr>trigger_configs := omap_remove i (trigger_configs L2)\<rparr>"
        using rm m inner by (simp_all add: remove_workflow_def)
      have w': "workflow_map L' = workflow_map L2" by (rule workflow_map_frame) (simp add: L')
      have idx: "indexed L' k = indexed L k - {i}" for k
        using un si Inr by (simp add: L' del: indexed.simps)
      have cfgs: "map_of (trigger_configs L') j = (if j \<in> {i} then None else map_of (trigger_configs L) j)" for j
        using un by (simp add: L')
      have wid: "workflow_id_of L' s' w' = (if s' = s \<and> w' = w then None else workflow_id_of L s' w')" for s' w'
      proof -
        have "workflow_id_of L' s' w' = workflow_id_of L2 s' w'" by (simp add: workflow_id_of_def w')
        then show ?thesis unfolding wid2 wid1 .
      qed
      have here: "workflow_id_of L s w = Some i" using m by (simp add: workflow_id_of_def mw)
      have places: "(s' = s \<and> w' = w) \<longleftrightarrow> j \<in> {i}" if "workflow_id_of L s' w' = Some j" for s' w' j
        using sound_workflowsD [OF inv that] sound_workflowsD [OF inv here] that here by auto
      have "maps_wf L'"
        using wf wfs un tb unfolding maps_wf_def w' by (auto simp: L' split: if_splits)
      moreover have "scheds_ok L'" using un by (simp add: L' scheds_ok_def)
      ultimately show ?thesis
        using forget_inv [where P = "\<lambda>s' w'. s' = s \<and> w' = w", OF inv idx cfgs wid places] L'(1) by blast
    qed
  qed
  then show "lookup_inv L'" "is_ok r \<Longrightarrow> complete_index L \<Longrightarrow> complete_index L'"
    "is_ok r \<Longrightarrow> complete_workflows L \<Longrightarrow> complete_workflows L'" by blast+
qed

text \<open>Ticks of the schedulers, which \<open>process_blocks\<close> and the cron stream run on the shared tables.\<close>

definition lookup_block_tick ::
  "chain_key \<Rightarrow> block_height \<Rightarrow> lookup_maps \<Rightarrow> (lookup_id \<times> block_height) list \<times> lookup_maps" where
  "lookup_block_tick chain height L =
     (case get_cloned (block_schedulers L) chain of
        None \<Rightarrow> ([], L)
      | Some s \<Rightarrow>
          let (hits, s') = scheduler_tick block_ops height s
          in (hits, L\<lparr>block_schedulers := table_insert chain s' (block_schedulers L)\<rparr>))"

definition lookup_cron_tick :: "timestamp \<Rightarrow> lookup_maps \<Rightarrow> (lookup_id \<times> timestamp) list \<times> lookup_maps" where
  "lookup_cron_tick now L =
     (let (hits, s) = scheduler_tick cron_ops now (lm_cron_scheduler L)
      in (hits, L\<lparr>lm_cron_scheduler := s\<rparr>))"

lemma block_tick_inv:
  assumes "lookup_inv L" "lookup_block_tick chain height L = (hits, L')"
  shows "lookup_inv L'" "complete_index L \<Longrightarrow> complete_index L'" "complete_workflows L \<Longrightarrow> complete_workflows L'"
    "fst ` set hits \<subseteq> indexed L (IK_Block chain)" "distinct (map fst hits)"
    "trigger_configs L' = trigger_configs L"
proof -
  have inv: "sched_inv block_ops (block_scheduler_of L c)" for c using assms(1) by (simp add: lookup_inv_def scheds_ok_def)
  have "lookup_inv L' \<and> (complete_index L \<longrightarrow> complete_index L') \<and> (complete_workflows L \<longrightarrow> complete_workflows L') \<and>
    fst ` set hits \<subseteq> indexed L (IK_Block chain) \<and> distinct (map fst hits) \<and> trigger_configs L' = trigger_configs L"
  proof (cases "get_cloned (block_schedulers L) chain")
    case None
    then show ?thesis using assms by (simp add: lookup_block_tick_def)
  next
    case (Some S)
    obtain s' where t: "scheduler_tick block_ops height S = (hits, s')"
      and L': "L' = L\<lparr>block_schedulers := table_insert chain s' (block_schedulers L)\<rparr>"
      using assms(2) Some by (auto simp: lookup_block_tick_def split: prod.splits)
    have S: "block_scheduler_of L chain = S" using Some by (simp add: block_scheduler_of_def)
    then have SI: "sched_inv block_ops S" using inv [of chain] by simp
    note tick = blk.sched_inv_tick [OF SI t] and ids = blk.tick_ids [OF SI t]
    have bs: "block_scheduler_of L' = (block_scheduler_of L)(chain := s')"
      by (simp add: L' block_scheduler_of_def fun_eq_iff)
    have idx: "indexed L' k = indexed L k" for k
      using ids(5) S by (cases k) (simp_all add: bs, simp_all add: L')
    have fr: "trigger_configs L' = trigger_configs L" "workflow_map L' = workflow_map L"
      "triggers_by_service_workflow L' = triggers_by_service_workflow L" "next_lookup_id L' = next_lookup_id L"
      by (simp_all add: L' workflow_map_def fun_eq_iff)
    have "scheds_ok L'" using assms(1) tick(1) by (simp add: scheds_ok_def bs lookup_inv_def) (simp add: L')
    moreover have "fst ` set hits \<subseteq> indexed L (IK_Block chain)"
      using tick(3) SI S by (auto simp: sched_inv_def)
    ultimately show ?thesis
      using assms(1) tick(2) fr
      by (simp add: lookup_inv_def maps_wf_def sound_index_def sound_workflows_def complete_index_def
          complete_workflows_def workflow_id_of_def idx del: indexed.simps)
  qed
  then show "lookup_inv L'" "complete_index L \<Longrightarrow> complete_index L'" "complete_workflows L \<Longrightarrow> complete_workflows L'"
    "fst ` set hits \<subseteq> indexed L (IK_Block chain)" "distinct (map fst hits)"
    "trigger_configs L' = trigger_configs L" by blast+
qed

lemma cron_tick_inv:
  assumes "lookup_inv L" "lookup_cron_tick now L = (hits, L')"
  shows "lookup_inv L'" "complete_index L \<Longrightarrow> complete_index L'" "complete_workflows L \<Longrightarrow> complete_workflows L'"
    "fst ` set hits \<subseteq> indexed L IK_Cron" "distinct (map fst hits)" "trigger_configs L' = trigger_configs L"
proof -
  obtain s' where t: "scheduler_tick cron_ops now (lm_cron_scheduler L) = (hits, s')"
    and L': "L' = L\<lparr>lm_cron_scheduler := s'\<rparr>"
    using assms(2) by (auto simp: lookup_cron_tick_def split: prod.splits)
  have SI: "sched_inv cron_ops (lm_cron_scheduler L)" using assms(1) by (simp add: lookup_inv_def scheds_ok_def)
  note tick = crn.sched_inv_tick [OF SI t] and ids = crn.tick_ids [OF SI t]
  have idx: "indexed L' k = indexed L k" for k
    using ids(5) by (cases k) (simp_all add: L')
  have fr: "trigger_configs L' = trigger_configs L" "workflow_map L' = workflow_map L"
    "triggers_by_service_workflow L' = triggers_by_service_workflow L" "next_lookup_id L' = next_lookup_id L"
    by (simp_all add: L' workflow_map_def fun_eq_iff)
  have sc: "scheds_ok L'" using assms(1) tick(1) by (simp add: scheds_ok_def L' lookup_inv_def)
  show "fst ` set hits \<subseteq> indexed L IK_Cron" using tick(3) SI by (auto simp: sched_inv_def)
  show "lookup_inv L'" "complete_index L \<Longrightarrow> complete_index L'" "complete_workflows L \<Longrightarrow> complete_workflows L'"
    "distinct (map fst hits)" "trigger_configs L' = trigger_configs L"
    using assms(1) tick(2) fr sc
    by (simp_all add: lookup_inv_def maps_wf_def sound_index_def sound_workflows_def complete_index_def
        complete_workflows_def workflow_id_of_def idx del: indexed.simps)
qed

section \<open>All states the operations can reach\<close>

text \<open>The flag marks orderly runs: a service is added only when none of its workflows is registered, as the
  dispatcher ensures, and removals return \<open>Ok\<close>. Additions may fail at any trigger; the Stellar
  controllers are arbitrary at every step. The counter does not pass \<open>2 ^ 64\<close>.\<close>

inductive lookup_reachable :: "crypto \<Rightarrow> 'sm trigger_env \<Rightarrow> bool \<Rightarrow> lookup_maps \<Rightarrow> bool" for C E orderly where
  lr_new: "lookup_reachable C E orderly lookup_maps_new"
| lr_add: "lookup_reachable C E orderly L \<Longrightarrow>
    unat (next_lookup_id L) + length (workflows svc) < 2 ^ 64 \<Longrightarrow>
    orderly \<longrightarrow> omap_wf (workflows svc) \<and> workflow_map L (service_id_of C svc) = [] \<Longrightarrow>
    lookup_add_service C E svc L ctrls = (r, L', ctrls') \<Longrightarrow> lookup_reachable C E orderly L'"
| lr_remove: "lookup_reachable C E orderly L \<Longrightarrow>
    lookup_remove_service E s L ctrls = (r, L', ctrls') \<Longrightarrow> orderly \<longrightarrow> is_ok r \<Longrightarrow>
    lookup_reachable C E orderly L'"
| lr_remove_workflow: "lookup_reachable C E orderly L \<Longrightarrow>
    remove_workflow E s w L ctrls = (r, L', ctrls') \<Longrightarrow> orderly \<longrightarrow> is_ok r \<Longrightarrow>
    lookup_reachable C E orderly L'"
| lr_block: "lookup_reachable C E orderly L \<Longrightarrow> lookup_block_tick chain height L = (hits, L') \<Longrightarrow>
    lookup_reachable C E orderly L'"
| lr_cron: "lookup_reachable C E orderly L \<Longrightarrow> lookup_cron_tick now L = (hits, L') \<Longrightarrow>
    lookup_reachable C E orderly L'"

lemma complete_new: "complete_index lookup_maps_new" "complete_workflows lookup_maps_new"
  by (simp_all add: complete_index_def complete_workflows_def lookup_maps_new_def)

lemma lookup_reachable_inv:
  assumes "lookup_reachable C E orderly L"
  shows "lookup_inv L \<and> (orderly \<longrightarrow> complete_index L \<and> complete_workflows L)"
  using assms
proof induction
  case lr_new
  then show ?case by (simp add: lookup_inv_new complete_new)
next
  case (lr_add L svc ctrls r L' ctrls')
  then show ?case using add_service_inv [OF _ lr_add(2,4)] by blast
next
  case (lr_remove L s ctrls r L' ctrls')
  then show ?case using remove_service_inv [OF _ lr_remove(2)] by blast
next
  case (lr_remove_workflow L s w ctrls r L' ctrls')
  then show ?case using remove_workflow_inv [OF _ lr_remove_workflow(2)] by blast
next
  case (lr_block L chain height hits L')
  then show ?case using block_tick_inv [OF _ lr_block(2)] by blast
next
  case (lr_cron L now hits L')
  then show ?case using cron_tick_inv [OF _ lr_cron(2)] by blast
qed

text \<open>The entries of an index are sets: no id twice.\<close>

definition entries_ok :: "('k, lookup_id list) table \<Rightarrow> bool" where
  "entries_ok t = (table_wf t \<and> (\<forall>k. distinct (entry_ids t k)))"

definition sets_ok :: "lookup_maps \<Rightarrow> bool" where
  "sets_ok L =
     (entries_ok (triggers_by_evm_contract_event L) \<and> entries_ok (triggers_by_cosmos_contract_event L) \<and>
      entries_ok (triggers_by_atproto_event_exact L) \<and> entries_ok (triggers_by_atproto_event_pattern L))"

lemma entries_ok_new [simp]: "entries_ok table_new"
  by (simp add: entries_ok_def entry_ids_def)

lemma entries_ok_insert [simp]: "entries_ok t \<Longrightarrow> entries_ok (entry_insert k i t)"
  by (auto simp: entries_ok_def entry_insert_def entry_ids_def split: option.splits)

lemma entries_ok_remove [simp]: "entries_ok t \<Longrightarrow> entries_ok (entry_remove k i t)"
  by (cases "get_cloned t k")
    (force simp: entries_ok_def entry_remove_def entry_ids_def Let_def distinct_removeAll split: option.splits)+

lemma index_trigger_sets: "index_trigger E i t L ctrls = (r, L', ctrls') \<Longrightarrow> sets_ok L \<Longrightarrow> sets_ok L'"
  by (cases t) (auto simp: sets_ok_def Let_def split: sum.splits option.splits prod.splits cron_error.splits if_splits)

lemma unindex_trigger_sets: "unindex_trigger E i t L ctrls = (r, L', ctrls') \<Longrightarrow> sets_ok L \<Longrightarrow> sets_ok L'"
  by (cases t) (auto simp: sets_ok_def Let_def split: option.splits prod.splits if_splits)

lemma sets_ok_frame [simp]:
  "sets_ok (L\<lparr>trigger_configs := a\<rparr>) = sets_ok L" "sets_ok (L\<lparr>triggers_by_service_workflow := b\<rparr>) = sets_ok L"
  "sets_ok (L\<lparr>next_lookup_id := c\<rparr>) = sets_ok L" "sets_ok (L\<lparr>service_manager_map := d\<rparr>) = sets_ok L"
  "sets_ok (L\<lparr>block_schedulers := e\<rparr>) = sets_ok L" "sets_ok (L\<lparr>lm_cron_scheduler := f\<rparr>) = sets_ok L"
  by (simp_all add: sets_ok_def)

lemma add_trigger_sets:
  assumes "lookup_add_trigger E cfg L ctrls = (r, L', ctrls')" "sets_ok L"
  shows "sets_ok L'"
  using assms(1)
proof (cases rule: add_trigger_cases)
  case (error L1 e)
  with index_trigger_sets [OF error(3)] assms(2) show ?thesis by simp
next
  case (added L1)
  with index_trigger_sets [OF added(2)] assms(2) show ?thesis by simp
qed

lemma add_triggers_sets: "add_triggers E cfgs L ctrls = (r, L', ctrls') \<Longrightarrow> sets_ok L \<Longrightarrow> sets_ok L'"
  by (induction E cfgs L ctrls rule: add_triggers.induct)
    (auto split: prod.splits sum.splits dest: add_trigger_sets)

lemma unindex_all_sets: "unindex_all E ids L ctrls = (r, L', ctrls') \<Longrightarrow> sets_ok L \<Longrightarrow> sets_ok L'"
  by (induction ids arbitrary: L ctrls)
    (auto split: option.splits prod.splits sum.splits dest: unindex_trigger_sets)

lemma lookup_reachable_sets: "lookup_reachable C E orderly L \<Longrightarrow> sets_ok L"
proof (induction rule: lookup_reachable.induct)
  case lr_new
  then show ?case by (simp add: sets_ok_def lookup_maps_new_def)
next
  case (lr_add L svc ctrls r L' ctrls')
  then show ?case by (auto simp: lookup_add_service_def Let_def dest: add_triggers_sets)
next
  case (lr_remove L s ctrls r L' ctrls')
  then show ?case
    by (auto simp: lookup_remove_service_def Let_def split: option.splits prod.splits sum.splits dest: unindex_all_sets)
next
  case (lr_remove_workflow L s w ctrls r L' ctrls')
  then show ?case
    by (auto simp: remove_workflow_def Let_def split: option.splits prod.splits sum.splits dest!: unindex_trigger_sets)
next
  case (lr_block L chain height hits L')
  then show ?case by (auto simp: lookup_block_tick_def split: option.splits prod.splits)
next
  case (lr_cron L now hits L')
  then show ?case by (auto simp: lookup_cron_tick_def split: prod.splits)
qed


definition demo_trigger_env :: "(nat \<times> (nat \<times> stellar_event_filter) list) trigger_env" where
  "demo_trigger_env =
     \<lparr>te_slotmap = demo_slotmap, te_to_xdr = (\<lambda>v. Inr ''AAAA''), te_cron_parse = (\<lambda>s. Inl ''cron'')\<rparr>"

definition demo_evm_trigger :: trigger where
  "demo_evm_trigger = EvmContractEvent (replicate 20 7) \<lparr>namespace = ''evm'', chain_id = ''1''\<rparr> (replicate 32 9)"

definition demo_evm_service :: service where
  "demo_evm_service = service_new_simple None demo_evm_trigger (Digest (replicate 32 0)) SubmitNone demo_manager"

definition demo_lookup :: lookup_maps where
  "demo_lookup = fst (snd (lookup_add_service demo_crypto demo_trigger_env demo_evm_service lookup_maps_new table_new))"

abbreviation demo_evm_service_id :: service_id where
  "demo_evm_service_id \<equiv> service_id_of demo_crypto demo_evm_service"

lemma demo_lookup_reachable: "lookup_reachable demo_crypto demo_trigger_env True demo_lookup"
proof -
  obtain r L' c' where a:
    "lookup_add_service demo_crypto demo_trigger_env demo_evm_service lookup_maps_new table_new = (r, L', c')"
    by (metis prod_cases3)
  have "lookup_reachable demo_crypto demo_trigger_env True L'"
    by (rule lr_add [OF lr_new _ _ a])
      (simp_all add: demo_evm_service_def service_new_simple_def lookup_maps_new_def omap_wf_def workflow_map_def)
  then show ?thesis by (simp add: demo_lookup_def a)
qed

lemma demo_lookup_configs:
  "trigger_configs demo_lookup =
     [(0, \<lparr>tc_service_id = demo_evm_service_id, tc_workflow_id = workflow_id_default, tc_trigger = demo_evm_trigger\<rparr>)]"
  "triggers_by_service_workflow demo_lookup = [(demo_evm_service_id, [(workflow_id_default, 0)])]"
  "triggers_by_evm_contract_event demo_lookup =
     [((\<lparr>namespace = ''evm'', chain_id = ''1''\<rparr>, replicate 20 7, replicate 32 9), [0])]"
  by (simp_all add: demo_lookup_def lookup_add_service_def Let_def trigger_configs_of_def demo_evm_service_def
      service_new_simple_def lookup_add_trigger_def lookup_maps_new_def demo_evm_trigger_def workflow_map_def
      entry_insert_def entry_ids_def table_insert_def table_new_def get_cloned_def)


lemma remove_service_waiting:
  assumes inv: "lookup_inv L" and rm: "lookup_remove_service E s L ctrls = (Inr (), L', ctrls')"
  defines "I \<equiv> set (map snd (workflow_map L s))"
  shows "waiting (block_scheduler_of L' chain) =
      filter (\<lambda>p. op_lookup_id block_ops (snd p) \<notin> I) (waiting (block_scheduler_of L chain))"
    and "waiting (lm_cron_scheduler L') = filter (\<lambda>p. op_lookup_id cron_ops (snd p) \<notin> I) (waiting (lm_cron_scheduler L))"
proof -
  let ?L0 = "L\<lparr>service_manager_map := bimap_remove_by_left s (service_manager_map L)\<rparr>"
  have inv0: "scheds_ok ?L0" "sound_index ?L0" using inv by (simp_all add: lookup_inv_def scheds_ok_def sound_index_def)
  have "waiting (block_scheduler_of L' chain) =
      filter (\<lambda>p. op_lookup_id block_ops (snd p) \<notin> I) (waiting (block_scheduler_of L chain)) \<and>
    waiting (lm_cron_scheduler L') = filter (\<lambda>p. op_lookup_id cron_ops (snd p) \<notin> I) (waiting (lm_cron_scheduler L))"
  proof (cases "map_of (triggers_by_service_workflow L) s")
    case None
    then show ?thesis using rm by (auto simp: lookup_remove_service_def I_def workflow_map_def filter_True)
  next
    case (Some m)
    then have I: "I = set (map snd m)" by (simp add: I_def workflow_map_def)
    obtain L1 where u: "unindex_all E (map snd m) ?L0 ctrls = (Inr (), L1, ctrls')"
      and L': "L' = L1\<lparr>trigger_configs := fold omap_remove (map snd m) (trigger_configs L1),
        triggers_by_service_workflow := omap_remove s (triggers_by_service_workflow L1)\<rparr>"
      using rm Some by (auto simp: lookup_remove_service_def Let_def split: prod.splits sum.splits)
    show ?thesis using unindex_all_waiting [OF u inv0, of chain] by (simp add: L' I)
  qed
  then show "waiting (block_scheduler_of L' chain) =
      filter (\<lambda>p. op_lookup_id block_ops (snd p) \<notin> I) (waiting (block_scheduler_of L chain))"
    and "waiting (lm_cron_scheduler L') = filter (\<lambda>p. op_lookup_id cron_ops (snd p) \<notin> I) (waiting (lm_cron_scheduler L))"
    by blast+
qed

text \<open>The ids a service's workflows point to are the ids of its triggers.\<close>

lemma service_ids:
  assumes "lookup_inv L" "complete_workflows L" "map_of (trigger_configs L) i = Some cfg"
  shows "i \<in> set (map snd (workflow_map L s)) \<longleftrightarrow> tc_service_id cfg = s"
proof
  assume "i \<in> set (map snd (workflow_map L s))"
  then obtain w where w: "(w, i) \<in> set (workflow_map L s)" by auto
  have "omap_wf (workflow_map L s)" using assms(1) by (simp add: lookup_inv_def maps_wf_def)
  then have "workflow_id_of L s w = Some i" using w by (simp add: workflow_id_of_def omap_wf_def strict_sorted_iff)
  with sound_workflowsD [OF assms(1) this] assms(3) show "tc_service_id cfg = s" by simp
next
  assume "tc_service_id cfg = s"
  with assms(2,3) have "workflow_id_of L s (tc_workflow_id cfg) = Some i" unfolding complete_workflows_def by blast
  then show "i \<in> set (map snd (workflow_map L s))" by (force simp: workflow_id_of_def dest: map_of_SomeD)
qed

definition of_other_service :: "lookup_maps \<Rightarrow> service_id \<Rightarrow> lookup_id \<Rightarrow> bool" where
  "of_other_service L s i = (\<exists>cfg. map_of (trigger_configs L) i = Some cfg \<and> tc_service_id cfg \<noteq> s)"

text \<open>
  C9: After an orderly run, a removal of a service that returns \<open>Ok\<close> forgets exactly this service: none of its triggers is
  configured, indexed or scheduled any more; every trigger of every other service is configured and
  indexed as before; and the queues of the block and cron schedulers keep exactly the states of the other services,
  in the same order and with the same times. The workflows and manager addresses of other services stay.
\<close>

theorem remove_service_exact:
  assumes "lookup_reachable C E True L"
    and "lookup_remove_service E s L ctrls = (Inr (), L', ctrls')"
  shows "(map_of (trigger_configs L') i = (if of_other_service L s i then map_of (trigger_configs L) i else None)) \<and>
    (i \<in> indexed L' k \<longleftrightarrow> i \<in> indexed L k \<and> of_other_service L s i) \<and>
    waiting (block_scheduler_of L' chain) =
      filter (\<lambda>p. of_other_service L s (op_lookup_id block_ops (snd p))) (waiting (block_scheduler_of L chain)) \<and>
    waiting (lm_cron_scheduler L') =
      filter (\<lambda>p. of_other_service L s (op_lookup_id cron_ops (snd p))) (waiting (lm_cron_scheduler L)) \<and>
    workflow_map L' s = [] \<and> bimap_get_by_left (service_manager_map L') s = None \<and>
    (s' \<noteq> s \<longrightarrow> workflow_id_of L' s' w = workflow_id_of L s' w \<and>
       bimap_get_by_left (service_manager_map L') s' = bimap_get_by_left (service_manager_map L) s')"
proof -
  from lookup_reachable_inv [OF assms(1)]
  have inv: "lookup_inv L" and cw: "complete_workflows L" and si: "sound_index L" by (simp_all add: lookup_inv_def)
  have mgr: "bimap_get_by_left (bimap_remove_by_left s m) s = None"
    "s' \<noteq> s \<Longrightarrow> bimap_get_by_left (bimap_remove_by_left s m) s' = bimap_get_by_left m s'"
    for m :: "(service_id, chain_address) bimap"
    by (auto simp: bimap_get_by_left_def bimap_remove_by_left_def map_of_eq_None_iff)
      (induction m; auto)
  have has: "\<exists>cfg. map_of (trigger_configs L) i = Some cfg" if "i \<in> indexed L k" for i k
    using that si unfolding sound_index_def by blast
  have other: "i \<notin> set (map snd (workflow_map L s)) \<longleftrightarrow> of_other_service L s i" if "i \<in> indexed L k" for i k
    using has [OF that] service_ids [OF inv cw] by (auto simp: of_other_service_def)
  have sched: "scheds_ok L" using inv by (simp add: lookup_inv_def)
  have "waiting (block_scheduler_of L' chain) =
      filter (\<lambda>p. of_other_service L s (op_lookup_id block_ops (snd p))) (waiting (block_scheduler_of L chain))"
    unfolding remove_service_waiting(1) [OF inv assms(2)]
    by (rule filter_cong [OF refl]) (rule other [OF waiting_indexed(1) [OF sched]])
  moreover have "waiting (lm_cron_scheduler L') =
      filter (\<lambda>p. of_other_service L s (op_lookup_id cron_ops (snd p))) (waiting (lm_cron_scheduler L))"
    unfolding remove_service_waiting(2) [OF inv assms(2)]
    by (rule filter_cong [OF refl]) (rule other [OF waiting_indexed(2) [OF sched]])
  moreover have "(map_of (trigger_configs L') i = (if of_other_service L s i then map_of (trigger_configs L) i else None)) \<and>
    (i \<in> indexed L' k \<longleftrightarrow> i \<in> indexed L k \<and> of_other_service L s i) \<and>
    workflow_map L' s = [] \<and> bimap_get_by_left (service_manager_map L') s = None \<and>
    (s' \<noteq> s \<longrightarrow> workflow_id_of L' s' w = workflow_id_of L s' w \<and>
       bimap_get_by_left (service_manager_map L') s' = bimap_get_by_left (service_manager_map L) s')"
    using inv assms(2)
  proof (cases rule: remove_service_cases)
    case absent
    have "workflow_map L s = []" using absent(2) by (simp add: workflow_map_def)
    then have "of_other_service L s i \<longleftrightarrow> map_of (trigger_configs L) i \<noteq> None" for i
      using service_ids [OF inv cw, of i _ s] by (auto simp: of_other_service_def)
    with absent(2,3) has [of i k] mgr show ?thesis
      by (auto simp: workflow_map_def workflow_id_of_def simp del: indexed.simps)
  next
    case (removed m)
    have m: "set (map snd m) = set (map snd (workflow_map L s))" using removed(2) by (simp add: workflow_map_def)
    have "map_of (workflow_map L' s) w = None" for w using removed(5) [of s w] by (simp add: workflow_id_of_def)
    then have "workflow_map L' s = []" by (metis map_of_eq_empty_iff ext)
    moreover have "i \<in> indexed L' k \<longleftrightarrow> i \<in> indexed L k \<and> of_other_service L s i"
      using removed(3) [of k] other [of i k] unfolding m by blast
    moreover have "map_of (trigger_configs L') i = (if of_other_service L s i then map_of (trigger_configs L) i else None)"
      using removed(4) [of i] service_ids [OF inv cw, of i _ s] unfolding m
      by (cases "map_of (trigger_configs L) i") (auto simp: of_other_service_def)
    ultimately show ?thesis using removed(5,8) mgr by simp
  qed simp
  ultimately show ?thesis by blast
qed

text \<open>Two services, one with a block interval trigger: removing the other leaves it in the queue of the scheduler.\<close>

definition demo_block_service :: service where
  "demo_block_service =
     service_new_simple None (BlockInterval \<lparr>namespace = ''evm'', chain_id = ''1''\<rparr> 5 None None) (Digest (replicate 32 0)) SubmitNone
       (SM_Evm \<lparr>namespace = ''evm'', chain_id = ''1''\<rparr> (replicate 20 3))"

definition demo_two_lookup :: lookup_maps where
  "demo_two_lookup = fst (snd (lookup_add_service demo_crypto demo_trigger_env demo_block_service demo_lookup table_new))"

lemma demo_service_ids_differ: "service_id_of demo_crypto demo_block_service \<noteq> demo_evm_service_id"
  by (simp add: service_id_of_def service_id_from_def demo_block_service_def demo_evm_service_def service_new_simple_def
      demo_manager_def hash_id_hash_def demo_crypto_def)

lemma demo_two_lookup_reachable: "lookup_reachable demo_crypto demo_trigger_env True demo_two_lookup"
proof -
  obtain r L' c' where a:
    "lookup_add_service demo_crypto demo_trigger_env demo_block_service demo_lookup table_new = (r, L', c')"
    by (metis prod_cases3)
  have n: "next_lookup_id demo_lookup = 1"
    by (simp add: demo_lookup_def lookup_add_service_def Let_def trigger_configs_of_def demo_evm_service_def
      service_new_simple_def lookup_add_trigger_def lookup_maps_new_def demo_evm_trigger_def)
  have "lookup_reachable demo_crypto demo_trigger_env True L'"
    by (rule lr_add [OF demo_lookup_reachable _ _ a])
      (use demo_service_ids_differ in \<open>simp_all add: demo_block_service_def service_new_simple_def demo_lookup_configs omap_wf_def
        workflow_map_def n\<close>)
  then show ?thesis by (simp add: demo_two_lookup_def a)
qed

lemma demo_two_lookup_parts:
  "map_of (trigger_configs demo_two_lookup) 1 = Some \<lparr>tc_service_id = service_id_of demo_crypto demo_block_service,
      tc_workflow_id = workflow_id_default, tc_trigger = BlockInterval \<lparr>namespace = ''evm'', chain_id = ''1''\<rparr> 5 None None\<rparr>"
  "waiting (block_scheduler_of demo_two_lookup \<lparr>namespace = ''evm'', chain_id = ''1''\<rparr>) =
     [(None, block_interval_state_new 1 5 None None)]"
  "is_ok (fst (lookup_remove_service demo_trigger_env demo_evm_service_id demo_two_lookup
      (table_new :: (nat \<times> (nat \<times> stellar_event_filter) list) stellar_controllers)))"
proof -
  have base: "next_lookup_id demo_lookup = 1" "block_schedulers demo_lookup = table_new"
    by (simp_all add: demo_lookup_def lookup_add_service_def Let_def trigger_configs_of_def demo_evm_service_def
      service_new_simple_def lookup_add_trigger_def lookup_maps_new_def demo_evm_trigger_def)
  note two = demo_two_lookup_def lookup_add_service_def Let_def trigger_configs_of_def demo_block_service_def
      service_new_simple_def lookup_add_trigger_def base block_scheduler_of_def scheduler_add_trigger_def block_interval_state_new_def
  show "map_of (trigger_configs demo_two_lookup) 1 = Some \<lparr>tc_service_id = service_id_of demo_crypto demo_block_service,
      tc_workflow_id = workflow_id_default, tc_trigger = BlockInterval \<lparr>namespace = ''evm'', chain_id = ''1''\<rparr> 5 None None\<rparr>"
    by (simp add: two demo_lookup_configs)
  show "waiting (block_scheduler_of demo_two_lookup \<lparr>namespace = ''evm'', chain_id = ''1''\<rparr>) =
     [(None, block_interval_state_new 1 5 None None)]"
    by (simp add: two waiting_def scheduler_new_def)
  have wm: "map_of (triggers_by_service_workflow demo_two_lookup) demo_evm_service_id = Some [(workflow_id_default, 0)]"
    using demo_service_ids_differ by (simp add: two demo_lookup_configs workflow_map_def)
  have cfg: "map_of (trigger_configs demo_two_lookup) 0 =
      Some \<lparr>tc_service_id = demo_evm_service_id, tc_workflow_id = workflow_id_default, tc_trigger = demo_evm_trigger\<rparr>"
    by (simp add: two demo_lookup_configs)
  show "is_ok (fst (lookup_remove_service demo_trigger_env demo_evm_service_id demo_two_lookup
      (table_new :: (nat \<times> (nat \<times> stellar_event_filter) list) stellar_controllers)))"
    by (simp add: lookup_remove_service_def wm cfg demo_evm_trigger_def)
qed

theorem remove_service_exact_witness:
  "let L' = fst (snd (lookup_remove_service demo_trigger_env demo_evm_service_id demo_two_lookup
      (table_new :: (nat \<times> (nat \<times> stellar_event_filter) list) stellar_controllers)))
   in workflow_map L' demo_evm_service_id = [] \<and> map_of (trigger_configs L') 1 \<noteq> None \<and>
      waiting (block_scheduler_of L' \<lparr>namespace = ''evm'', chain_id = ''1''\<rparr>) =
        [(None, block_interval_state_new 1 5 None None)]"
proof -
  let ?chain = "\<lparr>namespace = ''evm'', chain_id = ''1''\<rparr>"
  obtain r L' c' where rm: "lookup_remove_service demo_trigger_env demo_evm_service_id demo_two_lookup
      (table_new :: (nat \<times> (nat \<times> stellar_event_filter) list) stellar_controllers) = (r, L', c')" by (metis prod_cases3)
  then have ok: "r = Inr ()" using demo_two_lookup_parts(3) by (cases r) simp_all
  have other: "of_other_service demo_two_lookup demo_evm_service_id 1"
    using demo_two_lookup_parts(1) demo_service_ids_differ by (simp add: of_other_service_def)
  note exact = remove_service_exact [OF demo_two_lookup_reachable rm [unfolded ok], of 1 IK_Cron ?chain]
  have "waiting (block_scheduler_of L' ?chain) = [(None, block_interval_state_new 1 5 None None)]"
    using exact other unfolding demo_two_lookup_parts(2) by (simp add: block_interval_state_new_def)
  moreover have "map_of (trigger_configs L') 1 \<noteq> None" "workflow_map L' demo_evm_service_id = []"
    using exact other demo_two_lookup_parts(1) by simp_all
  ultimately show ?thesis by (simp add: rm)
qed

text \<open>
  The ids of Stellar filters are minted per chain, but the table from filter ids to triggers is shared by all chains: when the same
  contract events are watched on two Stellar chains whose clients are fresh, both additions return
  \<open>Ok\<close> and the first trigger is still configured, but its filter id now leads to the second trigger
  and nothing leads to the first.
\<close>

lemma stellar_filter_ids_collide:
  assumes "a \<noteq> b"
    and "get_cloned ctrls a = Some (stellar_stream_controller_new (te_slotmap E) u)"
    and "get_cloned ctrls b = Some (stellar_stream_controller_new (te_slotmap E) v)"
    and "tc_trigger cfg1 = StellarContractEvent a contract topics"
    and "tc_trigger cfg2 = StellarContractEvent b contract topics"
    and "omap_wf (trigger_configs L)"
    and "lookup_add_trigger E cfg1 L ctrls = (Inr (), L1, ctrls1)"
    and "lookup_add_trigger E cfg2 L1 ctrls1 = (Inr (), L2, ctrls2)"
  shows "map_of (trigger_configs L2) (next_lookup_id L) = Some cfg1 \<and>
    next_lookup_id L \<notin> indexed L2 IK_Stellar \<and>
    bimap_get_by_left (triggers_by_stellar_contract_event L2)
      (fst (add_filter (te_slotmap E)
        (projr (stellar_event_filter_new (te_to_xdr E) contract topics)) (event_filters_default (te_slotmap E))))
      = Some (next_lookup_id L + 1)"
proof -
  let ?M = "te_slotmap E"
  obtain f where f: "stellar_event_filter_new (te_to_xdr E) contract topics = Inr f"
    using assms(4,7) by (auto simp: lookup_add_trigger_def Let_def split: sum.splits)
  obtain i F where add: "add_filter ?M f (event_filters_default ?M) = (i, F)" by fastforce
  have up: "update_event_filters (add_filter ?M f) (stellar_stream_controller_new ?M w) =
      (i, (stellar_stream_controller_new ?M w)\<lparr>client := (stellar_stream_client_new ?M w)\<lparr>event_filters := F\<rparr>\<rparr>)" for w
    by (simp add: update_event_filters_def stellar_stream_controller_new_def stellar_stream_client_new_def add)
  have L1: "triggers_by_stellar_contract_event L1 =
        bimap_insert i (next_lookup_id L) (triggers_by_stellar_contract_event L)"
    "get_cloned ctrls1 b = Some (stellar_stream_controller_new ?M v)" "next_lookup_id L1 = next_lookup_id L + 1"
    "trigger_configs L1 = omap_insert (next_lookup_id L) cfg1 (trigger_configs L)"
    using assms(1-4,7) by (auto simp: lookup_add_trigger_def f up Let_def)
  have "triggers_by_stellar_contract_event L2 =
        bimap_insert i (next_lookup_id L + 1) (triggers_by_stellar_contract_event L1)"
    "trigger_configs L2 = omap_insert (next_lookup_id L + 1) cfg2 (trigger_configs L1)"
    using assms(5,8) L1 by (auto simp: lookup_add_trigger_def f up Let_def)
  then show ?thesis
    using L1 assms(6) by (auto simp: bimap_insert_def bimap_get_by_left_def f add omap_wf_sorted)
qed

definition demo_stellar_chain :: "string \<Rightarrow> chain_key" where
  "demo_stellar_chain n = \<lparr>namespace = ''stellar'', chain_id = n\<rparr>"

definition demo_stellar_config :: "string \<Rightarrow> trigger_config" where
  "demo_stellar_config n =
     \<lparr>tc_service_id = [1], tc_workflow_id = n,
      tc_trigger = StellarContractEvent (demo_stellar_chain n) ''CA'' [Wildcard]\<rparr>"

definition demo_stellar_controllers :: "(nat \<times> (nat \<times> stellar_event_filter) list) stellar_controllers" where
  "demo_stellar_controllers =
     [(demo_stellar_chain ''testnet'', stellar_stream_controller_new demo_slotmap None),
      (demo_stellar_chain ''mainnet'', stellar_stream_controller_new demo_slotmap None)]"

lemma stellar_filter_ids_collide_witness:
  "let (r1, L1, c1) = lookup_add_trigger demo_trigger_env (demo_stellar_config ''testnet'') lookup_maps_new
         demo_stellar_controllers;
       (r2, L2, c2) = lookup_add_trigger demo_trigger_env (demo_stellar_config ''mainnet'') L1 c1
   in r1 = Inr () \<and> r2 = Inr () \<and> map_of (trigger_configs L2) 0 = Some (demo_stellar_config ''testnet'') \<and>
      0 \<notin> indexed L2 IK_Stellar"
proof -
  obtain r1 L1 c1 where a1: "lookup_add_trigger demo_trigger_env (demo_stellar_config ''testnet'') lookup_maps_new
      demo_stellar_controllers = (r1, L1, c1)" by (metis prod_cases3)
  obtain r2 L2 c2 where a2: "lookup_add_trigger demo_trigger_env (demo_stellar_config ''mainnet'') L1 c1 = (r2, L2, c2)"
    by (metis prod_cases3)
  let ?c = "Some (stellar_stream_controller_new demo_slotmap None)"
  have ctrls: "get_cloned demo_stellar_controllers (demo_stellar_chain ''testnet'') = ?c"
    "get_cloned demo_stellar_controllers (demo_stellar_chain ''mainnet'') = ?c"
    by (simp_all add: get_cloned_def demo_stellar_controllers_def demo_stellar_chain_def)
  have ne: "demo_stellar_chain ''testnet'' \<noteq> demo_stellar_chain ''mainnet''" by (simp add: demo_stellar_chain_def)
  have r1: "r1 = Inr ()" and c1: "get_cloned c1 (demo_stellar_chain ''mainnet'') = ?c"
    using a1 ctrls ne
    by (auto simp: lookup_add_trigger_def demo_stellar_config_def demo_trigger_env_def stellar_event_filter_new_def
        Let_def split: prod.splits)
  have r2: "r2 = Inr ()"
    using a2 c1 by (auto simp: lookup_add_trigger_def demo_stellar_config_def demo_trigger_env_def
        stellar_event_filter_new_def Let_def split: prod.splits)
  have slot: "te_slotmap demo_trigger_env = demo_slotmap" by (simp add: demo_trigger_env_def)
  have trig: "tc_trigger (demo_stellar_config n) = StellarContractEvent (demo_stellar_chain n) ''CA'' [Wildcard]" for n
    by (simp add: demo_stellar_config_def)
  have zero: "next_lookup_id lookup_maps_new = 0" "omap_wf (trigger_configs lookup_maps_new)"
    by (simp_all add: lookup_maps_new_def)
  from stellar_filter_ids_collide [OF ne _ _ trig trig zero(2) a1 [unfolded r1] a2 [unfolded r2], unfolded slot, OF ctrls]
  show ?thesis by (simp add: a1 a2 r1 r2 zero)
qed

section \<open>Other services\<close>

text \<open>What an operation on one service leaves alone: the triggers of all other services, with their places in the
  indexes and in the queues of the schedulers, their workflows and their manager addresses. Two things are shared
  between services: the ids of Stellar filters, and a manager address, which is given to the service that was
  registered last.\<close>

definition others_kept :: "service_id \<Rightarrow> chain_address \<Rightarrow> lookup_maps \<Rightarrow> lookup_maps \<Rightarrow> bool" where
  "others_kept s a L L' =
     ((\<forall>i. of_other_service L s i \<or> of_other_service L' s i \<longrightarrow>
        map_of (trigger_configs L') i = map_of (trigger_configs L) i) \<and>
      (\<forall>i k. of_other_service L s i \<longrightarrow> k \<noteq> IK_Stellar \<longrightarrow> (i \<in> indexed L' k \<longleftrightarrow> i \<in> indexed L k)) \<and>
      (\<forall>chain. filter (\<lambda>p. of_other_service L s (op_lookup_id block_ops (snd p))) (waiting (block_scheduler_of L' chain)) =
        filter (\<lambda>p. of_other_service L s (op_lookup_id block_ops (snd p))) (waiting (block_scheduler_of L chain))) \<and>
      filter (\<lambda>p. of_other_service L s (op_lookup_id cron_ops (snd p))) (waiting (lm_cron_scheduler L')) =
        filter (\<lambda>p. of_other_service L s (op_lookup_id cron_ops (snd p))) (waiting (lm_cron_scheduler L)) \<and>
      (\<forall>s' w. s' \<noteq> s \<longrightarrow> workflow_id_of L' s' w = workflow_id_of L s' w) \<and>
      (\<forall>s'. s' \<noteq> s \<longrightarrow> bimap_get_by_left (service_manager_map L) s' \<noteq> Some a \<longrightarrow>
        bimap_get_by_left (service_manager_map L') s' = bimap_get_by_left (service_manager_map L) s'))"

lemma others_kept_refl: "others_kept s a L L"
  by (simp add: others_kept_def)

lemma others_kept_of_other: "others_kept s a L L' \<Longrightarrow> of_other_service L' s = of_other_service L s"
proof -
  assume "others_kept s a L L'"
  then have eq: "map_of (trigger_configs L') i = map_of (trigger_configs L) i"
    if "of_other_service L s i \<or> of_other_service L' s i" for i
    using that unfolding others_kept_def by blast
  show ?thesis using eq by (fastforce simp: fun_eq_iff of_other_service_def)
qed

lemma others_kept_trans: "others_kept s a L L1 \<Longrightarrow> others_kept s a L1 L2 \<Longrightarrow> others_kept s a L L2"
proof -
  assume 1: "others_kept s a L L1" and 2: "others_kept s a L1 L2"
  note o1 = others_kept_of_other [OF 1] and o2 = others_kept_of_other [OF 2]
  show ?thesis
    using 1 2 unfolding others_kept_def o1 o2
    by (simp add: o1 o2 del: indexed.simps)
qed

lemma bimap_insert_other:
  "x \<noteq> y \<Longrightarrow> bimap_get_by_left m x \<noteq> Some a \<Longrightarrow> bimap_get_by_left (bimap_insert y a m) x = bimap_get_by_left m x"
  unfolding bimap_get_by_left_def bimap_insert_def by (induction m) (auto split: if_splits)

lemma bimap_remove_other:
  "x \<noteq> y \<Longrightarrow> bimap_get_by_left (bimap_remove_by_left y m) x = bimap_get_by_left m x"
  unfolding bimap_get_by_left_def bimap_remove_by_left_def by (induction m) auto

lemma unindex_all_others:
  assumes "unindex_all E ids L ctrls = (r, L', ctrls')" "\<And>p. P p \<Longrightarrow> op_lookup_id block_ops (snd p) \<notin> set ids"
    "\<And>p. Q p \<Longrightarrow> op_lookup_id cron_ops (snd p) \<notin> set ids"
  shows "filter P (waiting (block_scheduler_of L' chain)) = filter P (waiting (block_scheduler_of L chain)) \<and>
    filter Q (waiting (lm_cron_scheduler L')) = filter Q (waiting (lm_cron_scheduler L))"
  using assms
proof (induction ids arbitrary: L ctrls)
  case (Cons i ids)
  show ?case
  proof (cases "map_of (trigger_configs L) i")
    case None
    with Cons.prems Cons.IH [of L ctrls] show ?thesis by force
  next
    case (Some cfg)
    obtain r1 L1 c1 where un: "unindex_trigger E i (tc_trigger cfg) L ctrls = (r1, L1, c1)" by (metis prod_cases3)
    have "\<And>p. P p \<Longrightarrow> op_lookup_id block_ops (snd p) \<noteq> i" "\<And>p. Q p \<Longrightarrow> op_lookup_id cron_ops (snd p) \<noteq> i"
      using Cons.prems(2,3) by force+
    then have 1: "filter P (waiting (block_scheduler_of L1 chain)) = filter P (waiting (block_scheduler_of L chain))"
      "filter Q (waiting (lm_cron_scheduler L1)) = filter Q (waiting (lm_cron_scheduler L))"
      unfolding unindex_trigger_waiting [OF un] by (auto intro!: filter_cong)
    show ?thesis
    proof (cases r1)
      case (Inl e)
      then show ?thesis using Cons.prems(1) Some un 1 by simp
    next
      case (Inr u)
      then have "unindex_all E ids L1 c1 = (r, L', ctrls')" using Cons.prems(1) Some un by simp
      from Cons.IH [OF this] Cons.prems(2,3) 1 show ?thesis by force
    qed
  qed
qed simp

lemma remove_service_others:
  assumes inv: "lookup_inv L" and rm: "lookup_remove_service E s L ctrls = (r, L', ctrls')"
  shows "others_kept s a L L'"
proof (cases "map_of (triggers_by_service_workflow L) s")
  case None
  then have L': "L' = L\<lparr>service_manager_map := bimap_remove_by_left s (service_manager_map L)\<rparr>"
    using rm by (simp add: lookup_remove_service_def)
  show ?thesis unfolding L' others_kept_def by (simp add: bimap_remove_other of_other_service_def)
next
  case (Some m)
  let ?L0 = "L\<lparr>service_manager_map := bimap_remove_by_left s (service_manager_map L)\<rparr>"
  obtain r1 L1 c1 where u: "unindex_all E (map snd m) ?L0 ctrls = (r1, L1, c1)" by (metis prod_cases3)
  have "scheds_ok ?L0" using inv by (simp add: lookup_inv_def scheds_ok_def)
  note un = unindex_all_spec [OF u this]
  have own: "\<not> of_other_service L s i" if "i \<in> set (map snd m)" for i
    using removed_ids [OF inv Some, of i] sound_workflowsD [OF inv] that by (force simp: of_other_service_def)
  have w1: "workflow_map L1 = workflow_map L" by (rule workflow_map_frame) (use un in simp)
  have frame: "service_manager_map L' = bimap_remove_by_left s (service_manager_map L)"
    "\<And>k. indexed L' k = indexed L1 k" "\<And>chain. block_scheduler_of L' chain = block_scheduler_of L1 chain"
    "lm_cron_scheduler L' = lm_cron_scheduler L1"
    "\<And>s' w. s' \<noteq> s \<Longrightarrow> workflow_id_of L' s' w = workflow_id_of L s' w"
    "\<And>i. i \<notin> set (map snd m) \<Longrightarrow> map_of (trigger_configs L') i = map_of (trigger_configs L) i"
    "\<And>i. map_of (trigger_configs L') i = None \<or> map_of (trigger_configs L') i = map_of (trigger_configs L) i"
    using rm Some u un w1
    by (auto simp: lookup_remove_service_def Let_def fold_omap_remove workflow_id_of_def workflow_map_def
        split: sum.splits simp del: indexed.simps)
  have queues: "filter (\<lambda>p. of_other_service L s (op_lookup_id block_ops (snd p))) (waiting (block_scheduler_of L1 chain)) =
      filter (\<lambda>p. of_other_service L s (op_lookup_id block_ops (snd p))) (waiting (block_scheduler_of L chain)) \<and>
    filter (\<lambda>p. of_other_service L s (op_lookup_id cron_ops (snd p))) (waiting (lm_cron_scheduler L1)) =
      filter (\<lambda>p. of_other_service L s (op_lookup_id cron_ops (snd p))) (waiting (lm_cron_scheduler L))" for chain
    using unindex_all_others [OF u, of "\<lambda>p. of_other_service L s (op_lookup_id block_ops (snd p))"
      "\<lambda>p. of_other_service L s (op_lookup_id cron_ops (snd p))" chain] own by auto
  have "i \<in> indexed L1 k \<longleftrightarrow> i \<in> indexed L k" if "of_other_service L s i" for i k
    using un own that by (simp del: indexed.simps) blast
  moreover have "map_of (trigger_configs L') i = map_of (trigger_configs L) i"
    if "of_other_service L s i \<or> of_other_service L' s i" for i
    using that own frame(6,7) [of i] by (auto simp: of_other_service_def)
  ultimately show ?thesis
    unfolding others_kept_def using queues frame by (simp add: bimap_remove_other del: indexed.simps)
qed
text \<open>Adding to an index puts at most one state into a queue, at its end, and it puts it there when the id is new.\<close>

lemma index_trigger_waiting:
  assumes "index_trigger E i t L ctrls = (r, L', ctrls')"
  shows "\<exists>ps. waiting (block_scheduler_of L' chain) = waiting (block_scheduler_of L chain) @ ps \<and>
      (\<forall>p\<in>set ps. op_lookup_id block_ops (snd p) = i) \<and>
      (is_ok r \<and> index_key_of t = Some (IK_Block chain) \<and> i \<notin> indexed L (IK_Block chain) \<longrightarrow> ps \<noteq> [])"
    and "\<exists>ps. waiting (lm_cron_scheduler L') = waiting (lm_cron_scheduler L) @ ps \<and>
      (\<forall>p\<in>set ps. op_lookup_id cron_ops (snd p) = i) \<and>
      (is_ok r \<and> index_key_of t = Some IK_Cron \<and> i \<notin> indexed L IK_Cron \<longrightarrow> ps \<noteq> [])"
proof -
  have add: "\<exists>ps. waiting S' = waiting S @ ps \<and> (\<forall>p\<in>set ps. op_lookup_id ops (snd p) = op_lookup_id ops st) \<and>
      (op_lookup_id ops st \<notin> trigger_ids S \<longrightarrow> ps \<noteq> [])"
    if "scheduler_add_trigger ops st S = Inr (b, S')" for ops :: "('x, 'y::linorder) interval_ops" and st S b S'
    using that by (auto simp: scheduler_add_trigger_def Let_def waiting_def split: if_splits)
  have id: "op_lookup_id block_ops (block_interval_state_new i n a e) = i" for n a e
    by (simp add: block_interval_state_new_def)
  have cid: "op_lookup_id cron_ops st = i" if "cron_interval_state_new p i x a e = Inr st" for p x a e st
    using that by (auto simp: cron_interval_state_new_def result_iffs)
  show "\<exists>ps. waiting (block_scheduler_of L' chain) = waiting (block_scheduler_of L chain) @ ps \<and>
      (\<forall>p\<in>set ps. op_lookup_id block_ops (snd p) = i) \<and>
      (is_ok r \<and> index_key_of t = Some (IK_Block chain) \<and> i \<notin> indexed L (IK_Block chain) \<longrightarrow> ps \<noteq> [])"
  proof (cases t)
    case (BlockInterval c n a e)
    let ?st = "block_interval_state_new i n a e"
    show ?thesis
    proof (cases "c = chain \<and> is_ok r")
      case True
      then obtain b S' where "scheduler_add_trigger block_ops ?st (block_scheduler_of L chain) = Inr (b, S')" "block_scheduler_of L' chain = S'"
        using assms by (auto simp: BlockInterval Let_def split: sum.splits)
      with add [of block_ops ?st, unfolded id] show ?thesis by (fastforce simp: BlockInterval)
    next
      case False
      then have "block_scheduler_of L' chain = block_scheduler_of L chain"
        using assms by (cases "c = chain") (auto simp: BlockInterval Let_def block_scheduler_of_def [of L chain] split: sum.splits)
      with False show ?thesis by (auto simp: BlockInterval)
    qed
  qed (use assms in \<open>auto simp: Let_def split: sum.splits option.splits prod.splits cron_error.splits if_splits\<close>)
  show "\<exists>ps. waiting (lm_cron_scheduler L') = waiting (lm_cron_scheduler L) @ ps \<and>
      (\<forall>p\<in>set ps. op_lookup_id cron_ops (snd p) = i) \<and>
      (is_ok r \<and> index_key_of t = Some IK_Cron \<and> i \<notin> indexed L IK_Cron \<longrightarrow> ps \<noteq> [])"
    using assms add [of cron_ops] cid
    by (cases t) (fastforce simp: Let_def split: sum.splits option.splits prod.splits cron_error.splits if_splits)+
qed

lemma add_trigger_waiting:
  assumes "lookup_add_trigger E cfg L ctrls = (r, L', ctrls')"
  shows "\<exists>ps. waiting (block_scheduler_of L' chain) = waiting (block_scheduler_of L chain) @ ps \<and>
      (\<forall>p\<in>set ps. op_lookup_id block_ops (snd p) = next_lookup_id L) \<and>
      (is_ok r \<and> index_key_of (tc_trigger cfg) = Some (IK_Block chain) \<and> next_lookup_id L \<notin> indexed L (IK_Block chain) \<longrightarrow> ps \<noteq> [])"
    and "\<exists>ps. waiting (lm_cron_scheduler L') = waiting (lm_cron_scheduler L) @ ps \<and>
      (\<forall>p\<in>set ps. op_lookup_id cron_ops (snd p) = next_lookup_id L) \<and>
      (is_ok r \<and> index_key_of (tc_trigger cfg) = Some IK_Cron \<and> next_lookup_id L \<notin> indexed L IK_Cron \<longrightarrow> ps \<noteq> [])"
proof -
  obtain r1 L1 where i: "index_trigger E (next_lookup_id L) (tc_trigger cfg) (L\<lparr>next_lookup_id := next_lookup_id L + 1\<rparr>) ctrls = (r1, L1, ctrls')"
    and r: "is_ok r \<longleftrightarrow> is_ok r1" and L1: "block_scheduler_of L' chain = block_scheduler_of L1 chain" "lm_cron_scheduler L' = lm_cron_scheduler L1"
    using assms by (cases rule: add_trigger_cases) simp_all
  show "\<exists>ps. waiting (block_scheduler_of L' chain) = waiting (block_scheduler_of L chain) @ ps \<and>
      (\<forall>p\<in>set ps. op_lookup_id block_ops (snd p) = next_lookup_id L) \<and>
      (is_ok r \<and> index_key_of (tc_trigger cfg) = Some (IK_Block chain) \<and> next_lookup_id L \<notin> indexed L (IK_Block chain) \<longrightarrow> ps \<noteq> [])"
    "\<exists>ps. waiting (lm_cron_scheduler L') = waiting (lm_cron_scheduler L) @ ps \<and>
      (\<forall>p\<in>set ps. op_lookup_id cron_ops (snd p) = next_lookup_id L) \<and>
      (is_ok r \<and> index_key_of (tc_trigger cfg) = Some IK_Cron \<and> next_lookup_id L \<notin> indexed L IK_Cron \<longrightarrow> ps \<noteq> [])"
    using index_trigger_waiting(1) [OF i, of chain] index_trigger_waiting(2) [OF i] by (simp_all add: r L1)
qed

text \<open>A trigger is ready when its workflow points to it and it is where an event, a block or a time finds it.\<close>

definition trigger_ready :: "lookup_maps \<Rightarrow> trigger_config \<Rightarrow> bool" where
  "trigger_ready L cfg =
     (\<exists>i. workflow_id_of L (tc_service_id cfg) (tc_workflow_id cfg) = Some i \<and> map_of (trigger_configs L) i = Some cfg \<and>
       (\<forall>k. index_key_of (tc_trigger cfg) = Some k \<and> k \<noteq> IK_Stellar \<longrightarrow> i \<in> indexed L k) \<and>
       (\<forall>chain. index_key_of (tc_trigger cfg) = Some (IK_Block chain) \<longrightarrow> i \<in> set (sched_ids block_ops (block_scheduler_of L chain))) \<and>
       (index_key_of (tc_trigger cfg) = Some IK_Cron \<longrightarrow> i \<in> set (sched_ids cron_ops (lm_cron_scheduler L))))"

lemma add_trigger_new_id:
  assumes "lookup_inv L"
  shows "map_of (trigger_configs L) (next_lookup_id L) = None" "next_lookup_id L \<notin> indexed L k"
proof -
  have ids: "i < next_lookup_id L" if "map_of (trigger_configs L) i = Some c" for i c
    using assms that unfolding lookup_inv_def maps_wf_def by blast
  show none: "map_of (trigger_configs L) (next_lookup_id L) = None"
    using ids by (cases "map_of (trigger_configs L) (next_lookup_id L)") auto
  then show "next_lookup_id L \<notin> indexed L k"
    using assms unfolding lookup_inv_def sound_index_def by (metis option.distinct(1))
qed

lemma add_trigger_ready:
  assumes inv: "lookup_inv L" and room: "unat (next_lookup_id L) + 1 < 2 ^ 64"
    and add: "lookup_add_trigger E cfg L ctrls = (r, L', ctrls')"
  shows "r = Inr () \<Longrightarrow> trigger_ready L' cfg"
    and "trigger_ready L c \<Longrightarrow> config_place c \<noteq> config_place cfg \<Longrightarrow> trigger_ready L' c"
    and "tc_service_id cfg = s \<Longrightarrow> others_kept s a L L'"
proof -
  let ?i = "next_lookup_id L"
  have wf: "maps_wf L" using inv by (simp add: lookup_inv_def)
  note maps = add_trigger_maps [OF wf room add] and new = add_trigger_new_id [OF inv]
  note idx = add_trigger_indexed(2) [OF add] and queue = add_trigger_waiting [OF add]
  show "trigger_ready L' cfg" if "r = Inr ()"
    unfolding trigger_ready_def
  proof (intro exI [of _ ?i] conjI allI impI)
    show "?i \<in> set (sched_ids block_ops (block_scheduler_of L' chain))"
      if "index_key_of (tc_trigger cfg) = Some (IK_Block chain)" for chain
      using queue(1) [of chain] that \<open>r = Inr ()\<close> new(2) by (fastforce simp: sched_ids_waiting neq_Nil_conv simp del: indexed.simps)
    show "?i \<in> set (sched_ids cron_ops (lm_cron_scheduler L'))"
      if "index_key_of (tc_trigger cfg) = Some IK_Cron"
      using queue(2) that \<open>r = Inr ()\<close> new(2) by (fastforce simp: sched_ids_waiting neq_Nil_conv simp del: indexed.simps)
  qed (use that maps idx in \<open>simp_all del: indexed.simps\<close>)
  show "trigger_ready L' c" if "trigger_ready L c" and other: "config_place c \<noteq> config_place cfg"
  proof -
    obtain i where i: "workflow_id_of L (tc_service_id c) (tc_workflow_id c) = Some i" "map_of (trigger_configs L) i = Some c"
      "\<forall>k. index_key_of (tc_trigger c) = Some k \<and> k \<noteq> IK_Stellar \<longrightarrow> i \<in> indexed L k"
      "\<forall>chain. index_key_of (tc_trigger c) = Some (IK_Block chain) \<longrightarrow> i \<in> set (sched_ids block_ops (block_scheduler_of L chain))"
      "index_key_of (tc_trigger c) = Some IK_Cron \<longrightarrow> i \<in> set (sched_ids cron_ops (lm_cron_scheduler L))"
      using \<open>trigger_ready L c\<close> unfolding trigger_ready_def by blast
    have "i \<noteq> ?i" using i(2) new(1) by auto
    then have "workflow_id_of L' (tc_service_id c) (tc_workflow_id c) = Some i" "map_of (trigger_configs L') i = Some c"
      using i(1,2) maps(3,4) other by auto
    moreover have "set (sched_ids block_ops (block_scheduler_of L chain)) \<subseteq> set (sched_ids block_ops (block_scheduler_of L' chain))" for chain
      using queue(1) [of chain] by (auto simp: sched_ids_waiting simp del: indexed.simps)
    moreover have "set (sched_ids cron_ops (lm_cron_scheduler L)) \<subseteq> set (sched_ids cron_ops (lm_cron_scheduler L'))"
      using queue(2) by (auto simp: sched_ids_waiting simp del: indexed.simps)
    ultimately show ?thesis
      unfolding trigger_ready_def using i idx by (intro exI [of _ i]) (simp add: subset_iff del: indexed.simps)
  qed
  show "others_kept s a L L'" if s: "tc_service_id cfg = s"
  proof -
    have noti: "\<not> of_other_service L s ?i" using new(1) by (simp add: of_other_service_def)
    have "filter (\<lambda>p. of_other_service L s (op_lookup_id block_ops (snd p))) (waiting (block_scheduler_of L' chain)) =
      filter (\<lambda>p. of_other_service L s (op_lookup_id block_ops (snd p))) (waiting (block_scheduler_of L chain))" for chain
      using queue(1) [of chain] noti by (auto simp del: indexed.simps)
    moreover have "filter (\<lambda>p. of_other_service L s (op_lookup_id cron_ops (snd p))) (waiting (lm_cron_scheduler L')) =
      filter (\<lambda>p. of_other_service L s (op_lookup_id cron_ops (snd p))) (waiting (lm_cron_scheduler L))"
      using queue(2) noti by (auto simp del: indexed.simps)
    moreover have "map_of (trigger_configs L') i = map_of (trigger_configs L) i"
      if "of_other_service L s i \<or> of_other_service L' s i" for i
      using that noti s by (auto simp: of_other_service_def maps(3) split: if_splits)
    moreover have "i \<in> indexed L' k \<longleftrightarrow> i \<in> indexed L k" if "of_other_service L s i" "k \<noteq> IK_Stellar" for i k
      using idx [OF that(2)] that(1) noti by (auto simp del: indexed.simps split: if_splits)
    ultimately show ?thesis unfolding others_kept_def using maps(4,5) s by (simp del: indexed.simps)
  qed
qed

lemma add_triggers_ready:
  assumes "lookup_inv L" "unat (next_lookup_id L) + length cfgs < 2 ^ 64" "add_triggers E cfgs L ctrls = (r, L', ctrls')"
    "\<And>cfg. cfg \<in> set cfgs \<Longrightarrow> tc_service_id cfg = s"
  shows "others_kept s a L L' \<and>
    (r = Inr () \<and> distinct (map config_place cfgs) \<longrightarrow> (\<forall>cfg\<in>set cfgs. trigger_ready L' cfg)) \<and>
    (\<forall>c. trigger_ready L c \<and> config_place c \<notin> config_place ` set cfgs \<longrightarrow> trigger_ready L' c)"
  using assms
proof (induction cfgs arbitrary: L ctrls)
  case (Cons cfg cfgs)
  obtain r1 L1 c1 where a: "lookup_add_trigger E cfg L ctrls = (r1, L1, c1)" by (metis prod_cases3)
  have room: "unat (next_lookup_id L) + 1 < 2 ^ 64" using Cons.prems(2) by simp
  have wf: "maps_wf L" using Cons.prems(1) by (simp add: lookup_inv_def)
  note inv = add_trigger_inv(1) [OF Cons.prems(1) room a] and ready = add_trigger_ready [OF Cons.prems(1) room a]
  have "next_lookup_id L1 = next_lookup_id L + 1" by (rule add_trigger_maps(2) [OF wf room a])
  then have room1: "unat (next_lookup_id L1) + length cfgs < 2 ^ 64" using Cons.prems(2) room by (simp add: unat_word_ariths)
  have s: "tc_service_id cfg = s" "\<And>c. c \<in> set cfgs \<Longrightarrow> tc_service_id c = s" using Cons.prems(4) by auto
  show ?case
  proof (cases r1)
    case (Inl e)
    then show ?thesis using Cons.prems(3) a ready(2) ready(3) [OF s(1)] by auto
  next
    case (Inr u)
    then have rest: "add_triggers E cfgs L1 c1 = (r, L', ctrls')" using Cons.prems(3) a by simp
    note IH = Cons.IH [OF inv room1 rest s(2)]
    have o: "others_kept s a L L'" using ready(3) [OF s(1)] IH others_kept_trans by blast
    have "trigger_ready L1 cfg" using ready(1) Inr by simp
    then have "trigger_ready L' cfg" if "config_place cfg \<notin> config_place ` set cfgs" using IH that by blast
    moreover have "trigger_ready L' c" if "trigger_ready L c" "config_place c \<notin> config_place ` set (cfg # cfgs)" for c
      using that IH ready(2) [OF that(1)] by simp
    ultimately show ?thesis using o IH by auto
  qed
qed (simp add: others_kept_refl)

lemma add_triggers_manager_map:
  "add_triggers E cfgs L ctrls = (r, L', ctrls') \<Longrightarrow> service_manager_map L' = service_manager_map L"
proof (induction cfgs arbitrary: L ctrls)
  case (Cons cfg cfgs)
  obtain r1 L1 c1 where a: "lookup_add_trigger E cfg L ctrls = (r1, L1, c1)" by (metis prod_cases3)
  then have "service_manager_map L1 = service_manager_map L"
    by (cases rule: add_trigger_cases) (auto dest: index_trigger_frame)
  with Cons a show ?case by (cases r1) auto
qed simp

text \<open>Adding a service: when it succeeds all its triggers are ready; whatever happens, other services keep theirs.\<close>

lemma add_service_others:
  assumes inv: "lookup_inv L" and room: "unat (next_lookup_id L) + length (workflows svc) < 2 ^ 64"
    and add: "lookup_add_service C E svc L ctrls = (r, L', ctrls')"
  defines "s \<equiv> service_id_of C svc"
  shows "others_kept s (manager_address (manager svc)) L L'"
    and "r = Inr () \<Longrightarrow> distinct (map fst (workflows svc)) \<Longrightarrow> cfg \<in> set (trigger_configs_of s svc) \<Longrightarrow> trigger_ready L' cfg"
    and "r = Inr () \<Longrightarrow> bimap_get_by_left (service_manager_map L') s = Some (manager_address (manager svc))"
proof -
  let ?a = "manager_address (manager svc)"
  let ?L = "L\<lparr>service_manager_map := bimap_insert s ?a (service_manager_map L)\<rparr>"
  have inv': "lookup_inv ?L" "unat (next_lookup_id ?L) + length (trigger_configs_of s svc) < 2 ^ 64"
    using inv room by (simp_all add: trigger_configs_of_def)
  have run: "add_triggers E (trigger_configs_of s svc) ?L ctrls = (r, L', ctrls')"
    using add by (simp add: lookup_add_service_def Let_def s_def)
  have places: "map config_place (trigger_configs_of s svc) = map (\<lambda>p. (s, fst p)) (workflows svc)"
    and own: "\<And>cfg. cfg \<in> set (trigger_configs_of s svc) \<Longrightarrow> tc_service_id cfg = s"
    by (auto simp: trigger_configs_of_def)
  note all = add_triggers_ready [OF inv' run own]
  have "others_kept s ?a L ?L" by (simp add: others_kept_def of_other_service_def bimap_insert_other)
  then show "others_kept s ?a L L'" using all others_kept_trans by blast
  show "trigger_ready L' cfg" if "r = Inr ()" "distinct (map fst (workflows svc))" "cfg \<in> set (trigger_configs_of s svc)"
  proof -
    have "distinct (map config_place (trigger_configs_of s svc))"
      using that(2) unfolding places by (simp add: distinct_map inj_on_def)
    with all that show ?thesis by blast
  qed
  have "service_manager_map L' = service_manager_map ?L"
    using run by (rule add_triggers_manager_map)
  then show "bimap_get_by_left (service_manager_map L') s = Some ?a" if "r = Inr ()"
    by (simp add: bimap_get_by_left_def bimap_insert_def)
qed

end
