(* ===== verification/Quorum.thy ===== *)
theory Quorum
  imports Services
begin

text \<open>
  The quorum queues of the aggregator, from \<^verbatim>\<open>subsystems/aggregator/queue.rs\<close>, with the
  aggregator's state and errors. A queue collects the submissions of different operators for one
  event and one destination until the service manager accepts their combined weight; a queue that
  was submitted is burned. The tables of the store never report an error, so the handlers that wrap
  them return plain states. The clock is an argument.
\<close>

section \<open>State and errors\<close>

text \<open>A client of a chain is an opaque handle.\<close>

type_synonym client = bytes

record aggregator =
  storage :: wavs_db
  evm_submission_clients :: "(chain_key, client) table"
  cosmos_submission_clients :: "(chain_key, client) table"
  evm_query_clients :: "(chain_key, client) table"
  cosmos_query_clients :: "(chain_key, client) table"
  event_receive_locks :: "(event_id, unit) table"

text \<open>Printed errors of other crates are strings. An unusable packet signature carries the signing
  error, or the text of the check that refused its kind.\<close>

datatype aggregator_error =
    AE_EvmClient string
  | AE_CosmosClient string
  | AE_Config string
  | CreateEvmClient string
  | CosmosServiceManagerValidate string
  | EvmServiceManagerValidateKnown string
  | EvmServiceManagerValidateAnyRevert string
  | EvmServiceManagerValidateUnknown string
  | InsufficientQuorum string string string
  | EvmServiceManagerLookup string
  | BlockNumber string
  | AE_Services services_error
  | AE_Signing signing_error
  | EnvelopeDiff quorum_queue_id
  | AE_Stellar string
  | SignerNotRegistered string
  | MissingCredential string chain_key string
  | MissingChainConfig chain_key
  | InvalidStartupCredential string string
  | InvalidPacketSignature "signing_error + string"
  | SignerUnregisteredAtReceive chain_key string u64
  | ReceiveValidationChainQuery chain_key string
  | EmptySubmissionQueue string
  | UnexpectedEnvelopeKind string string

section \<open>Operations\<close>

definition get_quorum_queue :: "aggregator \<Rightarrow> quorum_queue_id \<Rightarrow> quorum_queue" where
  "get_quorum_queue A qid =
     (case get_cloned (db_quorum_queues (storage A)) qid of Some q \<Rightarrow> q | None \<Rightarrow> QQ_Active [])"

definition put_queue :: "quorum_queue_id \<Rightarrow> quorum_queue \<Rightarrow> aggregator \<Rightarrow> aggregator" where
  "put_queue qid q A =
     A\<lparr>storage := (storage A)\<lparr>db_quorum_queues := table_insert qid q (db_quorum_queues (storage A))\<rparr>\<rparr>"

definition save_quorum_queue :: "quorum_queue_id \<Rightarrow> submission list \<Rightarrow> aggregator \<Rightarrow> aggregator" where
  "save_quorum_queue qid subs A = put_queue qid (QQ_Active subs) A"

definition burn_quorum_queue :: "u64 \<Rightarrow> quorum_queue_id \<Rightarrow> aggregator \<Rightarrow> aggregator" where
  "burn_quorum_queue now qid A = put_queue qid (QQ_Burned now) A"

fun expired :: "u64 \<Rightarrow> quorum_queue \<Rightarrow> bool" where
  "expired cutoff (QQ_Burned ts) = (ts < cutoff)"
| "expired cutoff (QQ_Active _) = False"

definition remove_burned :: "quorum_queue_id \<Rightarrow> aggregator \<Rightarrow> aggregator" where
  "remove_burned key A =
     A\<lparr>storage := (storage A)
         \<lparr>db_quorum_queues := snd (table_remove key (db_quorum_queues (storage A))),
          db_event_reference_blocks :=
            snd (table_remove (qq_event_id key) (db_event_reference_blocks (storage A)))\<rparr>,
       event_receive_locks := snd (table_remove (qq_event_id key) (event_receive_locks A))\<rparr>"

definition cleanup_old_burned_queues :: "u64 \<Rightarrow> u64 \<Rightarrow> aggregator \<Rightarrow> nat \<times> aggregator" where
  "cleanup_old_burned_queues now ttl_secs A =
     (let cutoff_time = saturating_sub now ttl_secs;
          keys_to_remove = map fst (filter (\<lambda>(key, v). expired cutoff_time v) (db_quorum_queues (storage A)))
      in (length keys_to_remove, fold remove_burned keys_to_remove A))"

text \<open>The loop over the queue: the entry of the same signer is replaced, otherwise the submission is pushed.\<close>

fun replace_or_push ::
  "crypto \<Rightarrow> chain_address \<Rightarrow> submission \<Rightarrow> submission list \<Rightarrow> signing_error + submission list" where
  "replace_or_push C signer s [] = Inr [s]"
| "replace_or_push C signer s (q # qs) =
     rbind (signer_address C (sub_envelope_signature q) (sub_envelope q)) (\<lambda>queued.
       if signer = queued then Inr (s # qs)
       else rbind (replace_or_push C signer s qs) (\<lambda>qs'. Inr (q # qs')))"

definition append_submission_to_queue ::
  "crypto \<Rightarrow> quorum_queue_id \<Rightarrow> submission list \<Rightarrow> submission \<Rightarrow> aggregator_error + submission list" where
  "append_submission_to_queue C qid queue s =
     (if (case queue of [] \<Rightarrow> False | prev # _ \<Rightarrow> sub_envelope s \<noteq> sub_envelope prev)
      then Inl (EnvelopeDiff qid)
      else rbind (map_err AE_Signing (signer_address C (sub_envelope_signature s) (sub_envelope s))) (\<lambda>signer.
           map_err AE_Signing (replace_or_push C signer s queue)))"

section \<open>Well-formed queues\<close>

definition submission_signer :: "crypto \<Rightarrow> submission \<Rightarrow> signing_error + chain_address" where
  "submission_signer C s = signer_address C (sub_envelope_signature s) (sub_envelope s)"

definition queue_signers :: "crypto \<Rightarrow> submission list \<Rightarrow> (signing_error + chain_address) list" where
  "queue_signers C q = map (submission_signer C) q"

text \<open>All submissions of a queue agree on the envelope, their signatures are valid, and no signer
  appears twice.\<close>

definition queue_ok :: "crypto \<Rightarrow> submission list \<Rightarrow> bool" where
  "queue_ok C q =
     ((\<forall>s\<in>set q. \<forall>s'\<in>set q. sub_envelope s = sub_envelope s') \<and>
      (\<forall>s\<in>set q. is_ok (submission_signer C s)) \<and> distinct (queue_signers C q))"

lemma queue_ok_Nil [simp]: "queue_ok C []"
  by (simp add: queue_ok_def queue_signers_def)

lemma queue_ok_Cons:
  "queue_ok C (s # q) \<longleftrightarrow> queue_ok C q \<and> is_ok (submission_signer C s) \<and>
     submission_signer C s \<notin> set (queue_signers C q) \<and> (\<forall>s'\<in>set q. sub_envelope s' = sub_envelope s)"
  by (auto simp: queue_ok_def queue_signers_def)

lemma queue_ok_valid: "queue_ok C q \<Longrightarrow> s \<in> set q \<Longrightarrow> is_ok (submission_signer C s)"
  by (simp add: queue_ok_def)

lemma queue_ok_envelope: "queue_ok C q \<Longrightarrow> s \<in> set q \<Longrightarrow> s' \<in> set q \<Longrightarrow> sub_envelope s = sub_envelope s'"
  unfolding queue_ok_def by blast

lemma replace_or_push_spec:
  assumes "queue_ok C q" "submission_signer C s = Inr signer"
  shows "\<exists>q'. replace_or_push C signer s q = Inr q' \<and>
    (if Inr signer \<in> set (queue_signers C q)
     then \<exists>i<length q. submission_signer C (q ! i) = Inr signer \<and> q' = q[i := s]
     else q' = q @ [s])"
  using assms
proof (induction q)
  case Nil
  then show ?case by (simp add: queue_signers_def)
next
  case (Cons p q)
  then obtain ps where ps: "submission_signer C p = Inr ps" by (auto simp: queue_ok_Cons is_ok_def split: sum.splits)
  show ?case
  proof (cases "signer = ps")
    case True
    with ps have "replace_or_push C signer s (p # q) = Inr (s # q)" by (simp add: submission_signer_def)
    moreover have "Inr signer \<in> set (queue_signers C (p # q))" using ps True by (simp add: queue_signers_def)
    moreover have "\<exists>i<length (p # q). submission_signer C ((p # q) ! i) = Inr signer \<and> s # q = (p # q)[i := s]"
      using ps True by (intro exI [of _ 0]) simp
    ultimately show ?thesis by simp
  next
    case False
    from Cons obtain q' where q': "replace_or_push C signer s q = Inr q'"
      "if Inr signer \<in> set (queue_signers C q)
       then \<exists>i<length q. submission_signer C (q ! i) = Inr signer \<and> q' = q[i := s] else q' = q @ [s]"
      by (auto simp: queue_ok_Cons)
    from q'(1) ps False have eq: "replace_or_push C signer s (p # q) = Inr (p # q')"
      by (simp add: submission_signer_def)
    show ?thesis
    proof (cases "Inr signer \<in> set (queue_signers C q)")
      case True
      with q'(2) obtain i where i: "i < length q" "submission_signer C (q ! i) = Inr signer" "q' = q[i := s]"
        by auto
      then have "Suc i < length (p # q) \<and> submission_signer C ((p # q) ! Suc i) = Inr signer \<and>
        p # q' = (p # q)[Suc i := s]" by simp
      with True eq show ?thesis by (auto simp: queue_signers_def)
    next
      case notin: False
      with q'(2) ps False eq show ?thesis by (simp add: queue_signers_def)
    qed
  qed
qed

lemma queue_signers_update: "queue_signers C (q[i := s]) = (queue_signers C q)[i := submission_signer C s]"
  by (simp add: queue_signers_def map_update)

lemma queue_ok_update:
  assumes "queue_ok C q" "i < length q" "submission_signer C s = submission_signer C (q ! i)"
    "sub_envelope s = sub_envelope (q ! i)"
  shows "queue_ok C (q[i := s])" "queue_signers C (q[i := s]) = queue_signers C q"
proof -
  have "(queue_signers C q) ! i = submission_signer C s" using assms by (simp add: queue_signers_def)
  then show e: "queue_signers C (q[i := s]) = queue_signers C q"
    by (metis list_update_id queue_signers_update)
  have m: "q ! i \<in> set q" using assms(2) by simp
  have sub: "set (q[i := s]) \<subseteq> insert s (set q)" by (rule set_update_subset_insert)
  have "is_ok (submission_signer C x)" if "x \<in> insert s (set q)" for x
    using that assms(3) queue_ok_valid [OF assms(1)] m by (metis insert_iff)
  moreover have "sub_envelope x = sub_envelope (q ! i)" if "x \<in> insert s (set q)" for x
    using that assms(4) queue_ok_envelope [OF assms(1)] m by (metis insert_iff)
  ultimately have all: "is_ok (submission_signer C x) \<and> sub_envelope x = sub_envelope (q ! i)"
    if "x \<in> set (q[i := s])" for x using that sub by blast
  show "queue_ok C (q[i := s])"
    unfolding queue_ok_def e
  proof (intro conjI ballI)
    show "distinct (queue_signers C q)" using assms(1) by (simp add: queue_ok_def)
    fix x assume x: "x \<in> set (q[i := s])"
    then show "is_ok (submission_signer C x)" using all by blast
    fix y assume "y \<in> set (q[i := s])"
    with x show "sub_envelope x = sub_envelope y" using all by metis
  qed
qed

lemma queue_ok_snoc:
  assumes "queue_ok C q" "submission_signer C s = Inr signer" "Inr signer \<notin> set (queue_signers C q)"
    "\<forall>s'\<in>set q. sub_envelope s' = sub_envelope s"
  shows "queue_ok C (q @ [s])"
  using assms by (auto simp: queue_ok_def queue_signers_def)

text \<open>Appending succeeds exactly when the envelope agrees and the signature is valid.\<close>

lemma append_ok_iff:
  assumes "queue_ok C q"
  shows "is_ok (append_submission_to_queue C qid q s) \<longleftrightarrow>
    (\<forall>s'\<in>set q. sub_envelope s' = sub_envelope s) \<and> is_ok (submission_signer C s)"
proof -
  have env: "(case q of [] \<Rightarrow> False | prev # _ \<Rightarrow> sub_envelope s \<noteq> sub_envelope prev) \<longleftrightarrow>
      \<not> (\<forall>s'\<in>set q. sub_envelope s' = sub_envelope s)"
    using assms by (auto simp: queue_ok_Cons split: list.splits)
  show ?thesis
  proof (cases "submission_signer C s")
    case (Inr signer)
    from replace_or_push_spec [OF assms Inr] have "is_ok (replace_or_push C signer s q)"
      by (auto simp: is_ok_def)
    then have "is_ok (map_err AE_Signing (replace_or_push C signer s q))"
      by (cases "replace_or_push C signer s q") simp_all
    with Inr show ?thesis
      by (simp add: append_submission_to_queue_def env submission_signer_def)
  qed (auto simp: append_submission_to_queue_def env submission_signer_def)
qed

lemma append_spec:
  assumes "queue_ok C q" "append_submission_to_queue C qid q s = Inr q'"
  shows "queue_ok C q'"
    "if submission_signer C s \<in> set (queue_signers C q)
     then \<exists>i<length q. submission_signer C (q ! i) = submission_signer C s \<and> q' = q[i := s]
     else q' = q @ [s]"
    "is_ok (submission_signer C s)" "s \<in> set q'" "\<forall>x\<in>set q'. sub_envelope x = sub_envelope s"
proof -
  have "is_ok (append_submission_to_queue C qid q s)" using assms(2) by simp
  then have env: "\<forall>s'\<in>set q. sub_envelope s' = sub_envelope s" and ok: "is_ok (submission_signer C s)"
    using append_ok_iff [OF assms(1)] by blast+
  from ok obtain signer where sg: "submission_signer C s = Inr signer" by (cases "submission_signer C s") auto
  have "replace_or_push C signer s q = Inr q'"
    using assms(2) sg by (auto simp: append_submission_to_queue_def submission_signer_def result_iffs split: if_splits)
  with replace_or_push_spec [OF assms(1) sg] sg
  show spec: "if submission_signer C s \<in> set (queue_signers C q)
     then \<exists>i<length q. submission_signer C (q ! i) = submission_signer C s \<and> q' = q[i := s]
     else q' = q @ [s]" by simp
  show "queue_ok C q'"
  proof (cases "submission_signer C s \<in> set (queue_signers C q)")
    case True
    with spec obtain i where "i < length q" "submission_signer C (q ! i) = submission_signer C s" "q' = q[i := s]"
      by auto
    with queue_ok_update(1) [OF assms(1)] env show ?thesis by (metis nth_mem)
  next
    case False
    with spec sg queue_ok_snoc [OF assms(1) sg _ env] show ?thesis by simp
  qed
  then show "\<forall>x\<in>set q'. sub_envelope x = sub_envelope s" "s \<in> set q'"
    using spec env by (auto split: if_splits dest: set_update_subset_insert [THEN subsetD] simp: set_update_memI)
  show "is_ok (submission_signer C s)" by (rule ok)
qed

text \<open>
  C23: Appending to a well-formed queue keeps it well-formed: one envelope, valid signatures, no
  signer twice. It succeeds exactly when the envelope agrees with the queue and the signature is
  valid; a signer that is already in the queue has its entry replaced in place, any other is added
  at the end, and nothing else of the queue changes.
\<close>

theorem append_submission_correct:
  assumes "queue_ok C q"
  shows "case append_submission_to_queue C qid q s of
      Inl e \<Rightarrow> (\<exists>s'\<in>set q. sub_envelope s' \<noteq> sub_envelope s) \<and> e = EnvelopeDiff qid \<or>
        (\<exists>se. submission_signer C s = Inl se \<and> e = AE_Signing se)
    | Inr q' \<Rightarrow> queue_ok C q' \<and> (\<forall>x\<in>set q'. sub_envelope x = sub_envelope s) \<and>
        (if submission_signer C s \<in> set (queue_signers C q)
         then \<exists>i<length q. submission_signer C (q ! i) = submission_signer C s \<and> q' = q[i := s]
         else q' = q @ [s])"
proof (cases "append_submission_to_queue C qid q s")
  case (Inr q')
  show ?thesis unfolding Inr sum.case
    by (intro conjI append_spec(1) [OF assms Inr] append_spec(5) [OF assms Inr] append_spec(2) [OF assms Inr])
next
  case (Inl e)
  let ?diff = "case q of [] \<Rightarrow> False | prev # _ \<Rightarrow> sub_envelope s \<noteq> sub_envelope prev"
  show ?thesis
  proof (cases ?diff)
    case True
    then obtain p where p: "p \<in> set q" "sub_envelope p \<noteq> sub_envelope s"
      by (cases q) (simp_all, metis)
    from True Inl have "e = EnvelopeDiff qid" by (simp add: append_submission_to_queue_def)
    with p show ?thesis unfolding Inl sum.case by blast
  next
    case False
    show ?thesis
    proof (cases "submission_signer C s")
      case (Inl se)
      with False \<open>append_submission_to_queue C qid q s = Inl e\<close> show ?thesis
        by (simp add: append_submission_to_queue_def submission_signer_def)
    next
      case (Inr signer)
      from replace_or_push_spec [OF assms Inr] obtain q' where "replace_or_push C signer s q = Inr q'" by blast
      with False Inr \<open>append_submission_to_queue C qid q s = Inl e\<close> show ?thesis
        by (simp add: append_submission_to_queue_def submission_signer_def)
    qed
  qed
qed

definition demo_chain :: chain_key where
  "demo_chain = \<lparr>namespace = ''evm'', chain_id = ''1''\<rparr>"

definition demo_qid :: "event_id \<Rightarrow> evm_address \<Rightarrow> quorum_queue_id" where
  "demo_qid e a =
     \<lparr>qq_event_id = e, qq_action = SA_Evm \<lparr>es_chain = demo_chain, es_address = a, es_gas_price = None\<rparr>\<rparr>"

text \<open>A submission for event \<open>e\<close> by the operator whose key is \<open>k\<close>.\<close>

definition demo_submission :: "event_id \<Rightarrow> u8 \<Rightarrow> submission" where
  "demo_submission e k =
     \<lparr>sub_trigger_action =
        \<lparr>ta_config = \<lparr>tc_service_id = [1], tc_workflow_id = ''default'', tc_trigger = Manual\<rparr>, ta_data = TD_Raw []\<rparr>,
      sub_operator_response = \<lparr>payload = [4], ordering = None, event_id_salt = None\<rparr>,
      sub_event_id = e,
      sub_envelope = Env_Evm \<lparr>env_event_id = e, env_ordering = replicate 12 0, env_payload = [4]\<rparr>,
      sub_envelope_signature = Sig_Secp256k1 (k # replicate 64 0) (Some Eip191)\<rparr>"

lemma demo_submission_signer:
  "submission_signer demo_crypto (demo_submission e k) = Inr (CA_Evm (k # replicate 64 0))"
  by (simp add: submission_signer_def demo_submission_def demo_crypto_def)

lemma demo_submission_envelope:
  "sub_envelope (demo_submission e k) = Env_Evm \<lparr>env_event_id = e, env_ordering = replicate 12 0, env_payload = [4]\<rparr>"
  by (simp add: demo_submission_def)

theorem append_submission_correct_witness:
  "\<exists>q'. append_submission_to_queue demo_crypto (demo_qid [9] []) [demo_submission [9] 1] (demo_submission [9] 2) = Inr q' \<and>
     queue_ok demo_crypto q' \<and> q' = [demo_submission [9] 1, demo_submission [9] 2]"
proof -
  have ok: "queue_ok demo_crypto [demo_submission [9] 1]"
    by (simp add: queue_ok_def queue_signers_def demo_submission_signer)
  have "is_ok (append_submission_to_queue demo_crypto (demo_qid [9] []) [demo_submission [9] 1] (demo_submission [9] 2))"
    unfolding append_ok_iff [OF ok] by (simp add: demo_submission_signer demo_submission_envelope)
  with append_submission_correct [OF ok, where qid = "demo_qid [9] []" and s = "demo_submission [9] 2"] show ?thesis
    by (auto simp: queue_signers_def demo_submission_signer is_ok_def split: sum.splits)
qed

section \<open>Cleaning up\<close>

lemma remove_burned_simps [simp]:
  "get_cloned (db_quorum_queues (storage (remove_burned key A))) k =
     (if k = key then None else get_cloned (db_quorum_queues (storage A)) k)"
  "get_cloned (db_event_reference_blocks (storage (remove_burned key A))) e =
     (if e = qq_event_id key then None else get_cloned (db_event_reference_blocks (storage A)) e)"
  "get_cloned (event_receive_locks (remove_burned key A)) e =
     (if e = qq_event_id key then None else get_cloned (event_receive_locks A) e)"
  by (simp_all add: remove_burned_def)

lemma fold_remove_burned:
  "get_cloned (db_quorum_queues (storage (fold remove_burned keys A))) k =
     (if k \<in> set keys then None else get_cloned (db_quorum_queues (storage A)) k)"
  "get_cloned (db_event_reference_blocks (storage (fold remove_burned keys A))) e =
     (if e \<in> qq_event_id ` set keys then None else get_cloned (db_event_reference_blocks (storage A)) e)"
  by (induction keys arbitrary: A) auto

lemma expired_keys_iff:
  assumes "table_wf (db_quorum_queues (storage A))"
  shows "k \<in> set (map fst (filter (\<lambda>(key, v). expired c v) (db_quorum_queues (storage A)))) \<longleftrightarrow>
    (\<exists>ts. get_cloned (db_quorum_queues (storage A)) k = Some (QQ_Burned ts) \<and> ts < c)"
proof -
  have "k \<in> set (map fst (filter (\<lambda>(key, v). expired c v) (db_quorum_queues (storage A)))) \<longleftrightarrow>
      (\<exists>v. (k, v) \<in> set (db_quorum_queues (storage A)) \<and> expired c v)" by force
  also have "\<dots> \<longleftrightarrow> (\<exists>v. get_cloned (db_quorum_queues (storage A)) k = Some v \<and> expired c v)"
    by (simp add: in_set_get_cloned [OF assms])
  also have "\<dots> \<longleftrightarrow> (\<exists>ts. get_cloned (db_quorum_queues (storage A)) k = Some (QQ_Burned ts) \<and> ts < c)"
    by (metis expired.elims(2) expired.simps(1))
  finally show ?thesis .
qed

text \<open>
  C37: The periodic cleanup removes exactly the queues that were burned longer ago than the time to
  live, counts them, and leaves every active queue and every younger burned queue as it is.
\<close>

theorem cleanup_removes_exactly_expired:
  assumes "table_wf (db_quorum_queues (storage A))" "cleanup_old_burned_queues now ttl A = (n, A')"
  shows "get_cloned (db_quorum_queues (storage A')) k =
      (case get_cloned (db_quorum_queues (storage A)) k of
         Some (QQ_Burned ts) \<Rightarrow> if unat ts < unat now - unat ttl then None else Some (QQ_Burned ts)
       | r \<Rightarrow> r) \<and>
    n = card {k. \<exists>ts. get_cloned (db_quorum_queues (storage A)) k = Some (QQ_Burned ts) \<and>
                      unat ts < unat now - unat ttl}"
proof -
  let ?c = "saturating_sub now ttl"
  let ?keys = "map fst (filter (\<lambda>(key, v). expired ?c v) (db_quorum_queues (storage A)))"
  have cut: "ts < ?c \<longleftrightarrow> unat ts < unat now - unat ttl" for ts
    by (simp add: word_less_nat_alt unat_saturating_sub)
  have A': "A' = fold remove_burned ?keys A" "n = length ?keys"
    using assms(2) by (simp_all add: cleanup_old_burned_queues_def Let_def)
  have d: "distinct ?keys" using assms(1) by (simp add: table_wf_def distinct_map_filter)
  have "set ?keys = {k. \<exists>ts. get_cloned (db_quorum_queues (storage A)) k = Some (QQ_Burned ts) \<and>
      unat ts < unat now - unat ttl}"
    using expired_keys_iff [OF assms(1), of _ ?c] unfolding cut by blast
  moreover have "n = card (set ?keys)" using A'(2) d by (simp only: distinct_card)
  moreover have "get_cloned (db_quorum_queues (storage A')) k =
      (if k \<in> set ?keys then None else get_cloned (db_quorum_queues (storage A)) k)"
    unfolding A'(1) by (rule fold_remove_burned)
  ultimately show ?thesis by (auto split: option.splits quorum_queue.splits)
qed

definition aggregator_empty :: aggregator where
  "aggregator_empty =
     \<lparr>storage = wavs_db_new, evm_submission_clients = table_new, cosmos_submission_clients = table_new,
      evm_query_clients = table_new, cosmos_query_clients = table_new, event_receive_locks = table_new\<rparr>"

theorem cleanup_removes_exactly_expired_witness:
  "\<exists>n A'. cleanup_old_burned_queues 1000 100
       (burn_quorum_queue 899 (demo_qid [1] []) (burn_quorum_queue 900 (demo_qid [2] []) aggregator_empty)) = (n, A') \<and>
     n = 1 \<and> get_cloned (db_quorum_queues (storage A')) (demo_qid [1] []) = None \<and>
     get_cloned (db_quorum_queues (storage A')) (demo_qid [2] []) = Some (QQ_Burned 900)"
proof -
  let ?A = "burn_quorum_queue 899 (demo_qid [1] []) (burn_quorum_queue 900 (demo_qid [2] []) aggregator_empty)"
  have wf: "table_wf (db_quorum_queues (storage ?A))"
    by (simp add: burn_quorum_queue_def put_queue_def aggregator_empty_def wavs_db_new_def)
  have q: "get_cloned (db_quorum_queues (storage ?A)) k =
      (if k = demo_qid [1] [] then Some (QQ_Burned 899) else if k = demo_qid [2] [] then Some (QQ_Burned 900) else None)" for k
    by (simp add: burn_quorum_queue_def put_queue_def aggregator_empty_def wavs_db_new_def)
  have ne: "demo_qid [2] [] \<noteq> demo_qid [1] []" by (simp add: demo_qid_def)
  obtain n A' where c: "cleanup_old_burned_queues 1000 100 ?A = (n, A')" by force
  have s: "{k. \<exists>ts. get_cloned (db_quorum_queues (storage ?A)) k = Some (QQ_Burned ts) \<and>
      unat ts < unat (1000::u64) - unat (100::u64)} = {demo_qid [1] []}"
    unfolding q by auto
  have r: "get_cloned (db_quorum_queues (storage A')) k =
      (case get_cloned (db_quorum_queues (storage ?A)) k of
         Some (QQ_Burned ts) \<Rightarrow> if unat ts < unat (1000::u64) - unat (100::u64) then None else Some (QQ_Burned ts)
       | r \<Rightarrow> r)" and n: "n = card {demo_qid [1] []}" for k
    using cleanup_removes_exactly_expired [OF wf c, of k] unfolding s by blast+
  show ?thesis using c n r [of "demo_qid [1] []"] r [of "demo_qid [2] []"] ne unfolding q by simp
qed

text \<open>
  The cleanup forgets more than the expired queue: it drops the reference block pinned for the
  queue's event, although another queue of the same event, for another destination, can still be
  active. Its next submission is then validated and submitted against a different block.
\<close>

lemma cleanup_unpins_active_event:
  "\<exists>A. table_wf (db_quorum_queues (storage A)) \<and> get_quorum_queue A (demo_qid [9] [2]) = QQ_Active [demo_submission [9] 1] \<and>
     get_cloned (db_event_reference_blocks (storage A)) [9] = Some 77 \<and>
     (let A' = snd (cleanup_old_burned_queues 1000 100 A)
      in get_quorum_queue A' (demo_qid [9] [2]) = QQ_Active [demo_submission [9] 1] \<and>
         get_cloned (db_event_reference_blocks (storage A')) [9] = None)"
proof -
  let ?A0 = "aggregator_empty\<lparr>storage := wavs_db_new\<lparr>db_event_reference_blocks := [([9], 77)]\<rparr>\<rparr>"
  let ?A = "burn_quorum_queue 5 (demo_qid [9] [1]) (save_quorum_queue (demo_qid [9] [2]) [demo_submission [9] 1] ?A0)"
  have ne: "demo_qid [9] [2] \<noteq> demo_qid [9] [1]" by (simp add: demo_qid_def)
  have wf: "table_wf (db_quorum_queues (storage ?A))"
    by (simp add: burn_quorum_queue_def save_quorum_queue_def put_queue_def aggregator_empty_def wavs_db_new_def)
  have q: "get_cloned (db_quorum_queues (storage ?A)) k =
      (if k = demo_qid [9] [1] then Some (QQ_Burned 5)
       else if k = demo_qid [9] [2] then Some (QQ_Active [demo_submission [9] 1]) else None)" for k
    by (simp add: burn_quorum_queue_def save_quorum_queue_def put_queue_def aggregator_empty_def wavs_db_new_def)
  have r: "get_cloned (db_event_reference_blocks (storage ?A)) [9] = Some 77"
    by (simp add: burn_quorum_queue_def save_quorum_queue_def put_queue_def get_cloned_def)
  let ?keys = "map fst (filter (\<lambda>(key, v). expired (saturating_sub 1000 100) v) (db_quorum_queues (storage ?A)))"
  have k: "k \<in> set ?keys \<longleftrightarrow> k = demo_qid [9] [1]" for k
    unfolding expired_keys_iff [OF wf] q by (auto simp: saturating_sub_def)
  then have ks: "set ?keys = {demo_qid [9] [1]}" by blast
  have c: "snd (cleanup_old_burned_queues 1000 100 ?A) = fold remove_burned ?keys ?A"
    by (simp only: cleanup_old_burned_queues_def Let_def snd_conv)
  have e: "qq_event_id (demo_qid [9] [1]) = [9]" by (simp add: demo_qid_def)
  have "get_quorum_queue (fold remove_burned ?keys ?A) (demo_qid [9] [2]) = QQ_Active [demo_submission [9] 1]"
    unfolding get_quorum_queue_def fold_remove_burned ks q using ne by simp
  moreover have "get_cloned (db_event_reference_blocks (storage (fold remove_burned ?keys ?A))) [9] = None"
    unfolding fold_remove_burned ks using e by simp
  moreover have "get_quorum_queue ?A (demo_qid [9] [2]) = QQ_Active [demo_submission [9] 1]"
    unfolding get_quorum_queue_def q using ne by simp
  ultimately show ?thesis using wf r unfolding Let_def c [symmetric] by blast
qed

end
