(* ===== verification/Chain_Config.thy ===== *)
theory Chain_Config
  imports Types
begin

text \<open>
  The registry of chain configurations of \<^verbatim>\<open>packages/types/src/chain_config.rs\<close>, and the
  choice of endpoints of \<^verbatim>\<open>packages/utils/src/config.rs\<close>. A configuration is its builder
  with the id of the chain added, so the records of the configurations extend those of the builders.
  A 32-bit floating point gas price is carried as its bits.
\<close>

section \<open>Data\<close>

record cosmos_chain_config_builder =
  bech32_prefix :: string
  rpc_endpoint :: "string option"
  grpc_endpoint :: "string option"
  cosmos_gas_price :: u32
  gas_denom :: string
  cosmos_faucet_endpoint :: "string option"

record cosmos_chain_config = cosmos_chain_config_builder +
  cosmos_chain_id :: string

record evm_chain_config_builder =
  ws_endpoints :: "string list"
  http_endpoint :: "string option"
  evm_faucet_endpoint :: "string option"
  ws_priority_endpoint_index :: "nat option"

record evm_chain_config = evm_chain_config_builder +
  evm_chain_id :: string

record stellar_chain_config_builder =
  chain_poll_interval_ms :: u64
  rpc_url :: string
  network_passphrase :: string
  friendbot_url :: "string option"

record stellar_chain_config = stellar_chain_config_builder +
  stellar_chain_id :: string

datatype any_chain_config =
    AC_Cosmos cosmos_chain_config
  | AC_Evm evm_chain_config
  | AC_Stellar stellar_chain_config

fun any_chain_id :: "any_chain_config \<Rightarrow> string" where
  "any_chain_id (AC_Cosmos c) = cosmos_chain_id c"
| "any_chain_id (AC_Evm c) = evm_chain_id c"
| "any_chain_id (AC_Stellar c) = stellar_chain_id c"

fun chain_key_of_config :: "any_chain_config \<Rightarrow> chain_key" where
  "chain_key_of_config (AC_Cosmos c) = \<lparr>namespace = ''cosmos'', chain_id = cosmos_chain_id c\<rparr>"
| "chain_key_of_config (AC_Evm c) = \<lparr>namespace = ''evm'', chain_id = evm_chain_id c\<rparr>"
| "chain_key_of_config (AC_Stellar c) = \<lparr>namespace = ''stellar'', chain_id = stellar_chain_id c\<rparr>"

datatype chain_config_error =
    ExpectedEvmChain
  | ExpectedCosmosChain
  | ExpectedStellarChain
  | DuplicateChain chain_key
  | InvalidNamespaceForCosmos string
  | InvalidNamespaceForEvm string
  | InvalidNamespaceForStellar string
  | InvalidNamespaceCfg string
  | IdMismatch string string

fun to_cosmos_config :: "any_chain_config \<Rightarrow> chain_config_error + cosmos_chain_config" where
  "to_cosmos_config (AC_Cosmos c) = Inr c"
| "to_cosmos_config (AC_Evm _) = Inl ExpectedCosmosChain"
| "to_cosmos_config (AC_Stellar _) = Inl ExpectedCosmosChain"

fun to_evm_config :: "any_chain_config \<Rightarrow> chain_config_error + evm_chain_config" where
  "to_evm_config (AC_Evm c) = Inr c"
| "to_evm_config (AC_Cosmos _) = Inl ExpectedEvmChain"
| "to_evm_config (AC_Stellar _) = Inl ExpectedEvmChain"

fun to_stellar_config :: "any_chain_config \<Rightarrow> chain_config_error + stellar_chain_config" where
  "to_stellar_config (AC_Stellar c) = Inr c"
| "to_stellar_config (AC_Cosmos _) = Inl ExpectedStellarChain"
| "to_stellar_config (AC_Evm _) = Inl ExpectedStellarChain"

section \<open>The registry\<close>

record chain_configs =
  cfg_cosmos :: "(string \<times> cosmos_chain_config_builder) list"
  cfg_evm :: "(string \<times> evm_chain_config_builder) list"
  cfg_stellar :: "(string \<times> stellar_chain_config_builder) list"
  cfg_dev :: "(string \<times> any_chain_config) list"

definition cosmos_build :: "cosmos_chain_config_builder \<Rightarrow> string \<Rightarrow> cosmos_chain_config" where
  "cosmos_build b i = cosmos_chain_config_builder.extend b (cosmos_chain_config.fields i)"

definition evm_build :: "evm_chain_config_builder \<Rightarrow> string \<Rightarrow> evm_chain_config" where
  "evm_build b i = evm_chain_config_builder.extend b (evm_chain_config.fields i)"

definition stellar_build :: "stellar_chain_config_builder \<Rightarrow> string \<Rightarrow> stellar_chain_config" where
  "stellar_build b i = stellar_chain_config_builder.extend b (stellar_chain_config.fields i)"

definition get_chain :: "chain_configs \<Rightarrow> chain_key \<Rightarrow> any_chain_config option" where
  "get_chain cs key =
     (if namespace key = ''cosmos''
      then map_option (\<lambda>c. AC_Cosmos (cosmos_build c (chain_id key))) (map_of (cfg_cosmos cs) (chain_id key))
      else if namespace key = ''evm''
      then map_option (\<lambda>c. AC_Evm (evm_build c (chain_id key))) (map_of (cfg_evm cs) (chain_id key))
      else if namespace key = ''stellar''
      then map_option (\<lambda>c. AC_Stellar (stellar_build c (chain_id key))) (map_of (cfg_stellar cs) (chain_id key))
      else if namespace key = ''dev'' then map_of (cfg_dev cs) (chain_id key)
      else None)"

definition all_chain_keys :: "chain_configs \<Rightarrow> chain_key list" where
  "all_chain_keys cs =
     map (\<lambda>(i, _). \<lparr>namespace = ''evm'', chain_id = i\<rparr>) (cfg_evm cs) @
     map (\<lambda>(i, _). \<lparr>namespace = ''cosmos'', chain_id = i\<rparr>) (cfg_cosmos cs) @
     map (\<lambda>(i, _). \<lparr>namespace = ''stellar'', chain_id = i\<rparr>) (cfg_stellar cs) @
     map (\<lambda>(i, _). \<lparr>namespace = ''dev'', chain_id = i\<rparr>) (cfg_dev cs)"

definition chain_keys :: "chain_configs \<Rightarrow> string \<Rightarrow> chain_key list" where
  "chain_keys cs ns =
     (if ns = ''cosmos'' then map (\<lambda>(i, _). \<lparr>namespace = ns, chain_id = i\<rparr>) (cfg_cosmos cs)
      else if ns = ''evm'' then map (\<lambda>(i, _). \<lparr>namespace = ns, chain_id = i\<rparr>) (cfg_evm cs)
      else if ns = ''stellar'' then map (\<lambda>(i, _). \<lparr>namespace = ns, chain_id = i\<rparr>) (cfg_stellar cs)
      else if ns = ''dev'' then map (\<lambda>(i, _). \<lparr>namespace = ns, chain_id = i\<rparr>) (cfg_dev cs)
      else [])"

definition add_chain ::
  "chain_key \<Rightarrow> any_chain_config \<Rightarrow> chain_configs \<Rightarrow> chain_config_error + chain_configs" where
  "add_chain key c cs =
     (if get_chain cs key \<noteq> None then Inl (DuplicateChain key)
      else if namespace key = ''dev'' then Inr (cs\<lparr>cfg_dev := omap_insert (chain_id key) c (cfg_dev cs)\<rparr>)
      else if namespace key = ''evm'' then
        (case c of
           AC_Evm e \<Rightarrow>
             if evm_chain_id e \<noteq> chain_id key then Inl (IdMismatch (chain_id key) (evm_chain_id e))
             else Inr (cs\<lparr>cfg_evm := omap_insert (chain_id key) (evm_chain_config_builder.truncate e) (cfg_evm cs)\<rparr>)
         | _ \<Rightarrow> Inl (InvalidNamespaceForEvm (namespace key)))
      else if namespace key = ''cosmos'' then
        (case c of
           AC_Cosmos e \<Rightarrow>
             if cosmos_chain_id e \<noteq> chain_id key then Inl (IdMismatch (chain_id key) (cosmos_chain_id e))
             else Inr (cs\<lparr>cfg_cosmos :=
               omap_insert (chain_id key) (cosmos_chain_config_builder.truncate e) (cfg_cosmos cs)\<rparr>)
         | _ \<Rightarrow> Inl (InvalidNamespaceForCosmos (namespace key)))
      else if namespace key = ''stellar'' then
        (case c of
           AC_Stellar e \<Rightarrow>
             if stellar_chain_id e \<noteq> chain_id key then Inl (IdMismatch (chain_id key) (stellar_chain_id e))
             else Inr (cs\<lparr>cfg_stellar :=
               omap_insert (chain_id key) (stellar_chain_config_builder.truncate e) (cfg_stellar cs)\<rparr>)
         | _ \<Rightarrow> Inl (InvalidNamespaceForStellar (namespace key)))
      else Inl (InvalidNamespaceCfg (namespace key)))"

section \<open>Endpoints of an EVM chain\<close>

definition NO_ENDPOINT :: string where
  "NO_ENDPOINT = ''No endpoint provided''"

text \<open>Signing clients prefer HTTP, query clients prefer web sockets; the parsers of endpoint URLs are arguments.\<close>

definition signing_client_endpoint ::
  "(string \<Rightarrow> string + 'ep) \<Rightarrow> (string \<Rightarrow> string + 'ep) \<Rightarrow> evm_chain_config \<Rightarrow> string + 'ep" where
  "signing_client_endpoint new_http new_ws c =
     (case (ws_endpoints c, http_endpoint c) of
        (_, Some url) \<Rightarrow> new_http url
      | (url # _, None) \<Rightarrow> new_ws url
      | ([], None) \<Rightarrow> Inl NO_ENDPOINT)"

fun collect_endpoints :: "(string \<Rightarrow> string + 'ep) \<Rightarrow> string list \<Rightarrow> string + 'ep list" where
  "collect_endpoints new_ws [] = Inr []"
| "collect_endpoints new_ws (u # us) =
     rbind (new_ws u) (\<lambda>e. rbind (collect_endpoints new_ws us) (\<lambda>es. Inr (e # es)))"

definition query_client_endpoints ::
  "(string \<Rightarrow> string + 'ep) \<Rightarrow> (string \<Rightarrow> string + 'ep) \<Rightarrow> evm_chain_config \<Rightarrow> string + 'ep list" where
  "query_client_endpoints new_http new_ws c =
     (case (ws_endpoints c, http_endpoint c) of
        (u # us, _) \<Rightarrow> collect_endpoints new_ws (u # us)
      | ([], Some url) \<Rightarrow> rbind (new_http url) (\<lambda>e. Inr [e])
      | ([], None) \<Rightarrow> Inl NO_ENDPOINT)"

text \<open>An endpoint for queries always exists when the query configuration is accepted.\<close>

lemma query_client_endpoints_nonempty: "query_client_endpoints h w c = Inr es \<Longrightarrow> es \<noteq> []"
  by (auto simp: query_client_endpoints_def result_iffs split: list.splits option.splits)

section \<open>Laws of the registry\<close>

definition chain_configs_wf :: "chain_configs \<Rightarrow> bool" where
  "chain_configs_wf cs =
     (omap_wf (cfg_cosmos cs) \<and> omap_wf (cfg_evm cs) \<and> omap_wf (cfg_stellar cs) \<and> omap_wf (cfg_dev cs))"

lemma build_truncate [simp]:
  "cosmos_chain_id c = i \<Longrightarrow> cosmos_build (cosmos_chain_config_builder.truncate c) i = c"
  "evm_chain_id e = i \<Longrightarrow> evm_build (evm_chain_config_builder.truncate e) i = e"
  "stellar_chain_id s = i \<Longrightarrow> stellar_build (stellar_chain_config_builder.truncate s) i = s"
  by (auto simp: cosmos_build_def evm_build_def stellar_build_def cosmos_chain_config_builder.defs
      evm_chain_config_builder.defs stellar_chain_config_builder.defs cosmos_chain_config.defs
      evm_chain_config.defs stellar_chain_config.defs)

lemma add_chain_wf: "chain_configs_wf cs \<Longrightarrow> add_chain key c cs = Inr cs' \<Longrightarrow> chain_configs_wf cs'"
  by (auto simp: add_chain_def chain_configs_wf_def split: if_splits any_chain_config.splits)

lemma chain_key_eq_iff: "(k :: chain_key) = k' \<longleftrightarrow> namespace k = namespace k' \<and> chain_id k = chain_id k'"
  by (cases k; cases k') simp

text \<open>
  A configuration that was added is read back exactly as it was given, under its own key only,
  and every other chain keeps its configuration; adding fails exactly when the key is taken, its
  namespace is unknown, or the configuration's kind or id does not fit the key, and dev chains may
  carry any configuration.
\<close>

lemma add_chain_then_get:
  assumes "chain_configs_wf cs"
  shows "case add_chain key c cs of
      Inr cs' \<Rightarrow> chain_configs_wf cs' \<and> get_chain cs key = None \<and>
        (\<forall>k. get_chain cs' k = (if k = key then Some c else get_chain cs k))
    | Inl e \<Rightarrow> get_chain cs key \<noteq> None \<or>
        (namespace key \<noteq> ''dev'' \<and> chain_key_of_config c \<noteq> key)"
proof (cases "add_chain key c cs")
  case (Inl e)
  then show ?thesis
    by (cases c) (auto simp: add_chain_def chain_key_eq_iff split: if_splits)
next
  case (Inr cs')
  have s: "sorted (map fst (cfg_cosmos cs))" "sorted (map fst (cfg_evm cs))"
    "sorted (map fst (cfg_stellar cs))" "sorted (map fst (cfg_dev cs))"
    using assms by (simp_all add: chain_configs_wf_def omap_wf_def)
  have none: "get_chain cs key = None" using Inr by (auto simp: add_chain_def split: if_splits)
  have "get_chain cs' k = (if k = key then Some c else get_chain cs k)" for k
    using Inr s by (cases c)
      (auto simp: add_chain_def get_chain_def chain_key_eq_iff split: if_splits)
  with none add_chain_wf [OF assms Inr] Inr show ?thesis by simp
qed

definition demo_evm_config :: evm_chain_config where
  "demo_evm_config =
     \<lparr>ws_endpoints = [''ws''], http_endpoint = None, evm_faucet_endpoint = None,
      ws_priority_endpoint_index = None, evm_chain_id = ''1''\<rparr>"

definition no_chains :: chain_configs where
  "no_chains = \<lparr>cfg_cosmos = [], cfg_evm = [], cfg_stellar = [], cfg_dev = []\<rparr>"

lemma keys_of_map_of: "fst ` set m = {i. map_of m i \<noteq> None}"
  by (auto simp: map_of_eq_None_iff)

text \<open>
  The list of all chain keys holds exactly the keys that have a configuration, each once.
\<close>

lemma all_chain_keys_exact:
  assumes "chain_configs_wf cs"
  shows "distinct (all_chain_keys cs) \<and> set (all_chain_keys cs) = {k. get_chain cs k \<noteq> None} \<and>
    set (chain_keys cs ns) = {k. namespace k = ns \<and> get_chain cs k \<noteq> None}"
proof -
  have d: "distinct (map fst (cfg_cosmos cs))" "distinct (map fst (cfg_evm cs))"
    "distinct (map fst (cfg_stellar cs))" "distinct (map fst (cfg_dev cs))"
    using assms by (simp_all add: chain_configs_wf_def omap_wf_def)
  let ?k = "\<lambda>n m. map (\<lambda>(i, _). \<lparr>namespace = n, chain_id = i\<rparr>) m"
  have dk: "distinct (?k n m)" if "distinct (map fst m)" for n and m :: "(string \<times> 'v) list"
    using that by (induction m) (auto simp: image_iff)
  have sk: "set (?k n m) = {k. namespace k = n \<and> map_of m (chain_id k) \<noteq> None}" for n and m :: "(string \<times> 'v) list"
  proof -
    have "set (?k n m) = {k. namespace k = n \<and> chain_id k \<in> fst ` set m}"
      by (induction m) (auto simp: chain_key_eq_iff)
    then show ?thesis unfolding keys_of_map_of by simp
  qed
  have g: "get_chain cs k \<noteq> None \<longleftrightarrow>
      namespace k = ''cosmos'' \<and> map_of (cfg_cosmos cs) (chain_id k) \<noteq> None \<or>
      namespace k = ''evm'' \<and> map_of (cfg_evm cs) (chain_id k) \<noteq> None \<or>
      namespace k = ''stellar'' \<and> map_of (cfg_stellar cs) (chain_id k) \<noteq> None \<or>
      namespace k = ''dev'' \<and> map_of (cfg_dev cs) (chain_id k) \<noteq> None" for k
    by (auto simp: get_chain_def)
  have "set (all_chain_keys cs) = {k. get_chain cs k \<noteq> None}"
    unfolding all_chain_keys_def set_append sk g by blast
  moreover have "distinct (all_chain_keys cs)"
    unfolding all_chain_keys_def distinct_append set_append sk
    using dk [OF d(1)] dk [OF d(2)] dk [OF d(3)] dk [OF d(4)] by (auto simp del: distinct_map)
  moreover have "set (chain_keys cs ns) = {k. namespace k = ns \<and> get_chain cs k \<noteq> None}"
    unfolding g by (cases "ns = ''cosmos''"; cases "ns = ''evm''"; cases "ns = ''stellar''"; cases "ns = ''dev''")
      (auto simp add: chain_keys_def sk simp del: set_map)
  ultimately show ?thesis by blast
qed

end
