(* ===== verification/Validate.thy ===== *)
theory Validate
  imports Quorum Chain_Config
begin

text \<open>
  Validation of packets at receive time, from \<^verbatim>\<open>subsystems/aggregator/validate.rs\<close>: the
  signer of a packet must carry weight in the operator set of the service manager at a reference
  block, which is pinned by the first valid packet of an event. The answers of the chains during
  one validation are the fields of \<open>chain_queries\<close>; a different record can be given to every call.
\<close>

section \<open>Queries\<close>

record chain_queries =
  q_endpoint_http :: "string \<Rightarrow> string + string"
  q_endpoint_ws :: "string \<Rightarrow> string + string"
  q_new_evm_client :: "string \<Rightarrow> string + client"
  q_evm_block_number :: "client \<Rightarrow> string + u64"
  q_latest_operator :: "client \<Rightarrow> evm_address \<Rightarrow> evm_address \<Rightarrow> u64 \<Rightarrow> string + evm_address"
  q_operator_weight :: "client \<Rightarrow> evm_address \<Rightarrow> evm_address \<Rightarrow> u64 \<Rightarrow> string + nat"
  q_new_cosmos_client :: "cosmos_chain_config \<Rightarrow> string + client"
  q_cosmos_height :: "client \<Rightarrow> string + u64"
  q_cosmos_operator :: "client \<Rightarrow> cosmos_addr \<Rightarrow> evm_address \<Rightarrow> string + evm_address option"
  q_cosmos_weight :: "client \<Rightarrow> cosmos_addr \<Rightarrow> evm_address \<Rightarrow> string + nat"
  q_soroban_env :: "string \<Rightarrow> string \<Rightarrow> string + unit"
  q_stellar_client :: "string \<Rightarrow> string + unit"
  q_latest_ledger :: "string \<Rightarrow> string + u32"
  q_check_one_secp :: "bytes \<Rightarrow> bytes \<Rightarrow> bytes \<Rightarrow> bytes \<Rightarrow> u32 \<Rightarrow> string + nat"
  q_check_one_ed :: "bytes \<Rightarrow> bytes \<Rightarrow> bytes \<Rightarrow> bytes \<Rightarrow> u32 \<Rightarrow> string + nat"

fun str_contains :: "string \<Rightarrow> string \<Rightarrow> bool" where
  "str_contains n [] = (n = [])"
| "str_contains n (c # s) = (take (length n) (c # s) = n \<or> str_contains n s)"

definition BAD_SIG :: string where "BAD_SIG = ''bad_sig''"
definition UNREGISTERED :: string where "UNREGISTERED = ''unregistered''"
definition CHAIN_QUERY_FAILED :: string where "CHAIN_QUERY_FAILED = ''chain_query_failed''"

fun reject_reason_for :: "aggregator_error \<Rightarrow> string" where
  "reject_reason_for (InvalidPacketSignature _) = BAD_SIG"
| "reject_reason_for (SignerUnregisteredAtReceive _ _ _) = UNREGISTERED"
| "reject_reason_for (ReceiveValidationChainQuery _ _) = CHAIN_QUERY_FAILED"
| "reject_reason_for (MissingChainConfig _) = CHAIN_QUERY_FAILED"
| "reject_reason_for _ = CHAIN_QUERY_FAILED"

section \<open>The reference block\<close>

definition get_pinned_reference_block :: "aggregator \<Rightarrow> event_id \<Rightarrow> u64 option" where
  "get_pinned_reference_block A e = get_cloned (db_event_reference_blocks (storage A)) e"

definition pin_event_reference_block_if_unset :: "event_id \<Rightarrow> u64 \<Rightarrow> aggregator \<Rightarrow> aggregator" where
  "pin_event_reference_block_if_unset e block A =
     (if get_cloned (db_event_reference_blocks (storage A)) e = None
      then A\<lparr>storage := (storage A)\<lparr>db_event_reference_blocks :=
             table_insert e block (db_event_reference_blocks (storage A))\<rparr>\<rparr>
      else A)"

definition reference_block ::
  "u64 option \<Rightarrow> (aggregator_error + u64) \<Rightarrow> aggregator_error + u64" where
  "reference_block pinned current =
     (case pinned of
        Some b \<Rightarrow> Inr b
      | None \<Rightarrow> rbind current (\<lambda>c. Inr (saturating_sub c 1)))"

section \<open>Clients for queries\<close>

definition evm_config_of :: "chain_configs \<Rightarrow> chain_key \<Rightarrow> evm_chain_config option" where
  "evm_config_of cs chain = (case get_chain cs chain of Some (AC_Evm c) \<Rightarrow> Some c | _ \<Rightarrow> None)"

definition cosmos_config_of :: "chain_configs \<Rightarrow> chain_key \<Rightarrow> cosmos_chain_config option" where
  "cosmos_config_of cs chain = (case get_chain cs chain of Some (AC_Cosmos c) \<Rightarrow> Some c | _ \<Rightarrow> None)"

definition stellar_config_of :: "chain_configs \<Rightarrow> chain_key \<Rightarrow> stellar_chain_config option" where
  "stellar_config_of cs chain = (case get_chain cs chain of Some (AC_Stellar c) \<Rightarrow> Some c | _ \<Rightarrow> None)"

definition get_or_create_evm_query_client ::
  "chain_queries \<Rightarrow> chain_configs \<Rightarrow> chain_key \<Rightarrow> aggregator \<Rightarrow> (string + client) \<times> aggregator" where
  "get_or_create_evm_query_client Q cs chain A =
     (case get_cloned (evm_query_clients A) chain of
        Some c \<Rightarrow> (Inr c, A)
      | None \<Rightarrow>
          (case rbind (ok_or (evm_config_of cs chain) ''EVM chain config not found'') (\<lambda>cfg.
                rbind (query_client_endpoints (q_endpoint_http Q) (q_endpoint_ws Q) cfg) (\<lambda>eps.
                rbind (case eps of ep # _ \<Rightarrow> Inr ep | [] \<Rightarrow> Inl ''no EVM query endpoints'') (\<lambda>ep.
                q_new_evm_client Q ep))) of
             Inl e \<Rightarrow> (Inl e, A)
           | Inr c \<Rightarrow> (Inr c, A\<lparr>evm_query_clients := table_insert chain c (evm_query_clients A)\<rparr>)))"

definition get_or_create_cosmos_query_client ::
  "chain_queries \<Rightarrow> chain_configs \<Rightarrow> chain_key \<Rightarrow> aggregator \<Rightarrow> (string + client) \<times> aggregator" where
  "get_or_create_cosmos_query_client Q cs chain A =
     (case get_cloned (cosmos_query_clients A) chain of
        Some c \<Rightarrow> (Inr c, A)
      | None \<Rightarrow>
          (case rbind (ok_or (cosmos_config_of cs chain) ''Cosmos chain config not found'') (\<lambda>cfg.
                q_new_cosmos_client Q cfg) of
             Inl e \<Rightarrow> (Inl e, A)
           | Inr c \<Rightarrow> (Inr c, A\<lparr>cosmos_query_clients := table_insert chain c (cosmos_query_clients A)\<rparr>)))"

section \<open>Validation per chain\<close>

definition packet_evm_signer :: "crypto \<Rightarrow> submission \<Rightarrow> string \<Rightarrow> aggregator_error + evm_address" where
  "packet_evm_signer C s msg =
     rbind (map_err (\<lambda>e. InvalidPacketSignature (Inl e))
             (signer_address C (sub_envelope_signature s) (sub_envelope s))) (\<lambda>addr.
     ok_or (try_as_evm addr) (InvalidPacketSignature (Inr msg)))"

definition ZERO_ADDRESS :: evm_address where
  "ZERO_ADDRESS = replicate 20 0"

abbreviation chain_query_error :: "chain_key \<Rightarrow> string \<Rightarrow> string \<Rightarrow> aggregator_error" where
  "chain_query_error chain what \<equiv> (\<lambda>e. ReceiveValidationChainQuery chain (what @ e))"

definition evm_weight_check ::
  "crypto \<Rightarrow> chain_queries \<Rightarrow> client \<Rightarrow> evm_address \<Rightarrow> evm_address \<Rightarrow> chain_key \<Rightarrow> u64 \<Rightarrow> aggregator_error + u64" where
  "evm_weight_check C Q client mgr signer chain ref_block =
     rbind (map_err (chain_query_error chain ''getLatestOperatorForSigningKey: '')
             (q_latest_operator Q client mgr signer ref_block)) (\<lambda>operator.
     if operator = ZERO_ADDRESS
     then Inl (SignerUnregisteredAtReceive chain (evm_checksum_string C signer) ref_block)
     else rbind (map_err (chain_query_error chain ''getOperatorWeight: '')
                  (q_operator_weight Q client mgr operator ref_block)) (\<lambda>weight.
          if weight = 0
          then Inl (SignerUnregisteredAtReceive chain (evm_checksum_string C signer) ref_block)
          else Inr ref_block))"

definition validate_packet_evm ::
  "crypto \<Rightarrow> chain_queries \<Rightarrow> chain_configs \<Rightarrow> submission \<Rightarrow> evm_address \<Rightarrow> chain_key \<Rightarrow> u64 option \<Rightarrow>
   aggregator \<Rightarrow> (aggregator_error + u64) \<times> aggregator" where
  "validate_packet_evm C Q cs s mgr chain pinned A =
     (case packet_evm_signer C s ''EVM service-manager validation requires a secp256k1 signature'' of
        Inl e \<Rightarrow> (Inl e, A)
      | Inr signer \<Rightarrow>
          (case get_or_create_evm_query_client Q cs chain A of
             (Inl e, A1) \<Rightarrow> (Inl (chain_query_error chain ''evm query client: '' e), A1)
           | (Inr client, A1) \<Rightarrow>
               (rbind (reference_block pinned
                        (map_err (chain_query_error chain ''eth_blockNumber: '') (q_evm_block_number Q client)))
                  (evm_weight_check C Q client mgr signer chain), A1)))"

definition cosmos_weight_check ::
  "crypto \<Rightarrow> chain_queries \<Rightarrow> client \<Rightarrow> cosmos_addr \<Rightarrow> evm_address \<Rightarrow> chain_key \<Rightarrow> u64 \<Rightarrow> aggregator_error + u64" where
  "cosmos_weight_check C Q client mgr signer chain ref_block =
     rbind (map_err (chain_query_error chain ''WarpDriveLatestOperatorForSigningKey: '')
             (q_cosmos_operator Q client mgr signer)) (\<lambda>operator.
     case operator of
       None \<Rightarrow> Inl (SignerUnregisteredAtReceive chain (evm_checksum_string C signer) ref_block)
     | Some operator \<Rightarrow>
         rbind (map_err (chain_query_error chain ''WarpDriveOperatorWeight: '')
                 (q_cosmos_weight Q client mgr operator)) (\<lambda>weight.
         if weight = 0
         then Inl (SignerUnregisteredAtReceive chain (evm_checksum_string C signer) ref_block)
         else Inr ref_block))"

definition validate_packet_cosmos ::
  "crypto \<Rightarrow> chain_queries \<Rightarrow> chain_configs \<Rightarrow> submission \<Rightarrow> cosmos_addr \<Rightarrow> chain_key \<Rightarrow> u64 option \<Rightarrow>
   aggregator \<Rightarrow> (aggregator_error + u64) \<times> aggregator" where
  "validate_packet_cosmos C Q cs s mgr chain pinned A =
     (case packet_evm_signer C s ''Cosmos service-manager validation requires a secp256k1 signature'' of
        Inl e \<Rightarrow> (Inl e, A)
      | Inr signer \<Rightarrow>
          (case get_or_create_cosmos_query_client Q cs chain A of
             (Inl e, A1) \<Rightarrow> (Inl (chain_query_error chain ''cosmos query client: '' e), A1)
           | (Inr client, A1) \<Rightarrow>
               (rbind (reference_block pinned
                        (map_err (chain_query_error chain ''block_height: '') (q_cosmos_height Q client)))
                  (cosmos_weight_check C Q client mgr signer chain), A1)))"

definition stellar_check_result ::
  "chain_key \<Rightarrow> string \<Rightarrow> u64 \<Rightarrow> string + nat \<Rightarrow> aggregator_error + u64" where
  "stellar_check_result chain signer_hex ref_block res =
     (case res of
        Inr weight \<Rightarrow>
          if weight > 0 then Inr ref_block else Inl (SignerUnregisteredAtReceive chain signer_hex ref_block)
      | Inl err \<Rightarrow>
          if str_contains ''Error(Contract, #302)'' err \<or> str_contains ''Error(Contract, #301)'' err
          then Inl (SignerUnregisteredAtReceive chain signer_hex ref_block)
          else Inl (chain_query_error chain ''check_one: '' err))"

text \<open>The contract takes the low 32 bits of the reference block.\<close>

definition validate_packet_stellar ::
  "crypto \<Rightarrow> chain_queries \<Rightarrow> chain_configs \<Rightarrow> wavs_db \<Rightarrow> submission \<Rightarrow> chain_key \<Rightarrow> u64 option \<Rightarrow>
   aggregator_error + u64" where
  "validate_packet_stellar C Q cs db s chain pinned =
     rbind (ok_or (stellar_config_of cs chain) (MissingChainConfig chain)) (\<lambda>cfg.
     rbind (map_err (chain_query_error chain ''soroban env: '')
             (q_soroban_env Q (rpc_url cfg) (network_passphrase cfg))) (\<lambda>_.
     rbind (reference_block pinned
             (rbind (map_err (chain_query_error chain ''stellar rpc client: '') (q_stellar_client Q (rpc_url cfg))) (\<lambda>_.
              rbind (map_err (chain_query_error chain ''get_latest_ledger: '') (q_latest_ledger Q (rpc_url cfg))) (\<lambda>sq.
              Inr (ucast sq))))) (\<lambda>ref_block.
     rbind (map_err AE_Services (get_stellar_service_manager_contracts db (sub_service_id s))) (\<lambda>contracts.
     case sub_envelope_signature s of
       Sig_Secp256k1 sig p \<Rightarrow>
         rbind (map_err AE_Signing (secp256k1_compressed_pubkey C (Sig_Secp256k1 sig p) (sub_envelope s))) (\<lambda>pubkey.
         stellar_check_result chain (hex_encode C pubkey) ref_block
           (q_check_one_secp Q (verifier contracts) (encode_data C (sub_envelope s)) sig pubkey (ucast ref_block)))
     | Sig_Ed25519 sig pubkey \<Rightarrow>
         stellar_check_result chain (hex_encode C pubkey) ref_block
           (q_check_one_ed Q (verifier contracts) (encode_data C (sub_envelope s)) sig pubkey (ucast ref_block))))))"

definition validate_packet_at_receive ::
  "crypto \<Rightarrow> chain_queries \<Rightarrow> chain_configs \<Rightarrow> wavs_db \<Rightarrow> submission \<Rightarrow> service \<Rightarrow> aggregator \<Rightarrow>
   (aggregator_error + u64) \<times> aggregator" where
  "validate_packet_at_receive C Q cs db s svc A =
     (let pinned = get_pinned_reference_block A (sub_event_id s)
      in case manager svc of
           SM_Stellar chain _ \<Rightarrow> (validate_packet_stellar C Q cs db s chain pinned, A)
         | SM_Evm chain address \<Rightarrow> validate_packet_evm C Q cs s address chain pinned A
         | SM_Cosmos chain address \<Rightarrow> validate_packet_cosmos C Q cs s address chain pinned A)"

section \<open>Laws\<close>

lemma query_client_storage [simp]:
  "storage (snd (get_or_create_evm_query_client Q cs chain A)) = storage A"
  "storage (snd (get_or_create_cosmos_query_client Q cs chain A)) = storage A"
  "event_receive_locks (snd (get_or_create_evm_query_client Q cs chain A)) = event_receive_locks A"
  "event_receive_locks (snd (get_or_create_cosmos_query_client Q cs chain A)) = event_receive_locks A"
  by (simp_all add: get_or_create_evm_query_client_def get_or_create_cosmos_query_client_def
      split: option.splits sum.splits)

lemma validate_storage [simp]:
  "storage (snd (validate_packet_at_receive C Q cs db s svc A)) = storage A"
  "event_receive_locks (snd (validate_packet_at_receive C Q cs db s svc A)) = event_receive_locks A"
proof -
  have "storage (snd (validate_packet_evm C Q cs s mgr chain pinned A)) = storage A \<and>
      event_receive_locks (snd (validate_packet_evm C Q cs s mgr chain pinned A)) = event_receive_locks A"
    for mgr chain pinned
    using query_client_storage(1,3) [of Q cs chain A]
    by (cases "get_or_create_evm_query_client Q cs chain A") (simp add: validate_packet_evm_def split: sum.splits)
  moreover have "storage (snd (validate_packet_cosmos C Q cs s mgr chain pinned A)) = storage A \<and>
      event_receive_locks (snd (validate_packet_cosmos C Q cs s mgr chain pinned A)) = event_receive_locks A"
    for mgr chain pinned
    using query_client_storage(2,4) [of Q cs chain A]
    by (cases "get_or_create_cosmos_query_client Q cs chain A") (simp add: validate_packet_cosmos_def split: sum.splits)
  ultimately show "storage (snd (validate_packet_at_receive C Q cs db s svc A)) = storage A"
    "event_receive_locks (snd (validate_packet_at_receive C Q cs db s svc A)) = event_receive_locks A"
    by (simp_all add: validate_packet_at_receive_def Let_def split: service_manager.splits)
qed

lemma evm_weight_check_Inr:
  "evm_weight_check C Q client mgr signer chain rb = Inr b \<longleftrightarrow> b = rb \<and>
     (\<exists>operator w. q_latest_operator Q client mgr signer rb = Inr operator \<and> operator \<noteq> ZERO_ADDRESS \<and>
        q_operator_weight Q client mgr operator rb = Inr w \<and> w > 0)"
  by (auto simp: evm_weight_check_def result_iffs split: if_splits)

lemma cosmos_weight_check_Inr:
  "cosmos_weight_check C Q client mgr signer chain rb = Inr b \<longleftrightarrow> b = rb \<and>
     (\<exists>operator w. q_cosmos_operator Q client mgr signer = Inr (Some operator) \<and>
        q_cosmos_weight Q client mgr operator = Inr w \<and> w > 0)"
  by (auto simp: cosmos_weight_check_def result_iffs split: if_splits option.splits)

lemma stellar_check_result_Inr: "stellar_check_result chain h rb r = Inr b \<longleftrightarrow> b = rb \<and> (\<exists>w. r = Inr w \<and> w > 0)"
  by (auto simp: stellar_check_result_def split: sum.splits if_splits)

lemma reference_block_Inr:
  "reference_block pinned cur = Inr b \<longleftrightarrow> pinned = Some b \<or> pinned = None \<and> (\<exists>c. cur = Inr c \<and> b = saturating_sub c 1)"
  by (auto simp: reference_block_def result_iffs split: option.splits)

lemmas weight_check_Inr = evm_weight_check_Inr cosmos_weight_check_Inr stellar_check_result_Inr reference_block_Inr

lemma validate_packet_evm_Inr:
  assumes "validate_packet_evm C Q cs s mgr chain pinned A = (Inr b, A')"
  obtains signer client where
    "submission_signer C s = Inr (CA_Evm signer)" "get_or_create_evm_query_client Q cs chain A = (Inr client, A')"
    "pinned = Some b \<or> pinned = None \<and> (\<exists>c. q_evm_block_number Q client = Inr c \<and> b = saturating_sub c 1)"
    "evm_weight_check C Q client mgr signer chain b = Inr b"
  using assms
  by (auto simp: validate_packet_evm_def packet_evm_signer_def submission_signer_def result_iffs weight_check_Inr
      elim!: try_as_evm.elims split: sum.splits prod.splits)

lemma validate_packet_cosmos_Inr:
  assumes "validate_packet_cosmos C Q cs s mgr chain pinned A = (Inr b, A')"
  obtains signer client where
    "submission_signer C s = Inr (CA_Evm signer)" "get_or_create_cosmos_query_client Q cs chain A = (Inr client, A')"
    "pinned = Some b \<or> pinned = None \<and> (\<exists>c. q_cosmos_height Q client = Inr c \<and> b = saturating_sub c 1)"
    "cosmos_weight_check C Q client mgr signer chain b = Inr b"
  using assms
  by (auto simp: validate_packet_cosmos_def packet_evm_signer_def submission_signer_def result_iffs weight_check_Inr
      elim!: try_as_evm.elims split: sum.splits prod.splits)

lemma validate_packet_stellar_Inr:
  assumes "validate_packet_stellar C Q cs db s chain pinned = Inr b"
  obtains cfg contracts where "stellar_config_of cs chain = Some cfg"
    "pinned = Some b \<or> pinned = None \<and> (\<exists>c. q_latest_ledger Q (rpc_url cfg) = Inr c \<and> b = saturating_sub (ucast c) 1)"
    "get_cloned (db_stellar_contracts db) (sub_service_id s) = Some contracts"
    "case sub_envelope_signature s of
       Sig_Secp256k1 sig p \<Rightarrow> \<exists>pubkey w.
         secp256k1_compressed_pubkey C (Sig_Secp256k1 sig p) (sub_envelope s) = Inr pubkey \<and>
         q_check_one_secp Q (verifier contracts) (encode_data C (sub_envelope s)) sig pubkey (ucast b) = Inr w \<and> w > 0
     | Sig_Ed25519 sig pubkey \<Rightarrow> \<exists>w.
         q_check_one_ed Q (verifier contracts) (encode_data C (sub_envelope s)) sig pubkey (ucast b) = Inr w \<and> w > 0"
  using assms unfolding validate_packet_stellar_def
  by (cases "sub_envelope_signature s")
    (auto simp: result_iffs weight_check_Inr get_stellar_service_manager_contracts_def
      simp del: secp256k1_compressed_pubkey.simps)

text \<open>The operator behind the packet's signer has weight at the given block. A Cosmos manager is
  asked for its current state; the block does not enter.\<close>

definition signer_has_weight ::
  "crypto \<Rightarrow> chain_queries \<Rightarrow> wavs_db \<Rightarrow> submission \<Rightarrow> service_manager \<Rightarrow> client \<Rightarrow> u64 \<Rightarrow> bool" where
  "signer_has_weight C Q db s m client b =
     (case m of
        SM_Evm _ address \<Rightarrow> \<exists>signer operator w. submission_signer C s = Inr (CA_Evm signer) \<and>
          q_latest_operator Q client address signer b = Inr operator \<and> operator \<noteq> ZERO_ADDRESS \<and>
          q_operator_weight Q client address operator b = Inr w \<and> w > 0
      | SM_Cosmos _ address \<Rightarrow> \<exists>signer operator w. submission_signer C s = Inr (CA_Evm signer) \<and>
          q_cosmos_operator Q client address signer = Inr (Some operator) \<and>
          q_cosmos_weight Q client address operator = Inr w \<and> w > 0
      | SM_Stellar _ _ \<Rightarrow> \<exists>contracts w. get_cloned (db_stellar_contracts db) (sub_service_id s) = Some contracts \<and>
          w > 0 \<and>
          (case sub_envelope_signature s of
             Sig_Secp256k1 sig p \<Rightarrow> \<exists>pubkey.
               secp256k1_compressed_pubkey C (Sig_Secp256k1 sig p) (sub_envelope s) = Inr pubkey \<and>
               q_check_one_secp Q (verifier contracts) (encode_data C (sub_envelope s)) sig pubkey (ucast b) = Inr w
           | Sig_Ed25519 sig pubkey \<Rightarrow>
               q_check_one_ed Q (verifier contracts) (encode_data C (sub_envelope s)) sig pubkey (ucast b) = Inr w))"

lemma validate_Inr:
  assumes "validate_packet_at_receive C Q cs db s svc A = (Inr b, A')"
  shows "get_pinned_reference_block A (sub_event_id s) \<in> {None, Some b}"
    and "\<exists>client. signer_has_weight C Q db s (manager svc) client b"
proof -
  let ?p = "get_pinned_reference_block A (sub_event_id s)"
  have "?p \<in> {None, Some b} \<and> (\<exists>client. signer_has_weight C Q db s (manager svc) client b)"
  proof (cases "manager svc")
    case (SM_Evm chain address)
    with assms have "validate_packet_evm C Q cs s address chain ?p A = (Inr b, A')"
      by (simp add: validate_packet_at_receive_def Let_def)
    then show ?thesis
      by (rule validate_packet_evm_Inr) (auto simp: weight_check_Inr signer_has_weight_def SM_Evm)
  next
    case (SM_Cosmos chain address)
    with assms have "validate_packet_cosmos C Q cs s address chain ?p A = (Inr b, A')"
      by (simp add: validate_packet_at_receive_def Let_def)
    then show ?thesis
      by (rule validate_packet_cosmos_Inr) (auto simp: weight_check_Inr signer_has_weight_def SM_Cosmos)
  next
    case (SM_Stellar chain address)
    with assms have "validate_packet_stellar C Q cs db s chain ?p = Inr b"
      by (auto simp: validate_packet_at_receive_def Let_def)
    then show ?thesis
      by (rule validate_packet_stellar_Inr)
        (cases "sub_envelope_signature s";
         auto simp: signer_has_weight_def SM_Stellar simp del: secp256k1_compressed_pubkey.simps)
  qed
  then show "?p \<in> {None, Some b}" "\<exists>client. signer_has_weight C Q db s (manager svc) client b" by blast+
qed

end
