(* ===== verification/Submit.thy ===== *)
theory Submit
  imports Validate
begin

text \<open>
  Sending a queue to its destination chain, from \<^verbatim>\<open>subsystems/aggregator/submit.rs\<close>, and
  the credentials and clients this needs, from \<^verbatim>\<open>subsystems/aggregator.rs\<close>. What the chain
  libraries answer is the record \<open>submit_env\<close>. The contracts are asked whether they accept the
  signatures before a transaction is sent.
\<close>

section \<open>The environment of a submission\<close>

datatype evm_validate_error =
    EVE_InsufficientQuorum string string string
  | EVE_Known string
  | EVE_Revert string
  | EVE_Unknown string

datatype cosmos_validate_error =
    CVE_InsufficientQuorum string string string
  | CVE_Other string

record stellar_signature_data =
  xsd_signers :: "bytes list"
  xsd_signatures :: "bytes list"
  xsd_reference_block :: u32

record submit_env =
  e_endpoint_http :: "string \<Rightarrow> string + string"
  e_endpoint_ws :: "string \<Rightarrow> string + string"
  e_new_evm_client :: "string \<Rightarrow> string \<Rightarrow> string + client"
  e_cosmos_mnemonic :: "string \<Rightarrow> string + unit"
  e_new_cosmos_client :: "cosmos_chain_config \<Rightarrow> string \<Rightarrow> string + client"
  e_stellar_private_key :: "string \<Rightarrow> string + bytes"
  e_evm_service_manager :: "client \<Rightarrow> evm_address \<Rightarrow> string + evm_address"
  e_evm_block_number :: "client \<Rightarrow> string + u64"
  e_evm_validate :: "client \<Rightarrow> evm_address \<Rightarrow> evm_envelope \<Rightarrow> signature_data \<Rightarrow> evm_validate_error + unit"
  e_evm_send :: "client \<Rightarrow> envelope \<Rightarrow> signature_data \<Rightarrow> evm_address \<Rightarrow> nat option \<Rightarrow> string + bytes"
  e_cosmos_service_manager :: "client \<Rightarrow> cosmos_addr \<Rightarrow> string + cosmos_addr"
  e_cosmos_height :: "client \<Rightarrow> string + u64"
  e_cosmos_validate :: "client \<Rightarrow> cosmos_addr \<Rightarrow> evm_envelope \<Rightarrow> signature_data \<Rightarrow> string + (cosmos_validate_error + unit)"
  e_cosmos_execute :: "client \<Rightarrow> cosmos_addr \<Rightarrow> evm_envelope \<Rightarrow> signature_data \<Rightarrow> string + string"
  e_soroban_env :: "string \<Rightarrow> string \<Rightarrow> string + unit"
  e_stellar_client :: "string \<Rightarrow> string + unit"
  e_latest_ledger :: "string \<Rightarrow> string + u32"
  e_verify_eth :: "bytes \<Rightarrow> bytes \<Rightarrow> bytes \<Rightarrow> stellar_signature_data \<Rightarrow> string + string"
  e_verify_xlm :: "bytes \<Rightarrow> bytes \<Rightarrow> bytes \<Rightarrow> stellar_signature_data \<Rightarrow> string + string"

record aggregator_config =
  evm_credential :: "string option"
  cosmos_credential :: "string option"
  stellar_credential :: "string option"
  ac_chains :: chain_configs
  burned_queue_ttl_secs :: u64

datatype any_transaction_receipt =
    Receipt_Evm bytes
  | Receipt_Cosmos string
  | Receipt_Stellar string

section \<open>Credentials and clients\<close>

definition validate_evm_credential :: "(string \<Rightarrow> string + private_key) \<Rightarrow> string option \<Rightarrow> aggregator_error + unit" where
  "validate_evm_credential mk cred =
     (case cred of
        None \<Rightarrow> Inr ()
      | Some c \<Rightarrow> rbind (map_err (InvalidStartupCredential ''EVM'') (mk c)) (\<lambda>_. Inr ()))"

definition validate_cosmos_credential :: "(string \<Rightarrow> string + unit) \<Rightarrow> string option \<Rightarrow> aggregator_error + unit" where
  "validate_cosmos_credential mk cred =
     (case cred of
        None \<Rightarrow> Inr ()
      | Some c \<Rightarrow> rbind (map_err (InvalidStartupCredential ''Cosmos'') (mk c)) (\<lambda>_. Inr ()))"

definition validate_stellar_credential :: "(string \<Rightarrow> string + bytes) \<Rightarrow> string option \<Rightarrow> aggregator_error + unit" where
  "validate_stellar_credential mk cred =
     (case cred of
        None \<Rightarrow> Inr ()
      | Some c \<Rightarrow>
          rbind (map_err (\<lambda>e. InvalidStartupCredential ''Stellar'' (''strkey parse failed: '' @ e)) (mk c)) (\<lambda>_. Inr ()))"

definition aggregator_new ::
  "(string \<Rightarrow> string + private_key) \<Rightarrow> (string \<Rightarrow> string + unit) \<Rightarrow> (string \<Rightarrow> string + bytes) \<Rightarrow>
   aggregator_config \<Rightarrow> aggregator_error + aggregator" where
  "aggregator_new mk_evm mk_cosmos mk_stellar cfg =
     rbind (validate_evm_credential mk_evm (evm_credential cfg)) (\<lambda>_.
     rbind (validate_cosmos_credential mk_cosmos (cosmos_credential cfg)) (\<lambda>_.
     rbind (validate_stellar_credential mk_stellar (stellar_credential cfg)) (\<lambda>_.
     Inr aggregator_empty)))"

definition get_evm_client ::
  "submit_env \<Rightarrow> aggregator_config \<Rightarrow> chain_key \<Rightarrow> aggregator \<Rightarrow> (aggregator_error + client) \<times> aggregator" where
  "get_evm_client E cfg chain A =
     (case get_cloned (evm_submission_clients A) chain of
        Some c \<Rightarrow> (Inr c, A)
      | None \<Rightarrow>
          (case rbind (ok_or (evm_credential cfg)
                       (MissingCredential ''EVM'' chain ''config.aggregator_evm_credential is unset'')) (\<lambda>cred.
                rbind (ok_or (get_chain (ac_chains cfg) chain) (MissingChainConfig chain)) (\<lambda>any.
                rbind (map_err (\<lambda>_. AE_Config ''Expected EVM chain'') (to_evm_config any)) (\<lambda>c.
                rbind (map_err AE_EvmClient (signing_client_endpoint (e_endpoint_http E) (e_endpoint_ws E) c)) (\<lambda>ep.
                map_err CreateEvmClient (e_new_evm_client E ep cred))))) of
             Inl e \<Rightarrow> (Inl e, A)
           | Inr c \<Rightarrow> (Inr c, A\<lparr>evm_submission_clients := table_insert chain c (evm_submission_clients A)\<rparr>)))"

definition get_cosmos_client ::
  "submit_env \<Rightarrow> aggregator_config \<Rightarrow> chain_key \<Rightarrow> aggregator \<Rightarrow> (aggregator_error + client) \<times> aggregator" where
  "get_cosmos_client E cfg chain A =
     (case get_cloned (cosmos_submission_clients A) chain of
        Some c \<Rightarrow> (Inr c, A)
      | None \<Rightarrow>
          (case rbind (ok_or (cosmos_credential cfg)
                       (MissingCredential ''Cosmos'' chain ''config.aggregator_cosmos_credential is unset'')) (\<lambda>cred.
                rbind (ok_or (get_chain (ac_chains cfg) chain) (MissingChainConfig chain)) (\<lambda>any.
                rbind (map_err (\<lambda>_. AE_Config ''Expected Cosmos chain'') (to_cosmos_config any)) (\<lambda>c.
                rbind (map_err AE_CosmosClient (e_cosmos_mnemonic E cred)) (\<lambda>_.
                map_err AE_CosmosClient (e_new_cosmos_client E c cred))))) of
             Inl e \<Rightarrow> (Inl e, A)
           | Inr c \<Rightarrow> (Inr c, A\<lparr>cosmos_submission_clients := table_insert chain c (cosmos_submission_clients A)\<rparr>)))"

definition get_stellar_signing_key :: "submit_env \<Rightarrow> aggregator_config \<Rightarrow> chain_key \<Rightarrow> aggregator_error + bytes" where
  "get_stellar_signing_key E cfg chain =
     rbind (ok_or (stellar_credential cfg)
             (MissingCredential ''Stellar'' chain ''config.aggregator_stellar_credential is unset'')) (\<lambda>cred.
     map_err (\<lambda>e. MissingCredential ''Stellar'' chain (''strkey parse failed: '' @ e)) (e_stellar_private_key E cred))"

section \<open>EVM and Cosmos\<close>

definition SIGNER_NOT_REGISTERED_SELECTOR :: string where
  "SIGNER_NOT_REGISTERED_SELECTOR = ''0x3dda1739''"

fun map_evm_validate_error :: "evm_validate_error \<Rightarrow> aggregator_error" where
  "map_evm_validate_error (EVE_InsufficientQuorum a b c) = InsufficientQuorum a b c"
| "map_evm_validate_error (EVE_Known e) = EvmServiceManagerValidateKnown e"
| "map_evm_validate_error (EVE_Revert raw) =
     (if raw = SIGNER_NOT_REGISTERED_SELECTOR then SignerNotRegistered (''evm '' @ raw)
      else EvmServiceManagerValidateAnyRevert raw)"
| "map_evm_validate_error (EVE_Unknown e) = EvmServiceManagerValidateUnknown e"

definition pinned_or_current ::
  "aggregator \<Rightarrow> event_id \<Rightarrow> (aggregator_error + u64) \<Rightarrow> aggregator_error + u64" where
  "pinned_or_current A e current = reference_block (get_pinned_reference_block A e) current"

definition evm_envelope_of :: "string \<Rightarrow> envelope \<Rightarrow> aggregator_error + evm_envelope" where
  "evm_envelope_of expected env =
     (case env of
        Env_Evm d \<Rightarrow> Inr d
      | Env_Stellar _ \<Rightarrow> Inl (UnexpectedEnvelopeKind expected ''stellar''))"

definition handle_action_submit_evm ::
  "crypto \<Rightarrow> submit_env \<Rightarrow> aggregator \<Rightarrow> client \<Rightarrow> submission list \<Rightarrow> evm_submit_action \<Rightarrow>
   aggregator_error + any_transaction_receipt" where
  "handle_action_submit_evm C E A client queue act =
     rbind (case queue of [] \<Rightarrow> Inl (EmptySubmissionQueue ''EVM'') | q # _ \<Rightarrow> Inr q) (\<lambda>first.
     rbind (map_err EvmServiceManagerLookup (e_evm_service_manager E client (es_address act))) (\<lambda>service_manager.
     rbind (pinned_or_current A (sub_event_id first) (map_err BlockNumber (e_evm_block_number E client))) (\<lambda>block.
     rbind (map_err AE_Signing
             (evm_signature_data C (sub_envelope first) (map sub_envelope_signature queue) block)) (\<lambda>sd.
     rbind (evm_envelope_of ''evm'' (sub_envelope first)) (\<lambda>evm_env.
     rbind (map_err map_evm_validate_error (e_evm_validate E client service_manager evm_env sd)) (\<lambda>_.
     rbind (map_err AE_EvmClient
             (e_evm_send E client (sub_envelope first) sd (es_address act) (es_gas_price act))) (\<lambda>tx.
     Inr (Receipt_Evm tx))))))))"

fun map_cosmos_validate_error :: "cosmos_validate_error \<Rightarrow> aggregator_error" where
  "map_cosmos_validate_error (CVE_InsufficientQuorum a b c) = InsufficientQuorum a b c"
| "map_cosmos_validate_error (CVE_Other e) = CosmosServiceManagerValidate e"

definition handle_action_submit_cosmos ::
  "crypto \<Rightarrow> submit_env \<Rightarrow> aggregator \<Rightarrow> client \<Rightarrow> submission list \<Rightarrow> cosmos_submit_action \<Rightarrow>
   aggregator_error + any_transaction_receipt" where
  "handle_action_submit_cosmos C E A client queue act =
     rbind (case queue of [] \<Rightarrow> Inl (EmptySubmissionQueue ''Cosmos'') | q # _ \<Rightarrow> Inr q) (\<lambda>first.
     rbind (map_err AE_CosmosClient (e_cosmos_service_manager E client (cs_address act))) (\<lambda>service_manager.
     rbind (pinned_or_current A (sub_event_id first) (map_err BlockNumber (e_cosmos_height E client))) (\<lambda>block.
     rbind (evm_envelope_of ''evm (for cosmos)'' (sub_envelope first)) (\<lambda>evm_env.
     rbind (map_err AE_Signing
             (evm_signature_data C (sub_envelope first) (map sub_envelope_signature queue) block)) (\<lambda>sd.
     rbind (map_err AE_CosmosClient (e_cosmos_validate E client service_manager evm_env sd)) (\<lambda>verdict.
     rbind (map_err map_cosmos_validate_error verdict) (\<lambda>_.
     rbind (map_err AE_CosmosClient (e_cosmos_execute E client (cs_address act) evm_env sd)) (\<lambda>tx.
     Inr (Receipt_Cosmos tx)))))))))"

section \<open>Stellar\<close>

fun show_nat :: "nat \<Rightarrow> string" where
  "show_nat n = (if n < 10 then [char_of (48 + n)] else show_nat (n div 10) @ [char_of (48 + n mod 10)])"

declare show_nat.simps [simp del]

definition map_verify_soroban_error :: "string \<Rightarrow> nat \<Rightarrow> aggregator_error" where
  "map_verify_soroban_error err num_signers =
     (if str_contains ''Error(Contract, #302)'' err then SignerNotRegistered (''stellar #302: '' @ err)
      else if str_contains ''Error(Contract, #303)'' err
      then InsufficientQuorum ''unknown'' ''unknown'' (show_nat num_signers @ '' signature(s) sent'')
      else AE_Stellar (''verify_eth failed: '' @ err))"

fun secp_pairs :: "crypto \<Rightarrow> submission list \<Rightarrow> aggregator_error + (bytes \<times> bytes) list" where
  "secp_pairs C [] = Inr []"
| "secp_pairs C (q # qs) =
     (case sub_envelope_signature q of
        Sig_Secp256k1 sig p \<Rightarrow>
          rbind (map_err (\<lambda>_. AE_Stellar ''secp256k1 recovery failed for stellar submit'')
                  (secp256k1_compressed_pubkey C (Sig_Secp256k1 sig p) (sub_envelope q))) (\<lambda>pk.
          rbind (secp_pairs C qs) (\<lambda>ps. Inr ((pk, sig) # ps)))
      | Sig_Ed25519 _ _ \<Rightarrow>
          Inl (AE_Stellar ''secp256k1 recovery failed for stellar submit, wrong signature kind! (got ed25519)''))"

fun ed_pairs :: "submission list \<Rightarrow> aggregator_error + (bytes \<times> bytes) list" where
  "ed_pairs [] = Inr []"
| "ed_pairs (q # qs) =
     (case sub_envelope_signature q of
        Sig_Secp256k1 _ _ \<Rightarrow>
          Inl (AE_Stellar ''ed25519 recovery failed for stellar submit, wrong signature kind! (got secp256k1)'')
      | Sig_Ed25519 sig pk \<Rightarrow> rbind (ed_pairs qs) (\<lambda>ps. Inr ((pk, sig) # ps)))"

definition stellar_sig_data :: "(bytes \<times> bytes) list \<Rightarrow> u32 \<Rightarrow> stellar_signature_data" where
  "stellar_sig_data ps block =
     \<lparr>xsd_signers = map fst (sort_key fst ps), xsd_signatures = map snd (sort_key fst ps), xsd_reference_block = block\<rparr>"

text \<open>The reference block is 32 bits wide here: a pin is truncated, a current ledger is decremented at 32 bits.\<close>

definition stellar_reference_block ::
  "submit_env \<Rightarrow> aggregator \<Rightarrow> event_id \<Rightarrow> string \<Rightarrow> aggregator_error + u32" where
  "stellar_reference_block E A e url =
     (case get_pinned_reference_block A e of
        Some b \<Rightarrow> Inr (ucast b)
      | None \<Rightarrow>
          rbind (map_err (\<lambda>er. AE_Stellar (''failed to build stellar rpc client: '' @ er)) (e_stellar_client E url)) (\<lambda>_.
          rbind (map_err BlockNumber (e_latest_ledger E url)) (\<lambda>c. Inr (saturating_sub c 1))))"

definition handle_action_submit_stellar ::
  "crypto \<Rightarrow> submit_env \<Rightarrow> aggregator_config \<Rightarrow> aggregator \<Rightarrow> bytes \<Rightarrow> service \<Rightarrow> submission list \<Rightarrow>
   stellar_submit_action \<Rightarrow> aggregator_error + any_transaction_receipt" where
  "handle_action_submit_stellar C E cfg A funded_key svc queue act =
     rbind (ok_or (stellar_config_of (ac_chains cfg) (ss_chain act))
             (AE_Stellar (''no Stellar chain config for '' @ chain_key_to_string (ss_chain act)))) (\<lambda>scfg.
     rbind (case manager svc of
              SM_Stellar _ _ \<Rightarrow> Inr ()
            | _ \<Rightarrow> Inl (AE_Stellar ''stellar submit on non-stellar service manager'')) (\<lambda>_.
     rbind (case queue of [] \<Rightarrow> Inl (EmptySubmissionQueue ''Stellar'') | q # _ \<Rightarrow> Inr q) (\<lambda>first.
     rbind (stellar_reference_block E A (sub_event_id first) (rpc_url scfg)) (\<lambda>block.
     rbind (map_err (\<lambda>e. AE_Stellar (''soroban env: '' @ e)) (e_soroban_env E (rpc_url scfg) (network_passphrase scfg))) (\<lambda>_.
     case algorithm (svc_signature_kind svc) of
       Secp256k1 \<Rightarrow>
         rbind (secp_pairs C queue) (\<lambda>ps.
         rbind (map_err (\<lambda>e. map_verify_soroban_error e (length ps))
                 (e_verify_eth E (ss_address act) funded_key (encode_data C (sub_envelope first)) (stellar_sig_data ps block)))
           (\<lambda>tx. Inr (Receipt_Stellar tx)))
     | Ed25519 \<Rightarrow>
         rbind (ed_pairs queue) (\<lambda>ps.
         rbind (map_err (\<lambda>e. map_verify_soroban_error e (length ps))
                 (e_verify_xlm E (ss_address act) funded_key (encode_data C (sub_envelope first)) (stellar_sig_data ps block)))
           (\<lambda>tx. Inr (Receipt_Stellar tx))))))))"

section \<open>What is sent\<close>

lemma evm_signature_data_pairs:
  assumes "evm_signature_data C e sigs h = Inr sd"
  obtains ps where "list_all2 (\<lambda>s p. evm_signer_pair C e s = Inr p) sigs ps"
    "sd_signers sd = map fst (sort_key fst ps)" "sd_signatures sd = map snd (sort_key fst ps)"
    "sd_reference_block sd = ucast h"
  using assms by (auto simp: evm_signature_data_def Let_def rbind_Inr_iff collect_results_Inr_iff)

lemma evm_signer_pair_Inr:
  "evm_signer_pair C e s = Inr (a, b) \<Longrightarrow> signer_address C s e = Inr (CA_Evm a)"
  by (cases s) (auto simp: result_iffs elim!: try_as_evm.elims)

text \<open>The signers in the signature data of a well-formed queue are its signers, in strictly ascending order.\<close>

lemma queue_signature_data:
  assumes "queue_ok C queue" "queue = first # rest"
    and "evm_signature_data C (sub_envelope first) (map sub_envelope_signature queue) h = Inr sd"
  shows "sorted (sd_signers sd)" "distinct (sd_signers sd)" "length (sd_signers sd) = length queue"
    "(\<lambda>a. Inr (CA_Evm a)) ` set (sd_signers sd) = set (queue_signers C queue)"
    "sd_reference_block sd = ucast h"
proof -
  from evm_signature_data_pairs [OF assms(3)] obtain ps
    where ps: "list_all2 (\<lambda>s p. evm_signer_pair C (sub_envelope first) s = Inr p) (map sub_envelope_signature queue) ps"
    and sd: "sd_signers sd = map fst (sort_key fst ps)" and rb: "sd_reference_block sd = ucast h" by blast
  have env: "sub_envelope q = sub_envelope first" if "q \<in> set queue" for q
    by (rule queue_ok_envelope [OF assms(1) that]) (simp add: assms(2))
  have "list_all2 (\<lambda>q p. submission_signer C q = Inr (CA_Evm (fst p))) queue ps"
    using ps unfolding list_all2_map1
  proof (rule list.rel_mono_strong)
    fix q p assume q: "q \<in> set queue" and "evm_signer_pair C (sub_envelope first) (sub_envelope_signature q) = Inr p"
    then have "signer_address C (sub_envelope_signature q) (sub_envelope first) = Inr (CA_Evm (fst p))"
      by (metis evm_signer_pair_Inr prod.collapse)
    then show "submission_signer C q = Inr (CA_Evm (fst p))"
      unfolding submission_signer_def env [OF q] .
  qed
  then have "queue_signers C queue = map (\<lambda>p. Inr (CA_Evm (fst p))) ps"
    unfolding queue_signers_def by (induction rule: list_all2_induct) simp_all
  then have q: "queue_signers C queue = map (\<lambda>a. Inr (CA_Evm a)) (map fst ps)" by simp
  have "distinct (map fst ps)"
    using assms(1) unfolding queue_ok_def q by (metis distinct_map)
  then show "distinct (sd_signers sd)"
    unfolding sd by (metis mset_eq_imp_distinct_iff mset_map mset_sort)
  show "sorted (sd_signers sd)" unfolding sd by simp
  show "length (sd_signers sd) = length queue" unfolding sd using list_all2_lengthD [OF ps] by simp
  show "(\<lambda>a. Inr (CA_Evm a)) ` set (sd_signers sd) = set (queue_signers C queue)"
    unfolding sd q by (simp add: image_image)
  show "sd_reference_block sd = ucast h" by (rule rb)
qed

lemma evm_submit_Inr:
  assumes "handle_action_submit_evm C E A client queue act = Inr r"
  obtains first rest sm block sd d tx where "queue = first # rest"
    "e_evm_service_manager E client (es_address act) = Inr sm"
    "pinned_or_current A (sub_event_id first) (map_err BlockNumber (e_evm_block_number E client)) = Inr block"
    "evm_signature_data C (sub_envelope first) (map sub_envelope_signature queue) block = Inr sd"
    "sub_envelope first = Env_Evm d" "e_evm_validate E client sm d sd = Inr ()"
    "e_evm_send E client (sub_envelope first) sd (es_address act) (es_gas_price act) = Inr tx" "r = Receipt_Evm tx"
  using assms unfolding handle_action_submit_evm_def
  by (cases queue) (auto simp: result_iffs evm_envelope_of_def split: envelope.splits)


definition demo_submit_env :: submit_env where
  "demo_submit_env =
     \<lparr>e_endpoint_http = Inr, e_endpoint_ws = Inr, e_new_evm_client = (\<lambda>_ _. Inr []), e_cosmos_mnemonic = (\<lambda>_. Inr ()),
      e_new_cosmos_client = (\<lambda>_ _. Inr []), e_stellar_private_key = (\<lambda>_. Inr []),
      e_evm_service_manager = (\<lambda>_ a. Inr a), e_evm_block_number = (\<lambda>_. Inr 10),
      e_evm_validate = (\<lambda>_ _ _ sd. if length (sd_signers sd) < 2 then Inl (EVE_InsufficientQuorum ''1'' ''2'' ''2'') else Inr ()),
      e_evm_send = (\<lambda>_ _ _ _ _. Inr [5]), e_cosmos_service_manager = (\<lambda>_ a. Inr a),
      e_cosmos_height = (\<lambda>_. Inr 10), e_cosmos_validate = (\<lambda>_ _ _ _. Inr (Inr ())), e_cosmos_execute = (\<lambda>_ _ _ _. Inr []),
      e_soroban_env = (\<lambda>_ _. Inr ()), e_stellar_client = (\<lambda>_. Inr ()), e_latest_ledger = (\<lambda>_. Inr 10),
      e_verify_eth = (\<lambda>_ _ _ _. Inr []), e_verify_xlm = (\<lambda>_ _ _ _. Inr [])\<rparr>"


end
