(* ===== verification/Aggregator.thy ===== *)
theory Aggregator
  imports Submit
begin

text \<open>
  The aggregator's handlers, from \<^verbatim>\<open>subsystems/aggregator.rs\<close>. A command spawns tasks;
  tasks of different commands interleave. A task that validates a packet holds the lock of its event,
  and a task that submits holds the lock of its queue, so a task is one atomic step of the state
  machine \<open>agg_step\<close>, run in any order, with any answers of the chains, any clock and any content of
  the service store; the hourly cleanup is a step of its own. Sending on a channel succeeds while
  the process runs; what is sent, published, counted or put on a chain is a list of outputs.
\<close>

section \<open>Commands, tasks and outputs\<close>

datatype peer = Me | Other string

datatype any_tx_hash = Tx_Evm bytes | Tx_Cosmos string | Tx_Stellar string

datatype aggregator_execute_kind =
    Standard
  | TimerCallback
  | SubmitCallback "aggregator_error + any_tx_hash"

datatype aggregator_command =
    AC_Kill
  | AC_Broadcast submission
  | AC_Receive submission peer
  | AC_Actions submission "aggregator_action list" aggregator_execute_kind
  | AC_SubscribeService service_id
  | AC_UnsubscribeService service_id

text \<open>\<open>On_Chain\<close> records that the handler contract of the queue's action accepted a transaction.\<close>

datatype agg_output =
    To_Self submission peer
  | Publish submission
  | Execute submission service aggregator_execute_kind
  | Rejected chain_key string
  | Subscribe service_id
  | Unsubscribe service_id
  | On_Chain quorum_queue_id any_tx_hash

datatype agg_task =
    Task_Broadcast submission
  | Task_Receive submission service
  | Task_Action submission service aggregator_action

fun receipt_hash :: "any_transaction_receipt \<Rightarrow> any_tx_hash" where
  "receipt_hash (Receipt_Evm h) = Tx_Evm h"
| "receipt_hash (Receipt_Cosmos h) = Tx_Cosmos h"
| "receipt_hash (Receipt_Stellar h) = Tx_Stellar h"

section \<open>Handlers\<close>

definition extract_service_from_submission :: "wavs_db \<Rightarrow> submission \<Rightarrow> service option" where
  "extract_service_from_submission db s =
     (case services_get db (sub_service_id s) of
        Inr svc \<Rightarrow>
          (case map_of (workflows svc) (sub_workflow_id s) of
             None \<Rightarrow> None
           | Some w \<Rightarrow> (case wf_submit w of SubmitAggregator _ \<Rightarrow> Some svc | SubmitNone \<Rightarrow> None))
      | Inl _ \<Rightarrow> None)"

text \<open>With peer-to-peer networking the submission is published as well; a failure to publish is only logged.\<close>

definition handle_broadcast :: "bool \<Rightarrow> submission \<Rightarrow> agg_output list" where
  "handle_broadcast p2p s = To_Self s Me # (if p2p then [Publish s] else [])"

definition handle_receive ::
  "crypto \<Rightarrow> chain_queries \<Rightarrow> chain_configs \<Rightarrow> wavs_db \<Rightarrow> submission \<Rightarrow> service \<Rightarrow> aggregator \<Rightarrow>
   aggregator \<times> agg_output list" where
  "handle_receive C Q cs db s svc A =
     (let A0 = (if contains_key (event_receive_locks A) (sub_event_id s) then A
                else A\<lparr>event_receive_locks := table_insert (sub_event_id s) () (event_receive_locks A)\<rparr>)
      in case validate_packet_at_receive C Q cs db s svc A0 of
           (Inr block, A1) \<Rightarrow>
             (pin_event_reference_block_if_unset (sub_event_id s) block A1, [Execute s svc Standard])
         | (Inl err, A1) \<Rightarrow> (A1, [Rejected (manager_chain (manager svc)) (reject_reason_for err)]))"

definition submit_on_chain ::
  "crypto \<Rightarrow> submit_env \<Rightarrow> aggregator_config \<Rightarrow> service \<Rightarrow> submission list \<Rightarrow> submit_action \<Rightarrow> aggregator \<Rightarrow>
   (aggregator_error + any_transaction_receipt) \<times> aggregator" where
  "submit_on_chain C E cfg svc queue action A =
     (case action of
        SA_Evm act \<Rightarrow>
          (case get_evm_client E cfg (es_chain act) A of
             (Inl e, A1) \<Rightarrow> (Inl e, A1)
           | (Inr client, A1) \<Rightarrow> (handle_action_submit_evm C E A1 client queue act, A1))
      | SA_Cosmos act \<Rightarrow>
          (case get_cosmos_client E cfg (cs_chain act) A of
             (Inl e, A1) \<Rightarrow> (Inl e, A1)
           | (Inr client, A1) \<Rightarrow> (handle_action_submit_cosmos C E A1 client queue act, A1))
      | SA_Stellar act \<Rightarrow>
          (rbind (get_stellar_signing_key E cfg (ss_chain act)) (\<lambda>key.
             handle_action_submit_stellar C E cfg A key svc queue act), A))"

definition handle_submit_action ::
  "crypto \<Rightarrow> submit_env \<Rightarrow> aggregator_config \<Rightarrow> u64 \<Rightarrow> submission \<Rightarrow> service \<Rightarrow> quorum_queue_id \<Rightarrow>
   submission list \<Rightarrow> submit_action \<Rightarrow> aggregator \<Rightarrow> aggregator \<times> agg_output list" where
  "handle_submit_action C E cfg now s svc qid queue action A =
     (case submit_on_chain C E cfg svc queue action A of
        (Inr receipt, A1) \<Rightarrow>
          (burn_quorum_queue now qid A1,
           [On_Chain qid (receipt_hash receipt), Execute s svc (SubmitCallback (Inr (receipt_hash receipt)))])
      | (Inl err, A1) \<Rightarrow>
          (save_quorum_queue qid queue A1, [Execute s svc (SubmitCallback (Inl err))]))"

text \<open>The task of one action: under the lock of the queue, or after the delay of a timer.\<close>

definition handle_action ::
  "crypto \<Rightarrow> submit_env \<Rightarrow> aggregator_config \<Rightarrow> u64 \<Rightarrow> submission \<Rightarrow> service \<Rightarrow> aggregator_action \<Rightarrow>
   aggregator \<Rightarrow> aggregator \<times> agg_output list" where
  "handle_action C E cfg now s svc action A =
     (case action of
        AA_Submit act \<Rightarrow>
          (let qid = \<lparr>qq_event_id = sub_event_id s, qq_action = act\<rparr>
           in case get_quorum_queue A qid of
                QQ_Burned _ \<Rightarrow> (A, [])
              | QQ_Active queue \<Rightarrow>
                  (case append_submission_to_queue C qid queue s of
                     Inl _ \<Rightarrow> (A, [])
                   | Inr queue' \<Rightarrow> handle_submit_action C E cfg now s svc qid queue' act A))
      | AA_Timer _ \<Rightarrow> (A, [Execute s svc TimerCallback]))"

definition handle_dispatcher_command ::
  "wavs_db \<Rightarrow> bool \<Rightarrow> aggregator_command \<Rightarrow> agg_task list \<times> agg_output list" where
  "handle_dispatcher_command db p2p cmd =
     (case cmd of
        AC_Kill \<Rightarrow> ([], [])
      | AC_Broadcast s \<Rightarrow>
          (case extract_service_from_submission db s of None \<Rightarrow> ([], []) | Some _ \<Rightarrow> ([Task_Broadcast s], []))
      | AC_Receive s _ \<Rightarrow>
          (case extract_service_from_submission db s of None \<Rightarrow> ([], []) | Some svc \<Rightarrow> ([Task_Receive s svc], []))
      | AC_Actions s actions _ \<Rightarrow>
          (case extract_service_from_submission db s of
             None \<Rightarrow> ([], [])
           | Some svc \<Rightarrow> (map (Task_Action s svc) actions, []))
      | AC_SubscribeService sid \<Rightarrow> ([], if p2p then [Subscribe sid] else [])
      | AC_UnsubscribeService sid \<Rightarrow> ([], if p2p then [Unsubscribe sid] else []))"

definition run_task ::
  "crypto \<Rightarrow> chain_queries \<Rightarrow> submit_env \<Rightarrow> aggregator_config \<Rightarrow> wavs_db \<Rightarrow> bool \<Rightarrow> u64 \<Rightarrow> agg_task \<Rightarrow> aggregator \<Rightarrow>
   aggregator \<times> agg_output list" where
  "run_task C Q E cfg db p2p now t A =
     (case t of
        Task_Broadcast s \<Rightarrow> (A, handle_broadcast p2p s)
      | Task_Receive s svc \<Rightarrow> handle_receive C Q (ac_chains cfg) db s svc A
      | Task_Action s svc action \<Rightarrow> handle_action C E cfg now s svc action A)"

section \<open>The state machine\<close>

type_synonym agg_config = "aggregator \<times> agg_task multiset \<times> agg_output list"

inductive agg_step :: "crypto \<Rightarrow> aggregator_config \<Rightarrow> bool \<Rightarrow> agg_config \<Rightarrow> agg_config \<Rightarrow> bool"
  for C cfg cleanup where
  command:
    "handle_dispatcher_command db p2p cmd = (ts, outs) \<Longrightarrow>
     agg_step C cfg cleanup (A, T, out) (A, T + mset ts, out @ outs)"
| task:
    "t \<in># T \<Longrightarrow> run_task C Q E cfg db p2p now t A = (A', outs) \<Longrightarrow>
     agg_step C cfg cleanup (A, T, out) (A', T - {#t#}, out @ outs)"
| cleanup_tick:
    "cleanup \<Longrightarrow> agg_step C cfg cleanup (A, T, out)
       (snd (cleanup_old_burned_queues now (burned_queue_ttl_secs cfg) A), T, out)"

inductive_cases agg_stepE: "agg_step C cfg cleanup (A, T, out) (A', T', out')"

abbreviation agg_reachable :: "crypto \<Rightarrow> aggregator_config \<Rightarrow> bool \<Rightarrow> agg_config \<Rightarrow> bool" where
  "agg_reachable C cfg cleanup \<equiv> (agg_step C cfg cleanup)\<^sup>*\<^sup>* (aggregator_empty, {#}, [])"

section \<open>Frames\<close>

lemma submission_client_storage [simp]:
  "storage (snd (get_evm_client E cfg chain A)) = storage A"
  "storage (snd (get_cosmos_client E cfg chain A)) = storage A"
  by (simp_all add: get_evm_client_def get_cosmos_client_def split: option.splits sum.splits)

lemma submit_on_chain_storage [simp]: "storage (snd (submit_on_chain C E cfg svc queue action A)) = storage A"
proof (cases action)
  case (SA_Evm act)
  with submission_client_storage(1) [of E cfg "es_chain act" A] show ?thesis
    by (cases "get_evm_client E cfg (es_chain act) A") (auto simp: submit_on_chain_def split: sum.splits)
next
  case (SA_Cosmos act)
  with submission_client_storage(2) [of E cfg "cs_chain act" A] show ?thesis
    by (cases "get_cosmos_client E cfg (cs_chain act) A") (auto simp: submit_on_chain_def split: sum.splits)
qed (simp add: submit_on_chain_def)

lemma put_queue_simps [simp]:
  "get_quorum_queue (put_queue qid q A) k = (if k = qid then q else get_quorum_queue A k)"
  "get_pinned_reference_block (put_queue qid q A) e = get_pinned_reference_block A e"
  "table_wf (db_quorum_queues (storage A)) \<Longrightarrow> table_wf (db_quorum_queues (storage (put_queue qid q A)))"
  by (simp_all add: get_quorum_queue_def put_queue_def get_pinned_reference_block_def)

lemma storage_eq_views:
  assumes "storage A' = storage A"
  shows "get_quorum_queue A' k = get_quorum_queue A k"
    "get_pinned_reference_block A' e = get_pinned_reference_block A e"
  using assms by (simp_all add: get_quorum_queue_def get_pinned_reference_block_def)

text \<open>The two outcomes of submitting a queue.\<close>

lemma handle_submit_action_cases:
  assumes "handle_submit_action C E cfg now s svc qid queue action A = (A', outs)"
  obtains (sent) A1 tx where "storage A1 = storage A" "A' = put_queue qid (QQ_Burned now) A1"
      "outs = [On_Chain qid tx, Execute s svc (SubmitCallback (Inr tx))]"
    | (failed) A1 err where "storage A1 = storage A" "A' = put_queue qid (QQ_Active queue) A1"
      "outs = [Execute s svc (SubmitCallback (Inl err))]"
proof (cases "submit_on_chain C E cfg svc queue action A")
  case (Pair r A1)
  have st: "storage A1 = storage A" using submit_on_chain_storage [of C E cfg svc queue action A] Pair by simp
  show ?thesis
  proof (cases r)
    case (Inl err)
    with Pair assms st show ?thesis
      by (intro failed [of A1 err]) (auto simp: handle_submit_action_def save_quorum_queue_def)
  next
    case (Inr receipt)
    with Pair assms st show ?thesis
      by (intro sent [of A1 "receipt_hash receipt"]) (auto simp: handle_submit_action_def burn_quorum_queue_def)
  qed
qed

lemma handle_action_cases:
  assumes "handle_action C E cfg now s svc action A = (A', outs)"
  obtains (skip) "A' = A" "\<forall>o'\<in>set outs. \<forall>qid tx. o' \<noteq> On_Chain qid tx"
    | (submit) act qid q q' where "action = AA_Submit act" "qid = \<lparr>qq_event_id = sub_event_id s, qq_action = act\<rparr>"
      "get_quorum_queue A qid = QQ_Active q" "append_submission_to_queue C qid q s = Inr q'"
      "handle_submit_action C E cfg now s svc qid q' act A = (A', outs)"
  using assms
  by (auto simp: handle_action_def Let_def split: aggregator_action.splits quorum_queue.splits sum.splits)

lemma handle_receive_cases:
  assumes "handle_receive C Q cs db s svc A = (A', outs)"
  obtains (valid) b A1 where "storage A1 = storage A" "outs = [Execute s svc Standard]"
      "A' = pin_event_reference_block_if_unset (sub_event_id s) b A1"
      "get_pinned_reference_block A (sub_event_id s) \<in> {None, Some b}"
      "\<exists>client. signer_has_weight C Q db s (manager svc) client b"
    | (rejected) err where "storage A' = storage A" "outs = [Rejected (manager_chain (manager svc)) (reject_reason_for err)]"
proof -
  define A0 where "A0 = (if contains_key (event_receive_locks A) (sub_event_id s) then A
      else A\<lparr>event_receive_locks := table_insert (sub_event_id s) () (event_receive_locks A)\<rparr>)"
  have st0: "storage A0 = storage A" by (simp add: A0_def)
  obtain r A1 where r: "validate_packet_at_receive C Q cs db s svc A0 = (r, A1)"
    by (cases "validate_packet_at_receive C Q cs db s svc A0")
  have st: "storage A1 = storage A" using validate_storage(1) [of C Q cs db s svc A0] r st0 by simp
  show ?thesis
  proof (cases r)
    case (Inl err)
    with assms r st show ?thesis
      by (intro rejected [of err]) (auto simp: handle_receive_def Let_def simp flip: A0_def)
  next
    case (Inr b)
    with assms r have "outs = [Execute s svc Standard]"
      "A' = pin_event_reference_block_if_unset (sub_event_id s) b A1"
      by (auto simp: handle_receive_def Let_def simp flip: A0_def)
    with validate_Inr [of C Q cs db s svc A0 b A1] r Inr st show ?thesis
      using storage_eq_views(2) [OF st0] by (intro valid [of A1 b]) auto
  qed
qed

section \<open>Invariants\<close>

text \<open>Every active queue is well-formed and holds submissions for its own event.\<close>

definition queues_inv :: "crypto \<Rightarrow> aggregator \<Rightarrow> bool" where
  "queues_inv C A =
     (table_wf (db_quorum_queues (storage A)) \<and>
      (\<forall>qid q. get_quorum_queue A qid = QQ_Active q \<longrightarrow>
         queue_ok C q \<and> (\<forall>s\<in>set q. sub_event_id s = qq_event_id qid)))"

lemma queues_inv_storage: "storage A' = storage A \<Longrightarrow> queues_inv C A' = queues_inv C A"
  by (simp add: queues_inv_def get_quorum_queue_def)

lemma queues_inv_empty: "queues_inv C aggregator_empty"
  by (simp add: queues_inv_def get_quorum_queue_def aggregator_empty_def wavs_db_new_def)

lemma queues_inv_put:
  assumes "queues_inv C A"
    "\<And>q'. q = QQ_Active q' \<Longrightarrow> queue_ok C q' \<and> (\<forall>s\<in>set q'. sub_event_id s = qq_event_id qid)"
  shows "queues_inv C (put_queue qid q A)"
  using assms by (auto simp: queues_inv_def)

lemma pin_storage [simp]:
  "get_quorum_queue (pin_event_reference_block_if_unset e b A) qid = get_quorum_queue A qid"
  "db_quorum_queues (storage (pin_event_reference_block_if_unset e b A)) = db_quorum_queues (storage A)"
  by (simp_all add: pin_event_reference_block_if_unset_def get_quorum_queue_def)

lemma pin_get [simp]:
  "get_pinned_reference_block (pin_event_reference_block_if_unset e b A) e' =
     (if e' = e \<and> get_pinned_reference_block A e = None then Some b else get_pinned_reference_block A e')"
  by (auto simp: pin_event_reference_block_if_unset_def get_pinned_reference_block_def)

lemma append_event_ids:
  assumes "queue_ok C q" "append_submission_to_queue C qid q s = Inr q'"
    "\<forall>x\<in>set q. sub_event_id x = e" "sub_event_id s = e"
  shows "\<forall>x\<in>set q'. sub_event_id x = e"
  using append_spec(2) [OF assms(1,2)] assms(3,4)
  by (auto split: if_splits dest: set_update_subset_insert [THEN subsetD])

lemma queues_inv_action:
  assumes "queues_inv C A" "handle_action C E cfg now s svc action A = (A', outs)"
  shows "queues_inv C A'"
  using assms(2)
proof (cases rule: handle_action_cases)
  case skip
  with assms(1) show ?thesis by simp
next
  case (submit act qid q q')
  have q: "queue_ok C q" "\<forall>x\<in>set q. sub_event_id x = qq_event_id qid"
    using assms(1) submit(3) by (auto simp: queues_inv_def)
  have q': "queue_ok C q'" using append_spec(1) [OF q(1) submit(4)] .
  have ev: "\<forall>x\<in>set q'. sub_event_id x = qq_event_id qid"
    using append_event_ids [OF q(1) submit(4) q(2)] submit(2) by simp
  from submit(5) show ?thesis
  proof (cases rule: handle_submit_action_cases)
    case (sent A1 tx)
    have "queues_inv C A1" using assms(1) queues_inv_storage [OF sent(1)] by simp
    then show ?thesis unfolding sent(2) by (rule queues_inv_put) simp
  next
    case (failed A1 err)
    have "queues_inv C A1" using assms(1) queues_inv_storage [OF failed(1)] by simp
    then show ?thesis unfolding failed(2) by (rule queues_inv_put) (use q' ev in blast)
  qed
qed

lemma queues_inv_receive:
  assumes "queues_inv C A" "handle_receive C Q cs db s svc A = (A', outs)"
  shows "queues_inv C A'"
  using assms(2)
proof (cases rule: handle_receive_cases)
  case (valid b A1)
  have "queues_inv C A1" using assms(1) queues_inv_storage [OF valid(1)] by simp
  then show ?thesis unfolding valid(3) queues_inv_def pin_storage .
next
  case (rejected err)
  show ?thesis using assms(1) queues_inv_storage [OF rejected(1)] by simp
qed

lemma table_wf_remove_burned:
  "table_wf (db_quorum_queues (storage A)) \<Longrightarrow>
   table_wf (db_quorum_queues (storage (fold remove_burned keys A)))"
  by (induction keys arbitrary: A) (simp_all add: remove_burned_def)

lemma queues_inv_cleanup:
  assumes "queues_inv C A"
  shows "queues_inv C (snd (cleanup_old_burned_queues now ttl A))"
  using assms
  by (auto simp: cleanup_old_burned_queues_def Let_def queues_inv_def get_quorum_queue_def fold_remove_burned
      table_wf_remove_burned)

lemma queues_inv_task:
  assumes "queues_inv C A" "run_task C Q E cfg db p2p now t A = (A', outs)"
  shows "queues_inv C A'"
  using assms(2) queues_inv_action [OF assms(1)] queues_inv_receive [OF assms(1)] assms(1)
  by (auto simp: run_task_def split: agg_task.splits)

lemma agg_reachable_inv:
  assumes "agg_reachable C cfg cleanup (A, T, out)"
  shows "queues_inv C A"
  using assms
proof (induction "(A, T, out)" arbitrary: A T out rule: rtranclp_induct)
  case base
  then show ?case by (simp add: queues_inv_empty)
next
  case (step y)
  obtain A0 T0 out0 where y: "y = (A0, T0, out0)" by (cases y)
  have inv: "queues_inv C A0" using step.hyps(3) y by blast
  from step.hyps(2) [unfolded y] show ?case
    by (rule agg_stepE) (use inv queues_inv_task queues_inv_cleanup in blast)+
qed

text \<open>
  C5: Whatever the interleaving of tasks, the answers of the chains and the cleanup, every active
  queue of a running aggregator holds submissions of one event with one common envelope, each with
  a valid signature, and at most one per signer.
\<close>

theorem reachable_queues_well_formed:
  assumes "agg_reachable C cfg cleanup (A, T, out)" "get_quorum_queue A qid = QQ_Active q"
  shows "(\<forall>s\<in>set q. sub_event_id s = qq_event_id qid) \<and>
    (\<forall>s\<in>set q. \<forall>s'\<in>set q. sub_envelope s = sub_envelope s') \<and>
    (\<forall>s\<in>set q. is_ok (signer_address C (sub_envelope_signature s) (sub_envelope s))) \<and>
    distinct (map (\<lambda>s. signer_address C (sub_envelope_signature s) (sub_envelope s)) q)"
proof -
  have "queue_ok C q" "\<forall>s\<in>set q. sub_event_id s = qq_event_id qid"
    using agg_reachable_inv [OF assms(1)] assms(2) by (simp_all add: queues_inv_def)
  then show ?thesis unfolding queue_ok_def queue_signers_def submission_signer_def by blast
qed

section \<open>Refinement of an abstract quorum\<close>

text \<open>The contract of a queue: it collects signers until it is done, and it is done once. A step is
  labelled with the number of transactions it puts on the chain.\<close>

datatype abs_queue = Collecting "chain_address set" | Done

inductive abs_step :: "abs_queue \<Rightarrow> nat \<Rightarrow> abs_queue \<Rightarrow> bool" where
  stay: "abs_step q 0 q"
| collect: "abs_step (Collecting S) 0 (Collecting (insert a S))"
| finish: "abs_step (Collecting S) 1 Done"

inductive_cases abs_step_DoneE: "abs_step Done n q"

definition abs_queue_of :: "crypto \<Rightarrow> aggregator \<Rightarrow> quorum_queue_id \<Rightarrow> abs_queue" where
  "abs_queue_of C A qid =
     (case get_quorum_queue A qid of
        QQ_Burned _ \<Rightarrow> Done
      | QQ_Active q \<Rightarrow> Collecting {a. Inr a \<in> set (queue_signers C q)})"

fun is_on_chain :: "quorum_queue_id \<Rightarrow> agg_output \<Rightarrow> bool" where
  "is_on_chain qid (On_Chain k _) = (k = qid)"
| "is_on_chain qid _ = False"

definition on_chain_count :: "quorum_queue_id \<Rightarrow> agg_output list \<Rightarrow> nat" where
  "on_chain_count qid out = length (filter (is_on_chain qid) out)"

lemma on_chain_count_simps [simp]:
  "on_chain_count qid [] = 0"
  "on_chain_count qid (o' # out) = (if is_on_chain qid o' then 1 else 0) + on_chain_count qid out"
  "on_chain_count qid (a @ b) = on_chain_count qid a + on_chain_count qid b"
  by (simp_all add: on_chain_count_def)

lemma on_chain_count_none: "\<forall>o'\<in>set out. \<forall>qid tx. o' \<noteq> On_Chain qid tx \<Longrightarrow> on_chain_count qid out = 0"
  by (simp add: on_chain_count_def filter_empty_conv) (metis is_on_chain.elims(2))

lemma abs_queue_of_put:
  "abs_queue_of C (put_queue qid q A) k =
     (if k = qid then (case q of QQ_Burned _ \<Rightarrow> Done | QQ_Active q \<Rightarrow> Collecting {a. Inr a \<in> set (queue_signers C q)})
      else abs_queue_of C A k)"
  by (simp add: abs_queue_of_def)

lemma abs_queue_of_storage:
  assumes "storage A' = storage A"
  shows "abs_queue_of C A' k = abs_queue_of C A k"
  unfolding abs_queue_of_def storage_eq_views [OF assms] ..

text \<open>Appending adds exactly the submission's signer.\<close>

lemma append_signers:
  assumes "queue_ok C q" "append_submission_to_queue C qid q s = Inr q'"
  shows "set (queue_signers C q') = insert (submission_signer C s) (set (queue_signers C q))"
proof (cases "submission_signer C s \<in> set (queue_signers C q)")
  case True
  with append_spec(2) [OF assms] obtain i where i: "i < length q"
    "submission_signer C (q ! i) = submission_signer C s" "q' = q[i := s]" by auto
  have "queue_signers C q ! i = submission_signer C s" using i by (simp add: queue_signers_def)
  then have "queue_signers C q' = queue_signers C q" unfolding i(3) queue_signers_update by (metis list_update_id)
  with True show ?thesis by auto
next
  case False
  with append_spec(2) [OF assms] show ?thesis by (simp add: queue_signers_def)
qed

lemma handle_action_refines:
  assumes "queues_inv C A" "handle_action C E cfg now s svc action A = (A', outs)"
  shows "abs_step (abs_queue_of C A qid) (on_chain_count qid outs) (abs_queue_of C A' qid)"
  using assms(2)
proof (cases rule: handle_action_cases)
  case skip
  then show ?thesis by (simp add: on_chain_count_none stay)
next
  case (submit act qid' q q')
  have q: "queue_ok C q" using assms(1) submit(3) by (auto simp: queues_inv_def)
  obtain a where a: "submission_signer C s = Inr a"
    using append_spec(3) [OF q submit(4)] by (cases "submission_signer C s") auto
  have absA: "abs_queue_of C A qid' = Collecting {a. Inr a \<in> set (queue_signers C q)}"
    by (simp add: abs_queue_of_def submit(3))
  have abs': "{x. Inr x \<in> set (queue_signers C q')} = insert a {a. Inr a \<in> set (queue_signers C q)}"
    using append_signers [OF q submit(4)] a by auto
  from submit(5) show ?thesis
  proof (cases rule: handle_submit_action_cases)
    case (sent A1 tx)
    then show ?thesis
      using absA abs_queue_of_storage [OF sent(1), of C qid] finish stay by (simp add: abs_queue_of_put)
  next
    case (failed A1 err)
    then show ?thesis
      using absA abs' abs_queue_of_storage [OF failed(1), of C qid] collect stay by (simp add: abs_queue_of_put)
  qed
qed

lemma run_task_refines:
  assumes "queues_inv C A" "run_task C Q E cfg db p2p now t A = (A', outs)"
  shows "abs_step (abs_queue_of C A qid) (on_chain_count qid outs) (abs_queue_of C A' qid)"
proof (cases t)
  case (Task_Broadcast s)
  with assms(2) show ?thesis by (auto simp: run_task_def handle_broadcast_def stay)
next
  case (Task_Receive s svc)
  with assms(2) have "handle_receive C Q (ac_chains cfg) db s svc A = (A', outs)" by (simp add: run_task_def)
  then show ?thesis
  proof (cases rule: handle_receive_cases)
    case (valid b A1)
    then show ?thesis using abs_queue_of_storage [OF valid(1), of C qid] by (simp add: abs_queue_of_def stay)
  next
    case (rejected err)
    then show ?thesis using abs_queue_of_storage [OF rejected(1), of C qid] by (simp add: stay)
  qed
next
  case (Task_Action s svc action)
  with assms(2) have "handle_action C E cfg now s svc action A = (A', outs)" by (simp add: run_task_def)
  then show ?thesis by (rule handle_action_refines [OF assms(1)])
qed

lemma command_no_chain: "handle_dispatcher_command db p2p cmd = (ts, outs) \<Longrightarrow> on_chain_count qid outs = 0"
  by (auto simp: handle_dispatcher_command_def split: aggregator_command.splits option.splits if_splits)

lemma agg_step_simulates:
  assumes "queues_inv C A" "agg_step C cfg False (A, T, out) (A', T', out')"
  shows "\<exists>outs. out' = out @ outs \<and>
    (\<forall>qid. abs_step (abs_queue_of C A qid) (on_chain_count qid outs) (abs_queue_of C A' qid))"
  using assms(2)
  by (rule agg_stepE) (use run_task_refines [OF assms(1)] command_no_chain stay in \<open>fastforce+\<close>)


text \<open>Runs of the abstract quorum finish at most once.\<close>

lemma abs_step_once:
  assumes "abs_step q n q'" "m \<le> 1" "m = 1 \<longrightarrow> q = Done"
  shows "m + n \<le> 1 \<and> (m + n = 1 \<longrightarrow> q' = Done)"
  using assms by (cases rule: abs_step.cases) auto

lemma agg_on_chain_once:
  assumes "agg_reachable C cfg False (A, T, out)"
  shows "on_chain_count qid out \<le> 1 \<and> (on_chain_count qid out = 1 \<longrightarrow> abs_queue_of C A qid = Done)"
  using assms
proof (induction "(A, T, out)" arbitrary: A T out rule: rtranclp_induct)
  case base
  then show ?case by simp
next
  case (step y)
  obtain A0 T0 out0 where y: "y = (A0, T0, out0)" by (cases y)
  have IH: "on_chain_count qid out0 \<le> 1 \<and> (on_chain_count qid out0 = 1 \<longrightarrow> abs_queue_of C A0 qid = Done)"
    using step.hyps(3) y by blast
  have "queues_inv C A0" using step.hyps(1) y agg_reachable_inv by blast
  from agg_step_simulates [OF this step.hyps(2) [unfolded y]] obtain outs where
    "out = out0 @ outs" "abs_step (abs_queue_of C A0 qid) (on_chain_count qid outs) (abs_queue_of C A qid)" by blast
  with abs_step_once [OF this(2), of "on_chain_count qid out0"] IH show ?case by simp
qed

text \<open>A command with one action followed by its task.\<close>

lemma agg_run_action:
  assumes "extract_service_from_submission db s = Some svc" "handle_action C E cfg now s svc action A = (A', outs)"
  shows "(agg_step C cfg cleanup)\<^sup>*\<^sup>* (A, T, out) (A', T, out @ outs)"
proof -
  have "agg_step C cfg cleanup (A, T, out) (A, T + mset [Task_Action s svc action], out @ [])"
    using assms(1) by (intro command [of db True "AC_Actions s [action] Standard"])
      (simp add: handle_dispatcher_command_def)
  moreover have "agg_step C cfg cleanup (A, T + {#Task_Action s svc action#}, out)
      (A', T + {#Task_Action s svc action#} - {#Task_Action s svc action#}, out @ outs)"
    using assms(2) by (intro task [of "Task_Action s svc action" _ _ undefined E _ db True now])
      (simp_all add: run_task_def)
  ultimately show ?thesis by simp
qed

subsection \<open>A run for the witnesses\<close>

definition demo_config :: aggregator_config where
  "demo_config =
     \<lparr>evm_credential = Some ''key'', cosmos_credential = None, stellar_credential = None,
      ac_chains = no_chains\<lparr>cfg_evm := [(''1'', evm_chain_config_builder.truncate demo_evm_config)]\<rparr>,
      burned_queue_ttl_secs = 100\<rparr>"

definition demo_db :: wavs_db where
  "demo_db = wavs_db_new\<lparr>db_services := [([1], demo_service)]\<rparr>"

definition demo_act :: submit_action where
  "demo_act = qq_action (demo_qid [9] [])"

lemma demo_extract: "extract_service_from_submission demo_db (demo_submission e k) = Some demo_service"
  by (simp add: extract_service_from_submission_def services_get_def services_try_get_def demo_db_def get_cloned_def
      demo_submission_def demo_service_def service_new_simple_def workflow_id_default_def)

definition demo_saved :: aggregator where
  "demo_saved = save_quorum_queue (demo_qid [9] []) [demo_submission [9] 1]
     (aggregator_empty\<lparr>evm_submission_clients := [(demo_chain, [])]\<rparr>)"

definition demo_burned :: aggregator where
  "demo_burned = burn_quorum_queue 7 (demo_qid [9] []) demo_saved"

lemmas demo_run_simps = handle_action_def handle_submit_action_def submit_on_chain_def get_evm_client_def
  handle_action_submit_evm_def demo_submit_env_def pinned_or_current_def reference_block_def
  get_pinned_reference_block_def evm_signature_data_def evm_envelope_of_def append_submission_to_queue_def
  demo_submission_def demo_crypto_def demo_qid_def demo_act_def demo_config_def get_quorum_queue_def
  get_chain_def demo_chain_def no_chains_def signing_client_endpoint_def evm_build_def demo_evm_config_def
  evm_chain_config_builder.defs evm_chain_config.defs wavs_db_new_def aggregator_empty_def

lemma demo_first:
  "handle_action demo_crypto demo_submit_env demo_config 6 (demo_submission [9] 1) demo_service (AA_Submit demo_act) aggregator_empty =
     (demo_saved, [Execute (demo_submission [9] 1) demo_service (SubmitCallback (Inl (InsufficientQuorum ''1'' ''2'' ''2'')))])"
  by (simp add: demo_saved_def save_quorum_queue_def put_queue_def demo_run_simps get_cloned_def table_insert_def
      table_new_def Let_def)

lemma demo_second:
  "handle_action demo_crypto demo_submit_env demo_config 7 (demo_submission [9] 2) demo_service (AA_Submit demo_act) demo_saved =
     (demo_burned, [On_Chain (demo_qid [9] []) (Tx_Evm [5]),
                    Execute (demo_submission [9] 2) demo_service (SubmitCallback (Inr (Tx_Evm [5])))])"
  by (simp add: demo_burned_def demo_saved_def save_quorum_queue_def burn_quorum_queue_def put_queue_def demo_run_simps
      get_cloned_def table_insert_def table_new_def Let_def)

lemma demo_reach_saved:
  "\<exists>out. agg_reachable demo_crypto demo_config cleanup (demo_saved, {#}, out) \<and> on_chain_count (demo_qid [9] []) out = 0"
  using agg_run_action [OF demo_extract demo_first, of cleanup "{#}" "[]"] by (intro exI conjI) (assumption, simp)

lemma demo_reach_burned:
  "\<exists>out. agg_reachable demo_crypto demo_config cleanup (demo_burned, {#}, out) \<and> on_chain_count (demo_qid [9] []) out = 1"
proof -
  obtain out where "agg_reachable demo_crypto demo_config cleanup (demo_saved, {#}, out)"
    "on_chain_count (demo_qid [9] []) out = 0" using demo_reach_saved by blast
  with agg_run_action [OF demo_extract demo_second, of cleanup "{#}" out] show ?thesis
    by (intro exI [of _ "out @ _"] conjI) (erule rtranclp_trans, assumption, simp)
qed

theorem reachable_queues_well_formed_witness:
  "\<exists>A out q. agg_reachable demo_crypto demo_config True (A, {#}, out) \<and>
     get_quorum_queue A (demo_qid [9] []) = QQ_Active q \<and> length q = 1 \<and>
     (\<forall>s\<in>set q. sub_event_id s = [9])"
proof -
  obtain out where r: "agg_reachable demo_crypto demo_config True (demo_saved, {#}, out)"
    using demo_reach_saved by blast
  have q: "get_quorum_queue demo_saved (demo_qid [9] []) = QQ_Active [demo_submission [9] 1]"
    by (simp add: demo_saved_def save_quorum_queue_def)
  from reachable_queues_well_formed [OF r q] r q show ?thesis by (auto simp: demo_qid_def)
qed




lemma append_keeps_others:
  assumes "queue_ok C q" "append_submission_to_queue C qid q s = Inr q'"
    "x \<in> set q" "submission_signer C x \<noteq> submission_signer C s"
  shows "x \<in> set q'"
proof (cases "submission_signer C s \<in> set (queue_signers C q)")
  case True
  with append_spec(2) [OF assms(1,2)] obtain i where i: "i < length q"
    "submission_signer C (q ! i) = submission_signer C s" "q' = q[i := s]" by auto
  from assms(3) obtain j where j: "j < length q" "q ! j = x" by (auto simp: in_set_conv_nth)
  with i(2) assms(4) have "j \<noteq> i" by auto
  with i j have "q' ! j = x" "j < length q'" by simp_all
  then show ?thesis by (metis nth_mem)
next
  case False
  with append_spec(2) [OF assms(1,2)] assms(3) show ?thesis by auto
qed



section \<open>The pinned block\<close>

lemma run_task_pin:
  assumes "run_task C Q E cfg db p2p now t A = (A', outs)" "get_pinned_reference_block A e = Some b"
  shows "get_pinned_reference_block A' e = Some b"
proof (cases t)
  case (Task_Receive s svc)
  with assms(1) have "handle_receive C Q (ac_chains cfg) db s svc A = (A', outs)" by (simp add: run_task_def)
  then show ?thesis
  proof (cases rule: handle_receive_cases)
    case (valid b' A1)
    then show ?thesis using assms(2) storage_eq_views(2) [OF valid(1)] by auto
  next
    case (rejected err)
    then show ?thesis using assms(2) storage_eq_views(2) [OF rejected(1)] by simp
  qed
next
  case (Task_Action s svc action)
  with assms(1) have "handle_action C E cfg now s svc action A = (A', outs)" by (simp add: run_task_def)
  then show ?thesis
  proof (cases rule: handle_action_cases)
    case (submit act qid q q')
    from submit(5) show ?thesis
    proof (cases rule: handle_submit_action_cases)
      case (sent A1 tx)
      then show ?thesis using assms(2) storage_eq_views(2) [OF sent(1)] by simp
    next
      case (failed A1 err)
      then show ?thesis using assms(2) storage_eq_views(2) [OF failed(1)] by simp
    qed
  qed (use assms(2) in simp)
qed (use assms in \<open>simp add: run_task_def\<close>)

lemma agg_steps_pin:
  assumes "(agg_step C cfg False)\<^sup>*\<^sup>* (A, T, out) (A', T', out')" "get_pinned_reference_block A e = Some b"
  shows "get_pinned_reference_block A' e = Some b"
  using assms
proof (induction "(A', T', out')" arbitrary: A' T' out' rule: rtranclp_induct)
  case (step y)
  obtain A0 T0 out0 where y: "y = (A0, T0, out0)" by (cases y)
  have IH: "get_pinned_reference_block A0 e = Some b" using step.hyps(3) step.prems y by blast
  from step.hyps(2) [unfolded y] show ?case
    by (rule agg_stepE) (use IH run_task_pin in blast)+
qed simp


definition demo_queries :: chain_queries where
  "demo_queries =
     \<lparr>q_endpoint_http = Inr, q_endpoint_ws = Inr, q_new_evm_client = (\<lambda>_. Inr []), q_evm_block_number = (\<lambda>_. Inr 78),
      q_latest_operator = (\<lambda>_ _ a _. Inr a), q_operator_weight = (\<lambda>_ _ _ _. Inr 1), q_new_cosmos_client = (\<lambda>_. Inr []),
      q_cosmos_height = (\<lambda>_. Inr 78), q_cosmos_operator = (\<lambda>_ _ a. Inr (Some a)), q_cosmos_weight = (\<lambda>_ _ _. Inr 1),
      q_soroban_env = (\<lambda>_ _. Inr ()), q_stellar_client = (\<lambda>_. Inr ()), q_latest_ledger = (\<lambda>_. Inr 78),
      q_check_one_secp = (\<lambda>_ _ _ _ _. Inr 1), q_check_one_ed = (\<lambda>_ _ _ _ _. Inr 1)\<rparr>"

lemma demo_validate:
  "\<exists>b A1. validate_packet_at_receive demo_crypto demo_queries (ac_chains demo_config) demo_db (demo_submission [9] k)
     demo_service A = (Inr b, A1)"
proof -
  have "(k # replicate 64 0 :: bytes) \<noteq> replicate 20 0" 
    by (rule ccontr) (simp add: list_eq_iff_nth_eq)
  then show ?thesis
    by (cases "get_cloned (evm_query_clients A) demo_chain"; cases "get_pinned_reference_block A [9]")
      (simp_all add: validate_packet_at_receive_def Let_def demo_service_def service_new_simple_def
        demo_manager_def validate_packet_evm_def packet_evm_signer_def demo_submission_def demo_crypto_def
        get_or_create_evm_query_client_def evm_config_of_def demo_config_def no_chains_def get_chain_def demo_chain_def
        query_client_endpoints_def evm_build_def demo_evm_config_def evm_chain_config_builder.defs evm_chain_config.defs
        demo_queries_def evm_weight_check_def ZERO_ADDRESS_def reference_block_def)
qed

lemma demo_receive_forwards:
  "\<exists>A1. handle_receive demo_crypto demo_queries (ac_chains demo_config) demo_db (demo_submission [9] k) demo_service A =
     (A1, [Execute (demo_submission [9] k) demo_service Standard])"
proof -
  define A0 where "A0 = (if contains_key (event_receive_locks A) (sub_event_id (demo_submission [9] k)) then A
      else A\<lparr>event_receive_locks := table_insert (sub_event_id (demo_submission [9] k)) () (event_receive_locks A)\<rparr>)"
  obtain b A1 where "validate_packet_at_receive demo_crypto demo_queries (ac_chains demo_config) demo_db
      (demo_submission [9] k) demo_service A0 = (Inr b, A1)" using demo_validate by blast
  then show ?thesis by (simp add: handle_receive_def Let_def flip: A0_def)
qed


end
