(* ===== verification/Submission_Manager.thy ===== *)
theory Submission_Manager
  imports Services Chain_Address
begin

text \<open>
  The submission manager of \<^verbatim>\<open>packages/warpdrive/src/subsystems/submission.rs\<close>: one signing
  key per service, derived from a mnemonic by an index, and the signing of a component's
  response into a submission. Deriving a key is the argument \<open>key_source\<close>. The dev-only switches
  of \<open>dispatch\<close> are not compiled into a release build and are left out.
\<close>

section \<open>Keys of services\<close>

record key_source =
  make_signer :: "u32 \<Rightarrow> string + private_key"
  make_stellar_signer :: "u32 \<Rightarrow> string + private_key"

record signer_info =
  si_signer :: vectr_signer
  si_address :: chain_address
  si_pubkey_hex :: string
  si_hd_index :: u32

record submission_manager =
  sm_signers :: "(service_id, signer_info) table"
  hd_index_count :: u32

definition submission_manager_new :: submission_manager where
  "submission_manager_new = \<lparr>sm_signers = table_new, hd_index_count = 1\<rparr>"

datatype submission_error =
    MissingServiceKey service_id
  | FailedToSignEnvelope crypto_error
  | MissingEvmSigner service_id
  | FailedToCreateEvmSigner service_id string
  | FailedToCreateStellarSigner service_id string
  | SubServices services_error
  | EncodeEventId crypto_error
  | SubHdIndexOverflow
  | SorobanClient crypto_error

definition create_signer ::
  "key_source \<Rightarrow> service_id \<Rightarrow> signature_kind \<Rightarrow> u32 \<Rightarrow> submission_error + vectr_signer" where
  "create_signer K sid kind hdi =
     (case algorithm kind of
        Secp256k1 \<Rightarrow>
          rbind (map_err (FailedToCreateEvmSigner sid) (make_signer K hdi)) (\<lambda>inner.
          Inr (case prefix kind of None \<Rightarrow> VS_EvmNoPrefix inner | Some _ \<Rightarrow> VS_Evm inner))
      | Ed25519 \<Rightarrow>
          rbind (map_err (FailedToCreateStellarSigner sid) (make_stellar_signer K hdi)) (\<lambda>inner.
          Inr (VS_Stellar inner)))"

text \<open>The argument of \<open>unwrap_or\<close> is evaluated in any case: the counter advances, wrapping at 32 bits, even
  when an index is given.\<close>

definition add_service_key ::
  "crypto \<Rightarrow> key_source \<Rightarrow> wavs_db \<Rightarrow> service_id \<Rightarrow> u32 option \<Rightarrow> submission_manager \<Rightarrow>
   (submission_error + unit) \<times> submission_manager" where
  "add_service_key C K db sid hd_opt M =
     (let fetched = hd_index_count M;
          M1 = M\<lparr>hd_index_count := fetched + 1\<rparr>;
          hdi = (case hd_opt of Some i \<Rightarrow> i | None \<Rightarrow> fetched)
      in case checked_add hdi 1 of
           None \<Rightarrow> (Inl SubHdIndexOverflow, M1)
         | Some next_index \<Rightarrow>
             let M2 = M1\<lparr>hd_index_count := max (hd_index_count M1) next_index\<rparr>
             in case rbind (map_err SubServices (services_get_signature_kind db sid)) (\<lambda>kind.
                      create_signer K sid kind hdi) of
                  Inl e \<Rightarrow> (Inl e, M2)
                | Inr signer \<Rightarrow>
                    (Inr (), M2\<lparr>sm_signers := table_insert sid
                       \<lparr>si_signer = signer, si_address = signer_own_address C signer, si_pubkey_hex = registration_pubkey_hex C signer,
                        si_hd_index = hdi\<rparr>
                       (sm_signers M2)\<rparr>))"

datatype signer_response =
    SR_Secp256k1 u32 string string
  | SR_Ed25519 u32 string string

definition get_service_signer ::
  "crypto \<Rightarrow> submission_manager \<Rightarrow> service_id \<Rightarrow> submission_error + signer_response" where
  "get_service_signer C M sid =
     rbind (ok_or (get_cloned (sm_signers M) sid) (MissingServiceKey sid)) (\<lambda>info.
     Inr (case si_address info of
            CA_Evm addr \<Rightarrow> SR_Secp256k1 (si_hd_index info) (evm_checksum_string C addr) (si_pubkey_hex info)
          | CA_StellarPubKey pubkey \<Rightarrow>
              SR_Ed25519 (si_hd_index info) (strkey_public_key_string C pubkey) (si_pubkey_hex info)
          | other \<Rightarrow>
              SR_Secp256k1 (si_hd_index info) (chain_address_to_string C other) (si_pubkey_hex info)))"

section \<open>Signing a response\<close>

record submission_request =
  req_trigger_action :: trigger_action
  req_operator_response :: wasm_response
  req_service :: service

abbreviation req_service_id :: "submission_request \<Rightarrow> service_id" where
  "req_service_id r \<equiv> tc_service_id (ta_config (req_trigger_action r))"

definition req_event_id :: "crypto \<Rightarrow> submission_request \<Rightarrow> crypto_error + event_id" where
  "req_event_id C r =
     (case event_id_salt (req_operator_response r) of
        Some salt \<Rightarrow>
          event_id_new C (req_service_id r) (tc_workflow_id (ta_config (req_trigger_action r)))
            (Salt_WasmResponse salt)
      | None \<Rightarrow>
          event_id_new C (req_service_id r) (tc_workflow_id (ta_config (req_trigger_action r)))
            (Salt_Trigger (ta_data (req_trigger_action r))))"

definition build_envelope :: "crypto \<Rightarrow> submission_request \<Rightarrow> event_id \<Rightarrow> submission_error + envelope" where
  "build_envelope C r eid =
     (let data = \<lparr>env_event_id = eid,
                  env_ordering = (case ordering (req_operator_response r) of
                                    Some o' \<Rightarrow> event_order_new_u64 o'
                                  | None \<Rightarrow> replicate 12 0),
                  env_payload = payload (req_operator_response r)\<rparr>
      in case algorithm (svc_signature_kind (req_service r)) of
           Secp256k1 \<Rightarrow> Inr (Env_Evm data)
         | Ed25519 \<Rightarrow> rbind (map_err SorobanClient (xlm_encode C data)) (\<lambda>bs. Inr (Env_Stellar bs)))"

definition sign_request ::
  "crypto \<Rightarrow> submission_manager \<Rightarrow> submission_request \<Rightarrow> submission_error + submission" where
  "sign_request C M r =
     rbind (map_err EncodeEventId (req_event_id C r)) (\<lambda>eid.
     rbind (build_envelope C r eid) (\<lambda>env.
     rbind (ok_or (get_cloned (sm_signers M) (req_service_id r)) (MissingEvmSigner (req_service_id r))) (\<lambda>info.
     rbind (map_err FailedToSignEnvelope (sign_envelope C (si_signer info) env)) (\<lambda>s.
     Inr \<lparr>sub_trigger_action = req_trigger_action r,
          sub_operator_response = req_operator_response r,
          sub_event_id = eid,
          sub_envelope = env,
          sub_envelope_signature = s\<rparr>))))"

text \<open>What the manager does with one \<open>Submit\<close> command: the submission sent to the dispatcher, if any.\<close>

definition handle_submit :: "crypto \<Rightarrow> wavs_db \<Rightarrow> submission_manager \<Rightarrow> submission_request \<Rightarrow> submission option" where
  "handle_submit C db M r =
     (if \<not> services_is_active db (req_service_id r) then None
      else case sign_request C M r of Inl _ \<Rightarrow> None | Inr s \<Rightarrow> Some s)"

section \<open>Indices\<close>

text \<open>The counter lies above every index in use, and every entry caches its signer's address and key.\<close>

definition signers_inv :: "crypto \<Rightarrow> submission_manager \<Rightarrow> bool" where
  "signers_inv C M =
     (\<forall>sid info. get_cloned (sm_signers M) sid = Some info \<longrightarrow>
        si_hd_index info < hd_index_count M \<and> si_address info = signer_own_address C (si_signer info) \<and>
        si_pubkey_hex info = registration_pubkey_hex C (si_signer info))"

lemma signers_inv_new: "signers_inv C submission_manager_new"
  by (simp add: signers_inv_def submission_manager_new_def)

lemma add_service_key_cases:
  fixes hdi C M hd_opt
  defines "hdi \<equiv> (case hd_opt of Some i \<Rightarrow> i | None \<Rightarrow> hd_index_count M)"
  assumes "add_service_key C K db sid hd_opt M = (res, M')"
  obtains (overflow) "res = Inl SubHdIndexOverflow" "sm_signers M' = sm_signers M"
      "hd_index_count M' = hd_index_count M + 1" "checked_add hdi 1 = None"
    | (error) e nxt where "res = Inl e" "sm_signers M' = sm_signers M" "checked_add hdi 1 = Some nxt"
      "hd_index_count M' = max (hd_index_count M + 1) nxt"
    | (ok) signer nxt where "res = Inr ()" "checked_add hdi 1 = Some nxt"
      "hd_index_count M' = max (hd_index_count M + 1) nxt"
      "sm_signers M' = table_insert sid
        \<lparr>si_signer = signer, si_address = signer_own_address C signer,
         si_pubkey_hex = registration_pubkey_hex C signer, si_hd_index = hdi\<rparr> (sm_signers M)"
  using assms by (auto simp: add_service_key_def Let_def hdi_def split: option.splits sum.splits)

lemma add_service_key_ok:
  assumes "add_service_key C K db sid (Some i) M = (Inr (), M')"
  shows "\<exists>kind signer. services_get_signature_kind db sid = Inr kind \<and> create_signer K sid kind i = Inr signer \<and>
    sm_signers M' = table_insert sid
      \<lparr>si_signer = signer, si_address = signer_own_address C signer,
       si_pubkey_hex = registration_pubkey_hex C signer, si_hd_index = i\<rparr> (sm_signers M)"
  using assms by (auto simp: add_service_key_def Let_def result_iffs split: option.splits sum.splits)

lemma word_not_max_less_Suc:
  fixes a :: "'a::len word"
  assumes "a \<noteq> - 1"
  shows "a < a + 1"
proof -
  have "unat (- 1 :: 'a word) = 2 ^ LENGTH('a) - 1" by (simp add: unsigned_minus_1_eq_mask mask_eq_exp_minus_1)
  then have "unat a \<noteq> 2 ^ LENGTH('a) - 1" using assms by (metis unsigned_word_eqI)
  then have "unat a + 1 < 2 ^ LENGTH('a)" using unsigned_less [of a, where ?'a = nat] by linarith
  then show ?thesis by (simp add: word_less_nat_alt unat_word_ariths)
qed

lemma checked_add_one: "checked_add a 1 = (if a = - 1 then None else Some (a + 1))" for a :: u32
proof (cases "a = - 1")
  case True
  then show ?thesis by (simp add: checked_add_def unsigned_minus_1_eq_mask mask_eq_exp_minus_1)
next
  case False
  from word_not_max_less_Suc [OF this] have "unat a < unat (a + 1)" by (simp add: word_less_nat_alt)
  then have "unat a + 1 < 2 ^ 32"
    using unsigned_less [of a, where ?'a = nat] unsigned_less [of "a + 1", where ?'a = nat] by simp
  with False show ?thesis by (simp add: checked_add_def)
qed

text \<open>
  C31: As long as the 32-bit counter does not wrap, adding a key keeps the counter above every index
  in use whatever index was asked for, and a service that gets its key automatically gets an index
  no other service has. Only the entry of the service itself changes.
\<close>

theorem add_service_key_fresh:
  assumes "signers_inv C M" "hd_index_count M \<noteq> - 1" "add_service_key C K db sid hd_opt M = (res, M')"
  shows "signers_inv C M' \<and>
    (\<forall>sid'. sid' \<noteq> sid \<longrightarrow> get_cloned (sm_signers M') sid' = get_cloned (sm_signers M) sid') \<and>
    (hd_opt = None \<and> res = Inr () \<longrightarrow>
       (\<forall>sid' info info'. sid' \<noteq> sid \<and> get_cloned (sm_signers M') sid = Some info \<and>
          get_cloned (sm_signers M') sid' = Some info' \<longrightarrow> si_hd_index info \<noteq> si_hd_index info'))"
  using assms(3)
proof (cases rule: add_service_key_cases)
  case overflow
  with assms(1) word_not_max_less_Suc [OF assms(2)] show ?thesis
    by (auto simp: signers_inv_def intro: less_trans)
next
  case (error e nxt)
  with assms(1) word_not_max_less_Suc [OF assms(2)] show ?thesis
    by (auto simp: signers_inv_def less_max_iff_disj intro: less_trans)
next
  case (ok signer nxt)
  have old: "si_hd_index info < hd_index_count M" if "get_cloned (sm_signers M) i = Some info" for i info
    using assms(1) that by (simp add: signers_inv_def)
  have "signers_inv C M'"
    using ok assms(1) word_not_max_less_Suc [OF assms(2)]
    by (auto simp: signers_inv_def less_max_iff_disj word_less_plus_one intro: less_trans)
  then show ?thesis using ok old by (auto dest: old)
qed

definition demo_keys :: key_source where
  "demo_keys = \<lparr>make_signer = (\<lambda>i. Inr [ucast i]), make_stellar_signer = (\<lambda>i. Inr [ucast i])\<rparr>"

definition demo_services :: wavs_db where
  "demo_services = wavs_db_new\<lparr>db_services := [([1], demo_service), ([2], demo_service)]\<rparr>"

lemma demo_services_kind:
  "services_get_signature_kind demo_services [1] = Inr signature_kind_evm_default"
  "services_get_signature_kind demo_services [2] = Inr signature_kind_evm_default"
  by (simp_all add: demo_services_def services_get_signature_kind_def services_get_def services_try_get_def
      map_ref_def get_cloned_def demo_service_def service_new_simple_def wavs_db_new_def)

theorem add_service_key_fresh_witness:
  "\<exists>M'. add_service_key demo_crypto demo_keys demo_services [2] None
       (snd (add_service_key demo_crypto demo_keys demo_services [1] (Some 7) submission_manager_new)) = (Inr (), M') \<and>
     signers_inv demo_crypto M' \<and> si_hd_index (the (get_cloned (sm_signers M') [1])) = 7 \<and>
     si_hd_index (the (get_cloned (sm_signers M') [2])) = 8"
proof -
  let ?M1 = "snd (add_service_key demo_crypto demo_keys demo_services [1] (Some 7) submission_manager_new)"
  have r1: "add_service_key demo_crypto demo_keys demo_services [1] (Some 7) submission_manager_new = (Inr (), ?M1)"
    by (simp add: add_service_key_def demo_services_kind create_signer_def signature_kind_evm_default_def
        demo_keys_def submission_manager_new_def checked_add_def)
  have inv1: "signers_inv demo_crypto ?M1"
    using add_service_key_fresh [OF signers_inv_new _ r1] by (simp add: submission_manager_new_def)
  have c1: "hd_index_count ?M1 = 8" "get_cloned (sm_signers ?M1) [1] \<noteq> None"
      "si_hd_index (the (get_cloned (sm_signers ?M1) [1])) = 7"
    by (simp_all add: add_service_key_def demo_services_kind create_signer_def signature_kind_evm_default_def
        demo_keys_def submission_manager_new_def checked_add_def)
  obtain M' where r2: "add_service_key demo_crypto demo_keys demo_services [2] None ?M1 = (Inr (), M')"
      "si_hd_index (the (get_cloned (sm_signers M') [2])) = 8"
    using c1(1) by (simp add: add_service_key_def [of _ _ _ "[2]"] demo_services_kind create_signer_def
        signature_kind_evm_default_def demo_keys_def checked_add_def)
  from add_service_key_fresh [OF inv1 _ r2(1)] c1 r2 show ?thesis by auto
qed

text \<open>
  The counter is a wrapping atomic: once it has reached its maximum, an automatic assignment
  fails with an overflow error but leaves the counter at zero, below the indices in use, so that a
  later automatic assignment hands out an index another service already has.
\<close>

lemma add_service_key_overflow_resets:
  "add_service_key C K db sid None (M\<lparr>hd_index_count := - 1\<rparr>) =
     (Inl SubHdIndexOverflow, M\<lparr>hd_index_count := 0\<rparr>) \<and>
   (case add_service_key C K db sid None (M\<lparr>hd_index_count := 0\<rparr>) of
      (Inl _, M2) \<Rightarrow> sm_signers M2 = sm_signers M \<and> hd_index_count M2 = 1
    | (Inr _, M2) \<Rightarrow> map_option si_hd_index (get_cloned (sm_signers M2) sid) = Some 0 \<and> hd_index_count M2 = 1)"
  by (simp add: add_service_key_def Let_def checked_add_one split: sum.split)

section \<open>Signed submissions\<close>

lemma sign_request_Inr:
  assumes "sign_request C M r = Inr s"
  obtains eid env info where "req_event_id C r = Inr eid" "build_envelope C r eid = Inr env"
    "get_cloned (sm_signers M) (req_service_id r) = Some info"
    "sign_envelope C (si_signer info) env = Inr (sub_envelope_signature s)"
    "s = \<lparr>sub_trigger_action = req_trigger_action r, sub_operator_response = req_operator_response r,
          sub_event_id = eid, sub_envelope = env, sub_envelope_signature = sub_envelope_signature s\<rparr>"
  using assms by (auto simp: sign_request_def result_iffs)

text \<open>
  C30: A submission that leaves the manager belongs to an active service, carries the request's
  trigger and response unchanged and the event id derived from them, and its signature recovers to
  the address the manager reports for the service's key.
\<close>

theorem handle_submit_signed_by_service_key:
  assumes "signature_scheme_ok C" "signers_inv C M" "handle_submit C db M r = Some s"
  shows "services_is_active db (req_service_id r) \<and>
    sub_trigger_action s = req_trigger_action r \<and> sub_operator_response s = req_operator_response r \<and>
    req_event_id C r = Inr (sub_event_id s) \<and> build_envelope C r (sub_event_id s) = Inr (sub_envelope s) \<and>
    (\<exists>info. get_cloned (sm_signers M) (req_service_id r) = Some info \<and>
       signer_address C (sub_envelope_signature s) (sub_envelope s) = Inr (si_address info))"
proof -
  have act: "services_is_active db (req_service_id r)" and "sign_request C M r = Inr s"
    using assms(3) by (auto simp: handle_submit_def split: if_splits sum.splits)
  from this(2) obtain eid env info where *: "req_event_id C r = Inr eid" "build_envelope C r eid = Inr env"
    "get_cloned (sm_signers M) (req_service_id r) = Some info"
    "sign_envelope C (si_signer info) env = Inr (sub_envelope_signature s)"
    "s = \<lparr>sub_trigger_action = req_trigger_action r, sub_operator_response = req_operator_response r,
          sub_event_id = eid, sub_envelope = env, sub_envelope_signature = sub_envelope_signature s\<rparr>"
    by (rule sign_request_Inr)
  from *(5) have f: "sub_trigger_action s = req_trigger_action r"
    "sub_operator_response s = req_operator_response r" "sub_event_id s = eid" "sub_envelope s = env"
    by (metis submission.select_convs)+
  have "si_address info = signer_own_address C (si_signer info)"
    using assms(2) *(3) by (simp add: signers_inv_def)
  with sign_then_recover [OF assms(1) *(4)] act * f show ?thesis by simp
qed

definition demo_response :: wasm_response where
  "demo_response = \<lparr>payload = [4, 5], ordering = Some 3, event_id_salt = Some [6]\<rparr>"

definition demo_action :: trigger_action where
  "demo_action =
     \<lparr>ta_config = \<lparr>tc_service_id = [1], tc_workflow_id = ''default'', tc_trigger = Manual\<rparr>, ta_data = TD_Raw [9]\<rparr>"

theorem handle_submit_signed_by_service_key_witness:
  "\<exists>M s. handle_submit demo_crypto demo_services M
       \<lparr>req_trigger_action = demo_action, req_operator_response = demo_response, req_service = demo_service\<rparr> = Some s \<and>
     signer_address demo_crypto (sub_envelope_signature s) (sub_envelope s) =
       Inr (CA_Evm (7 # replicate 64 0))"
proof -
  let ?info = "\<lparr>si_signer = VS_Evm [7], si_address = CA_Evm (7 # replicate 64 0),
    si_pubkey_hex = registration_pubkey_hex demo_crypto (VS_Evm [7]), si_hd_index = 7\<rparr>"
  let ?M = "\<lparr>sm_signers = [([1], ?info)], hd_index_count = 8\<rparr>"
  let ?r = "\<lparr>req_trigger_action = demo_action, req_operator_response = demo_response, req_service = demo_service\<rparr>"
  have inv: "signers_inv demo_crypto ?M"
    by (auto simp: signers_inv_def get_cloned_def demo_crypto_def split: if_splits)
  have act: "services_is_active demo_services [1]"
    by (simp add: services_is_active_iff demo_services_def get_cloned_def demo_service_def service_new_simple_def)
  have "is_ok (sign_request demo_crypto ?M ?r)"
    by (simp add: sign_request_def req_event_id_def build_envelope_def event_id_new_def demo_action_def
        demo_response_def demo_service_def service_new_simple_def signature_kind_evm_default_def get_cloned_def
        demo_crypto_def secp_signature_def Let_def)
  with act obtain s where h: "handle_submit demo_crypto demo_services ?M ?r = Some s"
    by (auto simp: handle_submit_def demo_action_def is_ok_def split: sum.splits)
  from handle_submit_signed_by_service_key [OF demo_crypto_ok inv h] h show ?thesis
    by (auto simp: demo_action_def get_cloned_def)
qed

end
