(* ===== verification/Streams.thy ===== *)
theory Streams
  imports Lookup Aggregator Submission_Manager
begin

text \<open>
  What flows between the parts of the node: the commands of the dispatcher and the engine
  (\<^verbatim>\<open>dispatcher.rs\<close>, \<^verbatim>\<open>subsystems/engine.rs\<close>), and the items of the trigger manager's multiplexed
  stream (\<^verbatim>\<open>subsystems/trigger/streams.rs\<close>) with the functions that make them from what the chains
  deliver (\<^verbatim>\<open>cosmos_stream.rs\<close>, \<^verbatim>\<open>evm_stream.rs\<close>, \<^verbatim>\<open>stellar_stream.rs\<close>, \<^verbatim>\<open>cron_stream.rs\<close>).
  The answers of the chain clients are values of the records below; parsing an address of a Cosmos
  chain is an argument.
\<close>

section \<open>Commands\<close>

datatype engine_command =
    EC_Kill
  | EC_ExecuteOperator trigger_action service
  | EC_ExecuteAggregator submission service aggregator_execute_kind

datatype engine_response =
    ER_Vector submission_request
  | ER_Aggregator submission "aggregator_action list" aggregator_execute_kind

datatype submission_command = SC_Kill | SC_Submit submission_request

datatype dispatcher_command =
    DC_Trigger trigger_action
  | DC_ChangeServiceUri service_id string
  | DC_EngineResponse engine_response
  | DC_SubmissionResponse submission
  | DC_AggregatorExecute submission service aggregator_execute_kind

datatype trigger_command =
    TC_Kill
  | TC_StartListeningChain chain_key
  | TC_StartListeningCron
  | TC_WatchEvmBlocks chain_key
  | TC_WatchEvmContractEvents chain_key "evm_address list" "bytes list"
  | TC_WatchStellarBlocks chain_key
  | TC_WatchStellarServiceUri service_id chain_key stellar_contract
  | TC_UnwatchStellarServiceUri service_id
  | TC_StartListeningAtProto
  | TC_ManualTrigger trigger_action

section \<open>Items of the stream\<close>

record stream_trigger_cosmos_contract_event =
  stc_contract_address :: cosmos_addr
  stc_event :: cosmwasm_event
  stc_event_index :: u64

record evm_log =
  lg_address :: evm_address
  lg_topics :: "bytes list"
  lg_log_data :: opaque
  lg_removed :: bool
  lg_block_hash :: "bytes option"
  lg_transaction_index :: "u64 option"
  lg_block_number :: "u64 option"
  lg_transaction_hash :: "bytes option"
  lg_log_index :: "u64 option"
  lg_block_timestamp :: "u64 option"

record evm_trigger =
  et_chain :: chain_key
  et_log :: evm_log
  et_block_number :: u64
  et_tx_hash :: bytes
  et_block_hash :: bytes
  et_tx_index :: u64
  et_block_timestamp :: "u64 option"
  et_log_index :: u64

datatype stream_triggers =
    ST_Cosmos chain_key "stream_trigger_cosmos_contract_event list" u64
  | ST_Evm evm_trigger
  | ST_StellarEvent stellar_event_data "stellar_rpc_id list"
  | ST_StellarLedgerSequence chain_key u32
  | ST_EvmBlock chain_key u64
  | ST_Cron "(timestamp \<times> lookup_id list) list"
  | ST_LocalCommand trigger_command
  | ST_AtProto at_proto_data

subsection \<open>Cosmos\<close>

fun find_map :: "('a \<Rightarrow> 'b option) \<Rightarrow> 'a list \<Rightarrow> 'b option" where
  "find_map f [] = None"
| "find_map f (x # xs) = (case f x of Some y \<Rightarrow> Some y | None \<Rightarrow> find_map f xs)"

definition contract_address_keys :: "string list" where
  "contract_address_keys = [''_contract_address'', ''contract_address'', ''_contract_addr'', ''contract_addr'']"

definition cosmos_contract_event ::
  "(string \<Rightarrow> cosmos_addr option) \<Rightarrow> nat \<times> cosmwasm_event \<Rightarrow> stream_trigger_cosmos_contract_event option" where
  "cosmos_contract_event parse = (\<lambda>(index, event).
     if take 5 (ty event) = ''wasm-''
     then map_option
       (\<lambda>address. \<lparr>stc_contract_address = address, stc_event = event\<lparr>ty := drop 5 (ty event)\<rparr>,
                   stc_event_index = of_nat index\<rparr>)
       (find_map (\<lambda>(key, value). if key \<in> set contract_address_keys then parse value else None) (attributes event))
     else None)"

definition cosmos_stream_item ::
  "(string \<Rightarrow> cosmos_addr option) \<Rightarrow> chain_key \<Rightarrow> string + (cosmwasm_event list \<times> u64) \<Rightarrow>
   trigger_error + stream_triggers" where
  "cosmos_stream_item parse chain block_events =
     (case block_events of
        Inr (events, height) \<Rightarrow>
          Inr (ST_Cosmos chain (List.map_filter (cosmos_contract_event parse) (enumerate 0 events)) height)
      | Inl err \<Rightarrow> Inl (TE_Climb err))"

subsection \<open>EVM\<close>

text \<open>A log that a reorganisation removed, or one without its position on the chain, is dropped.\<close>

definition evm_event_item :: "chain_key \<Rightarrow> evm_log \<Rightarrow> stream_triggers option" where
  "evm_event_item chain lg =
     (if lg_removed lg then None
      else case (lg_block_hash lg, lg_transaction_index lg, lg_block_number lg, lg_transaction_hash lg, lg_log_index lg) of
             (Some block_hash, Some tx_index, Some block_number, Some tx_hash, Some log_index) \<Rightarrow>
               Some (ST_Evm \<lparr>et_chain = chain, et_log = lg, et_block_number = block_number, et_tx_hash = tx_hash,
                 et_block_hash = block_hash, et_tx_index = tx_index, et_block_timestamp = lg_block_timestamp lg,
                 et_log_index = log_index\<rparr>)
           | _ \<Rightarrow> None)"

definition evm_block_item :: "chain_key \<Rightarrow> u64 \<Rightarrow> stream_triggers" where
  "evm_block_item chain height = ST_EvmBlock chain height"

subsection \<open>Stellar\<close>

record stellar_rpc_event =
  ev_contract_id :: string
  ev_event_type :: string
  ev_ledger :: u32
  ev_ledger_closed_at :: string
  ev_id :: string
  ev_operation_index :: "u32 option"
  ev_transaction_index :: "u32 option"
  ev_event_tx_hash :: "string option"
  ev_topic :: "string list"
  ev_value :: string

definition stellar_event_item ::
  "chain_key \<Rightarrow> stellar_rpc_event \<times> stellar_rpc_id list \<Rightarrow> stream_triggers option" where
  "stellar_event_item chain = (\<lambda>(event, rpc_ids).
     map_option (\<lambda>tx_hash. ST_StellarEvent
       \<lparr>se_chain = chain, se_contract_id = ev_contract_id event, se_event_type = ev_event_type event,
        se_ledger = ev_ledger event, se_ledger_closed_at = ev_ledger_closed_at event, se_event_id = ev_id event,
        se_operation_index = ev_operation_index event, se_transaction_index = ev_transaction_index event,
        se_tx_hash = tx_hash, se_topic_segments = ev_topic event, se_value = ev_value event\<rparr> rpc_ids)
       (ev_event_tx_hash event))"

definition stellar_ledger_item :: "chain_key \<Rightarrow> u32 \<Rightarrow> stream_triggers" where
  "stellar_ledger_item chain ledger = ST_StellarLedgerSequence chain ledger"

subsection \<open>Cron\<close>

text \<open>The results of a tick grouped by their scheduled time, in ascending order of time.\<close>

definition cron_hits :: "(lookup_id \<times> timestamp) list \<Rightarrow> (timestamp \<times> lookup_id list) list" where
  "cron_hits results = push_all (map (\<lambda>(i, t). (t, i)) results) []"

definition cron_stream_item :: "timestamp \<Rightarrow> lookup_maps \<Rightarrow> stream_triggers \<times> lookup_maps" where
  "cron_stream_item now L =
     (let (results, L') = lookup_cron_tick now L
      in (ST_Cron (cron_hits results), L'))"

lemma cron_hits_spec:
  "omap_wf (cron_hits results)" "mset (timed (cron_hits results)) = mset (map (\<lambda>(i, t). (t, i)) results)"
  "\<forall>p\<in>set (cron_hits results). snd p \<noteq> []"
  using push_all_spec [of "[]" "map (\<lambda>(i, t). (t, i)) results"] by (simp_all add: cron_hits_def)

end
