(* ===== verification/Engine.thy ===== *)
theory Engine
  imports Ca_Storage Streams
begin

text \<open>
  The engine: loading component code (\<^verbatim>\<open>packages/engine/src/common/base_engine.rs\<close>), preparing an
  instance with what its component is allowed (\<^verbatim>\<open>worlds/instance.rs\<close>), calling it and judging the
  answer (\<^verbatim>\<open>worlds/operator/execute.rs\<close>, \<^verbatim>\<open>worlds/aggregator/execute.rs\<close>), and the two layers
  above, \<^verbatim>\<open>subsystems/engine/wasm_engine.rs\<close> and \<^verbatim>\<open>subsystems/engine.rs\<close>. Compiling and running
  WebAssembly, the cache of the \<open>lru\<close> crate, downloads and the conversions of the generated bindings are
  fields of the record \<open>engine_env\<close>; so is what the file system answers during a call. Metrics, logging and the switches of
  the \<open>dev\<close> feature are left out.
\<close>

section \<open>Errors\<close>

datatype wasm_error =
    WE_Instantiate string
  | WE_ExecResult string
  | WE_ComponentError string
  | WE_WorkflowNotFound service_id workflow_id
  | WE_Input string
  | WE_Filesystem string
  | WE_Store string
  | WE_OutOfFuel service_id workflow_id
  | WE_OutOfTime service_id workflow_id
  | WE_AddToLinker string
  | WE_Compile string
  | WE_StorageError string
  | WE_IO string
  | WE_UnknownDigest component_digest
  | WE_Registry string
  | WE_MissingEventIdSalt
  | WE_ResponseSizeExceeded wasm_response_size_error
  | WE_MismatchedInstanceDataAndLogger string string

datatype engine_error =
    EE_Storage ca_error
  | EE_Compile string
  | EE_UnknownWorkflow service_id workflow_id
  | EE_UnknownDigest component_digest
  | EE_Engine wasm_error
  | EE_EncodeEventId crypto_error
  | EE_ConvertAggregatorAction string

section \<open>What the engine relies on\<close>

text \<open>The cache: \<open>peek\<close> looks an entry up without touching the order of use.\<close>

record ('w, 'c) lru_ops =
  lru_peek :: "'c \<Rightarrow> component_digest \<Rightarrow> 'w option"
  lru_get :: "component_digest \<Rightarrow> 'c \<Rightarrow> 'w option \<times> 'c"
  lru_put :: "component_digest \<Rightarrow> 'w \<Rightarrow> 'c \<Rightarrow> 'c"

definition lru_laws :: "('w, 'c) lru_ops \<Rightarrow> bool" where
  "lru_laws L =
     ((\<forall>d c. fst (lru_get L d c) = lru_peek L c d \<and> lru_peek L (snd (lru_get L d c)) = lru_peek L c) \<and>
      (\<forall>d w c. lru_peek L (lru_put L d w c) d = Some w) \<and>
      (\<forall>d w c d' w'. d' \<noteq> d \<and> lru_peek L (lru_put L d w c) d' = Some w' \<longrightarrow> lru_peek L c d' = Some w'))"

datatype 'r call_outcome =
    Call_Timeout
  | Call_Instantiate string
  | Call_OutOfFuel
  | Call_Interrupt
  | Call_Failed string
  | Call_Err string
  | Call_Ok 'r

datatype instance_data = ID_Vector trigger_data | ID_Aggregator event_id

datatype component_logger = OperatorLogger | AggregatorLogger

text \<open>An instance: its code, and what \<open>build\<close> gave it.\<close>

record 'w instance_deps =
  id_component :: 'w
  id_service :: service
  id_workflow_id :: workflow_id
  id_data :: instance_data
  id_keyvalue_namespace :: string
  id_preopened_dir :: "string option"
  id_inherit_network :: bool
  id_ip_name_lookup :: bool
  id_http :: bool
  id_envs :: "(string \<times> string) list"
  id_fuel :: u64
  id_time_limit_seconds :: u64

text \<open>An action as a component returns it, before its conversion.\<close>

type_synonym wit_action = opaque

record ('w, 'c) engine_env =
  ee_compile :: "bytes \<Rightarrow> string + 'w"
  ee_lru :: "('w, 'c) lru_ops"
  ee_io :: file_io
  ee_fetch_bytes :: "string \<Rightarrow> string + bytes"
  ee_registry_fetch :: "registry_ref \<Rightarrow> string + bytes"
  ee_env_vars :: "(string \<times> string) list"
  ee_add_to_linker :: "string + unit"
  ee_preopened_dir :: "string + unit"
  ee_set_fuel :: "string + unit"
  ee_wit_trigger :: "trigger_action \<Rightarrow> string + unit"
  ee_wit_aggregator_input :: "trigger_action \<Rightarrow> wasm_response \<Rightarrow> string + unit"
  ee_call_run :: "'w instance_deps \<Rightarrow> trigger_action \<Rightarrow> wasm_response list call_outcome"
  ee_call_process_input :: "'w instance_deps \<Rightarrow> trigger_action \<Rightarrow> wasm_response \<Rightarrow> wit_action list call_outcome"
  ee_call_timer_callback :: "'w instance_deps \<Rightarrow> trigger_action \<Rightarrow> wasm_response \<Rightarrow> wit_action list call_outcome"
  ee_call_submit_callback ::
    "'w instance_deps \<Rightarrow> trigger_action \<Rightarrow> wasm_response \<Rightarrow> aggregator_error + any_tx_hash \<Rightarrow> unit call_outcome"
  ee_convert_action :: "wit_action \<Rightarrow> string + aggregator_action"

section \<open>Loading code\<close>

text \<open>\<open>BaseEngine\<close> with the limits of \<open>WasmEngine\<close>; the configured directory is left out of paths.\<close>

record 'c wasm_engine =
  be_storage :: file_storage
  be_cache :: 'c
  be_max_wasm_fuel :: "u64 option"
  be_max_execution_seconds :: "u64 option"
  we_max_payload_size :: nat
  we_max_salt_size :: nat
  we_service_dirs :: "string list"

definition load_component ::
  "crypto \<Rightarrow> ('w, 'c) engine_env \<Rightarrow> component_digest \<Rightarrow> 'c wasm_engine \<Rightarrow> (wasm_error + 'w) \<times> 'c wasm_engine" where
  "load_component C E digest B =
     (case lru_get (ee_lru E) digest (be_cache B) of
        (Some w, c) \<Rightarrow> (Inr w, B\<lparr>be_cache := c\<rparr>)
      | (None, c) \<Rightarrow>
          let B1 = B\<lparr>be_cache := c\<rparr>
          in case file_get_data C (ee_io E) (be_storage B1) digest of
               Inl _ \<Rightarrow> (Inl (WE_StorageError ''Failed to get component''), B1)
             | Inr bs \<Rightarrow>
                 (case ee_compile E bs of
                    Inl e \<Rightarrow> (Inl (WE_Compile e), B1)
                  | Inr w \<Rightarrow> (Inr w, B1\<lparr>be_cache := lru_put (ee_lru E) digest w (be_cache B1)\<rparr>)))"

definition fetch_component :: "('w, 'c) engine_env \<Rightarrow> component_source \<Rightarrow> wasm_error + bytes" where
  "fetch_component E src =
     (case src of
        Download uri _ \<Rightarrow> map_err (\<lambda>_. WE_StorageError ''Failed to download from url'') (ee_fetch_bytes E uri)
      | Registry r \<Rightarrow> map_err WE_Registry (ee_registry_fetch E r)
      | Digest d \<Rightarrow> Inl (WE_UnknownDigest d))"

definition load_component_from_source ::
  "crypto \<Rightarrow> ('w, 'c) engine_env \<Rightarrow> component_source \<Rightarrow> 'c wasm_engine \<Rightarrow> (wasm_error + 'w) \<times> 'c wasm_engine" where
  "load_component_from_source C E src B =
     (case load_component C E (source_digest src) B of
        (Inr w, B1) \<Rightarrow> (Inr w, B1)
      | (Inl _, B1) \<Rightarrow>
          (case fetch_component E src of
             Inl e \<Rightarrow> (Inl e, B1)
           | Inr bs \<Rightarrow>
               if hash_id_hash (sha256 C) bs \<noteq> source_digest src
               then (Inl (WE_StorageError ''Downloaded component digest does not match expected digest''), B1)
               else (case file_set_data C (ee_io E) bs (be_storage B1) of
                       (Inl _, fs) \<Rightarrow> (Inl (WE_StorageError ''Failed to store component''), B1\<lparr>be_storage := fs\<rparr>)
                     | (Inr _, fs) \<Rightarrow>
                         let B2 = B1\<lparr>be_storage := fs\<rparr>
                         in case ee_compile E bs of
                              Inl e \<Rightarrow> (Inl (WE_Compile e), B2)
                            | Inr w \<Rightarrow> (Inr w, B2\<lparr>be_cache := lru_put (ee_lru E) (source_digest src) w (be_cache B2)\<rparr>))))"

definition base_store_component_bytes ::
  "crypto \<Rightarrow> ('w, 'c) engine_env \<Rightarrow> bytes \<Rightarrow> 'c wasm_engine \<Rightarrow> (wasm_error + component_digest) \<times> 'c wasm_engine" where
  "base_store_component_bytes C E bs B =
     (case ee_compile E bs of
        Inl e \<Rightarrow> (Inl (WE_Compile e), B)
      | Inr w \<Rightarrow>
          (case file_set_data C (ee_io E) bs (be_storage B) of
             (Inl _, fs) \<Rightarrow> (Inl (WE_StorageError ''Failed to store bytes''), B\<lparr>be_storage := fs\<rparr>)
           | (Inr digest, fs) \<Rightarrow>
               (Inr digest, B\<lparr>be_storage := fs, be_cache := lru_put (ee_lru E) digest w (be_cache B)\<rparr>)))"

definition store_component_bytes ::
  "crypto \<Rightarrow> ('w, 'c) engine_env \<Rightarrow> bytes \<Rightarrow> 'c wasm_engine \<Rightarrow> (engine_error + component_digest) \<times> 'c wasm_engine" where
  "store_component_bytes C E bs B = apfst (map_err EE_Engine) (base_store_component_bytes C E bs B)"

definition store_component_from_source ::
  "crypto \<Rightarrow> ('w, 'c) engine_env \<Rightarrow> component_source \<Rightarrow> 'c wasm_engine \<Rightarrow>
   (engine_error + component_digest) \<times> 'c wasm_engine" where
  "store_component_from_source C E src B =
     (case file_data_exists C (ee_io E) (be_storage B) (source_digest src) of
        Inl e \<Rightarrow> (Inl (EE_Storage e), B)
      | Inr True \<Rightarrow> (Inr (source_digest src), B)
      | Inr False \<Rightarrow>
          (case src of
             Digest _ \<Rightarrow> (Inl (EE_UnknownDigest (source_digest src)), B)
           | _ \<Rightarrow>
               (case load_component_from_source C E src B of
                  (Inl e, B1) \<Rightarrow> (Inl (EE_Engine e), B1)
                | (Inr _, B1) \<Rightarrow> (Inr (source_digest src), B1))))"

fun collect_digests :: "(ca_error + any_digest) list \<Rightarrow> engine_error + component_digest list" where
  "collect_digests [] = Inr []"
| "collect_digests (r # rs) =
     rbind (map_err EE_Storage r) (\<lambda>d. rbind (collect_digests rs) (\<lambda>ds. Inr (d # ds)))"

definition list_digests :: "(string \<Rightarrow> string + any_digest) \<Rightarrow> 'c wasm_engine \<Rightarrow> engine_error + component_digest list" where
  "list_digests from_str B = collect_digests (file_digests from_str (be_storage B))"

definition remove_storage :: "crypto \<Rightarrow> string + unit \<Rightarrow> service_id \<Rightarrow> 'c wasm_engine \<Rightarrow> 'c wasm_engine" where
  "remove_storage C removed i B =
     (if hex_encode C i \<in> set (we_service_dirs B)
      then (case removed of
              Inr _ \<Rightarrow> B\<lparr>we_service_dirs := filter (\<lambda>d. d \<noteq> hex_encode C i) (we_service_dirs B)\<rparr>
            | Inl _ \<Rightarrow> B)
      else B)"

section \<open>Instances\<close>

definition DEFAULT_FUEL_LIMIT :: u64 where
  "DEFAULT_FUEL_LIMIT = - 1"

definition DEFAULT_TIME_LIMIT_SECONDS :: u64 where
  "DEFAULT_TIME_LIMIT_SECONDS = - 1"

definition WARPDRIVE_ENV_PREFIX :: string where
  "WARPDRIVE_ENV_PREFIX = ''WARPDRIVE_ENV''"

text \<open>\<open>configure_linker\<close>: whether the component gets HTTP. Its other calls cannot fail but by \<open>ee_add_to_linker\<close>.\<close>

definition configure_linker :: "permissions \<Rightarrow> bool" where
  "configure_linker p = (allowed_http_hosts p \<noteq> NoHosts)"

text \<open>The component that the instance runs; \<open>None\<close> where the source says \<open>unreachable\<close>.\<close>

definition instance_component :: "component_logger \<Rightarrow> workflow \<Rightarrow> component option" where
  "instance_component lg wfl =
     (case lg of
        OperatorLogger \<Rightarrow> Some (wf_component wfl)
      | AggregatorLogger \<Rightarrow> (case wf_submit wfl of SubmitNone \<Rightarrow> None | SubmitAggregator cpt \<Rightarrow> Some cpt))"

definition open_data_dir :: "('w, 'c) engine_env \<Rightarrow> component \<Rightarrow> string \<Rightarrow> 'c wasm_engine \<Rightarrow> (wasm_error + string option) \<times> 'c wasm_engine" where
  "open_data_dir E cpt dir B =
     (if file_system (comp_permissions cpt)
      then if dir \<in> set (we_service_dirs B)
           then (map_err WE_Filesystem (rbind (ee_preopened_dir E) (\<lambda>_. Inr (Some dir))), B)
           else (case io_ensure_dir (ee_io E) of
                   Inl e \<Rightarrow> (Inl (WE_Filesystem e), B)
                 | Inr _ \<Rightarrow> (map_err WE_Filesystem (rbind (ee_preopened_dir E) (\<lambda>_. Inr (Some dir))),
                             B\<lparr>we_service_dirs := dir # we_service_dirs B\<rparr>))
      else (Inr None, B))"

definition instance_build ::
  "crypto \<Rightarrow> ('w, 'c) engine_env \<Rightarrow> 'w \<Rightarrow> service \<Rightarrow> workflow_id \<Rightarrow> instance_data \<Rightarrow> component_logger \<Rightarrow> string \<Rightarrow>
   'c wasm_engine \<Rightarrow> ((wasm_error + 'w instance_deps) \<times> 'c wasm_engine) option" where
  "instance_build C E w svc wid data lg data_dir B =
     (case (data, lg) of
        (ID_Vector _, AggregatorLogger) \<Rightarrow> Some (Inl (WE_MismatchedInstanceDataAndLogger ''Vector'' ''Aggregator''), B)
      | (ID_Aggregator _, OperatorLogger) \<Rightarrow> Some (Inl (WE_MismatchedInstanceDataAndLogger ''Aggregator'' ''Vector''), B)
      | _ \<Rightarrow>
          (case map_of (workflows svc) wid of
             None \<Rightarrow> Some (Inl (WE_WorkflowNotFound (service_id_of C svc) wid), B)
           | Some wfl \<Rightarrow>
               (case instance_component lg wfl of
                  None \<Rightarrow> None
                | Some cpt \<Rightarrow>
                    Some (case ee_add_to_linker E of
                        Inl e \<Rightarrow> (Inl (WE_AddToLinker e), B)
                      | Inr _ \<Rightarrow>
                          (case open_data_dir E cpt data_dir B of
                             (Inl e, B1) \<Rightarrow> (Inl e, B1)
                           | (Inr dir, B1) \<Rightarrow>
                               (rbind (map_err WE_Store (ee_set_fuel E)) (\<lambda>_.
                                Inr \<lparr>id_component = w, id_service = svc, id_workflow_id = wid, id_data = data,
                                     id_keyvalue_namespace = hex_encode C (service_id_of C svc),
                                     id_preopened_dir = dir,
                                     id_inherit_network = raw_sockets (comp_permissions cpt),
                                     id_ip_name_lookup = dns_resolution (comp_permissions cpt),
                                     id_http = configure_linker (comp_permissions cpt),
                                     id_envs = filter (\<lambda>(key, _). starts_with key WARPDRIVE_ENV_PREFIX \<and> key \<in> set (env_keys cpt))
                                                 (ee_env_vars E),
                                     id_fuel = (case fuel_limit cpt of Some f \<Rightarrow> f | None \<Rightarrow> DEFAULT_FUEL_LIMIT),
                                     id_time_limit_seconds =
                                       (case time_limit_seconds cpt of Some t \<Rightarrow> t | None \<Rightarrow> DEFAULT_TIME_LIMIT_SECONDS)\<rparr>),
                                B1))))))"

section \<open>Calling components\<close>

text \<open>The errors of a call, which the four executions share; the message of an error returned by the
  component is decorated by the aggregator's three.\<close>

definition call_result :: "service_id \<Rightarrow> workflow_id \<Rightarrow> (string \<Rightarrow> string) \<Rightarrow> 'r call_outcome \<Rightarrow> wasm_error + 'r" where
  "call_result sid wid msg out =
     (case out of
        Call_Timeout \<Rightarrow> Inl (WE_OutOfTime sid wid)
      | Call_Instantiate e \<Rightarrow> Inl (WE_Instantiate e)
      | Call_OutOfFuel \<Rightarrow> Inl (WE_OutOfFuel sid wid)
      | Call_Interrupt \<Rightarrow> Inl (WE_OutOfTime sid wid)
      | Call_Failed e \<Rightarrow> Inl (WE_ComponentError e)
      | Call_Err e \<Rightarrow> Inl (WE_ExecResult (msg e))
      | Call_Ok r \<Rightarrow> Inr r)"

fun validate_sizes :: "nat \<Rightarrow> nat \<Rightarrow> wasm_response list \<Rightarrow> wasm_error + unit" where
  "validate_sizes p s [] = Inr ()"
| "validate_sizes p s (r # rs) =
     rbind (map_err WE_ResponseSizeExceeded (validate_size r p s)) (\<lambda>_. validate_sizes p s rs)"

text \<open>Equal salts only make the source log a warning.\<close>

definition operator_execute ::
  "('w, 'c) engine_env \<Rightarrow> 'w instance_deps \<Rightarrow> trigger_action \<Rightarrow> nat \<Rightarrow> nat \<Rightarrow> wasm_error + wasm_response list" where
  "operator_execute E deps trig max_payload_size max_salt_size =
     (let sid = tc_service_id (ta_config trig); wid = tc_workflow_id (ta_config trig)
      in rbind (map_err WE_Input (ee_wit_trigger E trig)) (\<lambda>_.
         rbind (call_result sid wid id (ee_call_run E deps trig)) (\<lambda>responses.
         rbind (validate_sizes max_payload_size max_salt_size responses) (\<lambda>_.
         if length responses > 1 \<and> list_ex (\<lambda>r. event_id_salt r = None) responses then Inl WE_MissingEventIdSalt
         else Inr responses))))"

definition execute_input ::
  "('w, 'c) engine_env \<Rightarrow> 'w instance_deps \<Rightarrow> trigger_action \<Rightarrow> wasm_response \<Rightarrow> wasm_error + wit_action list" where
  "execute_input E deps trig resp =
     rbind (map_err WE_Input (ee_wit_aggregator_input E trig resp)) (\<lambda>_.
     call_result (tc_service_id (ta_config trig)) (tc_workflow_id (ta_config trig))
       (append ''Process packet execution failed: '') (ee_call_process_input E deps trig resp))"

definition execute_timer_callback ::
  "('w, 'c) engine_env \<Rightarrow> 'w instance_deps \<Rightarrow> trigger_action \<Rightarrow> wasm_response \<Rightarrow> wasm_error + wit_action list" where
  "execute_timer_callback E deps trig resp =
     rbind (map_err WE_Input (ee_wit_aggregator_input E trig resp)) (\<lambda>_.
     call_result (tc_service_id (ta_config trig)) (tc_workflow_id (ta_config trig))
       (append ''Timer callback execution failed: '') (ee_call_timer_callback E deps trig resp))"

definition execute_submit_callback ::
  "('w, 'c) engine_env \<Rightarrow> 'w instance_deps \<Rightarrow> trigger_action \<Rightarrow> wasm_response \<Rightarrow> aggregator_error + any_tx_hash \<Rightarrow> wasm_error + unit" where
  "execute_submit_callback E deps trig resp tx_result =
     rbind (map_err WE_Input (ee_wit_aggregator_input E trig resp)) (\<lambda>_.
     call_result (tc_service_id (ta_config trig)) (tc_workflow_id (ta_config trig))
       (append ''Submit callback execution failed: '') (ee_call_submit_callback E deps trig resp tx_result))"

section \<open>The wasm engine\<close>

text \<open>Results are \<open>None\<close> where the source would panic. Reading the chain configurations fails only on a
  poisoned lock and is left out.\<close>

type_synonym ('a, 'c) engine_result = "((engine_error + 'a) \<times> 'c wasm_engine) option"

definition execute_operator_component ::
  "crypto \<Rightarrow> ('w, 'c) engine_env \<Rightarrow> service \<Rightarrow> trigger_action \<Rightarrow> 'c wasm_engine \<Rightarrow> (wasm_response list, 'c) engine_result" where
  "execute_operator_component C E svc trig B =
     (let wid = tc_workflow_id (ta_config trig)
      in case map_of (workflows svc) wid of
           None \<Rightarrow> Some (Inl (EE_UnknownWorkflow (service_id_of C svc) wid), B)
         | Some w \<Rightarrow>
             (case load_component C E (source_digest (source (wf_component w))) B of
                (Inl e, B1) \<Rightarrow> Some (Inl (EE_Engine e), B1)
              | (Inr code, B1) \<Rightarrow>
                  (case instance_build C E code svc wid (ID_Vector (ta_data trig)) OperatorLogger
                          (hex_encode C (tc_service_id (ta_config trig))) B1 of
                     None \<Rightarrow> None
                   | Some (Inl e, B2) \<Rightarrow> Some (Inl (EE_Engine e), B2)
                   | Some (Inr deps, B2) \<Rightarrow>
                       Some (map_err EE_Engine
                               (operator_execute E deps trig (we_max_payload_size B2) (we_max_salt_size B2)), B2))))"

definition get_aggregator_deps ::
  "crypto \<Rightarrow> ('w, 'c) engine_env \<Rightarrow> service \<Rightarrow> trigger_action \<Rightarrow> event_id \<Rightarrow> 'c wasm_engine \<Rightarrow>
   ('w instance_deps option, 'c) engine_result" where
  "get_aggregator_deps C E svc trig eid B =
     (let wid = tc_workflow_id (ta_config trig)
      in case map_of (workflows svc) wid of
           None \<Rightarrow> Some (Inl (EE_UnknownWorkflow (service_id_of C svc) wid), B)
         | Some w \<Rightarrow>
             (case wf_submit w of
                SubmitNone \<Rightarrow> Some (Inr None, B)
              | SubmitAggregator cpt \<Rightarrow>
                  (case load_component C E (source_digest (source cpt)) B of
                     (Inl e, B1) \<Rightarrow> Some (Inl (EE_Engine e), B1)
                   | (Inr code, B1) \<Rightarrow>
                       (case instance_build C E code svc wid (ID_Aggregator eid) AggregatorLogger
                               (hex_encode C (tc_service_id (ta_config trig))) B1 of
                          None \<Rightarrow> None
                        | Some (Inl e, B2) \<Rightarrow> Some (Inl (EE_Engine e), B2)
                        | Some (Inr deps, B2) \<Rightarrow> Some (Inr (Some deps), B2)))))"

fun convert_actions :: "('w, 'c) engine_env \<Rightarrow> wit_action list \<Rightarrow> engine_error + aggregator_action list" where
  "convert_actions E [] = Inr []"
| "convert_actions E (a # as) =
     rbind (map_err EE_ConvertAggregatorAction (ee_convert_action E a)) (\<lambda>x.
     rbind (convert_actions E as) (\<lambda>xs. Inr (x # xs)))"

text \<open>The part the three calls of an aggregator component share: without a component there is nothing to do.\<close>

definition with_aggregator_deps ::
  "('w instance_deps option, 'c) engine_result \<Rightarrow> 'a \<Rightarrow> ('w instance_deps \<Rightarrow> engine_error + 'a) \<Rightarrow> ('a, 'c) engine_result" where
  "with_aggregator_deps r nothing f =
     (case r of
        None \<Rightarrow> None
      | Some (Inl e, B) \<Rightarrow> Some (Inl e, B)
      | Some (Inr None, B) \<Rightarrow> Some (Inr nothing, B)
      | Some (Inr (Some deps), B) \<Rightarrow> Some (f deps, B))"

definition execute_aggregator_component ::
  "crypto \<Rightarrow> ('w, 'c) engine_env \<Rightarrow> service \<Rightarrow> trigger_action \<Rightarrow> wasm_response \<Rightarrow> event_id \<Rightarrow> 'c wasm_engine \<Rightarrow>
   (aggregator_action list, 'c) engine_result" where
  "execute_aggregator_component C E svc trig resp eid B =
     with_aggregator_deps (get_aggregator_deps C E svc trig eid B) []
       (\<lambda>deps. rbind (map_err EE_Engine (execute_input E deps trig resp)) (convert_actions E))"

definition execute_aggregator_component_timer_callback ::
  "crypto \<Rightarrow> ('w, 'c) engine_env \<Rightarrow> service \<Rightarrow> trigger_action \<Rightarrow> wasm_response \<Rightarrow> event_id \<Rightarrow> 'c wasm_engine \<Rightarrow>
   (aggregator_action list, 'c) engine_result" where
  "execute_aggregator_component_timer_callback C E svc trig resp eid B =
     with_aggregator_deps (get_aggregator_deps C E svc trig eid B) []
       (\<lambda>deps. rbind (map_err EE_Engine (execute_timer_callback E deps trig resp)) (convert_actions E))"

definition execute_aggregator_component_submit_callback ::
  "crypto \<Rightarrow> ('w, 'c) engine_env \<Rightarrow> service \<Rightarrow> trigger_action \<Rightarrow> wasm_response \<Rightarrow> aggregator_error + any_tx_hash \<Rightarrow> event_id \<Rightarrow>
   'c wasm_engine \<Rightarrow> (unit, 'c) engine_result" where
  "execute_aggregator_component_submit_callback C E svc trig resp tx_result eid B =
     with_aggregator_deps (get_aggregator_deps C E svc trig eid B) ()
       (\<lambda>deps. map_err EE_Engine (execute_submit_callback E deps trig resp tx_result))"

section \<open>The engine manager\<close>

definition component_sources :: "workflow \<Rightarrow> component_source list" where
  "component_sources w =
     source (wf_component w) # (case wf_submit w of SubmitAggregator cpt \<Rightarrow> [source cpt] | SubmitNone \<Rightarrow> [])"

fun store_sources ::
  "crypto \<Rightarrow> ('w, 'c) engine_env \<Rightarrow> component_source list \<Rightarrow> 'c wasm_engine \<Rightarrow> (engine_error + unit) \<times> 'c wasm_engine" where
  "store_sources C E [] B = (Inr (), B)"
| "store_sources C E (s # ss) B =
     (case store_component_from_source C E s B of
        (Inl e, B1) \<Rightarrow> (Inl e, B1)
      | (Inr _, B1) \<Rightarrow> store_sources C E ss B1)"

definition store_components_for_service ::
  "crypto \<Rightarrow> ('w, 'c) engine_env \<Rightarrow> service \<Rightarrow> 'c wasm_engine \<Rightarrow> (engine_error + unit) \<times> 'c wasm_engine" where
  "store_components_for_service C E svc B =
     store_sources C E (concat (map (\<lambda>(_, w). component_sources w) (workflows svc))) B"

fun make_requests :: "crypto \<Rightarrow> trigger_action \<Rightarrow> service \<Rightarrow> wasm_response list \<Rightarrow> engine_error + submission_request list" where
  "make_requests C trig svc [] = Inr []"
| "make_requests C trig svc (r # rs) =
     (let req = \<lparr>req_trigger_action = trig, req_operator_response = r, req_service = svc\<rparr>
      in rbind (map_err EE_EncodeEventId (req_event_id C req)) (\<lambda>_.
         rbind (make_requests C trig svc rs) (\<lambda>reqs. Inr (req # reqs))))"

definition run_trigger ::
  "crypto \<Rightarrow> ('w, 'c) engine_env \<Rightarrow> wavs_db \<Rightarrow> trigger_action \<Rightarrow> service \<Rightarrow> 'c wasm_engine \<Rightarrow>
   (submission_request list, 'c) engine_result" where
  "run_trigger C E db trig svc B =
     (let sid = tc_service_id (ta_config trig); wid = tc_workflow_id (ta_config trig)
      in if \<not> services_is_active db sid then Some (Inr [], B)
         else case map_of (workflows svc) wid of
                None \<Rightarrow> Some (Inl (EE_UnknownWorkflow sid wid), B)
              | Some _ \<Rightarrow>
                  (case execute_operator_component C E svc trig B of
                     None \<Rightarrow> None
                   | Some (r, B1) \<Rightarrow> Some (rbind r (make_requests C trig svc), B1)))"

definition run_aggregator ::
  "crypto \<Rightarrow> ('w, 'c) engine_env \<Rightarrow> submission \<Rightarrow> service \<Rightarrow> aggregator_execute_kind \<Rightarrow> 'c wasm_engine \<Rightarrow>
   (aggregator_action list, 'c) engine_result" where
  "run_aggregator C E s svc kind B =
     (let trig = sub_trigger_action s; resp = sub_operator_response s; eid = sub_event_id s
      in case kind of
           Standard \<Rightarrow> execute_aggregator_component C E svc trig resp eid B
         | TimerCallback \<Rightarrow> execute_aggregator_component_timer_callback C E svc trig resp eid B
         | SubmitCallback result \<Rightarrow>
             map_option (\<lambda>(r, B1). (rbind r (\<lambda>_. Inr []), B1))
               (execute_aggregator_component_submit_callback C E svc trig resp result eid B))"

text \<open>One command of the loop in \<open>start\<close> with the task it spawns: whether the loop goes on, and what is
  sent to the dispatcher.\<close>

definition engine_turn ::
  "crypto \<Rightarrow> ('w, 'c) engine_env \<Rightarrow> wavs_db \<Rightarrow> engine_command \<Rightarrow> 'c wasm_engine \<Rightarrow>
   (bool \<times> dispatcher_command list \<times> 'c wasm_engine) option" where
  "engine_turn C E db cmd B =
     (case cmd of
        EC_Kill \<Rightarrow> Some (False, [], B)
      | EC_ExecuteOperator trig svc \<Rightarrow>
          (case run_trigger C E db trig svc B of
             None \<Rightarrow> None
           | Some (Inl _, B1) \<Rightarrow> Some (True, [], B1)
           | Some (Inr msgs, B1) \<Rightarrow> Some (True, map (\<lambda>m. DC_EngineResponse (ER_Vector m)) msgs, B1))
      | EC_ExecuteAggregator s svc kind \<Rightarrow>
          (case run_aggregator C E s svc kind B of
             None \<Rightarrow> None
           | Some (Inl _, B1) \<Rightarrow> Some (True, [], B1)
           | Some (Inr actions, B1) \<Rightarrow> Some (True, [DC_EngineResponse (ER_Aggregator s actions kind)], B1)))"

section \<open>Answers of components\<close>

lemma validate_sizes_iff:
  "is_ok (validate_sizes p s rs) \<longleftrightarrow>
     (\<forall>r\<in>set rs. length (payload r) \<le> p \<and> (\<forall>salt. event_id_salt r = Some salt \<longrightarrow> length salt \<le> s))"
proof (induction rs)
  case (Cons r rs)
  then show ?case using validate_size_ok_iff [of r p s] by (cases "validate_size r p s") auto
qed simp

lemma operator_execute_ok:
  assumes "operator_execute E deps trig p s = Inr rs"
  shows "(\<forall>r\<in>set rs. length (payload r) \<le> p \<and> (\<forall>salt. event_id_salt r = Some salt \<longrightarrow> length salt \<le> s)) \<and>
    (length rs > 1 \<longrightarrow> (\<forall>r\<in>set rs. event_id_salt r \<noteq> None))"
proof -
  have "validate_sizes p s rs = Inr ()" "\<not> (length rs > 1 \<and> list_ex (\<lambda>r. event_id_salt r = None) rs)"
    using assms by (auto simp: operator_execute_def Let_def rbind_Inr_iff split: if_splits)
  then show ?thesis using validate_sizes_iff [of p s rs] by (auto simp: list_ex_iff)
qed

lemma make_requests_ok:
  "make_requests C trig svc rs = Inr reqs \<Longrightarrow>
   reqs = map (\<lambda>r. \<lparr>req_trigger_action = trig, req_operator_response = r, req_service = svc\<rparr>) rs"
  by (induction rs arbitrary: reqs) (auto simp: Let_def rbind_Inr_iff)

definition same_limits :: "'c wasm_engine \<Rightarrow> 'c wasm_engine \<Rightarrow> bool" where
  "same_limits B B' = (we_max_payload_size B' = we_max_payload_size B \<and> we_max_salt_size B' = we_max_salt_size B)"

lemma load_component_limits: "load_component C E d B = (r, B') \<Longrightarrow> same_limits B B'"
  by (auto simp: load_component_def same_limits_def Let_def split: prod.splits option.splits sum.splits)

lemma open_data_dir_frame:
  "open_data_dir E cpt dir B = (r, B') \<Longrightarrow> same_limits B B' \<and> be_storage B' = be_storage B \<and> be_cache B' = be_cache B"
  by (auto simp: open_data_dir_def same_limits_def split: if_splits sum.splits)

lemma instance_build_frame:
  "instance_build C E w svc wid data lg dir B = Some (r, B') \<Longrightarrow>
   same_limits B B' \<and> be_storage B' = be_storage B \<and> be_cache B' = be_cache B"
  by (auto simp: instance_build_def same_limits_def split: instance_data.splits component_logger.splits option.splits
      sum.splits prod.splits dest: open_data_dir_frame [unfolded same_limits_def])

text \<open>The builder does not reach its \<open>unreachable\<close>: the callers give an operator the operator's logger, and an
  aggregator exists where the aggregator's is given.\<close>

lemma instance_build_operator: "instance_build C E w svc wid (ID_Vector d) OperatorLogger dir B \<noteq> None"
  by (simp add: instance_build_def instance_component_def split: option.splits)

lemma instance_build_aggregator:
  "map_of (workflows svc) wid = Some wfl \<Longrightarrow> wf_submit wfl = SubmitAggregator cpt \<Longrightarrow>
   instance_build C E w svc wid (ID_Aggregator e) AggregatorLogger dir B \<noteq> None"
  by (simp add: instance_build_def instance_component_def)

lemma execute_operator_total: "execute_operator_component C E svc trig B \<noteq> None"
  by (auto simp: execute_operator_component_def Let_def instance_build_operator simp del: not_None_eq
      split: option.splits prod.splits sum.splits)

lemma get_aggregator_deps_total: "get_aggregator_deps C E svc trig eid B \<noteq> None"
  by (auto simp: get_aggregator_deps_def Let_def instance_build_aggregator simp del: not_None_eq
      split: option.splits prod.splits sum.splits submit.splits)

lemma with_aggregator_deps_total: "r \<noteq> None \<Longrightarrow> with_aggregator_deps r n f \<noteq> None"
  by (auto simp: with_aggregator_deps_def split: option.splits prod.splits sum.splits)

lemma run_trigger_total: "run_trigger C E db trig svc B \<noteq> None"
  using execute_operator_total [of C E svc trig B]
  by (auto simp: run_trigger_def Let_def split: option.splits)

lemma run_aggregator_total: "run_aggregator C E s svc kind B \<noteq> None"
  by (cases kind) (simp_all add: run_aggregator_def Let_def execute_aggregator_component_def
      execute_aggregator_component_timer_callback_def execute_aggregator_component_submit_callback_def
      with_aggregator_deps_total get_aggregator_deps_total del: not_None_eq)

lemma execute_operator_ok:
  assumes "execute_operator_component C E svc trig B = Some (Inr rs, B')"
  shows "(\<forall>r\<in>set rs. length (payload r) \<le> we_max_payload_size B \<and>
      (\<forall>salt. event_id_salt r = Some salt \<longrightarrow> length salt \<le> we_max_salt_size B)) \<and>
    (length rs > 1 \<longrightarrow> (\<forall>r\<in>set rs. event_id_salt r \<noteq> None))"
proof -
  obtain code B1 deps and w :: workflow where
    l: "load_component C E (source_digest (source (wf_component w))) B = (Inr code, B1)"
    and b: "instance_build C E code svc (tc_workflow_id (ta_config trig)) (ID_Vector (ta_data trig)) OperatorLogger
      (hex_encode C (tc_service_id (ta_config trig))) B1 = Some (Inr deps, B')"
    and x: "operator_execute E deps trig (we_max_payload_size B') (we_max_salt_size B') = Inr rs"
    using assms by (auto simp: execute_operator_component_def Let_def map_err_Inr_iff
        split: option.splits prod.splits sum.splits)
  have "same_limits B B1" "same_limits B1 B'"
    using load_component_limits [OF l] instance_build_frame [OF b] by auto
  then show ?thesis using operator_execute_ok [OF x] by (simp add: same_limits_def)
qed

lemma run_trigger_ok:
  assumes "run_trigger C E db trig svc B = Some (Inr reqs, B')"
  obtains rs where "reqs = map (\<lambda>r. \<lparr>req_trigger_action = trig, req_operator_response = r, req_service = svc\<rparr>) rs"
    "rs \<noteq> [] \<Longrightarrow> services_is_active db (tc_service_id (ta_config trig))"
    "\<forall>r\<in>set rs. length (payload r) \<le> we_max_payload_size B \<and>
      (\<forall>salt. event_id_salt r = Some salt \<longrightarrow> length salt \<le> we_max_salt_size B)"
    "length rs > 1 \<Longrightarrow> \<forall>r\<in>set rs. event_id_salt r \<noteq> None"
proof (cases "services_is_active db (tc_service_id (ta_config trig))")
  case False
  then show ?thesis using assms that [of "[]"] by (simp add: run_trigger_def Let_def)
next
  case True
  obtain rs where rs: "execute_operator_component C E svc trig B = Some (Inr rs, B')" "make_requests C trig svc rs = Inr reqs"
    using assms True by (auto simp: run_trigger_def Let_def rbind_Inr_iff split: option.splits prod.splits)
  show ?thesis using that [OF make_requests_ok [OF rs(2)]] execute_operator_ok [OF rs(1)] True by blast
qed


text \<open>A component that answers with given responses, for the witnesses.\<close>

definition demo_lru :: "(bytes, (component_digest \<times> bytes) list) lru_ops" where
  "demo_lru = \<lparr>lru_peek = map_of, lru_get = (\<lambda>d c. (map_of c d, c)), lru_put = AList.update\<rparr>"

definition demo_engine_env :: "wasm_response list \<Rightarrow> (bytes, (component_digest \<times> bytes) list) engine_env" where
  "demo_engine_env rs =
     \<lparr>ee_compile = Inr, ee_lru = demo_lru, ee_io = good_io, ee_fetch_bytes = (\<lambda>_. Inl ''offline''),
      ee_registry_fetch = (\<lambda>_. Inl ''offline''), ee_env_vars = [], ee_add_to_linker = Inr (), ee_preopened_dir = Inr (),
      ee_set_fuel = Inr (), ee_wit_trigger = (\<lambda>_. Inr ()), ee_wit_aggregator_input = (\<lambda>_ _. Inr ()),
      ee_call_run = (\<lambda>_ _. Call_Ok rs), ee_call_process_input = (\<lambda>_ _ _. Call_Ok []),
      ee_call_timer_callback = (\<lambda>_ _ _. Call_Ok []), ee_call_submit_callback = (\<lambda>_ _ _ _. Call_Ok ()),
      ee_convert_action = (\<lambda>_. Inl ''no actions'')\<rparr>"

text \<open>An engine whose cache already has the code of the demo service.\<close>

definition demo_engine :: "(component_digest \<times> bytes) list wasm_engine" where
  "demo_engine =
     \<lparr>be_storage = [], be_cache = [(replicate 32 0, [7])], be_max_wasm_fuel = None, be_max_execution_seconds = None,
      we_max_payload_size = 4, we_max_salt_size = 4, we_service_dirs = []\<rparr>"

definition demo_trigger_action :: trigger_action where
  "demo_trigger_action =
     \<lparr>ta_config = \<lparr>tc_service_id = [1], tc_workflow_id = workflow_id_default, tc_trigger = Manual\<rparr>, ta_data = TD_Raw [5]\<rparr>"


section \<open>Integrity of code\<close>

definition code_of :: "crypto \<Rightarrow> (bytes \<Rightarrow> string + 'w) \<Rightarrow> component_digest \<Rightarrow> 'w \<Rightarrow> bool" where
  "code_of C cm d w = (\<exists>bs. hash_id_hash (sha256 C) bs = d \<and> cm bs = Inr w)"

definition cache_inv :: "crypto \<Rightarrow> (bytes \<Rightarrow> string + 'w) \<Rightarrow> ('w, 'c) lru_ops \<Rightarrow> any_digest set \<Rightarrow> 'c \<Rightarrow> bool" where
  "cache_inv C cm L T c = (\<forall>d w. d \<notin> T \<and> lru_peek L c d = Some w \<longrightarrow> code_of C cm d w)"

definition engine_inv :: "crypto \<Rightarrow> (bytes \<Rightarrow> string + 'w) \<Rightarrow> ('w, 'c) lru_ops \<Rightarrow> any_digest set \<Rightarrow> 'c wasm_engine \<Rightarrow> bool" where
  "engine_inv C cm L T B = (file_inv_but C T (be_storage B) \<and> cache_inv C cm L T (be_cache B))"

lemma engine_inv_mono: "engine_inv C cm L T B \<Longrightarrow> T \<subseteq> T' \<Longrightarrow> engine_inv C cm L T' B"
  using file_inv_but_mono unfolding engine_inv_def cache_inv_def by blast

lemma lru_get_eq: "lru_laws L \<Longrightarrow> lru_get L d c = (r, c') \<Longrightarrow> r = lru_peek L c d \<and> lru_peek L c' = lru_peek L c"
  unfolding lru_laws_def by (metis fst_conv snd_conv)

lemma lru_put_code:
  assumes "lru_laws L" "cache_inv C cm L T c" "d \<notin> T \<longrightarrow> code_of C cm d w"
  shows "cache_inv C cm L T (lru_put L d w c)"
  using assms unfolding lru_laws_def cache_inv_def by (metis option.inject)

lemma load_component_inv:
  assumes L: "lru_laws (ee_lru E)" and inv: "engine_inv C (ee_compile E) (ee_lru E) T B"
    and l: "load_component C E d B = (r, B')"
  shows "engine_inv C (ee_compile E) (ee_lru E) T B' \<and> (\<forall>w. r = Inr w \<and> d \<notin> T \<longrightarrow> code_of C (ee_compile E) d w)"
proof -
  obtain hit c where g: "lru_get (ee_lru E) d (be_cache B) = (hit, c)" by (cases "lru_get (ee_lru E) d (be_cache B)")
  have h: "hit = lru_peek (ee_lru E) (be_cache B) d" "lru_peek (ee_lru E) c = lru_peek (ee_lru E) (be_cache B)"
    using lru_get_eq [OF L g] by auto
  have c: "cache_inv C (ee_compile E) (ee_lru E) T c" using inv h by (simp add: engine_inv_def cache_inv_def)
  show ?thesis
  proof (cases hit)
    case (Some w)
    then show ?thesis using l g h c inv by (auto simp: load_component_def engine_inv_def cache_inv_def)
  next
    case None
    have put: "engine_inv C (ee_compile E) (ee_lru E) T (B\<lparr>be_cache := lru_put (ee_lru E) d w c\<rparr>) \<and>
        (d \<notin> T \<longrightarrow> code_of C (ee_compile E) d w)"
      if "file_get_data C (ee_io E) (be_storage B) d = Inr bs" "ee_compile E bs = Inr w" for bs w
    proof -
      have "d \<notin> T \<longrightarrow> code_of C (ee_compile E) d w"
        using that file_get_data_hash_but [OF _ that(1)] inv by (auto simp: code_of_def engine_inv_def)
      then show ?thesis using lru_put_code [OF L c] inv by (simp add: engine_inv_def)
    qed
    show ?thesis using None l g c inv put
      by (auto simp: load_component_def Let_def engine_inv_def split: sum.splits)
  qed
qed

lemma store_only_inv:
  assumes "hex_laws C" "engine_inv C cm L T B" "file_set_data C io bs (be_storage B) = (r, fs)"
  shows "engine_inv C cm L (T \<union> suspects io {hash_id_hash (sha256 C) bs}) (B\<lparr>be_storage := fs\<rparr>)"
  using file_set_data_inv_but [OF assms(1), of T "be_storage B" io bs] assms(2,3)
  by (auto simp: engine_inv_def cache_inv_def)

lemma store_put_inv:
  assumes "lru_laws L" "hex_laws C" "engine_inv C cm L T B"
    and "file_set_data C io bs (be_storage B) = (r, fs)" "cm bs = Inr w" "d = hash_id_hash (sha256 C) bs"
  shows "engine_inv C cm L (T \<union> suspects io {d}) (B\<lparr>be_storage := fs, be_cache := lru_put L d w (be_cache B)\<rparr>)"
    "code_of C cm d w"
proof -
  show code: "code_of C cm d w" using assms by (auto simp: code_of_def)
  have "engine_inv C cm L (T \<union> suspects io {d}) (B\<lparr>be_storage := fs\<rparr>)"
    using store_only_inv [OF assms(2,3,4)] assms(6) by simp
  then show "engine_inv C cm L (T \<union> suspects io {d}) (B\<lparr>be_storage := fs, be_cache := lru_put L d w (be_cache B)\<rparr>)"
    using lru_put_code [OF assms(1)] code by (simp add: engine_inv_def)
qed

lemma load_component_from_source_inv:
  assumes L: "lru_laws (ee_lru E)" and hex: "hex_laws C"
    and inv: "engine_inv C (ee_compile E) (ee_lru E) T B" and l: "load_component_from_source C E src B = (r, B')"
  shows "engine_inv C (ee_compile E) (ee_lru E) (T \<union> suspects (ee_io E) {source_digest src}) B' \<and>
    (\<forall>w. r = Inr w \<and> source_digest src \<notin> T \<longrightarrow> code_of C (ee_compile E) (source_digest src) w)"
proof -
  let ?T = "T \<union> suspects (ee_io E) {source_digest src}"
  obtain r1 B1 where l1: "load_component C E (source_digest src) B = (r1, B1)" by (cases "load_component C E (source_digest src) B")
  note i1 = load_component_inv [OF L inv l1]
  then have i2: "engine_inv C (ee_compile E) (ee_lru E) ?T B1" using engine_inv_mono [of C _ _ T B1 ?T] by blast
  show ?thesis
  proof (cases r1)
    case (Inr w)
    then show ?thesis using l l1 i1 i2 by (auto simp: load_component_from_source_def)
  next
    case (Inl e)
    show ?thesis
    proof (cases "fetch_component E src")
      case (Inl e')
      then show ?thesis using l l1 i1 i2 \<open>r1 = Inl e\<close> by (auto simp: load_component_from_source_def)
    next
      case (Inr bs)
      obtain r2 fs where s: "file_set_data C (ee_io E) bs (be_storage B1) = (r2, fs)"
        by (cases "file_set_data C (ee_io E) bs (be_storage B1)")
      show ?thesis
        using l l1 i1 i2 \<open>r1 = Inl e\<close> Inr s store_only_inv [OF hex _ s] store_put_inv [OF L hex _ s]
        by (auto simp: load_component_from_source_def Let_def split: if_splits sum.splits)
    qed
  qed
qed

lemma base_store_component_bytes_inv:
  assumes L: "lru_laws (ee_lru E)" and hex: "hex_laws C"
    and inv: "engine_inv C (ee_compile E) (ee_lru E) T B" and l: "base_store_component_bytes C E bs B = (r, B')"
  shows "engine_inv C (ee_compile E) (ee_lru E) (T \<union> suspects (ee_io E) {hash_id_hash (sha256 C) bs}) B'"
proof -
  obtain r2 fs where s: "file_set_data C (ee_io E) bs (be_storage B) = (r2, fs)"
    by (cases "file_set_data C (ee_io E) bs (be_storage B)")
  have "engine_inv C (ee_compile E) (ee_lru E) (T \<union> suspects (ee_io E) {hash_id_hash (sha256 C) bs}) B"
    using engine_inv_mono [OF inv] by blast
  then show ?thesis
    using l s store_only_inv [OF hex inv s] store_put_inv [OF L hex inv s] file_set_data_ok [of C "ee_io E" bs "be_storage B"]
    by (auto simp: base_store_component_bytes_def split: sum.splits)
qed

lemma store_sources_inv:
  assumes L: "lru_laws (ee_lru E)" and hex: "hex_laws C"
    and inv: "engine_inv C (ee_compile E) (ee_lru E) T B" and l: "store_sources C E ss B = (r, B')"
  shows "engine_inv C (ee_compile E) (ee_lru E) (T \<union> suspects (ee_io E) (source_digest ` set ss)) B'"
  using inv l
proof (induction ss arbitrary: B T)
  case (Cons s ss)
  let ?T = "T \<union> suspects (ee_io E) {source_digest s}"
  have mono: "T \<subseteq> ?T" "?T \<union> suspects (ee_io E) (source_digest ` set ss) = T \<union> suspects (ee_io E) (source_digest ` set (s # ss))"
    by (auto simp: suspects_def)
  obtain r1 B1 where s: "store_component_from_source C E s B = (r1, B1)" by (cases "store_component_from_source C E s B")
  have b: "engine_inv C (ee_compile E) (ee_lru E) ?T B" using engine_inv_mono [OF Cons.prems(1) mono(1)] .
  have i1: "engine_inv C (ee_compile E) (ee_lru E) ?T B1"
    using s b load_component_from_source_inv [OF L hex Cons.prems(1), of s]
    by (auto simp: store_component_from_source_def split: sum.splits bool.splits component_source.splits prod.splits)
  show ?case
  proof (cases r1)
    case (Inl e)
    then have "B' = B1" using Cons.prems(2) s by simp
    then show ?thesis unfolding mono(2) [symmetric] using engine_inv_mono [OF i1 Un_upper1] by simp
  next
    case (Inr u)
    then show ?thesis using Cons.IH [OF i1] Cons.prems(2) s unfolding mono(2) by simp
  qed
qed (use engine_inv_mono in \<open>auto simp: suspects_def\<close>)

lemma engine_inv_frame:
  "be_storage B' = be_storage B \<Longrightarrow> be_cache B' = be_cache B \<Longrightarrow> engine_inv C cm L T B' = engine_inv C cm L T B"
  by (simp add: engine_inv_def)

lemma load_then_build_inv:
  assumes L: "lru_laws (ee_lru E)" and inv: "engine_inv C (ee_compile E) (ee_lru E) T B"
    and run: "(case load_component C E d B of
        (Inl e, B1) \<Rightarrow> Some (Inl (EE_Engine e), B1)
      | (Inr code, B1) \<Rightarrow>
          (case instance_build C E code svc wid data lg dir B1 of
             None \<Rightarrow> None
           | Some (Inl e, B2) \<Rightarrow> Some (Inl (EE_Engine e), B2)
           | Some (Inr deps, B2) \<Rightarrow> Some (f deps B2, B2))) = Some (r, B')"
  shows "engine_inv C (ee_compile E) (ee_lru E) T B'"
proof -
  obtain r1 B1 where l: "load_component C E d B = (r1, B1)" by (cases "load_component C E d B")
  have i1: "engine_inv C (ee_compile E) (ee_lru E) T B1" using load_component_inv [OF L inv l] by blast
  show ?thesis
  proof (cases r1)
    case (Inl e)
    then show ?thesis using run l i1 by simp
  next
    case (Inr code)
    then obtain r2 where "instance_build C E code svc wid data lg dir B1 = Some (r2, B')"
      using run l by (auto split: option.splits sum.splits)
    from instance_build_frame [OF this] show ?thesis using i1 engine_inv_frame by blast
  qed
qed

lemma execute_operator_inv:
  assumes "lru_laws (ee_lru E)" "engine_inv C (ee_compile E) (ee_lru E) T B" "execute_operator_component C E svc trig B = Some (r, B')"
  shows "engine_inv C (ee_compile E) (ee_lru E) T B'"
proof (cases "map_of (workflows svc) (tc_workflow_id (ta_config trig))")
  case None
  then show ?thesis using assms by (simp add: execute_operator_component_def Let_def)
next
  case (Some w)
  show ?thesis
    by (rule load_then_build_inv [OF assms(1,2)]) (use assms(3) Some in \<open>simp add: execute_operator_component_def Let_def\<close>)
qed

lemma get_aggregator_deps_inv:
  assumes "lru_laws (ee_lru E)" "engine_inv C (ee_compile E) (ee_lru E) T B" "get_aggregator_deps C E svc trig eid B = Some (r, B')"
  shows "engine_inv C (ee_compile E) (ee_lru E) T B'"
proof (cases "map_of (workflows svc) (tc_workflow_id (ta_config trig))")
  case None
  then show ?thesis using assms by (simp add: get_aggregator_deps_def Let_def)
next
  case (Some w)
  show ?thesis
  proof (cases "wf_submit w")
    case SubmitNone
    then show ?thesis using assms Some by (simp add: get_aggregator_deps_def Let_def)
  next
    case (SubmitAggregator cpt)
    show ?thesis
      by (rule load_then_build_inv [OF assms(1,2)])
        (use assms(3) Some SubmitAggregator in \<open>simp add: get_aggregator_deps_def Let_def\<close>)
  qed
qed

lemma with_aggregator_deps_state: "with_aggregator_deps r n f = Some (x, B') \<Longrightarrow> \<exists>y. r = Some (y, B')"
  by (auto simp: with_aggregator_deps_def split: option.splits prod.splits sum.splits)

lemma engine_turn_inv:
  assumes L: "lru_laws (ee_lru E)" and inv: "engine_inv C (ee_compile E) (ee_lru E) T B"
    and t: "engine_turn C E db cmd B = Some (go, out, B')"
  shows "engine_inv C (ee_compile E) (ee_lru E) T B'"
proof (cases cmd)
  case EC_Kill
  then show ?thesis using t inv by (simp add: engine_turn_def)
next
  case (EC_ExecuteOperator trig svc)
  then obtain r where "run_trigger C E db trig svc B = Some (r, B')"
    using t by (auto simp: engine_turn_def split: option.splits sum.splits)
  then show ?thesis using inv execute_operator_inv [OF L inv]
    by (auto simp: run_trigger_def Let_def split: if_splits option.splits prod.splits)
next
  case (EC_ExecuteAggregator s svc kind)
  then obtain r where "run_aggregator C E s svc kind B = Some (r, B')"
    using t by (auto simp: engine_turn_def split: option.splits sum.splits)
  then obtain y where "get_aggregator_deps C E svc (sub_trigger_action s) (sub_event_id s) B = Some (y, B')"
    by (cases kind) (auto simp: run_aggregator_def Let_def execute_aggregator_component_def
        execute_aggregator_component_timer_callback_def execute_aggregator_component_submit_callback_def
        dest!: with_aggregator_deps_state)
  then show ?thesis by (rule get_aggregator_deps_inv [OF L inv])
qed

text \<open>
  An engine in use. It starts with an empty cache and files that are in order up to a set of digests;
  compiling and the cache stay the same throughout, everything else may answer differently every time. Files
  are written in place, so a write that fails, or a crash during it, may leave a part of the data behind. The set collects
  the digests this may have happened to: those of an upload and of the components of a service whose writes
  were cut short.
\<close>

inductive engine_reachable ::
  "crypto \<Rightarrow> (bytes \<Rightarrow> string + 'w) \<Rightarrow> ('w, 'c) lru_ops \<Rightarrow> any_digest set \<Rightarrow> 'c wasm_engine \<Rightarrow> bool"
  for C cm L where
  er_init: "file_inv_but C T (be_storage B) \<Longrightarrow> (\<And>d. lru_peek L (be_cache B) d = None) \<Longrightarrow> engine_reachable C cm L T B"
| er_turn: "engine_reachable C cm L T B \<Longrightarrow> ee_compile E = cm \<Longrightarrow> ee_lru E = L \<Longrightarrow>
    engine_turn C E db cmd B = Some (go, out, B') \<Longrightarrow> engine_reachable C cm L T B'"
| er_upload: "engine_reachable C cm L T B \<Longrightarrow> ee_compile E = cm \<Longrightarrow> ee_lru E = L \<Longrightarrow>
    store_component_bytes C E bs B = (u, B') \<Longrightarrow>
    engine_reachable C cm L (T \<union> suspects (ee_io E) {hash_id_hash (sha256 C) bs}) B'"
| er_service: "engine_reachable C cm L T B \<Longrightarrow> ee_compile E = cm \<Longrightarrow> ee_lru E = L \<Longrightarrow>
    store_components_for_service C E svc B = (r, B') \<Longrightarrow>
    engine_reachable C cm L
      (T \<union> suspects (ee_io E) (source_digest ` set (concat (map (\<lambda>(_, w). component_sources w) (workflows svc))))) B'"
| er_remove: "engine_reachable C cm L T B \<Longrightarrow> engine_reachable C cm L T (remove_storage C io i B)"
| er_crash: "engine_reachable C cm L T B \<Longrightarrow> (\<And>d. lru_peek L c d = None) \<Longrightarrow>
    map_of (be_storage B) (file_path C (hash_id_hash (sha256 C) data)) = None \<Longrightarrow>
    engine_reachable C cm L (insert (hash_id_hash (sha256 C) data) T)
      (B\<lparr>be_cache := c, be_storage := AList.update (file_path C (hash_id_hash (sha256 C) data)) (take n data) (be_storage B)\<rparr>)"

lemma crash_inv:
  assumes "hex_laws C" "engine_inv C cm L T B" "\<And>d. lru_peek L c d = None"
  shows "engine_inv C cm L (insert d T) (B\<lparr>be_cache := c, be_storage := AList.update (file_path C d) part (be_storage B)\<rparr>)"
  using assms by (auto simp: engine_inv_def cache_inv_def file_inv_but_def update_conv' file_path_inj split: if_splits)

lemma engine_reachable_inv:
  assumes "lru_laws L" "hex_laws C" "engine_reachable C cm L T B"
  shows "engine_inv C cm L T B"
  using assms(3)
proof (induction rule: engine_reachable.induct)
  case (er_init T B)
  then show ?case by (simp add: engine_inv_def cache_inv_def)
next
  case (er_turn T B E db cmd go out B')
  then show ?case using engine_turn_inv [of E C T B db cmd] assms(1) by simp
next
  case (er_upload T B E bs u B')
  then obtain r where "base_store_component_bytes C E bs B = (r, B')"
    by (auto simp: store_component_bytes_def apfst_def map_prod_def split: prod.splits)
  then show ?case using base_store_component_bytes_inv [of E C T B bs r B'] er_upload assms by simp
next
  case (er_service T B E svc r B')
  then show ?case using store_sources_inv [of E C T B _ r B'] assms unfolding store_components_for_service_def by blast
next
  case (er_remove T B io i)
  then show ?case by (simp add: engine_inv_def remove_storage_def split: sum.splits)
next
  case (er_crash T B c data n)
  then show ?case by (intro crash_inv [OF assms(2)]) simp_all
qed


lemma demo_lru_laws: "lru_laws demo_lru"
  by (auto simp: lru_laws_def demo_lru_def update_conv' split: if_splits)


text \<open>The limits of the node, \<open>max_wasm_fuel\<close> and \<open>max_execution_seconds\<close>, have no effect: an instance gets
  what its component asks for, and no limit if it asks for none.\<close>

lemma node_limits_ignored:
  assumes "instance_build C E w svc wid data lg dir B = Some (Inr deps, B')"
    and "map_of (workflows svc) wid = Some wfl" "instance_component lg wfl = Some cpt"
  shows "id_fuel deps = (case fuel_limit cpt of Some f \<Rightarrow> f | None \<Rightarrow> DEFAULT_FUEL_LIMIT) \<and>
    id_time_limit_seconds deps = (case time_limit_seconds cpt of Some t \<Rightarrow> t | None \<Rightarrow> DEFAULT_TIME_LIMIT_SECONDS) \<and>
    (\<exists>B''. instance_build C E w svc wid data lg dir (B\<lparr>be_max_wasm_fuel := f, be_max_execution_seconds := t\<rparr>) = Some (Inr deps, B''))"
proof -
  have dir: "open_data_dir E cpt dir (B\<lparr>be_max_wasm_fuel := f, be_max_execution_seconds := t\<rparr>) =
    apsnd (\<lambda>B1. B1\<lparr>be_max_wasm_fuel := f, be_max_execution_seconds := t\<rparr>) (open_data_dir E cpt dir B)"
    by (auto simp: open_data_dir_def split: sum.splits)
  show ?thesis using assms
    by (cases data; cases lg; cases "ee_add_to_linker E"; cases "open_data_dir E cpt dir B"; cases "fst (open_data_dir E cpt dir B)")
      (auto simp: instance_build_def dir rbind_Inr_iff)
qed

end
