(* ===== verification/Registry.thy ===== *)
theory Registry
  imports Types
begin

text \<open>
  The persistent service registry of \<^verbatim>\<open>packages/warpdrive/src/service_registry.rs\<close>: the list
  of registered managers with the index of the signing key of each, kept in memory and written to a
  file after every change. The file holds text; the printer and the parser of \<open>serde_json\<close> for
  \<open>RegistryFile\<close> are fields of the disk, with their round trip as the hypothesis \<open>json_roundtrips\<close>. The
  outcome of each write is an argument, since it depends on the file system.
\<close>

record registry_entry =
  re_service_manager :: service_manager
  re_hd_index :: u32

record registry_file =
  rf_version :: u32
  rf_next_hd_index :: u32
  rf_services :: "registry_entry list"

record registry_state =
  entries :: "registry_entry list"
  next_hd_index :: u32

datatype registry_error =
    RegIo string
  | RegJson string
  | RegPersist string
  | AlreadyRegistered
  | HdIndexOverflow
  | UnsupportedVersion u32

definition REGISTRY_VERSION :: u32 where
  "REGISTRY_VERSION = 1"

text \<open>The memory and the file beside it; reading a file can fail, and there may be none.\<close>

record registry_disk =
  disk_contents :: "(registry_error + string) option"
  disk_print :: "registry_file \<Rightarrow> string"
  disk_parse :: "string \<Rightarrow> registry_error + registry_file"

type_synonym registry = "registry_state \<times> registry_disk"

definition registry_load :: "registry_disk \<Rightarrow> registry_error + registry_state" where
  "registry_load d =
     (case disk_contents d of
        Some read \<Rightarrow>
          rbind read (\<lambda>contents.
          rbind (disk_parse d contents) (\<lambda>file.
          if rf_version file \<noteq> REGISTRY_VERSION then Inl (UnsupportedVersion (rf_version file))
          else Inr \<lparr>entries = rf_services file, next_hd_index = rf_next_hd_index file\<rparr>))
      | None \<Rightarrow> Inr \<lparr>entries = [], next_hd_index = 1\<rparr>)"

text \<open>\<open>write_locked\<close>: the new file replaces the old one by a rename, or the write fails (in the serialiser, at
  the temporary file or the rename) and the old file stays.\<close>

definition write_locked :: "registry_error + unit \<Rightarrow> registry \<Rightarrow> (registry_error + unit) \<times> registry" where
  "write_locked io r =
     (let file = \<lparr>rf_version = REGISTRY_VERSION, rf_next_hd_index = next_hd_index (fst r),
                  rf_services = entries (fst r)\<rparr>;
          json = disk_print (snd r) file
      in case io of
           Inl e \<Rightarrow> (Inl e, r)
         | Inr _ \<Rightarrow> (Inr (), fst r, (snd r)\<lparr>disk_contents := Some (Inr json)\<rparr>))"

definition registry_append ::
  "registry_error + unit \<Rightarrow> service_manager \<Rightarrow> registry \<Rightarrow> (registry_error + u32) \<times> registry" where
  "registry_append io sm r =
     (let st = fst r
      in if list_ex (\<lambda>e. re_service_manager e = sm) (entries st) then (Inl AlreadyRegistered, r)
         else let hd_index = next_hd_index st
              in case checked_add hd_index 1 of
                   None \<Rightarrow> (Inl HdIndexOverflow, r)
                 | Some next \<Rightarrow>
                     let st' = st\<lparr>entries := entries st @ [\<lparr>re_service_manager = sm, re_hd_index = hd_index\<rparr>],
                                  next_hd_index := next\<rparr>;
                         (res, r') = write_locked io (st', snd r)
                     in (rbind res (\<lambda>_. Inr hd_index), r'))"

text \<open>\<open>position\<close> and \<open>Vec::remove\<close> take out the first entry of the manager.\<close>

fun remove_first :: "('a \<Rightarrow> bool) \<Rightarrow> 'a list \<Rightarrow> 'a list" where
  "remove_first p [] = []"
| "remove_first p (x # xs) = (if p x then xs else x # remove_first p xs)"

definition registry_remove ::
  "registry_error + unit \<Rightarrow> service_manager \<Rightarrow> registry \<Rightarrow> (registry_error + unit) \<times> registry" where
  "registry_remove io sm r =
     (let st = fst r
      in if list_ex (\<lambda>e. re_service_manager e = sm) (entries st)
         then write_locked io
                (st\<lparr>entries := remove_first (\<lambda>e. re_service_manager e = sm) (entries st)\<rparr>, snd r)
         else (Inr (), r))"

section \<open>The invariant\<close>

definition registry_wf :: "registry_state \<Rightarrow> bool" where
  "registry_wf st =
     (distinct (map re_service_manager (entries st)) \<and> distinct (map re_hd_index (entries st)) \<and>
      (\<forall>e\<in>set (entries st). re_hd_index e < next_hd_index st))"

lemma remove_first_distinct:
  "distinct (map f xs) \<Longrightarrow> remove_first (\<lambda>x. f x = a) xs = filter (\<lambda>x. f x \<noteq> a) xs"
  by (induction xs) (auto simp: image_iff intro!: filter_True [symmetric])

lemma fst_write_locked [simp]: "fst (snd (write_locked io r)) = fst r"
  by (simp add: write_locked_def Let_def split: sum.splits)

lemma write_locked_result [simp]: "fst (write_locked io r) = io"
  by (cases io) (simp_all add: write_locked_def Let_def)

text \<open>What an append leaves in memory, whatever the file system did.\<close>

lemma registry_append_memory:
  assumes "registry_append io sm r = (res, r')"
  shows "fst r' = fst r \<and> (res = Inl AlreadyRegistered \<or> res = Inl HdIndexOverflow) \<or>
    sm \<notin> re_service_manager ` set (entries (fst r)) \<and>
    checked_add (next_hd_index (fst r)) 1 = Some (next_hd_index (fst r')) \<and>
    entries (fst r') = entries (fst r) @ [\<lparr>re_service_manager = sm, re_hd_index = next_hd_index (fst r)\<rparr>] \<and>
    res = rbind io (\<lambda>_. Inr (next_hd_index (fst r)))"
proof (cases "list_ex (\<lambda>e. re_service_manager e = sm) (entries (fst r))")
  case True
  with assms show ?thesis by (simp add: registry_append_def Let_def)
next
  case fresh: False
  show ?thesis
  proof (cases "checked_add (next_hd_index (fst r)) 1")
    case None
    with fresh assms show ?thesis by (simp add: registry_append_def Let_def)
  next
    case (Some nxt)
    let ?w = "write_locked io ((fst r)\<lparr>entries := entries (fst r) @
        [\<lparr>re_service_manager = sm, re_hd_index = next_hd_index (fst r)\<rparr>], next_hd_index := nxt\<rparr>, snd r)"
    have "(rbind (fst ?w) (\<lambda>_. Inr (next_hd_index (fst r))), snd ?w) = (res, r')"
      using fresh Some assms unfolding registry_append_def Let_def by (simp add: case_prod_unfold)
    then have "res = rbind (fst ?w) (\<lambda>_. Inr (next_hd_index (fst r)))" "r' = snd ?w" by auto
    with fresh Some show ?thesis by (auto simp: list_ex_iff)
  qed
qed

lemma registry_append_written:
  assumes "registry_append io sm r = (Inr i, r')"
  shows "\<exists>x. fst x = fst r' \<and> r' = snd (write_locked io x)"
  using assms by (auto simp: registry_append_def Let_def split: if_splits option.splits prod.splits)
    (metis fst_conv fst_write_locked snd_conv)

lemma registry_append_wf:
  assumes "registry_wf (fst r)" "registry_append io sm r = (res, r')"
  shows "registry_wf (fst r')" and "next_hd_index (fst r) \<le> next_hd_index (fst r')"
proof -
  have "registry_wf (fst r') \<and> next_hd_index (fst r) \<le> next_hd_index (fst r')"
    using registry_append_memory [OF assms(2)]
  proof (elim disjE conjE)
    assume "checked_add (next_hd_index (fst r)) 1 = Some (next_hd_index (fst r'))"
    then have lt: "next_hd_index (fst r) < next_hd_index (fst r')" by (rule word_less_plus_one)
    moreover assume "sm \<notin> re_service_manager ` set (entries (fst r))"
      "entries (fst r') = entries (fst r) @ [\<lparr>re_service_manager = sm, re_hd_index = next_hd_index (fst r)\<rparr>]"
    moreover have "next_hd_index (fst r) \<notin> re_hd_index ` set (entries (fst r))"
      using assms(1) by (auto simp: registry_wf_def)
    moreover have "\<forall>e\<in>set (entries (fst r)). re_hd_index e < next_hd_index (fst r')"
      using assms(1) lt less_trans unfolding registry_wf_def by blast
    ultimately show ?thesis using assms(1) by (simp add: registry_wf_def less_imp_le)
  qed (use assms(1) in simp_all)
  then show "registry_wf (fst r')" and "next_hd_index (fst r) \<le> next_hd_index (fst r')" by simp_all
qed

lemma registry_remove_memory:
  "fst (snd (registry_remove io sm r)) =
     (fst r)\<lparr>entries := remove_first (\<lambda>e. re_service_manager e = sm) (entries (fst r))\<rparr>"
proof -
  have "remove_first p xs = xs" if "\<not> list_ex p xs" for p and xs :: "registry_entry list"
    using that by (induction xs) auto
  then show ?thesis by (simp add: registry_remove_def Let_def)
qed

lemma registry_remove_wf: "registry_wf (fst r) \<Longrightarrow> registry_wf (fst (snd (registry_remove io sm r)))"
  by (auto simp: registry_remove_memory registry_wf_def remove_first_distinct distinct_map_filter)

section \<open>Histories\<close>

datatype registry_op = RegAppend service_manager "registry_error + unit" | RegRemove service_manager "registry_error + unit"

fun registry_step :: "registry_op \<Rightarrow> registry \<Rightarrow> u32 option \<times> registry" where
  "registry_step (RegAppend sm io) r =
     (case registry_append io sm r of (Inr i, r') \<Rightarrow> (Some i, r') | (Inl _, r') \<Rightarrow> (None, r'))"
| "registry_step (RegRemove sm io) r = (None, snd (registry_remove io sm r))"

fun registry_run :: "registry_op list \<Rightarrow> registry \<Rightarrow> u32 list \<times> registry" where
  "registry_run [] r = ([], r)"
| "registry_run (op # ops) r =
     (let (i, r1) = registry_step op r; (is, r2) = registry_run ops r1
      in (case i of None \<Rightarrow> is | Some n \<Rightarrow> n # is, r2))"

lemma registry_step_props:
  assumes "registry_wf (fst r)" "registry_step op r = (i, r')"
  shows "registry_wf (fst r')" "next_hd_index (fst r) \<le> next_hd_index (fst r')"
    "i = Some n \<Longrightarrow> next_hd_index (fst r) \<le> n \<and> n < next_hd_index (fst r')"
proof -
  have "registry_wf (fst r') \<and> next_hd_index (fst r) \<le> next_hd_index (fst r') \<and>
    (i = Some n \<longrightarrow> next_hd_index (fst r) \<le> n \<and> n < next_hd_index (fst r'))"
  proof (cases op)
    case (RegAppend sm io)
    obtain res r1 where a: "registry_append io sm r = (res, r1)" by (cases "registry_append io sm r")
    then have "r' = r1" "i = (case res of Inr k \<Rightarrow> Some k | Inl _ \<Rightarrow> None)"
      using assms(2) RegAppend by (auto split: sum.splits)
    with registry_append_wf [OF assms(1) a] registry_append_memory [OF a] show ?thesis
      by (cases io) (auto dest!: word_less_plus_one split: sum.splits)
  next
    case (RegRemove sm io)
    with assms registry_remove_wf [OF assms(1)] show ?thesis by (auto simp: registry_remove_memory)
  qed
  then show "registry_wf (fst r')" "next_hd_index (fst r) \<le> next_hd_index (fst r')"
    "i = Some n \<Longrightarrow> next_hd_index (fst r) \<le> n \<and> n < next_hd_index (fst r')" by blast+
qed

lemma registry_run_props:
  assumes "registry_wf (fst r)" "registry_run ops r = (is, r')"
  shows "registry_wf (fst r') \<and> sorted_wrt (<) is \<and> (\<forall>n\<in>set is. next_hd_index (fst r) \<le> n \<and> n < next_hd_index (fst r'))
    \<and> next_hd_index (fst r) \<le> next_hd_index (fst r')"
  using assms
proof (induction ops arbitrary: r "is")
  case (Cons op ops)
  obtain i r1 where s: "registry_step op r = (i, r1)" by (cases "registry_step op r")
  obtain is2 where r2: "registry_run ops r1 = (is2, r')"
    and is_eq: "is = (case i of None \<Rightarrow> is2 | Some n \<Rightarrow> n # is2)"
    using Cons.prems(2) s by (auto split: prod.splits)
  note p = registry_step_props [OF Cons.prems(1) s]
  note q = Cons.IH [OF p(1) r2]
  show ?case
  proof (cases i)
    case None
    with p(2) q is_eq show ?thesis by auto
  next
    case (Some n)
    with p(2) p(3) [OF Some] q is_eq show ?thesis by force
  qed
qed simp

section \<open>A printer and a parser\<close>

text \<open>A codec for the witnesses that keeps the promise \<open>json_roundtrips\<close>: lengths in unary, then the data.\<close>

definition json_roundtrips :: "registry_disk \<Rightarrow> bool" where
  "json_roundtrips d = (\<forall>f. disk_parse d (disk_print d f) = Inr f)"

definition put_nat :: "nat \<Rightarrow> string" where
  "put_nat n = replicate n (CHR ''x'') @ '','' "

definition get_nat :: "string \<Rightarrow> nat \<times> string" where
  "get_nat s = (length (takeWhile (\<lambda>c. c = CHR ''x'') s), tl (dropWhile (\<lambda>c. c = CHR ''x'') s))"

definition put_str :: "string \<Rightarrow> string" where
  "put_str s = put_nat (length s) @ s"

definition get_str :: "string \<Rightarrow> string \<times> string" where
  "get_str s = (let (n, r) = get_nat s in (take n r, drop n r))"

fun put_bytes :: "bytes \<Rightarrow> string" where
  "put_bytes bs = put_nat (length bs) @ concat (map (\<lambda>b. put_nat (unat b)) bs)"

fun get_n :: "nat \<Rightarrow> (string \<Rightarrow> 'a \<times> string) \<Rightarrow> string \<Rightarrow> 'a list \<times> string" where
  "get_n 0 get s = ([], s)"
| "get_n (Suc n) get s = (let (x, r) = get s; (xs, r') = get_n n get r in (x # xs, r'))"

definition get_bytes :: "string \<Rightarrow> bytes \<times> string" where
  "get_bytes s = (let (n, r) = get_nat s in get_n n (\<lambda>s. let (b, r) = get_nat s in (of_nat b, r)) r)"

definition put_manager :: "service_manager \<Rightarrow> string" where
  "put_manager m =
     (let (k, c, a) = (case m of SM_Evm c a \<Rightarrow> (0, c, a) | SM_Cosmos c a \<Rightarrow> (1, c, a) | SM_Stellar c a \<Rightarrow> (2, c, a))
      in put_nat k @ put_str (namespace c) @ put_str (chain_id c) @ put_bytes a)"

definition get_manager :: "string \<Rightarrow> service_manager \<times> string" where
  "get_manager s =
     (let (k, r) = get_nat s; (ns, r) = get_str r; (ci, r) = get_str r; (a, r) = get_bytes r;
          c = \<lparr>namespace = ns, chain_id = ci\<rparr>
      in ((if k = 0 then SM_Evm c a else if k = 1 then SM_Cosmos c a else SM_Stellar c a), r))"

definition put_entry :: "registry_entry \<Rightarrow> string" where
  "put_entry e = put_manager (re_service_manager e) @ put_nat (unat (re_hd_index e))"

definition get_entry :: "string \<Rightarrow> registry_entry \<times> string" where
  "get_entry s =
     (let (m, r) = get_manager s; (i, r) = get_nat r in (\<lparr>re_service_manager = m, re_hd_index = of_nat i\<rparr>, r))"

definition put_file :: "registry_file \<Rightarrow> string" where
  "put_file f =
     put_nat (unat (rf_version f)) @ put_nat (unat (rf_next_hd_index f)) @ put_nat (length (rf_services f)) @
     concat (map put_entry (rf_services f))"

definition get_file :: "string \<Rightarrow> registry_file" where
  "get_file s =
     (let (v, r) = get_nat s; (n, r) = get_nat r; (k, r) = get_nat r; (es, r) = get_n k get_entry r
      in \<lparr>rf_version = of_nat v, rf_next_hd_index = of_nat n, rf_services = es\<rparr>)"

definition demo_disk :: registry_disk where
  "demo_disk = \<lparr>disk_contents = None, disk_print = put_file, disk_parse = (\<lambda>s. Inr (get_file s))\<rparr>"

lemma get_put_nat [simp]: "get_nat (put_nat n @ r) = (n, r)"
  by (induction n) (auto simp: get_nat_def put_nat_def takeWhile_append dropWhile_append)

lemma get_put_str [simp]: "get_str (put_str s @ r) = (s, r)"
  by (simp add: get_str_def put_str_def)

lemma get_n_put:
  "(\<And>x r. get (put x @ r) = (x, r)) \<Longrightarrow> get_n (length xs) get (concat (map put xs) @ r) = (xs, r)"
  by (induction xs arbitrary: r) simp_all

lemma get_put_bytes [simp]: "get_bytes (put_bytes bs @ r) = (bs, r)"
  by (simp add: get_bytes_def get_n_put [where put = "\<lambda>b. put_nat (unat b)"])

lemma get_put_manager [simp]: "get_manager (put_manager m @ r) = (m, r)"
  by (cases m) (simp_all add: get_manager_def put_manager_def del: put_bytes.simps)

lemma get_put_entry [simp]: "get_entry (put_entry e @ r) = (e, r)"
  by (simp add: get_entry_def put_entry_def)

lemma get_put_file: "get_file (put_file f) = f"
  using get_n_put [of get_entry put_entry "rf_services f" "[]"] by (simp add: get_file_def put_file_def)

lemma demo_disk_roundtrips: "json_roundtrips demo_disk"
  by (simp add: json_roundtrips_def demo_disk_def get_put_file)

text \<open>
  C32: Key indices are never reused: over any sequence of registrations and removals, with any
  pattern of write failures, the indices handed out are strictly increasing, and the managers and
  the indices of the registered entries stay pairwise distinct.
\<close>

theorem registry_indices_never_reused:
  assumes "registry_wf (fst r)" "registry_run ops r = (is, r')"
  shows "sorted_wrt (<) is \<and> registry_wf (fst r') \<and> (\<forall>n\<in>set is. \<forall>e\<in>set (entries (fst r)). re_hd_index e < n)"
  using registry_run_props [OF assms] assms(1) less_le_trans unfolding registry_wf_def by blast

theorem registry_indices_never_reused_witness:
  "registry_wf (fst (snd (registry_run
     [RegAppend (SM_Evm \<lparr>namespace = ''evm'', chain_id = ''1''\<rparr> []) (Inr ()),
      RegRemove (SM_Evm \<lparr>namespace = ''evm'', chain_id = ''1''\<rparr> []) (Inr ()),
      RegAppend (SM_Evm \<lparr>namespace = ''evm'', chain_id = ''2''\<rparr> []) (Inr ())]
     (\<lparr>entries = [], next_hd_index = 1\<rparr>, demo_disk))))"
proof -
  let ?r = "(\<lparr>entries = [], next_hd_index = 1\<rparr>, demo_disk) :: registry"
  have w: "registry_wf (fst ?r)" by (simp add: registry_wf_def)
  from registry_indices_never_reused [OF w prod.collapse [symmetric]] show ?thesis by blast
qed

section \<open>Restarts\<close>

text \<open>The life of a registry: calls, and restarts that load the file. A restart that cannot load it is \<open>None\<close>.\<close>

datatype registry_event = Reg_Op registry_op | Reg_Restart

fun registry_life :: "registry_event list \<Rightarrow> registry \<Rightarrow> (u32 list \<times> registry) option" where
  "registry_life [] r = Some ([], r)"
| "registry_life (Reg_Op op # evs) r =
     (let (i, r1) = registry_step op r
      in case registry_life evs r1 of
           None \<Rightarrow> None
         | Some (is, r2) \<Rightarrow> Some (case i of None \<Rightarrow> is | Some n \<Rightarrow> n # is, r2))"
| "registry_life (Reg_Restart # evs) r =
     (case registry_load (snd r) of Inl _ \<Rightarrow> None | Inr st \<Rightarrow> registry_life evs (st, snd r))"

lemma write_locked_load:
  "json_roundtrips (snd x) \<Longrightarrow> registry_load (snd (snd (write_locked (Inr ()) x))) = Inr (fst x)"
  by (simp add: write_locked_def registry_load_def json_roundtrips_def)

lemma write_locked_disk:
  "json_roundtrips (snd (snd (write_locked io x))) = json_roundtrips (snd x)"
  "io \<noteq> Inr () \<Longrightarrow> snd (write_locked io x) = x"
  by (auto simp: write_locked_def Let_def json_roundtrips_def split: sum.splits)

lemma write_locked_cases:
  assumes "json_roundtrips (snd x)"
  shows "json_roundtrips (snd (snd (write_locked io x)))"
    and "registry_load (snd (snd (write_locked io x))) = (if io = Inr () then Inr (fst x) else registry_load (snd x))"
  using assms write_locked_load [OF assms] write_locked_disk [of io x] by auto

lemma registry_append_disk:
  assumes "json_roundtrips (snd r)" "registry_append io sm r = (res, r')"
  shows "json_roundtrips (snd r')" "registry_load (snd r') = (if is_ok res then Inr (fst r') else registry_load (snd r))"
proof -
  have "json_roundtrips (snd r') \<and> registry_load (snd r') = (if is_ok res then Inr (fst r') else registry_load (snd r))"
  proof (cases "list_ex (\<lambda>e. re_service_manager e = sm) (entries (fst r)) \<or> checked_add (next_hd_index (fst r)) 1 = None")
    case True
    then have "r' = r \<and> \<not> is_ok res" using assms(2) by (auto simp: registry_append_def Let_def split: if_splits)
    with assms(1) show ?thesis by simp
  next
    case False
    then obtain n where n: "checked_add (next_hd_index (fst r)) 1 = Some n" by blast
    let ?x = "((fst r)\<lparr>entries := entries (fst r) @ [\<lparr>re_service_manager = sm, re_hd_index = next_hd_index (fst r)\<rparr>],
        next_hd_index := n\<rparr>, snd r)"
    have "r' = snd (write_locked io ?x)" "res = rbind io (\<lambda>_. Inr (next_hd_index (fst r)))"
      using assms(2) False n by (auto simp: registry_append_def Let_def case_prod_unfold)
    with write_locked_cases [of ?x io] assms(1) show ?thesis by (cases io) auto
  qed
  then show "json_roundtrips (snd r')" "registry_load (snd r') = (if is_ok res then Inr (fst r') else registry_load (snd r))"
    by blast+
qed

lemma registry_remove_disk:
  assumes "json_roundtrips (snd r)" "registry_remove io sm r = (res, r')"
  shows "json_roundtrips (snd r')"
    and "registry_load (snd r') =
      (if is_ok res \<and> sm \<in> re_service_manager ` set (entries (fst r)) then Inr (fst r') else registry_load (snd r))"
proof -
  let ?x = "((fst r)\<lparr>entries := remove_first (\<lambda>e. re_service_manager e = sm) (entries (fst r))\<rparr>, snd r)"
  have "json_roundtrips (snd r') \<and> registry_load (snd r') =
      (if is_ok res \<and> sm \<in> re_service_manager ` set (entries (fst r)) then Inr (fst r') else registry_load (snd r))"
  proof (cases "list_ex (\<lambda>e. re_service_manager e = sm) (entries (fst r))")
    case True
    then have "write_locked io ?x = (res, r')" using assms(2) by (simp add: registry_remove_def Let_def)
    then have "r' = snd (write_locked io ?x)" "res = io" by (metis snd_conv, metis fst_conv write_locked_result)
    with write_locked_cases [of ?x io] assms(1) True show ?thesis by (cases io) (auto simp: list_ex_iff)
  next
    case False
    with assms show ?thesis by (auto simp: registry_remove_def Let_def list_ex_iff)
  qed
  then show "json_roundtrips (snd r')" "registry_load (snd r') =
      (if is_ok res \<and> sm \<in> re_service_manager ` set (entries (fst r)) then Inr (fst r') else registry_load (snd r))"
    by blast+
qed

text \<open>The file always loads, to a state whose counter is above every index that was reported.\<close>

definition registry_safe :: "u32 \<Rightarrow> registry \<Rightarrow> bool" where
  "registry_safe n r =
     (json_roundtrips (snd r) \<and> registry_wf (fst r) \<and>
      (\<exists>st. registry_load (snd r) = Inr st \<and> registry_wf st \<and> n \<le> next_hd_index st \<and> next_hd_index st \<le> next_hd_index (fst r)))"

lemma registry_step_safe:
  assumes safe: "registry_safe n r" and step: "registry_step op r = (i, r')"
  shows "case i of None \<Rightarrow> registry_safe n r' | Some k \<Rightarrow> n \<le> k \<and> registry_safe (k + 1) r' \<and> k < k + 1"
proof (cases op)
  case (RegAppend sm io)
  obtain res where a: "registry_append io sm r = (res, r')" and i: "i = (case res of Inr k \<Rightarrow> Some k | Inl _ \<Rightarrow> None)"
    using step RegAppend by (auto split: sum.splits prod.splits)
  have wf: "registry_wf (fst r')" "next_hd_index (fst r) \<le> next_hd_index (fst r')"
    using registry_append_wf [OF _ a] safe by (auto simp: registry_safe_def)
  note disk = registry_append_disk [OF _ a]
  show ?thesis
  proof (cases res)
    case (Inl e)
    with safe wf disk i show ?thesis by (auto simp: registry_safe_def)
  next
    case (Inr k)
    then have "k = next_hd_index (fst r)" "checked_add (next_hd_index (fst r)) 1 = Some (next_hd_index (fst r'))"
      using registry_append_memory [OF a] by (cases io; auto)+
    moreover from this(2) have "next_hd_index (fst r) < next_hd_index (fst r')" by (rule word_less_plus_one)
    ultimately have "next_hd_index (fst r') = k + 1" "k < k + 1"
      by (simp_all add: checked_add_def split: if_splits)
    with safe wf disk i Inr \<open>k = _\<close> show ?thesis by (auto simp: registry_safe_def)
  qed
next
  case (RegRemove sm io)
  then have i: "i = None" and r': "r' = snd (registry_remove io sm r)" using step by auto
  obtain res where a: "registry_remove io sm r = (res, r')" unfolding r' by (metis prod.collapse)
  note disk = registry_remove_disk [OF _ a]
  have m: "fst r' = (fst r)\<lparr>entries := remove_first (\<lambda>e. re_service_manager e = sm) (entries (fst r))\<rparr>"
    using registry_remove_memory [of io sm r] a by simp
  have "registry_wf (fst r')" using registry_remove_wf [of r io sm] safe a by (simp add: registry_safe_def)
  with safe disk i m show ?thesis by (auto simp: registry_safe_def split: if_splits)
qed

lemma registry_life_safe:
  assumes "registry_safe n r"
  shows "\<exists>is r'. registry_life evs r = Some (is, r') \<and> sorted_wrt (<) is \<and> registry_safe n r' \<and>
    (\<forall>k\<in>set is. n \<le> k \<and> k < k + 1 \<and> registry_safe (k + 1) r')"
  using assms
proof (induction evs arbitrary: n r)
  case (Cons ev evs)
  show ?case
  proof (cases ev)
    case (Reg_Op op)
    obtain i r1 where s: "registry_step op r = (i, r1)" by (metis prod.collapse)
    note safe = registry_step_safe [OF Cons.prems s]
    show ?thesis
    proof (cases i)
      case None
      with Cons.IH [of n r1] safe s Reg_Op show ?thesis by auto
    next
      case (Some k)
      with safe have k: "n \<le> k" "registry_safe (k + 1) r1" "k < k + 1" by auto
      obtain "is" r' where t: "registry_life evs r1 = Some (is, r')" "sorted_wrt (<) is" "registry_safe (k + 1) r'"
        "\<forall>j\<in>set is. k + 1 \<le> j \<and> j < j + 1 \<and> registry_safe (j + 1) r'"
        using Cons.IH [OF k(2)] by blast
      have "registry_safe n r'" using t(3) k(1,3) unfolding registry_safe_def by (meson order.trans order.strict_implies_order)
      moreover have "\<forall>j\<in>set is. k < j \<and> n \<le> j" using t(4) k by (meson less_le_trans order.strict_implies_order order_trans)
      ultimately show ?thesis using t s Reg_Op Some k by auto
    qed
  next
    case Reg_Restart
    from Cons.prems obtain st where st: "registry_load (snd r) = Inr st" "registry_safe n (st, snd r)"
      by (auto simp: registry_safe_def)
    from Cons.IH [OF st(2)] st(1) Reg_Restart show ?thesis by auto
  qed
qed auto

text \<open>
  C33: The registry survives restarts. Over any sequence of registrations, removals and restarts,
  from the first start on and with any pattern of failed writes, every restart can load the file, the
  loaded managers and indices are pairwise distinct, and no index that a registration reported is ever
  reported again, also after restarts. Right after a registration that reports success, and after a
  removal of a registered manager that does, a restart loads exactly what is in memory. After a change
  whose write fails, the file is as before.
\<close>

theorem registry_reload:
  assumes codec: "json_roundtrips d" and first: "disk_contents d = None" "registry_load d = Inr st"
  shows "\<exists>is r. registry_life evs (st, d) = Some (is, r) \<and> sorted_wrt (<) is \<and>
    (\<exists>st'. registry_load (snd r) = Inr st' \<and> registry_wf st' \<and> (\<forall>n\<in>set is. n < next_hd_index st')) \<and>
    (\<forall>io sm i r'. registry_append io sm r = (Inr i, r') \<longrightarrow> registry_load (snd r') = Inr (fst r')) \<and>
    (\<forall>io sm r'. registry_remove io sm r = (Inr (), r') \<and> sm \<in> re_service_manager ` set (entries (fst r)) \<longrightarrow>
       registry_load (snd r') = Inr (fst r')) \<and>
    (\<forall>e sm. registry_load (snd (snd (registry_append (Inl e) sm r))) = registry_load (snd r) \<and>
       registry_load (snd (snd (registry_remove (Inl e) sm r))) = registry_load (snd r))"
proof -
  have "registry_safe 1 (st, d)" using assms by (auto simp: registry_safe_def registry_load_def registry_wf_def)
  from registry_life_safe [OF this] obtain "is" r where life: "registry_life evs (st, d) = Some (is, r)" "sorted_wrt (<) is"
    "registry_safe 1 r" "\<forall>k\<in>set is. 1 \<le> k \<and> k < k + 1 \<and> registry_safe (k + 1) r" by blast
  then obtain st' where st': "registry_load (snd r) = Inr st'" "registry_wf st'" by (auto simp: registry_safe_def)
  have "n < next_hd_index st'" if "n \<in> set is" for n
    using life(4) that st'(1) by (auto simp: registry_safe_def intro: less_le_trans)
  with life st' have r: "registry_life evs (st, d) = Some (is, r)" "sorted_wrt (<) is" "json_roundtrips (snd r)"
    "\<exists>st'. registry_load (snd r) = Inr st' \<and> registry_wf st' \<and> (\<forall>n\<in>set is. n < next_hd_index st')"
    by (auto simp: registry_safe_def)
  have "registry_load (snd (snd (registry_append (Inl e) sm r))) = registry_load (snd r)" for e sm
  proof -
    obtain res r' where a: "registry_append (Inl e) sm r = (res, r')" by (metis prod.collapse)
    then have "\<not> is_ok res" using registry_append_memory [OF a] by auto
    with registry_append_disk [OF r(3) a] a show ?thesis by simp
  qed
  moreover have "registry_load (snd (snd (registry_remove (Inl e) sm r))) = registry_load (snd r)" for e sm
  proof -
    obtain res r' where a: "registry_remove (Inl e) sm r = (res, r')" by (metis prod.collapse)
    have "res = Inl e" if "sm \<in> re_service_manager ` set (entries (fst r))"
      using a that by (auto simp: registry_remove_def Let_def list_ex_iff write_locked_def split: if_splits)
    with registry_remove_disk [OF r(3) a] a show ?thesis by auto
  qed
  moreover have "registry_load (snd r') = Inr (fst r')" if "registry_append io sm r = (Inr i, r')" for io sm i r'
    using registry_append_disk(2) [OF r(3) that] by simp
  moreover have "registry_load (snd r') = Inr (fst r')"
    if "registry_remove io sm r = (Inr (), r') \<and> sm \<in> re_service_manager ` set (entries (fst r))" for io sm r'
    using registry_remove_disk(2) [OF r(3) conjunct1 [OF that]] that by simp
  ultimately show ?thesis using r by (intro exI [of _ "is"] exI [of _ r]) blast
qed

text \<open>A registration that succeeds, one whose write fails, a restart, and the second one again: the indices reported
  are 1 and 2, and the file then holds both.\<close>

theorem registry_reload_witness:
  "\<exists>r. registry_life
     [Reg_Op (RegAppend (SM_Evm \<lparr>namespace = ''evm'', chain_id = ''1''\<rparr> []) (Inr ())),
      Reg_Op (RegAppend (SM_Evm \<lparr>namespace = ''evm'', chain_id = ''2''\<rparr> []) (Inl (RegIo ''''))), Reg_Restart,
      Reg_Op (RegAppend (SM_Evm \<lparr>namespace = ''evm'', chain_id = ''2''\<rparr> []) (Inr ()))]
     (\<lparr>entries = [], next_hd_index = 1\<rparr>, demo_disk) = Some ([1, 2], r) \<and>
     (\<exists>st'. registry_load (snd r) = Inr st' \<and> registry_wf st' \<and> 2 < next_hd_index st')"
proof -
  let ?evs = "[Reg_Op (RegAppend (SM_Evm \<lparr>namespace = ''evm'', chain_id = ''1''\<rparr> []) (Inr ())),
      Reg_Op (RegAppend (SM_Evm \<lparr>namespace = ''evm'', chain_id = ''2''\<rparr> []) (Inl (RegIo ''''))), Reg_Restart,
      Reg_Op (RegAppend (SM_Evm \<lparr>namespace = ''evm'', chain_id = ''2''\<rparr> []) (Inr ()))]"
  have d: "disk_contents demo_disk = None" "registry_load demo_disk = Inr \<lparr>entries = [], next_hd_index = 1\<rparr>"
    by (simp_all add: demo_disk_def registry_load_def)
  have "map_option fst (registry_life ?evs (\<lparr>entries = [], next_hd_index = 1\<rparr>, demo_disk)) = Some [1, 2]"
    by (simp add: registry_append_def write_locked_def demo_disk_def registry_load_def get_put_file checked_add_def
        REGISTRY_VERSION_def)
  then obtain r where r: "registry_life ?evs (\<lparr>entries = [], next_hd_index = 1\<rparr>, demo_disk) = Some ([1, 2], r)" by auto
  from registry_reload [OF demo_disk_roundtrips d, of ?evs] show ?thesis unfolding r by auto
qed

text \<open>
  A registration whose write fails is reported as an error but stays in memory and is missing
  from the file: the same registration attempted again is refused as a duplicate, and a restart
  forgets it.
\<close>

lemma registry_failed_append_leaks:
  assumes "registry_append (Inl e) sm r = (Inl e, r')" "e \<noteq> AlreadyRegistered" "e \<noteq> HdIndexOverflow"
  shows "sm \<in> re_service_manager ` set (entries (fst r')) \<and> snd r' = snd r \<and>
    fst (registry_append (Inr ()) sm r') = Inl AlreadyRegistered"
proof -
  have m: "entries (fst r') = entries (fst r) @ [\<lparr>re_service_manager = sm, re_hd_index = next_hd_index (fst r)\<rparr>]"
    using registry_append_memory [OF assms(1)] assms(2,3) by auto
  have "snd r' = snd r"
    using assms(1) by (auto simp: registry_append_def Let_def write_locked_def split: if_splits option.splits)
  with m show ?thesis by (simp add: registry_append_def Let_def)
qed

end
