(* ===== verification/Matching.thy ===== *)
theory Matching
  imports Streams
begin

text \<open>
  From an item of the trigger stream to the commands for the dispatcher: the branches of the watcher
  loop in \<^verbatim>\<open>subsystems/trigger.rs\<close> that look up triggers. The decoders of other crates (ABI, XDR,
  URIs, Stellar addresses, the type test of Cosmos events) are the record \<open>event_decoders\<close>, about
  which nothing is assumed.
\<close>

section \<open>Decoding\<close>

datatype sc_val =
    ScSymbol bytes
  | ScString bytes
  | ScMap "(sc_val \<times> sc_val) list option"
  | ScOther opaque

record event_decoders =
  service_uri_updated_hash :: bytes
  decode_service_uri_updated :: "opaque \<Rightarrow> string + string"
  uri_try_from :: "string \<Rightarrow> string + string"
  cosmos_event_is_type :: "cosmwasm_event \<Rightarrow> string \<Rightarrow> bool"
  decode_scval :: "string \<Rightarrow> sc_val option"
  contract_from_string :: "string \<Rightarrow> stellar_contract option"

definition EVENT_TYPE :: string where
  "EVENT_TYPE = ''wavs-service-uri-updated''"

definition EVENT_ATTR_KEY_SERVICE_URI :: string where
  "EVENT_ATTR_KEY_SERVICE_URI = ''service-uri''"

text \<open>\<open>String::from_utf8\<close> on text whose code points lie below 256, the strings of the model.\<close>

fun from_utf8 :: "bytes \<Rightarrow> string option" where
  "from_utf8 [] = Some []"
| "from_utf8 [b] = (if b < 0x80 then Some [char_of (unat b)] else None)"
| "from_utf8 (b # c # bs) =
     (if b < 0x80 then map_option (Cons (char_of (unat b))) (from_utf8 (c # bs))
      else if (b = 0xC2 \<or> b = 0xC3) \<and> 0x80 \<le> c \<and> c < 0xC0
      then map_option (Cons (char_of ((unat b - 0xC0) * 64 + (unat c - 0x80)))) (from_utf8 bs)
      else None)"

definition is_updated_spec_repo_topic :: "event_decoders \<Rightarrow> string list \<Rightarrow> bool" where
  "is_updated_spec_repo_topic D topic_segments =
     (case topic_segments of
        [] \<Rightarrow> False
      | first # _ \<Rightarrow>
          (case decode_scval D first of
             Some (ScSymbol s) \<Rightarrow> s = str_bytes ''updated_spec_repo''
           | _ \<Rightarrow> False))"

text \<open>A map entry under the right symbol whose value is no string does not end the search.\<close>

fun string_entry :: "string \<Rightarrow> (sc_val \<times> sc_val) list \<Rightarrow> string option" where
  "string_entry field_name [] = None"
| "string_entry field_name ((key, val) # entries) =
     (case key of
        ScSymbol symb \<Rightarrow>
          if symb = str_bytes field_name
          then (case val of ScString s \<Rightarrow> from_utf8 s | _ \<Rightarrow> string_entry field_name entries)
          else string_entry field_name entries
      | _ \<Rightarrow> string_entry field_name entries)"

definition decode_stellar_event_string_field :: "event_decoders \<Rightarrow> string \<Rightarrow> string \<Rightarrow> string option" where
  "decode_stellar_event_string_field D value field_name =
     (case decode_scval D value of
        Some (ScString s) \<Rightarrow> from_utf8 s
      | Some (ScMap (Some entries)) \<Rightarrow> string_entry field_name entries
      | _ \<Rightarrow> None)"

section \<open>Lookups\<close>

definition trigger_commands :: "wavs_db \<Rightarrow> lookup_maps \<Rightarrow> lookup_id list \<Rightarrow> trigger_data \<Rightarrow> dispatcher_command list" where
  "trigger_commands db L ids data =
     map (\<lambda>cfg. DC_Trigger \<lparr>ta_config = cfg, ta_data = data\<rparr>) (get_trigger_configs db L ids)"

definition evm_trigger_data :: "evm_trigger \<Rightarrow> trigger_data" where
  "evm_trigger_data e =
     TD_EvmContractEvent \<lparr>ev_chain = et_chain e, ev_contract_address = lg_address (et_log e),
       ev_log_data = lg_log_data (et_log e), ev_tx_hash = et_tx_hash e, ev_block_number = et_block_number e,
       ev_log_index = et_log_index e, ev_block_hash = et_block_hash e, ev_block_timestamp = et_block_timestamp e,
       ev_tx_index = et_tx_index e\<rparr>"

text \<open>The URI is checked before the emitting contract is: the error leaves the watcher.\<close>

definition evm_uri_commands :: "event_decoders \<Rightarrow> lookup_maps \<Rightarrow> evm_log \<Rightarrow> bytes \<Rightarrow> trigger_error + dispatcher_command list" where
  "evm_uri_commands D L lg event_hash =
     (if event_hash = service_uri_updated_hash D
      then case decode_service_uri_updated D (lg_log_data lg) of
             Inr uri \<Rightarrow>
               rbind (map_err TE_URICreation (uri_try_from D uri)) (\<lambda>service_uri.
               Inr (case bimap_get_by_right (service_manager_map L) (CA_Evm (lg_address lg)) of
                      Some service_id \<Rightarrow> [DC_ChangeServiceUri service_id service_uri]
                    | None \<Rightarrow> []))
           | Inl _ \<Rightarrow> Inr []
      else Inr [])"

definition handle_evm :: "event_decoders \<Rightarrow> wavs_db \<Rightarrow> lookup_maps \<Rightarrow> evm_trigger \<Rightarrow> trigger_error + dispatcher_command list" where
  "handle_evm D db L e =
     (case lg_topics (et_log e) of
        [] \<Rightarrow> Inr []
      | event_hash # _ \<Rightarrow>
          rbind (evm_uri_commands D L (et_log e) event_hash) (\<lambda>uris.
          Inr (uris @
            (case get_cloned (triggers_by_evm_contract_event L) (et_chain e, lg_address (et_log e), event_hash) of
               Some ids \<Rightarrow> trigger_commands db L ids (evm_trigger_data e)
             | None \<Rightarrow> []))))"

definition stellar_uri_commands :: "event_decoders \<Rightarrow> lookup_maps \<Rightarrow> stellar_event_data \<Rightarrow> dispatcher_command list" where
  "stellar_uri_commands D L e =
     (if is_updated_spec_repo_topic D (se_topic_segments e)
      then case contract_from_string D (se_contract_id e) of
             None \<Rightarrow> []
           | Some parsed \<Rightarrow>
               (case bimap_get_by_right (service_manager_map L) (CA_StellarContract parsed) of
                  None \<Rightarrow> []
                | Some service_id \<Rightarrow>
                    (case decode_stellar_event_string_field D (se_value e) ''repo'' of
                       None \<Rightarrow> []
                     | Some uri_str \<Rightarrow>
                         (case uri_try_from D uri_str of
                            Inr uri \<Rightarrow> [DC_ChangeServiceUri service_id uri]
                          | Inl _ \<Rightarrow> [])))
      else [])"

definition handle_stellar ::
  "event_decoders \<Rightarrow> wavs_db \<Rightarrow> lookup_maps \<Rightarrow> stellar_event_data \<Rightarrow> stellar_rpc_id list \<Rightarrow> dispatcher_command list" where
  "handle_stellar D db L e rpc_ids =
     stellar_uri_commands D L e @
     trigger_commands db L
       (List.map_filter (bimap_get_by_left (triggers_by_stellar_contract_event L)) rpc_ids)
       (TD_StellarContractEvent e)"

text \<open>An update event without a valid URI is skipped altogether, also for triggers on that event.\<close>

definition cosmos_event_commands ::
  "event_decoders \<Rightarrow> wavs_db \<Rightarrow> lookup_maps \<Rightarrow> chain_key \<Rightarrow> u64 \<Rightarrow> stream_trigger_cosmos_contract_event \<Rightarrow>
   dispatcher_command list" where
  "cosmos_event_commands D db L chain block_height ce =
     (let event = stc_event ce;
          triggers = (case get_cloned (triggers_by_cosmos_contract_event L)
                              (chain, stc_contract_address ce, ty event) of
                        Some ids \<Rightarrow> trigger_commands db L ids
                          (TD_CosmosContractEvent \<lparr>ce_contract_address = stc_contract_address ce, ce_chain = chain,
                             ce_event = event, ce_block_height = block_height, ce_event_index = stc_event_index ce\<rparr>)
                      | None \<Rightarrow> [])
      in if cosmos_event_is_type D event EVENT_TYPE
         then case find_map (\<lambda>(key, value).
                  if key = EVENT_ATTR_KEY_SERVICE_URI
                  then (case uri_try_from D value of Inr uri \<Rightarrow> Some uri | Inl _ \<Rightarrow> None) else None)
                  (attributes event) of
                None \<Rightarrow> []
              | Some service_uri \<Rightarrow>
                  (case bimap_get_by_right (service_manager_map L) (CA_Cosmos (stc_contract_address ce)) of
                     Some service_id \<Rightarrow> [DC_ChangeServiceUri service_id service_uri]
                   | None \<Rightarrow> []) @ triggers
         else triggers)"

definition process_blocks :: "wavs_db \<Rightarrow> chain_key \<Rightarrow> u64 \<Rightarrow> lookup_maps \<Rightarrow> dispatcher_command list \<times> lookup_maps" where
  "process_blocks db chain block_height L =
     (case nonzero_new block_height of
        None \<Rightarrow> ([], L)
      | Some height \<Rightarrow>
          let (hits, L') = lookup_block_tick chain height L;
              firing = map fst hits
          in (if firing \<noteq> [] then trigger_commands db L' firing (TD_BlockInterval chain height) else [], L'))"

definition handle_cosmos ::
  "event_decoders \<Rightarrow> wavs_db \<Rightarrow> chain_key \<Rightarrow> stream_trigger_cosmos_contract_event list \<Rightarrow> u64 \<Rightarrow> lookup_maps \<Rightarrow>
   dispatcher_command list \<times> lookup_maps" where
  "handle_cosmos D db chain contract_events block_height L =
     (let (blocks, L') = process_blocks db chain block_height L
      in (concat (map (cosmos_event_commands D db L chain block_height) contract_events) @ blocks, L'))"

definition handle_cron :: "wavs_db \<Rightarrow> lookup_maps \<Rightarrow> (timestamp \<times> lookup_id list) list \<Rightarrow> dispatcher_command list" where
  "handle_cron db L hits =
     concat (map (\<lambda>(scheduled_time, ids).
       List.map_filter (\<lambda>i. map_option (\<lambda>cfg. DC_Trigger \<lparr>ta_config = cfg, ta_data = TD_Cron scheduled_time\<rparr>)
         (get_trigger_config db L i)) ids) hits)"

section \<open>ATProto\<close>

definition strip_suffix :: "string \<Rightarrow> string \<Rightarrow> string option" where
  "strip_suffix s suf =
     (if length suf \<le> length s \<and> drop (length s - length suf) s = suf
      then Some (take (length s - length suf) s) else None)"

definition matches_collection_pattern :: "string \<Rightarrow> string \<Rightarrow> bool" where
  "matches_collection_pattern pattern actual =
     (if pattern = actual then True
      else case strip_suffix pattern ''.*'' of
             Some prefix' \<Rightarrow>
               starts_with actual prefix' \<and> length actual > length prefix' \<and>
               starts_with (drop (length prefix') actual) ''.''
           | None \<Rightarrow> False)"

definition extend_ids :: "lookup_id list \<Rightarrow> lookup_id list \<Rightarrow> lookup_id list" where
  "extend_ids ids matched = fold List.insert ids matched"

definition atproto_matched :: "lookup_maps \<Rightarrow> at_proto_data \<Rightarrow> lookup_id list" where
  "atproto_matched L e =
     (let exact = (\<lambda>key. entry_ids (triggers_by_atproto_event_exact L) key);
          c = ap_collection e; r = ap_repo e; a = ap_action e;
          m1 = extend_ids (exact (c, Some r, Some a)) [];
          m2 = extend_ids (exact (c, Some r, None)) m1;
          m3 = extend_ids (exact (c, None, Some a)) m2;
          m4 = extend_ids (exact (c, None, None)) m3
      in fold (\<lambda>((pattern, repo_filter, action_filter), ids) m.
            if matches_collection_pattern pattern c
               \<and> (case repo_filter of Some d \<Rightarrow> d = r | None \<Rightarrow> True)
               \<and> (case action_filter of Some f \<Rightarrow> f = a | None \<Rightarrow> True)
            then extend_ids ids m else m)
          (triggers_by_atproto_event_pattern L) m4)"

definition handle_atproto :: "wavs_db \<Rightarrow> lookup_maps \<Rightarrow> at_proto_data \<Rightarrow> dispatcher_command list" where
  "handle_atproto db L e =
     (let matched = atproto_matched L e
      in if matched \<noteq> [] then trigger_commands db L matched (TD_AtProtoEvent e) else [])"

section \<open>One item\<close>

text \<open>Everything but local commands.\<close>

fun handle_event ::
  "event_decoders \<Rightarrow> wavs_db \<Rightarrow> stream_triggers \<Rightarrow> lookup_maps \<Rightarrow>
   (trigger_error + dispatcher_command list) \<times> lookup_maps" where
  "handle_event D db (ST_Evm e) L = (handle_evm D db L e, L)"
| "handle_event D db (ST_StellarEvent e rpc_ids) L = (Inr (handle_stellar D db L e rpc_ids), L)"
| "handle_event D db (ST_Cosmos chain events height) L = map_prod Inr id (handle_cosmos D db chain events height L)"
| "handle_event D db (ST_EvmBlock chain height) L = map_prod Inr id (process_blocks db chain height L)"
| "handle_event D db (ST_StellarLedgerSequence chain ledger) L =
     map_prod Inr id (process_blocks db chain (ucast ledger) L)"
| "handle_event D db (ST_Cron hits) L = (Inr (handle_cron db L hits), L)"
| "handle_event D db (ST_AtProto e) L = (Inr (handle_atproto db L e), L)"
| "handle_event D db (ST_LocalCommand c) L = (Inr [], L)"

section \<open>Which triggers an event fires\<close>

fun triggered :: "dispatcher_command \<Rightarrow> trigger_action option" where
  "triggered (DC_Trigger a) = Some a"
| "triggered _ = None"

definition fired :: "dispatcher_command list \<Rightarrow> trigger_action list" where
  "fired cmds = List.map_filter triggered cmds"

lemma fired_append [simp]: "fired (xs @ ys) = fired xs @ fired ys"
  by (simp add: fired_def)

lemma fired_simps [simp]:
  "fired [] = []" "fired (DC_Trigger a # cmds) = a # fired cmds"
  "fired (DC_ChangeServiceUri s u # cmds) = fired cmds"
  by (simp_all add: fired_def)

lemma fired_trigger_commands [simp]:
  "fired (trigger_commands db L ids d) =
     map (\<lambda>cfg. \<lparr>ta_config = cfg, ta_data = d\<rparr>) (get_trigger_configs db L ids)"
proof -
  have "fired (map (\<lambda>cfg. DC_Trigger \<lparr>ta_config = cfg, ta_data = d\<rparr>) cfgs) =
      map (\<lambda>cfg. \<lparr>ta_config = cfg, ta_data = d\<rparr>) cfgs" for cfgs
    by (induction cfgs) simp_all
  then show ?thesis by (simp add: trigger_commands_def)
qed

lemma set_get_trigger_configs:
  "set (get_trigger_configs db L ids) =
     {cfg. (\<exists>i\<in>set ids. map_of (trigger_configs L) i = Some cfg) \<and> services_is_active db (tc_service_id cfg)}"
proof -
  have "set (List.map_filter f xs) = {y. \<exists>x\<in>set xs. f x = Some y}" for f :: "lookup_id \<Rightarrow> trigger_config option" and xs
    by (induction xs) (auto split: option.splits)
  then show ?thesis by (auto simp: get_trigger_configs_def)
qed

lemma distinct_map_filter_inj:
  assumes "distinct xs" "\<And>x y z. f x = Some z \<Longrightarrow> f y = Some z \<Longrightarrow> x = y"
  shows "distinct (List.map_filter f xs)"
  using assms(1)
proof (induction xs)
  case (Cons x xs)
  have "set (List.map_filter f xs) = {y. \<exists>x\<in>set xs. f x = Some y}"
    by (induction xs) (auto split: option.splits)
  with Cons assms(2) show ?case by (auto split: option.splits)
qed simp

lemma distinct_get_trigger_configs:
  assumes "complete_workflows L" "distinct ids"
  shows "distinct (get_trigger_configs db L ids)"
  unfolding get_trigger_configs_def
proof (intro distinct_filter distinct_map_filter_inj)
  fix i j cfg
  assume "map_of (trigger_configs L) i = Some cfg" "map_of (trigger_configs L) j = Some cfg"
  with assms(1) have "workflow_id_of L (tc_service_id cfg) (tc_workflow_id cfg) = Some i"
    "workflow_id_of L (tc_service_id cfg) (tc_workflow_id cfg) = Some j"
    unfolding complete_workflows_def by blast+
  then show "i = j" by simp
qed (rule assms(2))

subsection \<open>Collections\<close>

text \<open>What a collection filter means: the collection itself, or a prefix followed by a dot and a star for
  everything below the prefix.\<close>

definition collection_accepts :: "string \<Rightarrow> string \<Rightarrow> bool" where
  "collection_accepts pattern actual =
     (pattern = actual \<or> (\<exists>p rest. pattern = p @ ''.*'' \<and> actual = p @ ''.'' @ rest))"

lemma strip_suffix_iff: "strip_suffix s suf = Some p \<longleftrightarrow> s = p @ suf"
proof
  assume "strip_suffix s suf = Some p"
  then show "s = p @ suf"
    by (auto simp: strip_suffix_def split: if_splits) (metis append_take_drop_id)
qed (auto simp: strip_suffix_def)

lemma matches_collection_pattern_iff:
  "matches_collection_pattern pattern actual \<longleftrightarrow> collection_accepts pattern actual"
proof -
  have "(starts_with actual p \<and> length actual > length p \<and> starts_with (drop (length p) actual) ''.'')
      \<longleftrightarrow> (\<exists>rest. actual = p @ ''.'' @ rest)" for p
  proof
    assume a: "starts_with actual p \<and> length actual > length p \<and> starts_with (drop (length p) actual) ''.''"
    then have "actual = p @ drop (length p) actual" by (metis append_take_drop_id starts_with_def)
    moreover have "drop (length p) actual = ''.'' @ drop 1 (drop (length p) actual)"
      using a by (metis append_take_drop_id length_Cons list.size(3) One_nat_def starts_with_def)
    ultimately show "\<exists>rest. actual = p @ ''.'' @ rest" by metis
  qed (auto simp: starts_with_def)
  note tail = this
  show ?thesis
  proof (cases "strip_suffix pattern ''.*''")
    case None
    then have "pattern \<noteq> p @ ''.*''" for p using strip_suffix_iff [of pattern "''.*''" p] by simp
    with None show ?thesis by (simp add: matches_collection_pattern_def collection_accepts_def)
  next
    case (Some q)
    then have "pattern = q @ ''.*''" by (simp only: strip_suffix_iff)
    then have "(\<exists>p rest. pattern = p @ ''.*'' \<and> actual = p @ ''.'' @ rest) \<longleftrightarrow> (\<exists>rest. actual = q @ ''.'' @ rest)"
      by simp
    with Some tail [of q] show ?thesis
      unfolding matches_collection_pattern_def collection_accepts_def by simp
  qed
qed

lemma collection_accepts_no_star: "\<not> has_star pattern \<Longrightarrow> collection_accepts pattern actual \<longleftrightarrow> pattern = actual"
  by (auto simp: collection_accepts_def has_star_def)

subsection \<open>ATProto events\<close>

lemma set_extend_ids [simp]: "set (extend_ids ids m) = set ids \<union> set m"
  unfolding extend_ids_def by (induction ids arbitrary: m) auto

lemma distinct_extend_ids: "distinct m \<Longrightarrow> distinct (extend_ids ids m)"
  unfolding extend_ids_def by (induction ids arbitrary: m) auto

lemma fold_extend:
  "set (fold (\<lambda>(k, ids) m. if P k then extend_ids ids m else m) t m0) =
     set m0 \<union> (\<Union>(k, ids)\<in>set t. if P k then set ids else {})"
  "distinct m0 \<Longrightarrow> distinct (fold (\<lambda>(k, ids) m. if P k then extend_ids ids m else m) t m0)"
  by (induction t arbitrary: m0) (auto simp: distinct_extend_ids split: if_splits)

definition atproto_filter :: "at_proto_data \<Rightarrow> string option \<Rightarrow> at_proto_action option \<Rightarrow> bool" where
  "atproto_filter e repo_filter action_filter =
     ((repo_filter = None \<or> repo_filter = Some (ap_repo e)) \<and>
      (action_filter = None \<or> action_filter = Some (ap_action e)))"

lemma in_entry_ids: "i \<in> set (entry_ids t k) \<longleftrightarrow> (\<exists>ids. get_cloned t k = Some ids \<and> i \<in> set ids)"
  by (cases "get_cloned t k") (simp_all add: entry_ids_def)

lemma atproto_matched_eq:
  assumes "entries_ok (triggers_by_atproto_event_pattern L)"
  shows "i \<in> set (atproto_matched L e) \<longleftrightarrow>
      (\<exists>r a. atproto_filter e r a \<and> i \<in> indexed L (IK_AtProtoExact (ap_collection e, r, a))) \<or>
      (\<exists>p r a. collection_accepts p (ap_collection e) \<and> atproto_filter e r a \<and>
        i \<in> indexed L (IK_AtProtoPattern (p, r, a)))"
    and "distinct (atproto_matched L e)"
proof -
  let ?P = "\<lambda>(pattern, repo_filter, action_filter). matches_collection_pattern pattern (ap_collection e)
      \<and> (case repo_filter of Some d \<Rightarrow> d = ap_repo e | None \<Rightarrow> True)
      \<and> (case action_filter of Some f \<Rightarrow> f = ap_action e | None \<Rightarrow> True)"
  have P: "?P (p, r, a) \<longleftrightarrow> collection_accepts p (ap_collection e) \<and> atproto_filter e r a" for p r a
    by (auto simp: matches_collection_pattern_iff atproto_filter_def split: option.splits)
  obtain m4 where m4: "set m4 = (\<Union>(r, a)\<in>{(r, a). atproto_filter e r a}.
        set (entry_ids (triggers_by_atproto_event_exact L) (ap_collection e, r, a)))" "distinct m4"
    and eq: "atproto_matched L e = fold (\<lambda>(k, ids) m. if ?P k then extend_ids ids m else m)
        (triggers_by_atproto_event_pattern L) m4"
  proof
    let ?x = "\<lambda>r a. entry_ids (triggers_by_atproto_event_exact L) (ap_collection e, r, a)"
    let ?m = "extend_ids (?x None None) (extend_ids (?x None (Some (ap_action e)))
        (extend_ids (?x (Some (ap_repo e)) None) (extend_ids (?x (Some (ap_repo e)) (Some (ap_action e))) [])))"
    show "set ?m = (\<Union>(r, a)\<in>{(r, a). atproto_filter e r a}. set (?x r a))"
      by (auto simp: atproto_filter_def)
    show "distinct ?m" by (simp add: distinct_extend_ids)
    show "atproto_matched L e = fold (\<lambda>(k, ids) m. if ?P k then extend_ids ids m else m)
        (triggers_by_atproto_event_pattern L) ?m"
      by (simp add: atproto_matched_def Let_def case_prod_unfold)
  qed
  show "distinct (atproto_matched L e)" unfolding eq by (rule fold_extend(2) [OF m4(2)])
  have wf: "table_wf (triggers_by_atproto_event_pattern L)" using assms by (simp add: entries_ok_def)
  have "(\<exists>k ids. (k, ids) \<in> set (triggers_by_atproto_event_pattern L) \<and> ?P k \<and> i \<in> set ids) \<longleftrightarrow>
      (\<exists>k. ?P k \<and> i \<in> set (entry_ids (triggers_by_atproto_event_pattern L) k))"
    unfolding in_set_get_cloned [OF wf] in_entry_ids by blast
  also have "\<dots> \<longleftrightarrow> (\<exists>p r a. collection_accepts p (ap_collection e) \<and> atproto_filter e r a \<and>
        i \<in> indexed L (IK_AtProtoPattern (p, r, a)))"
    using P by (metis (no_types, lifting) indexed.simps(7) prod_cases3)
  finally have pat: "(\<exists>k ids. (k, ids) \<in> set (triggers_by_atproto_event_pattern L) \<and> ?P k \<and> i \<in> set ids) \<longleftrightarrow> \<dots>" .
  have "i \<in> set (atproto_matched L e) \<longleftrightarrow> i \<in> set m4 \<or>
      (\<exists>k ids. (k, ids) \<in> set (triggers_by_atproto_event_pattern L) \<and> ?P k \<and> i \<in> set ids)"
    unfolding eq fold_extend(1) by (fastforce split: if_splits)
  then show "i \<in> set (atproto_matched L e) \<longleftrightarrow>
      (\<exists>r a. atproto_filter e r a \<and> i \<in> indexed L (IK_AtProtoExact (ap_collection e, r, a))) \<or>
      (\<exists>p r a. collection_accepts p (ap_collection e) \<and> atproto_filter e r a \<and>
        i \<in> indexed L (IK_AtProtoPattern (p, r, a)))"
    unfolding pat m4(1) by auto
qed

subsection \<open>The theorems\<close>

text \<open>The data a trigger is fired with by an EVM log or an ATProto event, if it is.\<close>

fun fires_on :: "trigger \<Rightarrow> stream_triggers \<Rightarrow> trigger_data option" where
  "fires_on (EvmContractEvent address chain event_hash) (ST_Evm e) =
     (if chain = et_chain e \<and> address = lg_address (et_log e) \<and> lg_topics (et_log e) \<noteq> [] \<and>
         event_hash = hd (lg_topics (et_log e))
      then Some (evm_trigger_data e) else None)"
| "fires_on (AtProtoEvent collection repo_did action) (ST_AtProto e) =
     (if collection_accepts collection (ap_collection e) \<and> atproto_filter e repo_did action
      then Some (TD_AtProtoEvent e) else None)"
| "fires_on _ _ = None"

definition expected_actions :: "wavs_db \<Rightarrow> lookup_maps \<Rightarrow> stream_triggers \<Rightarrow> trigger_action set" where
  "expected_actions db L st =
     {a. (\<exists>i. map_of (trigger_configs L) i = Some (ta_config a)) \<and>
         services_is_active db (tc_service_id (ta_config a)) \<and>
         fires_on (tc_trigger (ta_config a)) st = Some (ta_data a)}"

lemma exact_index:
  assumes "lookup_reachable C E True L" "k \<noteq> IK_Stellar"
  shows "i \<in> indexed L k \<longleftrightarrow>
    (\<exists>cfg. map_of (trigger_configs L) i = Some cfg \<and> index_key_of (tc_trigger cfg) = Some k)"
  using lookup_reachable_inv [OF assms(1)] assms(2)
  unfolding lookup_inv_def sound_index_def complete_index_def by blast

lemma fired_uri_commands: "evm_uri_commands D L lg h = Inr uris \<Longrightarrow> fired uris = []"
  by (auto simp: evm_uri_commands_def result_iffs split: if_splits sum.splits option.splits)

lemma index_key_evm: "index_key_of t = Some (IK_Evm (c, a, h)) \<longleftrightarrow> t = EvmContractEvent a c h"
  by (cases t) auto

lemma handle_evm_fired:
  assumes reach: "lookup_reachable C E True L" and h: "handle_evm D db L e = Inr cmds"
  shows "distinct (fired cmds) \<and> set (fired cmds) = expected_actions db L (ST_Evm e)"
proof (cases "lg_topics (et_log e)")
  case Nil
  have none: "fires_on t (ST_Evm e) = None" for t using Nil by (cases t) simp_all
  from Nil h have "cmds = []" by (simp add: handle_evm_def)
  then show ?thesis by (simp add: expected_actions_def none)
next
  case (Cons event_hash rest)
  let ?k = "(et_chain e, lg_address (et_log e), event_hash)"
  let ?ids = "entry_ids (triggers_by_evm_contract_event L) ?k"
  have "fired cmds = map (\<lambda>cfg. \<lparr>ta_config = cfg, ta_data = evm_trigger_data e\<rparr>) (get_trigger_configs db L ?ids)"
    using h Cons fired_uri_commands
    by (auto simp: handle_evm_def result_iffs entry_ids_def get_trigger_configs_def split: option.splits)
  moreover have "distinct ?ids"
    using lookup_reachable_sets [OF reach] by (simp add: sets_ok_def entries_ok_def)
  moreover have "complete_workflows L" using lookup_reachable_inv [OF reach] by simp
  ultimately have d: "distinct (fired cmds)"
    by (simp add: distinct_get_trigger_configs distinct_map inj_on_def)
  have ids: "i \<in> set ?ids \<longleftrightarrow> (\<exists>cfg. map_of (trigger_configs L) i = Some cfg \<and>
      tc_trigger cfg = EvmContractEvent (lg_address (et_log e)) (et_chain e) event_hash)" for i
    using exact_index [OF reach, of "IK_Evm ?k" i] by (simp add: index_key_evm)
  have fires: "fires_on t (ST_Evm e) = Some d \<longleftrightarrow>
      t = EvmContractEvent (lg_address (et_log e)) (et_chain e) event_hash \<and> d = evm_trigger_data e" for t d
    using Cons by (cases t) auto
  have "set (fired cmds) = expected_actions db L (ST_Evm e)"
    unfolding expected_actions_def fires
      \<open>fired cmds = _\<close> set_map set_get_trigger_configs
    by (fastforce simp: ids image_iff)
  with d show ?thesis ..
qed

lemma index_key_exact:
  "index_key_of t = Some (IK_AtProtoExact (c, r, a)) \<longleftrightarrow> t = AtProtoEvent c r a \<and> \<not> has_star c"
  by (cases t) (auto split: if_splits)

lemma index_key_pattern:
  "index_key_of t = Some (IK_AtProtoPattern (c, r, a)) \<longleftrightarrow> t = AtProtoEvent c r a \<and> has_star c"
  by (cases t) (auto split: if_splits)

lemma handle_atproto_fired:
  assumes reach: "lookup_reachable C E True L"
  shows "distinct (fired (handle_atproto db L e)) \<and>
    set (fired (handle_atproto db L e)) = expected_actions db L (ST_AtProto e)"
proof -
  let ?ids = "atproto_matched L e"
  have ok: "entries_ok (triggers_by_atproto_event_pattern L)"
    using lookup_reachable_sets [OF reach] by (simp add: sets_ok_def)
  have f: "fired (handle_atproto db L e) =
      map (\<lambda>cfg. \<lparr>ta_config = cfg, ta_data = TD_AtProtoEvent e\<rparr>) (get_trigger_configs db L ?ids)"
    by (simp add: handle_atproto_def Let_def get_trigger_configs_def)
  have "complete_workflows L" using lookup_reachable_inv [OF reach] by simp
  then have d: "distinct (fired (handle_atproto db L e))"
    using atproto_matched_eq(2) [OF ok]
    by (simp add: f distinct_get_trigger_configs distinct_map inj_on_def)
  have ids: "i \<in> set ?ids \<longleftrightarrow> (\<exists>cfg c r a. map_of (trigger_configs L) i = Some cfg \<and>
      tc_trigger cfg = AtProtoEvent c r a \<and> collection_accepts c (ap_collection e) \<and> atproto_filter e r a)" for i
  proof -
    let ?cfg = "\<lambda>c r a. \<exists>cfg. map_of (trigger_configs L) i = Some cfg \<and> tc_trigger cfg = AtProtoEvent c r a"
    have ex: "i \<in> indexed L (IK_AtProtoExact (c, r, a)) \<longleftrightarrow> ?cfg c r a \<and> \<not> has_star c" for c r a
      using exact_index [OF reach, of "IK_AtProtoExact (c, r, a)" i] by (auto simp: index_key_exact simp del: indexed.simps)
    have pa: "i \<in> indexed L (IK_AtProtoPattern (c, r, a)) \<longleftrightarrow> ?cfg c r a \<and> has_star c" for c r a
      using exact_index [OF reach, of "IK_AtProtoPattern (c, r, a)" i]
      by (auto simp: index_key_pattern simp del: indexed.simps)
    have "i \<in> set ?ids \<longleftrightarrow>
        (\<exists>r a. atproto_filter e r a \<and> ?cfg (ap_collection e) r a \<and> \<not> has_star (ap_collection e)) \<or>
        (\<exists>p r a. collection_accepts p (ap_collection e) \<and> atproto_filter e r a \<and> ?cfg p r a \<and> has_star p)"
      by (simp only: atproto_matched_eq(1) [OF ok] ex pa)
    also have "\<dots> \<longleftrightarrow> (\<exists>p r a. collection_accepts p (ap_collection e) \<and> atproto_filter e r a \<and> ?cfg p r a)"
      using collection_accepts_no_star [of _ "ap_collection e"] collection_accepts_def [of "ap_collection e" "ap_collection e"]
      by blast
    finally show ?thesis by blast
  qed
  have fires: "fires_on t (ST_AtProto e) = Some d \<longleftrightarrow> d = TD_AtProtoEvent e \<and>
      (\<exists>c r a. t = AtProtoEvent c r a \<and> collection_accepts c (ap_collection e) \<and> atproto_filter e r a)" for t d
    by (cases t) auto
  have "set (fired (handle_atproto db L e)) = expected_actions db L (ST_AtProto e)"
    unfolding expected_actions_def fires f set_map set_get_trigger_configs by (fastforce simp: ids image_iff)
  with d show ?thesis ..
qed

text \<open>A Cosmos item carries several contract events. An update event without a valid URI is skipped; any other
  fires the triggers on its contract, chain and type.\<close>

definition cosmos_event_skipped :: "event_decoders \<Rightarrow> stream_trigger_cosmos_contract_event \<Rightarrow> bool" where
  "cosmos_event_skipped D ce =
     (cosmos_event_is_type D (stc_event ce) EVENT_TYPE \<and>
      (\<forall>(key, value)\<in>set (attributes (stc_event ce)). key = EVENT_ATTR_KEY_SERVICE_URI \<longrightarrow> \<not> is_ok (uri_try_from D value)))"

definition expected_cosmos ::
  "event_decoders \<Rightarrow> wavs_db \<Rightarrow> lookup_maps \<Rightarrow> chain_key \<Rightarrow> u64 \<Rightarrow> stream_trigger_cosmos_contract_event \<Rightarrow> trigger_action set" where
  "expected_cosmos D db L chain height ce =
     (if cosmos_event_skipped D ce then {}
      else {a. (\<exists>i. map_of (trigger_configs L) i = Some (ta_config a)) \<and>
               services_is_active db (tc_service_id (ta_config a)) \<and>
               tc_trigger (ta_config a) = CosmosContractEvent (stc_contract_address ce) chain (ty (stc_event ce)) \<and>
               ta_data a = TD_CosmosContractEvent \<lparr>ce_contract_address = stc_contract_address ce, ce_chain = chain,
                 ce_event = stc_event ce, ce_block_height = height, ce_event_index = stc_event_index ce\<rparr>})"

lemma find_map_None: "find_map f xs = None \<longleftrightarrow> (\<forall>x\<in>set xs. f x = None)"
  by (induction xs) (auto split: option.splits)

lemma index_key_cosmos: "index_key_of t = Some (IK_Cosmos (c, a, y)) \<longleftrightarrow> t = CosmosContractEvent a c y"
  by (cases t) auto

lemma cosmos_event_fired:
  assumes reach: "lookup_reachable C E True L"
  shows "distinct (fired (cosmos_event_commands D db L chain height ce)) \<and>
    set (fired (cosmos_event_commands D db L chain height ce)) = expected_cosmos D db L chain height ce"
proof (cases "cosmos_event_skipped D ce")
  case True
  then have "find_map (\<lambda>(key, value).
      if key = EVENT_ATTR_KEY_SERVICE_URI
      then (case uri_try_from D value of Inr uri \<Rightarrow> Some uri | Inl _ \<Rightarrow> None) else None) (attributes (stc_event ce)) = None"
    by (fastforce simp: find_map_None cosmos_event_skipped_def split: sum.splits)
  then show ?thesis using True by (simp add: cosmos_event_commands_def cosmos_event_skipped_def expected_cosmos_def Let_def)
next
  case False
  let ?k = "(chain, stc_contract_address ce, ty (stc_event ce))"
  let ?ids = "entry_ids (triggers_by_cosmos_contract_event L) ?k"
  let ?d = "TD_CosmosContractEvent \<lparr>ce_contract_address = stc_contract_address ce, ce_chain = chain,
      ce_event = stc_event ce, ce_block_height = height, ce_event_index = stc_event_index ce\<rparr>"
  have "\<not> (cosmos_event_is_type D (stc_event ce) EVENT_TYPE \<and> find_map (\<lambda>(key, value).
      if key = EVENT_ATTR_KEY_SERVICE_URI
      then (case uri_try_from D value of Inr uri \<Rightarrow> Some uri | Inl _ \<Rightarrow> None) else None) (attributes (stc_event ce)) = None)"
    using False by (fastforce simp: find_map_None cosmos_event_skipped_def is_ok_def split: sum.splits if_splits)
  then have f: "fired (cosmos_event_commands D db L chain height ce) =
      map (\<lambda>cfg. \<lparr>ta_config = cfg, ta_data = ?d\<rparr>) (get_trigger_configs db L ?ids)"
    by (auto simp: cosmos_event_commands_def Let_def entry_ids_def get_trigger_configs_def split: option.splits)
  have "distinct ?ids" using lookup_reachable_sets [OF reach] by (simp add: sets_ok_def entries_ok_def)
  moreover have "complete_workflows L" using lookup_reachable_inv [OF reach] by simp
  ultimately have d: "distinct (fired (cosmos_event_commands D db L chain height ce))"
    by (simp add: f distinct_get_trigger_configs distinct_map inj_on_def)
  have ids: "i \<in> set ?ids \<longleftrightarrow> (\<exists>cfg. map_of (trigger_configs L) i = Some cfg \<and>
      tc_trigger cfg = CosmosContractEvent (stc_contract_address ce) chain (ty (stc_event ce)))" for i
    using exact_index [OF reach, of "IK_Cosmos ?k" i] by (simp add: index_key_cosmos)
  have "set (fired (cosmos_event_commands D db L chain height ce)) = expected_cosmos D db L chain height ce"
    unfolding f set_map set_get_trigger_configs expected_cosmos_def using False by (fastforce simp: ids image_iff)
  with d show ?thesis ..
qed

lemma evm_error_is_uri:
  assumes "handle_evm D db L e = Inl err"
  shows "\<exists>rest uri reason. lg_topics (et_log e) = service_uri_updated_hash D # rest \<and>
    decode_service_uri_updated D (lg_log_data (et_log e)) = Inr uri \<and> uri_try_from D uri = Inl reason \<and> err = TE_URICreation reason"
  using assms
  by (cases "lg_topics (et_log e)"; cases "uri_try_from D (projr (decode_service_uri_updated D (lg_log_data (et_log e))))")
    (auto simp: handle_evm_def evm_uri_commands_def split: if_splits sum.splits)


definition demo_decoders :: event_decoders where
  "demo_decoders =
     \<lparr>service_uri_updated_hash = replicate 32 1, decode_service_uri_updated = (\<lambda>d. Inr (map (\<lambda>b. char_of (unat b)) d)),
      uri_try_from = (\<lambda>u. if u = [] then Inl ''empty'' else Inr u),
      cosmos_event_is_type = (\<lambda>e t. ty e = t), decode_scval = (\<lambda>s. Some (ScSymbol (str_bytes s))),
      contract_from_string = (\<lambda>s. Some (str_bytes s))\<rparr>"

definition demo_evm_log :: "bytes \<Rightarrow> opaque \<Rightarrow> evm_log" where
  "demo_evm_log h d =
     \<lparr>lg_address = replicate 20 7, lg_topics = [h], lg_log_data = d, lg_removed = False,
      lg_block_hash = Some [1], lg_transaction_index = Some 0, lg_block_number = Some 5, lg_transaction_hash = Some [2],
      lg_log_index = Some 0, lg_block_timestamp = None\<rparr>"

definition demo_evm_event :: "bytes \<Rightarrow> opaque \<Rightarrow> evm_trigger" where
  "demo_evm_event h d =
     \<lparr>et_chain = \<lparr>namespace = ''evm'', chain_id = ''1''\<rparr>, et_log = demo_evm_log h d, et_block_number = 5,
      et_tx_hash = [2], et_block_hash = [1], et_tx_index = 0, et_block_timestamp = None, et_log_index = 0\<rparr>"

definition demo_evm_db :: wavs_db where
  "demo_evm_db = wavs_db_new\<lparr>db_services := [(demo_evm_service_id, demo_evm_service)]\<rparr>"


text \<open>
  C22: A new block fires only registered block interval triggers of this chain whose service is active, with the height of
  the block; a block of height zero fires nothing. The lookup tables stay in a reachable state.
\<close>

theorem block_fires_registered:
  assumes "lookup_reachable C E orderly L" "process_blocks db chain height L = (cmds, L')" "a \<in> set (fired cmds)"
  shows "lookup_reachable C E orderly L' \<and> height \<noteq> 0 \<and> ta_data a = TD_BlockInterval chain height \<and>
    services_is_active db (tc_service_id (ta_config a)) \<and>
    (\<exists>i n s e. map_of (trigger_configs L) i = Some (ta_config a) \<and> tc_trigger (ta_config a) = BlockInterval chain n s e)"
proof -
  obtain hits where t: "lookup_block_tick chain height L = (hits, L')" and nz: "height \<noteq> 0"
    and cmds: "fired cmds = map (\<lambda>cfg. \<lparr>ta_config = cfg, ta_data = TD_BlockInterval chain height\<rparr>)
        (get_trigger_configs db L' (map fst hits))"
    using assms(2,3) by (auto simp: process_blocks_def nonzero_new_def Let_def split: if_splits prod.splits)
  have inv: "lookup_inv L" using lookup_reachable_inv [OF assms(1)] by simp
  note tick = block_tick_inv [OF inv t]
  from assms(3) obtain i where i: "i \<in> fst ` set hits" "map_of (trigger_configs L) i = Some (ta_config a)"
    and a: "services_is_active db (tc_service_id (ta_config a))" "ta_data a = TD_BlockInterval chain height"
    using tick(6) by (auto simp: cmds set_get_trigger_configs) (force simp: image_iff)
  have "index_key_of (tc_trigger (ta_config a)) = Some (IK_Block chain)"
    using inv i tick(4) unfolding lookup_inv_def sound_index_def by fastforce
  then have "\<exists>n s e. tc_trigger (ta_config a) = BlockInterval chain n s e"
    by (cases "tc_trigger (ta_config a)") (auto split: if_splits)
  with i a nz lr_block [OF assms(1) t] show ?thesis by blast
qed

definition demo_tick_service :: service where
  "demo_tick_service = service_new_simple None (BlockInterval \<lparr>namespace = ''evm'', chain_id = ''1''\<rparr> 2 None None)
     (Digest (replicate 32 0)) SubmitNone demo_manager"

definition demo_block_lookup :: lookup_maps where
  "demo_block_lookup =
     fst (snd (lookup_add_service demo_crypto demo_trigger_env demo_tick_service lookup_maps_new table_new))"

theorem block_fires_registered_witness:
  "let r = process_blocks (wavs_db_new\<lparr>db_services := [(service_id_of demo_crypto demo_tick_service, demo_tick_service)]\<rparr>)
         \<lparr>namespace = ''evm'', chain_id = ''1''\<rparr> 8 demo_block_lookup
   in \<exists>a\<in>set (fired (fst r)). ta_data a = TD_BlockInterval \<lparr>namespace = ''evm'', chain_id = ''1''\<rparr> 8 \<and>
        lookup_reachable demo_crypto demo_trigger_env True (snd r)"
proof -
  let ?c = "\<lparr>namespace = ''evm'', chain_id = ''1''\<rparr>"
  let ?s = "service_id_of demo_crypto demo_tick_service"
  let ?db = "wavs_db_new\<lparr>db_services := [(?s, demo_tick_service)]\<rparr>"
  let ?cfg = "\<lparr>tc_service_id = ?s, tc_workflow_id = workflow_id_default, tc_trigger = BlockInterval ?c 2 None None\<rparr>"
  obtain r L' c' where a:
    "lookup_add_service demo_crypto demo_trigger_env demo_tick_service lookup_maps_new table_new = (r, L', c')"
    by (metis prod_cases3)
  have "lookup_reachable demo_crypto demo_trigger_env True L'"
    by (rule lr_add [OF lr_new _ _ a])
      (simp_all add: demo_tick_service_def service_new_simple_def lookup_maps_new_def omap_wf_def workflow_map_def)
  then have reach: "lookup_reachable demo_crypto demo_trigger_env True demo_block_lookup"
    by (simp add: demo_block_lookup_def a)
  have L: "trigger_configs demo_block_lookup = [(0, ?cfg)]"
    "block_schedulers demo_block_lookup =
       [(?c, \<lparr>sch_triggers = [], unadded_triggers = [block_interval_state_new 0 2 None None], trigger_ids = {0}\<rparr>)]"
    by (simp_all add: demo_block_lookup_def lookup_add_service_def Let_def trigger_configs_of_def demo_tick_service_def
        service_new_simple_def lookup_add_trigger_def lookup_maps_new_def workflow_map_def block_scheduler_of_def
        scheduler_add_trigger_def scheduler_new_def block_interval_state_new_def table_insert_def table_new_def get_cloned_def)
  have active: "services_is_active ?db ?s"
    by (simp add: services_is_active_iff get_cloned_def demo_tick_service_def service_new_simple_def)
  have "fst (lookup_block_tick ?c 8 demo_block_lookup) = [(0, 8)]"
    by (simp add: lookup_block_tick_def L get_cloned_def scheduler_tick_def block_interval_state_new_def
        block_initialize_def nonzero_new_def Let_def saturating_sub_def div_ceil_def entry_push_def block_interval_hit_def)
  moreover have "trigger_configs (snd (lookup_block_tick ?c 8 demo_block_lookup)) = [(0, ?cfg)]"
    using block_tick_inv(6) [of demo_block_lookup ?c 8 _ "snd (lookup_block_tick ?c 8 demo_block_lookup)"]
      lookup_reachable_inv [OF reach] L(1) by (metis prod.collapse)
  ultimately have "fst (process_blocks ?db ?c 8 demo_block_lookup)
      = [DC_Trigger \<lparr>ta_config = ?cfg, ta_data = TD_BlockInterval ?c 8\<rparr>]"
    using active by (simp add: process_blocks_def nonzero_new_def case_prod_unfold Let_def trigger_commands_def get_trigger_configs_def)
  then have "\<lparr>ta_config = ?cfg, ta_data = TD_BlockInterval ?c 8\<rparr> \<in> set (fired (fst (process_blocks ?db ?c 8 demo_block_lookup)))"
    by simp
  then show ?thesis
    using block_fires_registered [OF reach, where db = ?db and chain = ?c and height = 8,
        OF prod.collapse [symmetric]] by (auto simp: Let_def)
qed

end
