(* ===== verification/Evm_Subscription.thy ===== *)
theory Evm_Subscription
  imports Db Slotmap
begin

text \<open>
  The subscriptions of an EVM event stream, from
  \<^verbatim>\<open>subsystems/trigger/streams/evm_stream/client/subscription.rs\<close> with the request ids of
  \<^verbatim>\<open>rpc_types/id.rs\<close> and the requests of \<^verbatim>\<open>rpc_types/outbound.rs\<close>: what the node wants to hear (blocks,
  logs, pending transactions), which requests are in flight, which subscriptions have landed and which
  of them is the most recent of its category. Each method is one atomic step; requests go to the
  lists \<open>sb_sent\<close> and, with the delay of a retry, \<open>sb_delayed\<close>. The channel to the connection is open
  while the process runs, so sending does not fail.
\<close>

section \<open>Kinds\<close>

datatype rpc_request_kind =
    SubscribeNewHeads
  | SubscribeLogs "evm_address set" "bytes set"
  | SubscribeNewPendingTransactions
  | UnsubscribeId string

datatype subscription_kind =
    SK_NewHeads
  | SK_Logs "evm_address set" "bytes set"
  | SK_NewPendingTransactions

datatype subscription_category = Cat_NewHeads | Cat_AllLogs | Cat_NewPendingTransactions

datatype subscribe_params =
    SP_NewHeads
  | SP_Logs "evm_address set" "bytes set"
  | SP_NewPendingTransactions

fun subscription_kind_of :: "rpc_request_kind \<Rightarrow> subscription_kind option" where
  "subscription_kind_of SubscribeNewHeads = Some SK_NewHeads"
| "subscription_kind_of (SubscribeLogs a t) = Some (SK_Logs a t)"
| "subscription_kind_of SubscribeNewPendingTransactions = Some SK_NewPendingTransactions"
| "subscription_kind_of (UnsubscribeId _) = None"

fun kind_category :: "subscription_kind \<Rightarrow> subscription_category" where
  "kind_category SK_NewHeads = Cat_NewHeads"
| "kind_category (SK_Logs _ _) = Cat_AllLogs"
| "kind_category SK_NewPendingTransactions = Cat_NewPendingTransactions"

fun request_category :: "rpc_request_kind \<Rightarrow> subscription_category option" where
  "request_category SubscribeNewHeads = Some Cat_NewHeads"
| "request_category (SubscribeLogs _ _) = Some Cat_AllLogs"
| "request_category SubscribeNewPendingTransactions = Some Cat_NewPendingTransactions"
| "request_category (UnsubscribeId _) = None"

fun params_kind :: "subscribe_params \<Rightarrow> rpc_request_kind" where
  "params_kind SP_NewHeads = SubscribeNewHeads"
| "params_kind (SP_Logs a t) = SubscribeLogs a t"
| "params_kind SP_NewPendingTransactions = SubscribeNewPendingTransactions"

datatype rpc_request =
    RR_Subscribe slot_key subscribe_params
  | RR_Unsubscribe slot_key string

fun rpc_request_id :: "rpc_request \<Rightarrow> slot_key" where
  "rpc_request_id (RR_Subscribe i _) = i"
| "rpc_request_id (RR_Unsubscribe i _) = i"

datatype rpc_response =
    NewSubscription string
  | UnsubscribeAck bool
  | OtherResponse opaque

datatype rpc_flight_state = ActivateOnLand rpc_request_kind | UnsubscribeOnLand

section \<open>State\<close>

record log_filter =
  lf_addresses :: "evm_address set"
  lf_topics :: "bytes set"

record subscription_id_categories =
  cat_ids :: "string list"
  most_recent :: "string option"

record 'sm evm_subscriptions =
  sb_blocks :: bool
  sb_logs :: "log_filter option"
  sb_pending_transactions :: bool
  sb_is_connected :: bool
  id_lookup :: "(string, subscription_kind) table"
  id_categories :: "(subscription_category, subscription_id_categories) table"
  sb_rpc_ids :: 'sm
  in_flight :: "(slot_key, rpc_flight_state) table"
  most_recent_in_flight :: "(subscription_category, slot_key) table"
  sb_sent :: "rpc_request list"
  sb_delayed :: "rpc_request list"

definition subscriptions_new :: "(rpc_request_kind, 'sm) slotmap_ops \<Rightarrow> 'sm evm_subscriptions" where
  "subscriptions_new M =
     \<lparr>sb_blocks = False, sb_logs = None, sb_pending_transactions = False, sb_is_connected = False,
      id_lookup = table_new, id_categories = table_new, sb_rpc_ids = sm_new M, in_flight = table_new,
      most_recent_in_flight = table_new, sb_sent = [], sb_delayed = []\<rparr>"

subsection \<open>Ids of subscriptions\<close>

definition category_entry :: "'sm evm_subscriptions \<Rightarrow> subscription_category \<Rightarrow> subscription_id_categories" where
  "category_entry S c =
     (case get_cloned (id_categories S) c of None \<Rightarrow> \<lparr>cat_ids = [], most_recent = None\<rparr> | Some d \<Rightarrow> d)"

definition ids_clear :: "'sm evm_subscriptions \<Rightarrow> 'sm evm_subscriptions" where
  "ids_clear S = S\<lparr>id_lookup := table_clear (id_lookup S), id_categories := table_clear (id_categories S)\<rparr>"

definition ids_insert :: "string \<Rightarrow> subscription_kind \<Rightarrow> bool \<Rightarrow> 'sm evm_subscriptions \<Rightarrow> 'sm evm_subscriptions" where
  "ids_insert i kind most_recent_category S =
     (let d = category_entry S (kind_category kind);
          d1 = d\<lparr>cat_ids := List.insert i (cat_ids d)\<rparr>;
          d2 = (if most_recent_category then d1\<lparr>most_recent := Some i\<rparr> else d1)
      in S\<lparr>id_categories := table_insert (kind_category kind) d2 (id_categories S),
           id_lookup := table_insert i kind (id_lookup S)\<rparr>)"

definition list_by_category :: "'sm evm_subscriptions \<Rightarrow> subscription_category \<Rightarrow> string list" where
  "list_by_category S c = (case get_cloned (id_categories S) c of Some d \<Rightarrow> cat_ids d | None \<Rightarrow> [])"

definition is_most_recent :: "'sm evm_subscriptions \<Rightarrow> string \<Rightarrow> subscription_category \<Rightarrow> bool" where
  "is_most_recent S i c =
     (case get_cloned (id_categories S) c of
        Some d \<Rightarrow> (case most_recent d of Some j \<Rightarrow> j = i | None \<Rightarrow> True)
      | None \<Rightarrow> False)"

definition ids_remove :: "string \<Rightarrow> 'sm evm_subscriptions \<Rightarrow> 'sm evm_subscriptions" where
  "ids_remove i S =
     S\<lparr>id_lookup := snd (table_remove i (id_lookup S)),
       id_categories := map (\<lambda>(c, d). (c, d\<lparr>cat_ids := removeAll i (cat_ids d),
           most_recent := (if most_recent d = Some i then None else most_recent d)\<rparr>)) (id_categories S)\<rparr>"

definition ids_compare :: "'sm evm_subscriptions \<Rightarrow> string \<Rightarrow> (subscription_kind \<Rightarrow> bool) \<Rightarrow> bool" where
  "ids_compare S i f = (case get_cloned (id_lookup S) i of None \<Rightarrow> False | Some kind \<Rightarrow> f kind)"

definition ids_exists :: "'sm evm_subscriptions \<Rightarrow> string \<Rightarrow> bool" where
  "ids_exists S i = contains_key (id_lookup S) i"

subsection \<open>Requests in flight\<close>

definition in_flight_clear :: "'sm evm_subscriptions \<Rightarrow> 'sm evm_subscriptions" where
  "in_flight_clear S = S\<lparr>in_flight := table_clear (in_flight S),
     most_recent_in_flight := table_clear (most_recent_in_flight S)\<rparr>"

definition in_flight_insert :: "slot_key \<Rightarrow> rpc_request_kind \<Rightarrow> 'sm evm_subscriptions \<Rightarrow> 'sm evm_subscriptions" where
  "in_flight_insert i kind S =
     S\<lparr>most_recent_in_flight :=
         (case request_category kind of
            Some c \<Rightarrow> table_insert c i (most_recent_in_flight S) | None \<Rightarrow> most_recent_in_flight S),
       in_flight := table_insert i (ActivateOnLand kind) (in_flight S)\<rparr>"

definition set_unsubscribe :: "subscription_category \<Rightarrow> 'sm evm_subscriptions \<Rightarrow> 'sm evm_subscriptions" where
  "set_unsubscribe c S =
     S\<lparr>in_flight := map (\<lambda>(i, st). (i, case st of
           ActivateOnLand kind \<Rightarrow> if request_category kind = Some c then UnsubscribeOnLand else st
         | UnsubscribeOnLand \<Rightarrow> st)) (in_flight S)\<rparr>"

definition will_subscribe :: "rpc_request_kind \<Rightarrow> 'sm evm_subscriptions \<Rightarrow> bool" where
  "will_subscribe kind S = list_ex (\<lambda>(_, st). st = ActivateOnLand kind) (in_flight S)"

definition in_flight_remove ::
  "slot_key \<Rightarrow> 'sm evm_subscriptions \<Rightarrow>
   rpc_flight_state option \<times> subscription_category option \<times> 'sm evm_subscriptions" where
  "in_flight_remove i S =
     (let (removed, t) = table_remove i (in_flight S);
          S1 = S\<lparr>in_flight := t\<rparr>;
          category = (case removed of Some (ActivateOnLand kind) \<Rightarrow> request_category kind | _ \<Rightarrow> None)
      in case category of
           Some c \<Rightarrow>
             (if get_cloned (most_recent_in_flight S) c = Some i
              then (removed, Some c, S1\<lparr>most_recent_in_flight := snd (table_remove c (most_recent_in_flight S))\<rparr>)
              else (removed, None, S1))
         | None \<Rightarrow> (removed, None, S1))"

definition any_active_in_flight :: "'sm evm_subscriptions \<Rightarrow> bool" where
  "any_active_in_flight S = list_ex (\<lambda>(_, st). st \<noteq> UnsubscribeOnLand) (in_flight S)"

section \<open>Methods\<close>

definition rpc_ids_insert ::
  "(rpc_request_kind, 'sm) slotmap_ops \<Rightarrow> rpc_request_kind \<Rightarrow> 'sm evm_subscriptions \<Rightarrow> slot_key \<times> 'sm evm_subscriptions" where
  "rpc_ids_insert M kind S = (let (i, m) = sm_insert M kind (sb_rpc_ids S) in (i, S\<lparr>sb_rpc_ids := m\<rparr>))"

definition rpc_ids_clear_all :: "(rpc_request_kind, 'sm) slotmap_ops \<Rightarrow> 'sm evm_subscriptions \<Rightarrow> 'sm evm_subscriptions" where
  "rpc_ids_clear_all M S = S\<lparr>sb_rpc_ids := sm_clear M (sb_rpc_ids S)\<rparr>"

definition send_rpc ::
  "(rpc_request_kind, 'sm) slotmap_ops \<Rightarrow> rpc_request \<Rightarrow> bool \<Rightarrow> 'sm evm_subscriptions \<Rightarrow> 'sm evm_subscriptions" where
  "send_rpc M req delay S =
     (case sm_get M (sb_rpc_ids S) (rpc_request_id req) of
        Some kind \<Rightarrow>
          let S1 = in_flight_insert (rpc_request_id req) kind S
          in if delay then S1\<lparr>sb_delayed := sb_delayed S1 @ [req]\<rparr> else S1\<lparr>sb_sent := sb_sent S1 @ [req]\<rparr>
      | None \<Rightarrow> S)"

definition send_subscribe ::
  "(rpc_request_kind, 'sm) slotmap_ops \<Rightarrow> subscribe_params \<Rightarrow> 'sm evm_subscriptions \<Rightarrow> 'sm evm_subscriptions" where
  "send_subscribe M params S =
     (let (i, S1) = rpc_ids_insert M (params_kind params) S in send_rpc M (RR_Subscribe i params) False S1)"

definition send_unsubscribe ::
  "(rpc_request_kind, 'sm) slotmap_ops \<Rightarrow> bool \<Rightarrow> string \<Rightarrow> 'sm evm_subscriptions \<Rightarrow> 'sm evm_subscriptions" where
  "send_unsubscribe M delay sid S =
     (let (i, S1) = rpc_ids_insert M (UnsubscribeId sid) S in send_rpc M (RR_Unsubscribe i sid) delay S1)"

text \<open>After the delay a request is sent only if it is still in flight as it was.\<close>

definition delayed_send :: "rpc_request \<Rightarrow> 'sm evm_subscriptions \<Rightarrow> 'sm evm_subscriptions" where
  "delayed_send req S =
     (let S1 = S\<lparr>sb_delayed := remove1 req (sb_delayed S)\<rparr>;
          should_send =
            (case get_cloned (in_flight S) (rpc_request_id req) of
               Some (ActivateOnLand (UnsubscribeId sid)) \<Rightarrow>
                 (case req of RR_Unsubscribe _ sid' \<Rightarrow> sid = sid' | _ \<Rightarrow> False)
             | Some (ActivateOnLand _) \<Rightarrow> True
             | _ \<Rightarrow> False)
      in if should_send then S1\<lparr>sb_sent := sb_sent S1 @ [req]\<rparr> else S1)"

definition unsubscribe ::
  "(rpc_request_kind, 'sm) slotmap_ops \<Rightarrow> subscription_category \<Rightarrow> 'sm evm_subscriptions \<Rightarrow> 'sm evm_subscriptions" where
  "unsubscribe M c S = fold (send_unsubscribe M False) (list_by_category S c) (set_unsubscribe c S)"

definition resubscribe_one ::
  "(rpc_request_kind, 'sm) slotmap_ops \<Rightarrow> subscribe_params \<Rightarrow> 'sm evm_subscriptions \<Rightarrow> 'sm evm_subscriptions" where
  "resubscribe_one M params S = (if will_subscribe (params_kind params) S then S else send_subscribe M params S)"

definition resubscribe :: "(rpc_request_kind, 'sm) slotmap_ops \<Rightarrow> 'sm evm_subscriptions \<Rightarrow> 'sm evm_subscriptions" where
  "resubscribe M S =
     (if \<not> sb_is_connected S then S
      else let S1 = (if sb_blocks S then resubscribe_one M SP_NewHeads S else S);
               S2 = (case sb_logs S1 of
                       None \<Rightarrow> S1
                     | Some f \<Rightarrow> resubscribe_one M (SP_Logs (lf_addresses f) (lf_topics f)) S1)
           in if sb_pending_transactions S2 then resubscribe_one M SP_NewPendingTransactions S2 else S2)"

definition toggle_block_height :: "(rpc_request_kind, 'sm) slotmap_ops \<Rightarrow> bool \<Rightarrow> 'sm evm_subscriptions \<Rightarrow> 'sm evm_subscriptions" where
  "toggle_block_height M toggle S =
     (let S1 = S\<lparr>sb_blocks := toggle\<rparr>
      in if \<not> toggle then unsubscribe M Cat_NewHeads S1 else resubscribe M S1)"

definition enable_logs ::
  "(rpc_request_kind, 'sm) slotmap_ops \<Rightarrow> evm_address list \<Rightarrow> bytes list \<Rightarrow> 'sm evm_subscriptions \<Rightarrow> 'sm evm_subscriptions" where
  "enable_logs M addresses topics S =
     (let f = (case sb_logs S of None \<Rightarrow> \<lparr>lf_addresses = {}, lf_topics = {}\<rparr> | Some f \<Rightarrow> f);
          f' = \<lparr>lf_addresses = lf_addresses f \<union> set addresses, lf_topics = lf_topics f \<union> set topics\<rparr>
      in resubscribe M (unsubscribe M Cat_AllLogs (S\<lparr>sb_logs := Some f'\<rparr>)))"

definition disable_logs ::
  "(rpc_request_kind, 'sm) slotmap_ops \<Rightarrow> evm_address list \<Rightarrow> bytes list \<Rightarrow> 'sm evm_subscriptions \<Rightarrow> 'sm evm_subscriptions" where
  "disable_logs M addresses topics S =
     (let S1 =
        (case sb_logs S of
           None \<Rightarrow> S
         | Some f \<Rightarrow>
             let f' = \<lparr>lf_addresses = lf_addresses f - set addresses, lf_topics = lf_topics f - set topics\<rparr>
             in S\<lparr>sb_logs := (if lf_addresses f' = {} \<and> lf_topics f' = {} then None else Some f')\<rparr>)
      in resubscribe M (unsubscribe M Cat_AllLogs S1))"

definition disable_all_logs :: "(rpc_request_kind, 'sm) slotmap_ops \<Rightarrow> 'sm evm_subscriptions \<Rightarrow> 'sm evm_subscriptions" where
  "disable_all_logs M S = unsubscribe M Cat_AllLogs (S\<lparr>sb_logs := None\<rparr>)"

definition toggle_pending_transactions ::
  "(rpc_request_kind, 'sm) slotmap_ops \<Rightarrow> bool \<Rightarrow> 'sm evm_subscriptions \<Rightarrow> 'sm evm_subscriptions" where
  "toggle_pending_transactions M toggle S =
     (let S1 = S\<lparr>sb_pending_transactions := toggle\<rparr>
      in if \<not> toggle then unsubscribe M Cat_NewPendingTransactions S1 else resubscribe M S1)"

definition set_is_connected :: "(rpc_request_kind, 'sm) slotmap_ops \<Rightarrow> bool \<Rightarrow> 'sm evm_subscriptions \<Rightarrow> 'sm evm_subscriptions" where
  "set_is_connected M v S =
     (let S1 = S\<lparr>sb_is_connected := v\<rparr>
      in if \<not> v then in_flight_clear (ids_clear S1) else resubscribe M S1)"

definition on_received_rpc_response ::
  "(rpc_request_kind, 'sm) slotmap_ops \<Rightarrow> slot_key \<Rightarrow> rpc_response \<Rightarrow> 'sm evm_subscriptions \<Rightarrow> 'sm evm_subscriptions" where
  "on_received_rpc_response M i response S =
     (case in_flight_remove i S of (state, category, S1) \<Rightarrow>
        (case sm_get M (sb_rpc_ids S1) i of
           None \<Rightarrow> S1
         | Some kind \<Rightarrow>
             (case response of
                NewSubscription sid \<Rightarrow>
                  if state = Some UnsubscribeOnLand then send_unsubscribe M False sid S1
                  else (case subscription_kind_of kind of
                          Some k \<Rightarrow> ids_insert sid k (category \<noteq> None) S1
                        | None \<Rightarrow> S1)
              | UnsubscribeAck success \<Rightarrow>
                  (case kind of
                     UnsubscribeId sid \<Rightarrow>
                       if success then ids_remove sid S1
                       else if ids_exists S1 sid then send_unsubscribe M True sid S1 else S1
                   | _ \<Rightarrow> S1)
              | OtherResponse _ \<Rightarrow> S1)))"

text \<open>An error response is logged; nothing else happens.\<close>

definition on_rpc_error :: "slot_key \<Rightarrow> 'sm evm_subscriptions \<Rightarrow> 'sm evm_subscriptions" where
  "on_rpc_error i S = S"

text \<open>Events: what is forwarded to the block, log and transaction channels.\<close>

datatype 'lg rpc_subscription_event =
    Ev_NewHeads u64
  | Ev_Logs 'lg
  | Ev_NewPendingTransaction bytes

fun is_logs :: "subscription_kind \<Rightarrow> bool" where
  "is_logs (SK_Logs _ _) = True"
| "is_logs _ = False"

fun on_received_subscription_event ::
  "'sm evm_subscriptions \<Rightarrow> string \<Rightarrow> 'lg rpc_subscription_event \<Rightarrow> 'lg rpc_subscription_event option" where
  "on_received_subscription_event S sid (Ev_NewHeads n) =
     (if ids_compare S sid (\<lambda>kind. kind = SK_NewHeads) \<and> is_most_recent S sid Cat_NewHeads
      then Some (Ev_NewHeads n) else None)"
| "on_received_subscription_event S sid (Ev_Logs lg) =
     (if ids_compare S sid is_logs \<and> is_most_recent S sid Cat_AllLogs then Some (Ev_Logs lg) else None)"
| "on_received_subscription_event S sid (Ev_NewPendingTransaction tx) =
     (if ids_compare S sid (\<lambda>kind. kind = SK_NewPendingTransactions) \<and> is_most_recent S sid Cat_NewPendingTransactions
      then Some (Ev_NewPendingTransaction tx) else None)"

section \<open>Views of the state\<close>

abbreviation flight :: "'sm evm_subscriptions \<Rightarrow> slot_key \<Rightarrow> rpc_flight_state option" where
  "flight S \<equiv> get_cloned (in_flight S)"

abbreviation recent :: "'sm evm_subscriptions \<Rightarrow> subscription_category \<Rightarrow> slot_key option" where
  "recent S \<equiv> get_cloned (most_recent_in_flight S)"

abbreviation landed :: "'sm evm_subscriptions \<Rightarrow> string \<Rightarrow> subscription_kind option" where
  "landed S \<equiv> get_cloned (id_lookup S)"

fun wanted :: "'sm evm_subscriptions \<Rightarrow> subscription_category \<Rightarrow> subscribe_params option" where
  "wanted S Cat_NewHeads = (if sb_blocks S then Some SP_NewHeads else None)"
| "wanted S Cat_AllLogs = map_option (\<lambda>f. SP_Logs (lf_addresses f) (lf_topics f)) (sb_logs S)"
| "wanted S Cat_NewPendingTransactions = (if sb_pending_transactions S then Some SP_NewPendingTransactions else None)"

lemma wanted_category: "wanted S c = Some p \<Longrightarrow> request_category (params_kind p) = Some c"
  by (cases c) (auto split: if_splits)

lemma request_category_kind:
  "request_category kind = Some c \<longleftrightarrow> (\<exists>k. subscription_kind_of kind = Some k \<and> kind_category k = c)"
  by (cases kind) auto

lemma request_category_None: "request_category kind = None \<longleftrightarrow> (\<exists>sid. kind = UnsubscribeId sid)"
  by (cases kind) auto

lemma get_cloned_map_values: "get_cloned (map (\<lambda>(k, v). (k, f v)) t) k = map_option f (get_cloned t k)"
  by (induction t) (auto simp: get_cloned_def)

lemma get_cloned_clear [simp]: "get_cloned (table_clear t) k = None"
  by (simp add: table_clear_def get_cloned_def)

lemma table_wf_clear [simp]: "table_wf (table_clear t)"
  by (simp add: table_clear_def table_wf_def)

lemma table_wf_map_values: "table_wf (map (\<lambda>(k, v). (k, f v)) t) = table_wf t"
  by (simp add: table_wf_def comp_def case_prod_unfold)

lemma will_subscribe_iff:
  "table_wf (in_flight S) \<Longrightarrow> will_subscribe kind S \<longleftrightarrow> (\<exists>i. flight S i = Some (ActivateOnLand kind))"
  by (force simp: will_subscribe_def list_ex_iff in_set_get_cloned [symmetric])

text \<open>What the three places a request touches look like after it was sent.\<close>

lemma send_views:
  assumes "slotmap_laws M ok" "ok (sb_rpc_ids S)"
    and "rpc_ids_insert M kind S = (i, S1)" "rpc_request_id req = i"
  shows "flight (send_rpc M req d S1) = (flight S)(i \<mapsto> ActivateOnLand kind)"
    "recent (send_rpc M req d S1) = (case request_category kind of None \<Rightarrow> recent S | Some c \<Rightarrow> (recent S)(c \<mapsto> i))"
    "sm_get M (sb_rpc_ids (send_rpc M req d S1)) = (sm_get M (sb_rpc_ids S))(i \<mapsto> kind)"
    "sm_get M (sb_rpc_ids S) i = None" "ok (sb_rpc_ids (send_rpc M req d S1))"
    "table_wf (in_flight S) \<Longrightarrow> table_wf (in_flight (send_rpc M req d S1))"
    "id_lookup (send_rpc M req d S1) = id_lookup S" "id_categories (send_rpc M req d S1) = id_categories S"
    "wanted (send_rpc M req d S1) = wanted S" "sb_is_connected (send_rpc M req d S1) = sb_is_connected S"
    "set (sb_sent (send_rpc M req d S1)) = (if d then set (sb_sent S) else insert req (set (sb_sent S)))"
proof -
  obtain m where ins: "sm_insert M kind (sb_rpc_ids S) = (i, m)" and S1: "S1 = S\<lparr>sb_rpc_ids := m\<rparr>"
    using assms(3) by (auto simp: rpc_ids_insert_def split: prod.splits)
  note m = slotmap_insertD [OF assms(1,2) ins]
  have "sm_get M (sb_rpc_ids S1) (rpc_request_id req) = Some kind" using m assms(4) by (simp add: S1)
  then have S': "send_rpc M req d S1 =
      (let S2 = in_flight_insert i kind (S\<lparr>sb_rpc_ids := m\<rparr>)
       in if d then S2\<lparr>sb_delayed := sb_delayed S2 @ [req]\<rparr> else S2\<lparr>sb_sent := sb_sent S2 @ [req]\<rparr>)"
    using assms(4) by (simp add: send_rpc_def S1)
  have w: "wanted (send_rpc M req d S1) c = wanted S c" for c
    by (cases c) (simp_all add: S' Let_def in_flight_insert_def)
  show "wanted (send_rpc M req d S1) = wanted S" using w by (simp add: fun_eq_iff)
  show "flight (send_rpc M req d S1) = (flight S)(i \<mapsto> ActivateOnLand kind)"
    "recent (send_rpc M req d S1) = (case request_category kind of None \<Rightarrow> recent S | Some c \<Rightarrow> (recent S)(c \<mapsto> i))"
    by (auto simp: S' Let_def in_flight_insert_def fun_eq_iff split: option.splits)
  show "sm_get M (sb_rpc_ids (send_rpc M req d S1)) = (sm_get M (sb_rpc_ids S))(i \<mapsto> kind)"
    "sm_get M (sb_rpc_ids S) i = None" "ok (sb_rpc_ids (send_rpc M req d S1))"
    "table_wf (in_flight S) \<Longrightarrow> table_wf (in_flight (send_rpc M req d S1))"
    "id_lookup (send_rpc M req d S1) = id_lookup S" "id_categories (send_rpc M req d S1) = id_categories S"
    "sb_is_connected (send_rpc M req d S1) = sb_is_connected S"
    "set (sb_sent (send_rpc M req d S1)) = (if d then set (sb_sent S) else insert req (set (sb_sent S)))"
    using m by (simp_all add: S' Let_def in_flight_insert_def)
qed

section \<open>The invariant\<close>

text \<open>A landed subscription that serves a wish: it is the most recent of its category and nothing has asked to end
  it.\<close>

definition serving ::
  "(rpc_request_kind, 'sm) slotmap_ops \<Rightarrow> 'sm evm_subscriptions \<Rightarrow> subscription_category \<Rightarrow> subscribe_params \<Rightarrow> string \<Rightarrow> bool" where
  "serving M S c p sid =
     (landed S sid = subscription_kind_of (params_kind p) \<and> is_most_recent S sid c \<and>
      (\<forall>i. sm_get M (sb_rpc_ids S) i \<noteq> Some (UnsubscribeId sid)))"

definition served ::
  "(rpc_request_kind, 'sm) slotmap_ops \<Rightarrow> 'sm evm_subscriptions \<Rightarrow> subscription_category \<Rightarrow> subscribe_params \<Rightarrow> bool" where
  "served M S c p =
     ((\<exists>i. flight S i = Some (ActivateOnLand (params_kind p))) \<or> (\<exists>sid. serving M S c p sid))"

text \<open>The tables agree with each other and with the wishes. The flag says that the connection has dropped the
  request ids since it was last up; the set lists categories whose wish has just changed.\<close>

definition flight_ok :: "subscription_category set \<Rightarrow> 'sm evm_subscriptions \<Rightarrow> bool" where
  "flight_ok X S =
     (\<forall>i kind c. flight S i = Some (ActivateOnLand kind) \<and> request_category kind = Some c \<and> c \<notin> X \<longrightarrow>
        recent S c = Some i \<and> (\<exists>p. wanted S c = Some p \<and> params_kind p = kind \<and> RR_Subscribe i p \<in> set (sb_sent S)))"

lemma flight_okD:
  assumes "flight_ok X S" "flight S i = Some (ActivateOnLand kind)" "request_category kind = Some c" "c \<notin> X"
  obtains p where "recent S c = Some i" "wanted S c = Some p" "params_kind p = kind" "RR_Subscribe i p \<in> set (sb_sent S)"
  using assms unfolding flight_ok_def by blast

definition ids_ok :: "'sm evm_subscriptions \<Rightarrow> bool" where
  "ids_ok S = (\<forall>c sid. sid \<in> set (list_by_category S c) \<longleftrightarrow> (\<exists>k. landed S sid = Some k \<and> kind_category k = c))"

definition requests_ok :: "(rpc_request_kind, 'sm) slotmap_ops \<Rightarrow> bool \<Rightarrow> 'sm evm_subscriptions \<Rightarrow> bool" where
  "requests_ok M dropped S =
     ((\<forall>i kind. \<not> dropped \<and> flight S i = Some (ActivateOnLand kind) \<and> request_category kind \<noteq> None \<longrightarrow>
         sm_get M (sb_rpc_ids S) i = Some kind) \<and>
      (\<forall>i kind. \<not> sb_is_connected S \<and> flight S i = Some (ActivateOnLand kind) \<longrightarrow> request_category kind = None))"

definition core_inv ::
  "(rpc_request_kind, 'sm) slotmap_ops \<Rightarrow> ('sm \<Rightarrow> bool) \<Rightarrow> bool \<Rightarrow> subscription_category set \<Rightarrow> 'sm evm_subscriptions \<Rightarrow> bool" where
  "core_inv M ok dropped X S =
     (ok (sb_rpc_ids S) \<and> table_wf (in_flight S) \<and> ids_ok S \<and> flight_ok X S \<and> requests_ok M dropped S)"

definition all_served :: "(rpc_request_kind, 'sm) slotmap_ops \<Rightarrow> bool \<Rightarrow> subscription_category set \<Rightarrow> 'sm evm_subscriptions \<Rightarrow> bool" where
  "all_served M dropped X S =
     (\<forall>c p. sb_is_connected S \<and> \<not> dropped \<and> c \<notin> X \<and> wanted S c = Some p \<longrightarrow> served M S c p)"

text \<open>Sending an unsubscription for something that serves nothing.\<close>

lemma send_unsubscribe_inv:
  assumes laws: "slotmap_laws M ok" and inv: "core_inv M ok dropped X S"
  shows "core_inv M ok dropped X (send_unsubscribe M d sid S)"
    and "\<not> dropped \<Longrightarrow> served M S c p \<Longrightarrow> \<not> serving M S c p sid \<Longrightarrow> served M (send_unsubscribe M d sid S) c p"
    and "\<not> dropped \<Longrightarrow> sid' \<noteq> sid \<Longrightarrow> serving M S c p sid' \<Longrightarrow> serving M (send_unsubscribe M d sid S) c p sid'"
    and "serving M (send_unsubscribe M d sid S) c p sid' \<Longrightarrow> serving M S c p sid'"
    and "list_by_category (send_unsubscribe M d sid S) = list_by_category S"
    and "landed (send_unsubscribe M d sid S) = landed S"
    and "wanted (send_unsubscribe M d sid S) = wanted S"
    and "sb_is_connected (send_unsubscribe M d sid S) = sb_is_connected S"
proof -
  have ok: "ok (sb_rpc_ids S)" and wf: "table_wf (in_flight S)" using inv by (simp_all add: core_inv_def)
  obtain i S1 where ins: "rpc_ids_insert M (UnsubscribeId sid) S = (i, S1)" by fastforce
  let ?S = "send_rpc M (RR_Unsubscribe i sid) d S1"
  have S': "send_unsubscribe M d sid S = ?S" by (simp add: send_unsubscribe_def ins)
  have req: "rpc_request_id (RR_Unsubscribe i sid) = i" by simp
  note v = send_views [OF laws ok ins req]
  show "list_by_category (send_unsubscribe M d sid S) = list_by_category S"
    by (simp add: S' list_by_category_def v fun_eq_iff)
  show "landed (send_unsubscribe M d sid S) = landed S" "wanted (send_unsubscribe M d sid S) = wanted S"
    "sb_is_connected (send_unsubscribe M d sid S) = sb_is_connected S" by (simp_all add: S' v)
  have lst: "list_by_category ?S = list_by_category S" by (simp add: list_by_category_def v fun_eq_iff)
  show "core_inv M ok dropped X (send_unsubscribe M d sid S)"
    using inv v(4) unfolding core_inv_def ids_ok_def flight_ok_def requests_ok_def S' lst v
    by (auto simp: wf v split: if_splits)
  show keep: "serving M (send_unsubscribe M d sid S) c p sid'" if "\<not> dropped" "sid' \<noteq> sid" "serving M S c p sid'" for sid'
    using that unfolding serving_def S' is_most_recent_def v by (simp; fail | auto; metis)
  show "serving M S c p sid'" if bk: "serving M (send_unsubscribe M d sid S) c p sid'"
  proof -
    have all: "((sm_get M (sb_rpc_ids S))(i \<mapsto> UnsubscribeId sid)) j \<noteq> Some (UnsubscribeId sid')" for j
      using bk unfolding serving_def S' v by blast
    have "sm_get M (sb_rpc_ids S) j \<noteq> Some (UnsubscribeId sid')" for j
      using all [of j] v(4) by (cases "j = i") simp_all
    then show ?thesis using bk unfolding serving_def S' is_most_recent_def v by blast
  qed
  show "served M (send_unsubscribe M d sid S) c p"
    if nd: "\<not> dropped" and sv: "served M S c p" and ns: "\<not> serving M S c p sid"
  proof -
    consider j where "flight S j = Some (ActivateOnLand (params_kind p))" | sid' where "serving M S c p sid'"
      using sv unfolding served_def by blast
    then show ?thesis
    proof cases
      case (1 j)
      moreover have "request_category (params_kind p) \<noteq> None" by (cases p) simp_all
      ultimately have "sm_get M (sb_rpc_ids S) j = Some (params_kind p)"
        using inv nd unfolding core_inv_def requests_ok_def by blast
      then have "j \<noteq> i" using v(4) by auto
      with 1 have "flight ?S j = Some (ActivateOnLand (params_kind p))" by (simp add: v)
      then show ?thesis unfolding served_def S' by blast
    next
      case (2 sid')
      then show ?thesis using nd ns keep [of sid'] unfolding served_def by blast
    qed
  qed
qed

lemma send_unsubscribes_inv:
  assumes laws: "slotmap_laws M ok" and inv: "core_inv M ok dropped X S"
  shows "core_inv M ok dropped X (fold (send_unsubscribe M d) sids S) \<and>
    (\<not> dropped \<and> served M S c p \<and> (\<forall>sid\<in>set sids. \<not> serving M S c p sid) \<longrightarrow>
       served M (fold (send_unsubscribe M d) sids S) c p) \<and>
    wanted (fold (send_unsubscribe M d) sids S) = wanted S \<and>
    sb_is_connected (fold (send_unsubscribe M d) sids S) = sb_is_connected S"
  using inv
proof (induction sids arbitrary: S)
  case (Cons sid sids)
  note u = send_unsubscribe_inv [OF laws Cons.prems]
  note ih = Cons.IH [OF u(1)]
  show ?case using ih [of d sid] u(2) [of c p sid d] u(4) [of d sid c p] u(7,8) [of d sid] by auto
qed simp

lemma flight_set_unsubscribe:
  "flight (set_unsubscribe c S) i = Some (ActivateOnLand kind) \<longleftrightarrow>
   flight S i = Some (ActivateOnLand kind) \<and> request_category kind \<noteq> Some c"
proof (cases "flight S i")
  case (Some st)
  then show ?thesis by (cases st) (auto simp: set_unsubscribe_def get_cloned_map_values)
qed (simp add: set_unsubscribe_def get_cloned_map_values)

lemma set_unsubscribe_same [simp]:
  "recent (set_unsubscribe c S) = recent S" "id_lookup (set_unsubscribe c S) = id_lookup S"
  "id_categories (set_unsubscribe c S) = id_categories S" "sb_rpc_ids (set_unsubscribe c S) = sb_rpc_ids S"
  "sb_is_connected (set_unsubscribe c S) = sb_is_connected S" "sb_sent (set_unsubscribe c S) = sb_sent S"
  "table_wf (in_flight (set_unsubscribe c S)) = table_wf (in_flight S)"
  by (simp_all add: set_unsubscribe_def table_wf_map_values)

lemma wanted_set_unsubscribe [simp]: "wanted (set_unsubscribe c S) = wanted S"
proof (rule ext)
  show "wanted (set_unsubscribe c S) c' = wanted S c'" for c'
    by (cases c') (simp_all add: set_unsubscribe_def)
qed

lemma list_by_category_set_unsubscribe [simp]: "list_by_category (set_unsubscribe c S) = list_by_category S"
  by (simp add: list_by_category_def fun_eq_iff)

lemma serving_set_unsubscribe [simp]: "serving M (set_unsubscribe c S) = serving M S"
  by (simp add: serving_def is_most_recent_def fun_eq_iff)

lemma set_unsubscribe_inv: "core_inv M ok dropped X S \<Longrightarrow> core_inv M ok dropped (X - {c}) (set_unsubscribe c S)"
  unfolding core_inv_def ids_ok_def flight_ok_def requests_ok_def flight_set_unsubscribe by auto

lemma serving_category:
  assumes "ids_ok S" "wanted S c = Some p" "serving M S c p sid"
  shows "c = c' \<or> sid \<notin> set (list_by_category S c')"
proof -
  have "request_category (params_kind p) = Some c" using assms(2) by (rule wanted_category)
  then obtain k where "subscription_kind_of (params_kind p) = Some k" "kind_category k = c"
    by (auto simp: request_category_kind)
  then show ?thesis using assms(1,3) by (auto simp: ids_ok_def serving_def)
qed

text \<open>Ending a category settles it and leaves the others alone.\<close>

lemma unsubscribe_inv:
  assumes laws: "slotmap_laws M ok" and inv: "core_inv M ok dropped X S"
  shows "core_inv M ok dropped (X - {c}) (unsubscribe M c S)"
    and "all_served M dropped Y S \<Longrightarrow> all_served M dropped (insert c Y) (unsubscribe M c S)"
    and "wanted (unsubscribe M c S) = wanted S" and "sb_is_connected (unsubscribe M c S) = sb_is_connected S"
proof -
  let ?S = "set_unsubscribe c S"
  note u = send_unsubscribes_inv [OF laws set_unsubscribe_inv [OF inv, of c], of False "list_by_category S c"]
  show "core_inv M ok dropped (X - {c}) (unsubscribe M c S)" "wanted (unsubscribe M c S) = wanted S"
    "sb_is_connected (unsubscribe M c S) = sb_is_connected S"
    using u by (simp_all add: unsubscribe_def)
  assume all: "all_served M dropped Y S"
  have "served M (unsubscribe M c S) c' p"
    if "sb_is_connected S" "\<not> dropped" "c' \<noteq> c" "c' \<notin> Y" "wanted S c' = Some p" for c' p
  proof -
    have sv: "served M S c' p" using all that by (simp add: all_served_def)
    have cat: "request_category (params_kind p) = Some c'" using that(5) by (rule wanted_category)
    have "served M ?S c' p" using sv cat that(3) by (auto simp: served_def flight_set_unsubscribe)
    moreover have "\<forall>sid\<in>set (list_by_category S c). \<not> serving M ?S c' p sid"
      using serving_category [OF _ that(5)] inv that(3) by (auto simp: core_inv_def)
    ultimately show ?thesis using u [of c' p] that(2) by (simp add: unsubscribe_def)
  qed
  then show "all_served M dropped (insert c Y) (unsubscribe M c S)"
    using u by (simp add: all_served_def unsubscribe_def)
qed

text \<open>Asking again for what is wanted and not on its way.\<close>

lemma params_kind_inj: "params_kind p = params_kind q \<Longrightarrow> p = q"
  by (cases p; cases q) simp_all

lemma resubscribe_one_inv:
  assumes laws: "slotmap_laws M ok" and inv: "core_inv M ok dropped {} S"
    and con: "sb_is_connected S" and want: "wanted S c = Some p"
  shows "core_inv M ok dropped {} (resubscribe_one M p S)"
    and "served M (resubscribe_one M p S) c p"
    and "\<not> dropped \<Longrightarrow> served M S c' p' \<Longrightarrow> served M (resubscribe_one M p S) c' p'"
    and "wanted (resubscribe_one M p S) = wanted S"
    and "sb_is_connected (resubscribe_one M p S) = sb_is_connected S"
proof -
  have ok: "ok (sb_rpc_ids S)" and wf: "table_wf (in_flight S)" and ids: "ids_ok S" and fl: "flight_ok {} S"
    and rq: "requests_ok M dropped S" using inv by (simp_all add: core_inv_def)
  have cat: "request_category (params_kind p) = Some c" using want by (rule wanted_category)
  have "core_inv M ok dropped {} (resubscribe_one M p S) \<and> served M (resubscribe_one M p S) c p \<and>
    (\<not> dropped \<and> served M S c' p' \<longrightarrow> served M (resubscribe_one M p S) c' p') \<and>
    wanted (resubscribe_one M p S) = wanted S \<and> sb_is_connected (resubscribe_one M p S) = sb_is_connected S"
  proof (cases "will_subscribe (params_kind p) S")
    case True
    then show ?thesis using inv by (auto simp: resubscribe_one_def served_def will_subscribe_iff [OF wf])
  next
    case False
    then have none: "flight S i \<noteq> Some (ActivateOnLand (params_kind p))" for i
      by (simp add: will_subscribe_iff [OF wf])
    have idle: "request_category kind \<noteq> Some c" if "flight S i = Some (ActivateOnLand kind)" for i kind
      using fl that none want unfolding flight_ok_def by fastforce
    obtain i S1 where ins: "rpc_ids_insert M (params_kind p) S = (i, S1)" by fastforce
    let ?S = "send_rpc M (RR_Subscribe i p) False S1"
    have S': "resubscribe_one M p S = ?S" using False by (simp add: resubscribe_one_def send_subscribe_def ins)
    have req: "rpc_request_id (RR_Subscribe i p) = i" by simp
    note v = send_views [OF laws ok ins req]
    have lst: "list_by_category ?S = list_by_category S" by (simp add: list_by_category_def v fun_eq_iff)
    have f1: "flight_ok {} ?S"
      using fl idle want cat unfolding flight_ok_def v by (auto split: if_splits)
    have f2: "requests_ok M dropped ?S"
      using rq con cat unfolding requests_ok_def v by (auto split: if_splits)
    have f3: "ids_ok ?S" using ids unfolding ids_ok_def lst v .
    have f4: "serving M ?S c' p' sid" if "serving M S c' p' sid" for sid
      using that cat unfolding serving_def is_most_recent_def v by (auto simp: fun_upd_def split: if_splits)
    have f5: "served M ?S c' p'" if sv: "served M S c' p'" and nd: "\<not> dropped"
    proof -
      consider j where "flight S j = Some (ActivateOnLand (params_kind p'))" | sid where "serving M S c' p' sid"
        using sv unfolding served_def by blast
      then show ?thesis
      proof cases
        case (1 j)
        moreover have "request_category (params_kind p') \<noteq> None" by (cases p') simp_all
        ultimately have "sm_get M (sb_rpc_ids S) j = Some (params_kind p')"
          using rq nd unfolding requests_ok_def by blast
        then have "j \<noteq> i" using v(4) by auto
        with 1 have "flight ?S j = Some (ActivateOnLand (params_kind p'))" by (simp add: v)
        then show ?thesis unfolding served_def by blast
      next
        case (2 sid)
        then show ?thesis using f4 unfolding served_def by blast
      qed
    qed
    show ?thesis using f1 f2 f3 f5 unfolding S' core_inv_def by (auto simp: v wf served_def)
  qed
  then show "core_inv M ok dropped {} (resubscribe_one M p S)" "served M (resubscribe_one M p S) c p"
    "\<not> dropped \<Longrightarrow> served M S c' p' \<Longrightarrow> served M (resubscribe_one M p S) c' p'"
    "wanted (resubscribe_one M p S) = wanted S" "sb_is_connected (resubscribe_one M p S) = sb_is_connected S"
    by blast+
qed

definition sub_inv :: "(rpc_request_kind, 'sm) slotmap_ops \<Rightarrow> ('sm \<Rightarrow> bool) \<Rightarrow> bool \<Rightarrow> 'sm evm_subscriptions \<Rightarrow> bool" where
  "sub_inv M ok dropped S = (core_inv M ok dropped {} S \<and> all_served M dropped {} S)"

lemma resubscribe_if_wanted:
  "resubscribe M S =
     (if \<not> sb_is_connected S then S
      else let one = (\<lambda>c S. case wanted S c of None \<Rightarrow> S | Some p \<Rightarrow> resubscribe_one M p S)
           in one Cat_NewPendingTransactions (one Cat_AllLogs (one Cat_NewHeads S)))"
  by (simp add: resubscribe_def Let_def split: option.splits)

lemma resubscribe_inv:
  assumes laws: "slotmap_laws M ok" and inv: "core_inv M ok dropped {} S"
  shows "sub_inv M ok dropped (resubscribe M S)"
proof (cases "sb_is_connected S")
  case con: True
  define one where "one = (\<lambda>c S. case wanted S c of None \<Rightarrow> S | Some p \<Rightarrow> resubscribe_one M p S)"
  let ?settled = "\<lambda>S c. \<forall>p. \<not> dropped \<and> wanted S c = Some p \<longrightarrow> served M S c p"
  have one: "core_inv M ok dropped {} (one c S) \<and> sb_is_connected (one c S) \<and> ?settled (one c S) c \<and>
      (\<forall>c'. ?settled S c' \<longrightarrow> ?settled (one c S) c')"
    if "core_inv M ok dropped {} S" "sb_is_connected S" for c S
  proof (cases "wanted S c")
    case None
    then show ?thesis using that by (simp add: one_def)
  next
    case (Some p)
    note r = resubscribe_one_inv [OF laws that Some]
    show ?thesis using r that(2) Some by (simp add: one_def)
  qed
  let ?S1 = "one Cat_NewHeads S" let ?S2 = "one Cat_AllLogs ?S1" let ?S3 = "one Cat_NewPendingTransactions ?S2"
  note s1 = one [OF inv con, of Cat_NewHeads]
  note s2 = one [of ?S1 Cat_AllLogs, OF conjunct1 [OF s1] conjunct1 [OF conjunct2 [OF s1]]]
  note s3 = one [of ?S2 Cat_NewPendingTransactions, OF conjunct1 [OF s2] conjunct1 [OF conjunct2 [OF s2]]]
  have "?settled ?S3 c" for c using s1 s2 s3 by (cases c) blast+
  moreover have "resubscribe M S = ?S3" using con by (simp add: resubscribe_if_wanted one_def)
  ultimately show ?thesis using s3 by (simp add: sub_inv_def all_served_def)
next
  case False
  then show ?thesis using inv by (simp add: resubscribe_def sub_inv_def all_served_def)
qed

text \<open>Changing a wish unsettles its category only.\<close>

definition same_tables :: "'sm evm_subscriptions \<Rightarrow> 'sm evm_subscriptions \<Rightarrow> bool" where
  "same_tables S S' =
     (in_flight S' = in_flight S \<and> most_recent_in_flight S' = most_recent_in_flight S \<and> id_lookup S' = id_lookup S \<and>
      id_categories S' = id_categories S \<and> sb_rpc_ids S' = sb_rpc_ids S \<and> set (sb_sent S) \<subseteq> set (sb_sent S') \<and>
      sb_is_connected S' = sb_is_connected S)"

lemma same_tables_served: "same_tables S S' \<Longrightarrow> served M S' c p = served M S c p"
  by (simp add: same_tables_def served_def serving_def is_most_recent_def)

lemma same_tables_ok:
  assumes "same_tables S S'"
  shows "ids_ok S' = ids_ok S" "requests_ok M dropped S' = requests_ok M dropped S"
proof -
  have "list_by_category S' = list_by_category S"
    using assms by (simp add: same_tables_def list_by_category_def fun_eq_iff)
  then show "ids_ok S' = ids_ok S" using assms by (simp add: same_tables_def ids_ok_def)
  show "requests_ok M dropped S' = requests_ok M dropped S"
    using assms unfolding same_tables_def requests_ok_def by auto
qed

lemma same_tables_flight:
  assumes fl: "flight_ok X S" and same: "same_tables S S'" and w: "\<forall>c. c \<notin> Y \<longrightarrow> wanted S' c = wanted S c" and "X \<subseteq> Y"
  shows "flight_ok Y S'"
  unfolding flight_ok_def
proof (intro allI impI, elim conjE)
  fix i kind c
  assume a: "flight S' i = Some (ActivateOnLand kind)" "request_category kind = Some c" "c \<notin> Y"
  have "flight S i = Some (ActivateOnLand kind)" "recent S' c = recent S c" "set (sb_sent S) \<subseteq> set (sb_sent S')"
    using a same by (simp_all add: same_tables_def)
  moreover have "c \<notin> X" "wanted S' c = wanted S c" using a w assms(4) by auto
  ultimately show "recent S' c = Some i \<and>
      (\<exists>p. wanted S' c = Some p \<and> params_kind p = kind \<and> RR_Subscribe i p \<in> set (sb_sent S'))"
    using fl a(2) unfolding flight_ok_def by (metis subsetD)
qed

lemma wish_inv:
  assumes "sub_inv M ok dropped S" "same_tables S S'" "\<forall>c'. c' \<noteq> c \<longrightarrow> wanted S' c' = wanted S c'"
  shows "core_inv M ok dropped {c} S'" "all_served M dropped {c} S'"
proof -
  have inv: "core_inv M ok dropped {} S" and all: "all_served M dropped {} S" using assms(1) by (simp_all add: sub_inv_def)
  show "all_served M dropped {c} S'"
    using all assms(2,3) same_tables_served [OF assms(2), of M] unfolding all_served_def same_tables_def by auto
  have "flight_ok {c} S'"
    using inv assms(3) by (intro same_tables_flight [OF _ assms(2), of "{}"]) (simp_all add: core_inv_def)
  then show "core_inv M ok dropped {c} S'"
    using inv same_tables_ok [OF assms(2)] assms(2) unfolding core_inv_def same_tables_def by auto
qed

lemma unwish_inv:
  assumes laws: "slotmap_laws M ok" and inv: "sub_inv M ok dropped S" and same: "same_tables S S'"
    and other: "\<forall>c'. c' \<noteq> c \<longrightarrow> wanted S' c' = wanted S c'"
  shows "core_inv M ok dropped {} (unsubscribe M c S')"
    and "wanted S' c = None \<Longrightarrow> sub_inv M ok dropped (unsubscribe M c S')"
proof -
  note w = wish_inv [OF inv same other]
  note u = unsubscribe_inv [OF laws w(1), where c = c]
  show core: "core_inv M ok dropped {} (unsubscribe M c S')" using u(1) by simp
  show "sub_inv M ok dropped (unsubscribe M c S')" if "wanted S' c = None"
    using core u(2) [OF w(2)] u(3) that unfolding sub_inv_def all_served_def by (metis empty_iff insertE option.distinct(1))
qed

lemma same_tables_inv:
  assumes inv: "sub_inv M ok dropped S" and same: "same_tables S S'" and w: "\<forall>c. wanted S' c = wanted S c"
  shows "sub_inv M ok dropped S'"
proof -
  have "flight_ok {} S'"
    using inv w by (intro same_tables_flight [OF _ same, of "{}"]) (simp_all add: sub_inv_def core_inv_def)
  then have "core_inv M ok dropped {} S'"
    using inv same_tables_ok [OF same] same unfolding sub_inv_def core_inv_def same_tables_def by auto
  moreover have "all_served M dropped {} S'"
    using inv same_tables_served [OF same, of M] same w unfolding sub_inv_def all_served_def same_tables_def by auto
  ultimately show ?thesis by (simp add: sub_inv_def)
qed

text \<open>Switching on a category that has a single kind.\<close>

lemma wish_on_inv:
  assumes laws: "slotmap_laws M ok" and inv: "sub_inv M ok dropped S" and same: "same_tables S S'"
    and other: "\<forall>c'. c' \<noteq> c \<longrightarrow> wanted S' c' = wanted S c'" and on: "wanted S c \<noteq> None \<longrightarrow> wanted S' c = wanted S c"
  shows "sub_inv M ok dropped (resubscribe M S')"
proof -
  note w = wish_inv [OF inv same other]
  have "flight_ok {} S" using inv by (simp add: sub_inv_def core_inv_def)
  then have "flight_ok {} S'"
  proof (cases "wanted S c")
    case None
    have "request_category kind \<noteq> Some c" if "flight S' i = Some (ActivateOnLand kind)" for i kind
      using \<open>flight_ok {} S\<close> None same that unfolding flight_ok_def same_tables_def by fastforce
    then show ?thesis using w(1) unfolding core_inv_def flight_ok_def by (metis empty_iff insertE)
  next
    case (Some p)
    have "wanted S' c' = wanted S c'" for c' using other on Some by (cases "c' = c") simp_all
    then show ?thesis by (intro same_tables_flight [OF \<open>flight_ok {} S\<close> same]) simp_all
  qed
  then have "core_inv M ok dropped {} S'" using w(1) by (simp add: core_inv_def)
  then show ?thesis by (rule resubscribe_inv [OF laws])
qed

lemma wanted_update:
  "wanted (S\<lparr>sb_blocks := b\<rparr>) c = (if c = Cat_NewHeads then if b then Some SP_NewHeads else None else wanted S c)"
  "wanted (S\<lparr>sb_pending_transactions := b\<rparr>) c =
     (if c = Cat_NewPendingTransactions then if b then Some SP_NewPendingTransactions else None else wanted S c)"
  "wanted (S\<lparr>sb_logs := f\<rparr>) c =
     (if c = Cat_AllLogs then map_option (\<lambda>f. SP_Logs (lf_addresses f) (lf_topics f)) f else wanted S c)"
  by (cases c; simp)+

lemma same_tables_update:
  "same_tables S (S\<lparr>sb_blocks := b\<rparr>)" "same_tables S (S\<lparr>sb_pending_transactions := b\<rparr>)" "same_tables S (S\<lparr>sb_logs := f\<rparr>)"
  by (simp_all add: same_tables_def)

lemma methods_inv:
  assumes laws: "slotmap_laws M ok" and inv: "sub_inv M ok dropped S"
  shows "sub_inv M ok dropped (toggle_block_height M b S)" "sub_inv M ok dropped (toggle_pending_transactions M b S)"
    "sub_inv M ok dropped (enable_logs M addresses topics S)" "sub_inv M ok dropped (disable_logs M addresses topics S)"
    "sub_inv M ok dropped (disable_all_logs M S)"
proof -
  show "sub_inv M ok dropped (toggle_block_height M b S)"
    using unwish_inv(2) [OF laws inv same_tables_update(1) [of S b], of Cat_NewHeads]
      wish_on_inv [OF laws inv same_tables_update(1) [of S b], of Cat_NewHeads]
    by (cases b) (simp_all add: toggle_block_height_def wanted_update Let_def)
  show "sub_inv M ok dropped (toggle_pending_transactions M b S)"
    using unwish_inv(2) [OF laws inv same_tables_update(2) [of S b], of Cat_NewPendingTransactions]
      wish_on_inv [OF laws inv same_tables_update(2) [of S b], of Cat_NewPendingTransactions]
    by (cases b) (simp_all add: toggle_pending_transactions_def wanted_update Let_def)
  have logs: "sub_inv M ok dropped (resubscribe M (unsubscribe M Cat_AllLogs (S\<lparr>sb_logs := f\<rparr>)))" for f
    using unwish_inv(1) [OF laws inv same_tables_update(3) [of S f], of Cat_AllLogs]
    by (intro resubscribe_inv [OF laws]) (simp add: wanted_update)
  show "sub_inv M ok dropped (enable_logs M addresses topics S)"
    using logs by (simp add: enable_logs_def Let_def)
  show "sub_inv M ok dropped (disable_logs M addresses topics S)"
    using logs [of "sb_logs S"] logs by (simp add: disable_logs_def Let_def split: option.splits)
  show "sub_inv M ok dropped (disable_all_logs M S)"
    using unwish_inv(2) [OF laws inv same_tables_update(3) [of S None], of Cat_AllLogs]
    by (simp add: disable_all_logs_def wanted_update)
qed

section \<open>Responses\<close>

lemma in_flight_remove_views:
  assumes "in_flight_remove i S = (st, category, S1)"
  shows "flight S1 = (flight S)(i := None)" "table_wf (in_flight S) \<Longrightarrow> table_wf (in_flight S1)" "st = flight S i"
    "category = Some c \<longleftrightarrow> (\<exists>kind. flight S i = Some (ActivateOnLand kind) \<and> request_category kind = Some c \<and> recent S c = Some i)"
    "recent S1 c = (if category = Some c then None else recent S c)"
    "id_lookup S1 = id_lookup S" "id_categories S1 = id_categories S" "sb_rpc_ids S1 = sb_rpc_ids S"
    "sb_sent S1 = sb_sent S" "sb_is_connected S1 = sb_is_connected S" "wanted S1 = wanted S"
proof -
  obtain t where t: "table_remove i (in_flight S) = (flight S i, t)" and t2: "t = snd (table_remove i (in_flight S))"
    by (metis fst_table_remove prod.collapse)
  have S1: "S1 = S\<lparr>in_flight := t\<rparr> \<or>
      (\<exists>m. S1 = S\<lparr>in_flight := t, most_recent_in_flight := m\<rparr>)"
    using assms by (auto simp: in_flight_remove_def t Let_def split: option.splits if_splits)
  have w: "wanted (S\<lparr>in_flight := t\<rparr>) c = wanted S c" "wanted (S\<lparr>in_flight := t, most_recent_in_flight := m\<rparr>) c = wanted S c"
    for c m by (cases c; simp)+
  show "wanted S1 = wanted S" using S1 w by (auto simp: fun_eq_iff)
  show "flight S1 = (flight S)(i := None)" "table_wf (in_flight S) \<Longrightarrow> table_wf (in_flight S1)"
    "id_lookup S1 = id_lookup S" "id_categories S1 = id_categories S" "sb_rpc_ids S1 = sb_rpc_ids S"
    "sb_sent S1 = sb_sent S" "sb_is_connected S1 = sb_is_connected S"
    using S1 by (auto simp: t2 fun_eq_iff)
  show "st = flight S i" using assms by (auto simp: in_flight_remove_def t Let_def split: option.splits if_splits)
  show "category = Some c \<longleftrightarrow> (\<exists>kind. flight S i = Some (ActivateOnLand kind) \<and> request_category kind = Some c \<and> recent S c = Some i)"
    using assms by (auto simp: in_flight_remove_def t Let_def split: option.splits if_splits rpc_flight_state.splits)
  show "recent S1 c = (if category = Some c then None else recent S c)"
    using assms by (auto simp: in_flight_remove_def t Let_def split: option.splits if_splits)
qed

lemma in_flight_remove_inv:
  assumes inv: "core_inv M ok dropped {} S" and rm: "in_flight_remove i S = (st, category, S1)"
  shows "core_inv M ok dropped {} S1"
    and "flight S i = Some (ActivateOnLand kind) \<Longrightarrow> category = request_category kind"
    and "serving M S1 = serving M S"
    and "served M S c p \<Longrightarrow> served M S1 c p \<or> flight S i = Some (ActivateOnLand (params_kind p))"
proof -
  note v = in_flight_remove_views [OF rm]
  have fl: "flight_ok {} S" and rq: "requests_ok M dropped S" and ids: "ids_ok S" using inv by (simp_all add: core_inv_def)
  have lst: "list_by_category S1 = list_by_category S" by (simp add: list_by_category_def v fun_eq_iff)
  have f1: "flight_ok {} S1" using fl unfolding flight_ok_def v by (metis fun_upd_apply option.distinct(1) option.inject)
  have f2: "requests_ok M dropped S1" using rq unfolding requests_ok_def v by auto
  have f3: "ids_ok S1" using ids unfolding ids_ok_def lst v .
  show "core_inv M ok dropped {} S1" using inv f1 f2 f3 by (simp add: core_inv_def v)
  show "category = request_category kind" if "flight S i = Some (ActivateOnLand kind)"
  proof (cases "request_category kind")
    case None
    then show ?thesis using v(4) that by (metis not_Some_eq option.inject rpc_flight_state.inject)
  next
    case (Some c')
    then have "recent S c' = Some i" using fl that unfolding flight_ok_def by blast
    then show ?thesis using v(4) [of c'] that Some by auto
  qed
  show sv: "serving M S1 = serving M S" by (simp add: serving_def is_most_recent_def v fun_eq_iff)
  show "served M S1 c p \<or> flight S i = Some (ActivateOnLand (params_kind p))" if "served M S c p"
    using that unfolding served_def sv v by auto
qed

text \<open>A subscription that has landed. Its id is new to the client.\<close>

definition fresh_id :: "(rpc_request_kind, 'sm) slotmap_ops \<Rightarrow> 'sm evm_subscriptions \<Rightarrow> string \<Rightarrow> bool" where
  "fresh_id M S sid = (landed S sid = None \<and> (\<forall>j. sm_get M (sb_rpc_ids S) j \<noteq> Some (UnsubscribeId sid)))"

lemma ids_insert_views:
  "in_flight (ids_insert sid k b S) = in_flight S" "most_recent_in_flight (ids_insert sid k b S) = most_recent_in_flight S"
  "sb_rpc_ids (ids_insert sid k b S) = sb_rpc_ids S" "sb_sent (ids_insert sid k b S) = sb_sent S"
  "sb_is_connected (ids_insert sid k b S) = sb_is_connected S" "wanted (ids_insert sid k b S) = wanted S"
  "landed (ids_insert sid k b S) = (landed S)(sid \<mapsto> k)"
  "set (list_by_category (ids_insert sid k b S) c) =
     (if c = kind_category k then insert sid (set (list_by_category S c)) else set (list_by_category S c))"
  "c \<noteq> kind_category k \<Longrightarrow> is_most_recent (ids_insert sid k b S) sid' c = is_most_recent S sid' c"
  "\<not> b \<Longrightarrow> is_most_recent S sid' c \<Longrightarrow> is_most_recent (ids_insert sid k b S) sid' c"
  "is_most_recent (ids_insert sid k True S) sid (kind_category k)"
proof -
  have w: "wanted (ids_insert sid k b S) c = wanted S c" for c
    by (cases c) (simp_all add: ids_insert_def Let_def)
  show "wanted (ids_insert sid k b S) = wanted S" using w by (simp add: fun_eq_iff)
qed (auto simp: ids_insert_def Let_def fun_eq_iff list_by_category_def is_most_recent_def category_entry_def
       split: option.splits if_splits)

lemma ids_insert_inv:
  assumes inv: "core_inv M ok dropped {} S" and fresh: "fresh_id M S sid"
  shows "core_inv M ok dropped {} (ids_insert sid k b S)"
proof -
  have "ids_ok (ids_insert sid k b S)"
    using inv fresh unfolding core_inv_def ids_ok_def fresh_id_def by (auto simp: ids_insert_views split: if_splits)
  then show ?thesis using inv unfolding core_inv_def flight_ok_def requests_ok_def ids_insert_views(1-6) by blast
qed

lemma serving_ids_insert:
  assumes "fresh_id M S sid" "serving M S c p sid'" "\<not> b \<or> c \<noteq> kind_category k"
  shows "serving M (ids_insert sid k b S) c p sid'"
proof -
  have "landed S sid' \<noteq> None" using assms(2) by (cases p) (simp_all add: serving_def)
  then have "sid' \<noteq> sid" using assms(1) by (auto simp: fresh_id_def)
  then show ?thesis
    using assms(2,3) ids_insert_views(9) [of c k] ids_insert_views(10) [of b] unfolding serving_def ids_insert_views(3,7) by auto
qed

lemma serving_landed:
  assumes "fresh_id M S sid" "subscription_kind_of (params_kind p) = Some k"
  shows "serving M (ids_insert sid k True S) (kind_category k) p sid"
  using assms ids_insert_views(11) [of sid k S] by (simp add: serving_def fresh_id_def ids_insert_views)

lemma ids_remove_views:
  "in_flight (ids_remove sid S) = in_flight S" "most_recent_in_flight (ids_remove sid S) = most_recent_in_flight S"
  "sb_rpc_ids (ids_remove sid S) = sb_rpc_ids S" "sb_sent (ids_remove sid S) = sb_sent S"
  "sb_is_connected (ids_remove sid S) = sb_is_connected S" "wanted (ids_remove sid S) = wanted S"
  "landed (ids_remove sid S) = (landed S)(sid := None)"
  "set (list_by_category (ids_remove sid S) c) = set (list_by_category S c) - {sid}"
  "is_most_recent S sid' c \<Longrightarrow> is_most_recent (ids_remove sid S) sid' c"
proof -
  have w: "wanted (ids_remove sid S) c = wanted S c" for c
    by (cases c) (simp_all add: ids_remove_def)
  show "wanted (ids_remove sid S) = wanted S" using w by (simp add: fun_eq_iff)
qed (auto simp: ids_remove_def fun_eq_iff list_by_category_def is_most_recent_def get_cloned_map_values split: option.splits)

lemma ids_remove_inv:
  assumes "core_inv M ok dropped X S"
  shows "core_inv M ok dropped X (ids_remove sid S)"
    and "serving M S c p sid' \<Longrightarrow> sid' \<noteq> sid \<Longrightarrow> serving M (ids_remove sid S) c p sid'"
proof -
  have "ids_ok (ids_remove sid S)"
    using assms unfolding core_inv_def ids_ok_def by (auto simp: ids_remove_views)
  then show "core_inv M ok dropped X (ids_remove sid S)"
    using assms unfolding core_inv_def flight_ok_def requests_ok_def ids_remove_views(1-6) by blast
  show "serving M (ids_remove sid S) c p sid'" if "serving M S c p sid'" "sid' \<noteq> sid"
    using that ids_remove_views(9) unfolding serving_def ids_remove_views(3,7) by auto
qed

text \<open>What the client relies on of the node: a subscription request is answered with an id that it has not seen and
  an unsubscription with an acknowledgement, positive or not. Answers to requests it has forgotten are arbitrary.\<close>

definition server_reply ::
  "(rpc_request_kind, 'sm) slotmap_ops \<Rightarrow> 'sm evm_subscriptions \<Rightarrow> slot_key \<Rightarrow> rpc_response \<Rightarrow> bool" where
  "server_reply M S i r =
     (case sm_get M (sb_rpc_ids S) i of
        None \<Rightarrow> True
      | Some kind \<Rightarrow>
          (case subscription_kind_of kind of
             Some _ \<Rightarrow> (case r of NewSubscription sid \<Rightarrow> fresh_id M S sid | _ \<Rightarrow> False)
           | None \<Rightarrow> (case r of UnsubscribeAck _ \<Rightarrow> True | _ \<Rightarrow> False)))"

lemma new_subscription_inv:
  assumes laws: "slotmap_laws M ok" and inv: "core_inv M ok dropped {} S" and rm: "in_flight_remove i S = (st, category, S1)"
    and kind: "sm_get M (sb_rpc_ids S) i = Some kind" and k: "subscription_kind_of kind = Some k"
    and fresh: "fresh_id M S sid" and r: "S' = on_received_rpc_response M i (NewSubscription sid) S"
  shows "core_inv M ok dropped {} S' \<and> wanted S' = wanted S \<and> sb_is_connected S' = sb_is_connected S \<and>
    (\<not> dropped \<and> wanted S c = Some p \<and> served M S c p \<longrightarrow> served M S' c p)"
proof -
  note v = in_flight_remove_views [OF rm]
  note q = in_flight_remove_inv [OF inv rm]
  have fresh1: "fresh_id M S1 sid" using fresh by (simp add: fresh_id_def v)
  show ?thesis
  proof (cases "st = Some UnsubscribeOnLand")
    case True
    then have S': "S' = send_unsubscribe M False sid S1" using rm kind by (simp add: r on_received_rpc_response_def v)
    note u = send_unsubscribe_inv [OF laws q(1), where d = False and sid = sid]
    have "\<not> serving M S1 c p sid" using fresh1 by (cases p) (simp_all add: serving_def fresh_id_def)
    then show ?thesis using u(1,7,8) u(2) [where c = c and p = p] q(4) [of c p] True v(3) by (auto simp: S' v)
  next
    case False
    then have S': "S' = ids_insert sid k (category \<noteq> None) S1"
      using rm kind k by (simp add: r on_received_rpc_response_def v)
    have core: "core_inv M ok dropped {} S'" unfolding S' by (rule ids_insert_inv [OF q(1) fresh1])
    have same: "wanted S' = wanted S" "sb_is_connected S' = sb_is_connected S" by (simp_all add: S' ids_insert_views v)
    have "served M S' c p" if nd: "\<not> dropped" and want: "wanted S c = Some p" and sv: "served M S c p"
    proof (cases "flight S i = Some (ActivateOnLand (params_kind p))")
      case True
      have cat: "request_category (params_kind p) = Some c" using want by (rule wanted_category)
      then have "sm_get M (sb_rpc_ids S) i = Some (params_kind p)"
        using inv nd True unfolding core_inv_def requests_ok_def by blast
      then have k': "subscription_kind_of (params_kind p) = Some k" "kind_category k = c"
        using kind k cat request_category_kind [of "params_kind p" c] by auto
      have "category \<noteq> None" using q(2) [OF True] cat by simp
      then show ?thesis using serving_landed [OF fresh1 k'(1)] k'(2) unfolding served_def S' by auto
    next
      case other: False
      then have "served M S1 c p" using q(4) sv by blast
      then consider j where "flight S1 j = Some (ActivateOnLand (params_kind p))" | sid' where "serving M S1 c p sid'"
        unfolding served_def by blast
      then show ?thesis
      proof cases
        case (1 j)
        then show ?thesis unfolding served_def S' ids_insert_views(1) by blast
      next
        case (2 sid')
        have "category = None \<or> c \<noteq> kind_category k"
        proof (rule ccontr)
          assume bad: "\<not> (category = None \<or> c \<noteq> kind_category k)"
          then obtain c' where "category = Some c'" by (cases category) auto
          then obtain kind' where f: "flight S i = Some (ActivateOnLand kind')" "request_category kind' = Some c'"
            using v(4) [of c'] by blast
          then have "sm_get M (sb_rpc_ids S) i = Some kind'"
            using inv nd unfolding core_inv_def requests_ok_def by blast
          then have "kind' = kind" using kind by simp
          moreover have "request_category kind = Some c" using k bad request_category_kind by blast
          ultimately have c: "request_category kind' = Some c" by simp
          have fl: "flight_ok {} S" using inv by (simp add: core_inv_def)
          obtain p' where p': "wanted S c = Some p'" "params_kind p' = kind'" by (rule flight_okD [OF fl f(1) c]) auto
          then have "p' = p" using want by simp
          then show False using other f(1) p'(2) by simp
        qed
        then have "serving M S' c p sid'" unfolding S' by (intro serving_ids_insert [OF fresh1 2]) simp
        then show ?thesis unfolding served_def by blast
      qed
    qed
    then show ?thesis using core same by blast
  qed
qed

lemma response_inv:
  assumes laws: "slotmap_laws M ok" and inv: "sub_inv M ok dropped S" and reply: "server_reply M S i r"
  shows "sub_inv M ok dropped (on_received_rpc_response M i r S)"
proof -
  have core: "core_inv M ok dropped {} S" and all: "all_served M dropped {} S" using inv by (simp_all add: sub_inv_def)
  obtain st category S1 where rm: "in_flight_remove i S = (st, category, S1)" by (metis prod_cases3)
  note v = in_flight_remove_views [OF rm]
  note q = in_flight_remove_inv [OF core rm]
  have keep: "served M S1 c p"
    if "\<not> dropped" "served M S c p" "\<forall>kind. sm_get M (sb_rpc_ids S) i = Some kind \<longrightarrow> subscription_kind_of kind = None" for c p
  proof -
    have sub: "request_category (params_kind p) \<noteq> None" "subscription_kind_of (params_kind p) \<noteq> None"
      by (cases p; simp)+
    have "flight S i \<noteq> Some (ActivateOnLand (params_kind p))"
    proof
      assume "flight S i = Some (ActivateOnLand (params_kind p))"
      then have "sm_get M (sb_rpc_ids S) i = Some (params_kind p)"
        using that(1) core sub(1) unfolding core_inv_def requests_ok_def by blast
      then show False using that(3) sub(2) by simp
    qed
    then show ?thesis using q(4) that(2) by blast
  qed
  have lift: "sub_inv M ok dropped S'"
    if "core_inv M ok dropped {} S' \<and> wanted S' = wanted S \<and> sb_is_connected S' = sb_is_connected S"
      "\<And>c p. \<not> dropped \<Longrightarrow> wanted S c = Some p \<Longrightarrow> served M S c p \<Longrightarrow> served M S' c p" for S'
  proof -
    have "all_served M dropped {} S'"
      unfolding all_served_def
    proof (intro allI impI, elim conjE)
      fix c p
      assume a: "sb_is_connected S'" "\<not> dropped" "c \<notin> {}" "wanted S' c = Some p"
      then have "served M S c p" using all that(1) by (simp add: all_served_def)
      then show "served M S' c p" using that a by simp
    qed
    then show ?thesis using that(1) by (simp add: sub_inv_def)
  qed
  let ?S = "on_received_rpc_response M i r S"
  consider (forgotten) "sm_get M (sb_rpc_ids S) i = None"
    | (subscribed) kind k sid where "sm_get M (sb_rpc_ids S) i = Some kind" "subscription_kind_of kind = Some k"
        "r = NewSubscription sid" "fresh_id M S sid"
    | (unsubscribed) sid b where "sm_get M (sb_rpc_ids S) i = Some (UnsubscribeId sid)" "r = UnsubscribeAck b"
  proof -
    show thesis if "sm_get M (sb_rpc_ids S) i = None \<Longrightarrow> thesis"
      and "\<And>kind k sid. sm_get M (sb_rpc_ids S) i = Some kind \<Longrightarrow> subscription_kind_of kind = Some k \<Longrightarrow>
        r = NewSubscription sid \<Longrightarrow> fresh_id M S sid \<Longrightarrow> thesis"
      and "\<And>sid b. sm_get M (sb_rpc_ids S) i = Some (UnsubscribeId sid) \<Longrightarrow> r = UnsubscribeAck b \<Longrightarrow> thesis"
    proof (cases "sm_get M (sb_rpc_ids S) i")
      case (Some kind)
      then show ?thesis using that(2,3) reply
        by (cases kind; cases r) (auto simp: server_reply_def)
    qed (rule that(1))
  qed
  then show ?thesis
  proof cases
    case forgotten
    then have S': "?S = S1" using rm by (simp add: on_received_rpc_response_def v)
    show ?thesis unfolding S' by (rule lift) (use q(1) keep forgotten in \<open>auto simp: v\<close>)
  next
    case (subscribed kind k sid)
    note n = new_subscription_inv [OF laws core rm subscribed(1,2,4) refl]
    show ?thesis using n unfolding subscribed(3) by (intro lift) blast+
  next
    case (unsubscribed sid b)
    have sv: "served M S1 c p" if "\<not> dropped" "served M S c p" for c p
      using keep [OF that] unsubscribed(1) by simp
    have gone: "\<not> serving M S1 c p sid" for c p using unsubscribed(1) by (auto simp: serving_def v)
    have S': "?S = (if b then ids_remove sid S1 else if ids_exists S1 sid then send_unsubscribe M True sid S1 else S1)"
      using rm unsubscribed by (simp add: on_received_rpc_response_def v)
    have "sub_inv M ok dropped (ids_remove sid S1)"
    proof (rule lift)
      show "core_inv M ok dropped {} (ids_remove sid S1) \<and> wanted (ids_remove sid S1) = wanted S \<and>
        sb_is_connected (ids_remove sid S1) = sb_is_connected S"
        using ids_remove_inv(1) [OF q(1)] by (simp add: ids_remove_views v)
      show "served M (ids_remove sid S1) c p" if "\<not> dropped" "served M S c p" for c p
        using sv [OF that] gone [of c p] ids_remove_inv(2) [OF q(1)] unfolding served_def ids_remove_views(1) by metis
    qed
    moreover have "sub_inv M ok dropped (send_unsubscribe M True sid S1)"
    proof (rule lift)
      note u = send_unsubscribe_inv [OF laws q(1), where d = True and sid = sid]
      show "core_inv M ok dropped {} (send_unsubscribe M True sid S1) \<and>
        wanted (send_unsubscribe M True sid S1) = wanted S \<and>
        sb_is_connected (send_unsubscribe M True sid S1) = sb_is_connected S"
        using u(1,7,8) by (simp add: v)
      show "served M (send_unsubscribe M True sid S1) c p" if "\<not> dropped" "served M S c p" for c p
        by (rule u(2) [OF that(1) sv [OF that] gone])
    qed
    moreover have "sub_inv M ok dropped S1" by (rule lift) (use q(1) sv in \<open>auto simp: v\<close>)
    ultimately show ?thesis by (simp add: S')
  qed
qed

section \<open>Reachable states\<close>

text \<open>The flag tells that the connection has dropped the request ids since it last came up.\<close>

inductive sub_reachable :: "(rpc_request_kind, 'sm) slotmap_ops \<Rightarrow> bool \<Rightarrow> 'sm evm_subscriptions \<Rightarrow> bool"
  for M :: "(rpc_request_kind, 'sm) slotmap_ops" where
  sub_init: "sub_reachable M dropped (subscriptions_new M)"
| sub_blocks: "sub_reachable M dropped S \<Longrightarrow> sub_reachable M dropped (toggle_block_height M b S)"
| sub_pending: "sub_reachable M dropped S \<Longrightarrow> sub_reachable M dropped (toggle_pending_transactions M b S)"
| sub_enable: "sub_reachable M dropped S \<Longrightarrow> sub_reachable M dropped (enable_logs M addresses topics S)"
| sub_disable: "sub_reachable M dropped S \<Longrightarrow> sub_reachable M dropped (disable_logs M addresses topics S)"
| sub_disable_all: "sub_reachable M dropped S \<Longrightarrow> sub_reachable M dropped (disable_all_logs M S)"
| sub_connected: "sub_reachable M dropped S \<Longrightarrow> \<not> sb_is_connected S \<Longrightarrow> sub_reachable M False (set_is_connected M True S)"
| sub_cleared: "sub_reachable M dropped S \<Longrightarrow> sub_reachable M True (rpc_ids_clear_all M S)"
| sub_disconnected: "sub_reachable M dropped S \<Longrightarrow> sub_reachable M dropped (set_is_connected M False S)"
| sub_response: "sub_reachable M dropped S \<Longrightarrow> server_reply M S i r \<Longrightarrow>
    sub_reachable M dropped (on_received_rpc_response M i r S)"
| sub_delayed: "sub_reachable M dropped S \<Longrightarrow> req \<in> set (sb_delayed S) \<Longrightarrow> sub_reachable M dropped (delayed_send req S)"

lemma set_is_connected_inv:
  assumes laws: "slotmap_laws M ok" and inv: "sub_inv M ok dropped S"
  shows "\<not> sb_is_connected S \<Longrightarrow> sub_inv M ok False (set_is_connected M True S)"
    and "sub_inv M ok dropped (set_is_connected M False S)"
proof -
  have core: "core_inv M ok dropped {} S" using inv by (simp add: sub_inv_def)
  have w: "wanted (S\<lparr>sb_is_connected := True\<rparr>) c = wanted S c" for c by (cases c) simp_all
  have "core_inv M ok False {} (S\<lparr>sb_is_connected := True\<rparr>)" if "\<not> sb_is_connected S"
    using core that unfolding core_inv_def ids_ok_def flight_ok_def requests_ok_def list_by_category_def
    by (auto simp: w)
  then show "sub_inv M ok False (set_is_connected M True S)" if "\<not> sb_is_connected S"
    using that by (simp add: set_is_connected_def resubscribe_inv [OF laws])
  show "sub_inv M ok dropped (set_is_connected M False S)"
    using core by (simp add: set_is_connected_def in_flight_clear_def ids_clear_def sub_inv_def core_inv_def ids_ok_def
      flight_ok_def requests_ok_def all_served_def list_by_category_def)
qed

lemma sub_reachable_inv:
  assumes laws: "slotmap_laws M ok" and "sub_reachable M dropped S"
  shows "sub_inv M ok dropped S"
  using assms(2)
proof induction
  case (sub_init dropped)
  then show ?case
    using slotmap_newD [OF laws] by (simp add: subscriptions_new_def sub_inv_def core_inv_def ids_ok_def flight_ok_def
      requests_ok_def all_served_def list_by_category_def)
next
  case (sub_cleared dropped S)
  have w: "wanted (rpc_ids_clear_all M S) c = wanted S c" for c by (cases c) (simp_all add: rpc_ids_clear_all_def)
  show ?case
    using sub_cleared.IH slotmap_clearD [OF laws] w unfolding sub_inv_def core_inv_def ids_ok_def flight_ok_def
      requests_ok_def all_served_def list_by_category_def by (auto simp: rpc_ids_clear_all_def)
next
  case (sub_delayed dropped S req)
  let ?S = "delayed_send req S"
  have w: "wanted ?S c = wanted S c" for c by (cases c) (simp_all add: delayed_send_def Let_def)
  have same: "in_flight ?S = in_flight S" "most_recent_in_flight ?S = most_recent_in_flight S" "id_lookup ?S = id_lookup S"
    "id_categories ?S = id_categories S" "sb_rpc_ids ?S = sb_rpc_ids S" "sb_is_connected ?S = sb_is_connected S"
    "set (sb_sent S) \<subseteq> set (sb_sent ?S)"
    by (auto simp: delayed_send_def Let_def)
  show ?case by (rule same_tables_inv [OF sub_delayed.IH]) (simp_all add: same_tables_def same w)
next
  case (sub_blocks dropped S b)
  then show ?case by (intro methods_inv [OF laws])
next
  case (sub_pending dropped S b)
  then show ?case by (intro methods_inv [OF laws])
next
  case (sub_enable dropped S addresses topics)
  then show ?case by (intro methods_inv [OF laws])
next
  case (sub_disable dropped S addresses topics)
  then show ?case by (intro methods_inv [OF laws])
next
  case (sub_disable_all dropped S)
  then show ?case by (intro methods_inv [OF laws])
next
  case (sub_connected dropped S)
  then show ?case by (intro set_is_connected_inv(1) [OF laws])
next
  case (sub_disconnected dropped S)
  then show ?case by (intro set_is_connected_inv(2) [OF laws])
next
  case (sub_response dropped S i r)
  then show ?case by (intro response_inv [OF laws])
qed

section \<open>Correctness\<close>

fun event_category :: "'lg rpc_subscription_event \<Rightarrow> subscription_category" where
  "event_category (Ev_NewHeads _) = Cat_NewHeads"
| "event_category (Ev_Logs _) = Cat_AllLogs"
| "event_category (Ev_NewPendingTransaction _) = Cat_NewPendingTransactions"

lemma serving_forwards:
  assumes "serving M S c p sid" "request_category (params_kind p) = Some c" "event_category ev = c"
  shows "on_received_subscription_event S sid ev = Some ev"
  using assms by (cases ev; cases p) (auto simp: serving_def ids_compare_def)

lemma pending_lands:
  assumes inv: "core_inv M ok False {} S" and fl: "flight S i = Some (ActivateOnLand (params_kind p))"
    and cat: "request_category (params_kind p) = Some c" and fresh: "fresh_id M S sid"
  shows "serving M (on_received_rpc_response M i (NewSubscription sid) S) c p sid"
proof -
  obtain st category S1 where rm: "in_flight_remove i S = (st, category, S1)" by (metis prod_cases3)
  note v = in_flight_remove_views [OF rm]
  have "sm_get M (sb_rpc_ids S) i = Some (params_kind p)"
    using inv fl cat unfolding core_inv_def requests_ok_def by blast
  moreover obtain k where k: "subscription_kind_of (params_kind p) = Some k" "kind_category k = c"
    using cat by (auto simp: request_category_kind)
  moreover have "category \<noteq> None" using in_flight_remove_inv(2) [OF inv rm fl] cat by simp
  ultimately have "on_received_rpc_response M i (NewSubscription sid) S = ids_insert sid k True S1"
    using rm fl by (simp add: on_received_rpc_response_def v)
  moreover have "fresh_id M S1 sid" using fresh by (simp add: fresh_id_def v)
  ultimately show ?thesis using serving_landed [OF _ k(1)] k(2) by simp
qed

lemma wishes_served:
  assumes laws: "slotmap_laws M ok" and reach: "sub_reachable M False S"
    and con: "sb_is_connected S" and want: "wanted S c = Some p"
  shows "(\<exists>sid. landed S sid = subscription_kind_of (params_kind p) \<and>
            (\<forall>ev :: 'lg rpc_subscription_event. event_category ev = c \<longrightarrow> on_received_subscription_event S sid ev = Some ev)) \<or>
         (\<exists>i. RR_Subscribe i p \<in> set (sb_sent S) \<and>
            (\<forall>sid (ev :: 'lg rpc_subscription_event). fresh_id M S sid \<and> event_category ev = c \<longrightarrow>
               on_received_subscription_event (on_received_rpc_response M i (NewSubscription sid) S) sid ev = Some ev))"
proof -
  have inv: "core_inv M ok False {} S" and all: "all_served M False {} S"
    using sub_reachable_inv [OF laws reach] by (simp_all add: sub_inv_def)
  have cat: "request_category (params_kind p) = Some c" using want by (rule wanted_category)
  have "served M S c p" using all con want by (simp add: all_served_def)
  then consider sid where "serving M S c p sid" | i where "flight S i = Some (ActivateOnLand (params_kind p))"
    unfolding served_def by blast
  then show ?thesis
  proof cases
    case (1 sid)
    have "on_received_subscription_event S sid ev = Some ev" if "event_category ev = c"
      for ev :: "'lg rpc_subscription_event" using that by (rule serving_forwards [OF 1 cat])
    then show ?thesis using 1 by (intro disjI1 exI [of _ sid]) (auto simp: serving_def)
  next
    case (2 i)
    have fl: "flight_ok {} S" using inv by (simp add: core_inv_def)
    have "RR_Subscribe i p \<in> set (sb_sent S)" using flight_okD [OF fl 2 cat] want by auto
    then show ?thesis using pending_lands [OF inv 2 cat] serving_forwards [OF _ cat]
      by (intro disjI2 exI [of _ i]) blast
  qed
qed

text \<open>
  C16: Whatever sequence of toggles, filter changes, reconnections, answers, refused and retried
  unsubscriptions has happened, while the client is connected every wish (blocks, the current log filter, pending
  transactions) is served: either a landed subscription of exactly the wanted kind forwards all its events,
  or the request for it has been sent and the subscription it is answered with will forward them.
\<close>

theorem desired_subscriptions_maintained:
  assumes laws: "slotmap_laws M ok" and reach: "sub_reachable M False S"
    and con: "sb_is_connected S" and want: "wanted S c = Some p"
  shows "(\<exists>sid. landed S sid = subscription_kind_of (params_kind p) \<and>
            (\<forall>ev :: 'lg rpc_subscription_event. event_category ev = c \<longrightarrow> on_received_subscription_event S sid ev = Some ev)) \<or>
         (\<exists>i. RR_Subscribe i p \<in> set (sb_sent S) \<and>
            (\<forall>sid (ev :: 'lg rpc_subscription_event). fresh_id M S sid \<and> event_category ev = c \<longrightarrow>
               on_received_subscription_event (on_received_rpc_response M i (NewSubscription sid) S) sid ev = Some ev))"
  using assms by (rule wishes_served)

definition demo_subscriptions :: "(nat \<times> (nat \<times> rpc_request_kind) list) evm_subscriptions" where
  "demo_subscriptions =
     on_received_rpc_response demo_slotmap 0 (NewSubscription ''0x1'')
       (set_is_connected demo_slotmap True (toggle_block_height demo_slotmap True (subscriptions_new demo_slotmap)))"

lemmas subscription_eval = toggle_block_height_def subscriptions_new_def resubscribe_def resubscribe_one_def will_subscribe_def
  send_subscribe_def rpc_ids_insert_def send_rpc_def in_flight_insert_def set_is_connected_def demo_slotmap_def

lemma demo_connected:
  "set_is_connected demo_slotmap True (toggle_block_height demo_slotmap True (subscriptions_new demo_slotmap)) =
     (subscriptions_new demo_slotmap)\<lparr>sb_blocks := True, sb_is_connected := True, sb_rpc_ids := (1, [(0, SubscribeNewHeads)]),
        in_flight := [(0, ActivateOnLand SubscribeNewHeads)], most_recent_in_flight := [(Cat_NewHeads, 0)],
        sb_sent := [RR_Subscribe 0 SP_NewHeads]\<rparr>"
  by (simp add: subscription_eval table_insert_def table_new_def)

theorem desired_subscriptions_maintained_witness:
  "(\<exists>sid. landed demo_subscriptions sid = Some SK_NewHeads \<and>
      on_received_subscription_event demo_subscriptions sid (Ev_NewHeads 7 :: unit rpc_subscription_event) =
        Some (Ev_NewHeads 7)) \<or>
   (\<exists>i. RR_Subscribe i SP_NewHeads \<in> set (sb_sent demo_subscriptions))"
proof -
  have "sub_reachable demo_slotmap False demo_subscriptions"
    unfolding demo_subscriptions_def
  proof (intro sub_response sub_connected sub_blocks sub_init)
    show "\<not> sb_is_connected (toggle_block_height demo_slotmap True (subscriptions_new demo_slotmap))"
      by (simp add: subscription_eval)
    show "server_reply demo_slotmap
       (set_is_connected demo_slotmap True (toggle_block_height demo_slotmap True (subscriptions_new demo_slotmap))) 0
       (NewSubscription ''0x1'')"
      unfolding demo_connected
      by (simp add: server_reply_def fresh_id_def demo_slotmap_def subscriptions_new_def)
  qed
  moreover have "sb_is_connected demo_subscriptions" "wanted demo_subscriptions Cat_NewHeads = Some SP_NewHeads"
    unfolding demo_subscriptions_def demo_connected
    by (simp_all add: on_received_rpc_response_def in_flight_remove_def table_remove_def get_cloned_def demo_slotmap_def
        ids_insert_def Let_def subscriptions_new_def)
  ultimately have "(\<exists>sid. landed demo_subscriptions sid = Some SK_NewHeads \<and>
      (\<forall>ev :: unit rpc_subscription_event. event_category ev = Cat_NewHeads \<longrightarrow>
         on_received_subscription_event demo_subscriptions sid ev = Some ev)) \<or>
     (\<exists>i. RR_Subscribe i SP_NewHeads \<in> set (sb_sent demo_subscriptions))"
    using desired_subscriptions_maintained [where 'lg = unit, OF demo_slotmap_laws, of demo_subscriptions Cat_NewHeads SP_NewHeads]
    by auto
  moreover have "event_category (Ev_NewHeads 7 :: unit rpc_subscription_event) = Cat_NewHeads" by simp
  ultimately show ?thesis by blast
qed

end
