(* ===== verification/Watcher.thy ===== *)
theory Watcher
  imports Matching Evm_Subscription Chain_Config
begin

text \<open>
  The trigger manager of \<^verbatim>\<open>subsystems/trigger.rs\<close>: the commands that a trigger needs
  (\<^verbatim>\<open>TriggerCommand::map\<close>), adding and removing a service, and the loop \<^verbatim>\<open>start_watcher\<close> that
  starts streams on command and turns the items of the streams into commands of the dispatcher. Commands travel
  through a queue, and \<open>tm_running\<close> tells that the loop, which owns the receiving end, has not ended. Starting
  a stream may fail; the outcomes are the record \<open>start_outcomes\<close>. The controller of an EVM chain is its
  subscriptions. \<^verbatim>\<open>add_service\<close> waits for Stellar controllers, so it is two steps, with the watcher running
  in between.
\<close>

section \<open>State\<close>

datatype stream_start_state = Waiting | Connecting | Started

datatype stream_kind =
    Str_Cron
  | Str_AtProto
  | Str_Cosmos chain_key
  | Str_EvmEvents chain_key
  | Str_EvmBlocks chain_key
  | Str_StellarEvents chain_key
  | Str_StellarLedgers chain_key

record ('em, 'sm) trigger_manager =
  tm_chain_configs :: chain_configs
  tm_lookup :: lookup_maps
  tm_evm_controllers :: "(chain_key, 'em evm_subscriptions) table"
  tm_stellar_controllers :: "'sm stellar_controllers"
  stellar_uri_subscriptions :: "(service_id, chain_key \<times> stellar_rpc_id) table"
  tm_commands :: "trigger_command list"
  listening_chain_states :: "(chain_key, stream_start_state) table"
  cron_stream_state :: stream_start_state
  atproto_stream_state :: stream_start_state
  multiplexed_stream :: "stream_kind list"
  tm_dispatcher_tx :: "dispatcher_command list"
  tm_running :: bool

definition trigger_manager_new :: "chain_configs \<Rightarrow> ('em, 'sm) trigger_manager" where
  "trigger_manager_new cs =
     \<lparr>tm_chain_configs = cs, tm_lookup = lookup_maps_new, tm_evm_controllers = table_new,
      tm_stellar_controllers = table_new, stellar_uri_subscriptions = table_new, tm_commands = [],
      listening_chain_states = table_new, cron_stream_state = Waiting, atproto_stream_state = Waiting,
      multiplexed_stream = [], tm_dispatcher_tx = [], tm_running = True\<rparr>"

record ('em, 'sm) watcher_env =
  we_trigger :: "'sm trigger_env"
  we_decoders :: event_decoders
  we_evm_slotmap :: "(rpc_request_kind, 'em) slotmap_ops"
  we_contract_to_string :: "stellar_contract \<Rightarrow> string"
  we_updated_spec_repo :: opaque

record start_outcomes =
  so_cosmos_client :: "string + unit"
  so_cosmos_stream :: "trigger_error + unit"
  so_stellar_client :: "stellar_client_error + unit"
  so_jetstream :: "trigger_error + unit"

section \<open>Commands of a trigger\<close>

fun trigger_command_map :: "chain_configs \<Rightarrow> trigger \<Rightarrow> trigger_command list" where
  "trigger_command_map cs (Cron _ _ _) = [TC_StartListeningCron]"
| "trigger_command_map cs (EvmContractEvent address chain event_hash) =
     [TC_StartListeningChain chain, TC_WatchEvmContractEvents chain [address] [event_hash]]"
| "trigger_command_map cs (CosmosContractEvent _ chain _) = [TC_StartListeningChain chain]"
| "trigger_command_map cs (StellarContractEvent chain _ _) = [TC_StartListeningChain chain]"
| "trigger_command_map cs (BlockInterval chain _ _ _) =
     (case get_chain cs chain of
        Some (AC_Evm _) \<Rightarrow> [TC_StartListeningChain chain, TC_WatchEvmBlocks chain]
      | Some (AC_Cosmos _) \<Rightarrow> [TC_StartListeningChain chain]
      | Some (AC_Stellar _) \<Rightarrow> [TC_StartListeningChain chain, TC_WatchStellarBlocks chain]
      | None \<Rightarrow> [])"
| "trigger_command_map cs (AtProtoEvent _ _ _) = [TC_StartListeningAtProto]"
| "trigger_command_map cs Manual = []"

section \<open>Adding and removing a service\<close>

fun send_commands :: "trigger_command list \<Rightarrow> ('em, 'sm) trigger_manager \<Rightarrow> (trigger_error + unit) \<times> ('em, 'sm) trigger_manager" where
  "send_commands [] W = (Inr (), W)"
| "send_commands (c # cs) W =
     (if tm_running W then send_commands cs (W\<lparr>tm_commands := tm_commands W @ [c]\<rparr>) else (Inl TE_LocalCommandError, W))"

definition workflow_commands :: "chain_configs \<Rightarrow> service \<Rightarrow> trigger_command list" where
  "workflow_commands cs svc = concat (map (\<lambda>(_, wf). trigger_command_map cs (wf_trigger wf)) (workflows svc))"

definition stellar_chains_to_wait_for :: "chain_configs \<Rightarrow> trigger_command list \<Rightarrow> chain_key list" where
  "stellar_chains_to_wait_for cs cmds =
     remdups (List.map_filter (\<lambda>c. case c of
         TC_StartListeningChain chain \<Rightarrow> (case get_chain cs chain of Some (AC_Stellar _) \<Rightarrow> Some chain | _ \<Rightarrow> None)
       | _ \<Rightarrow> None) cmds)"

definition add_service_begin ::
  "service \<Rightarrow> ('em, 'sm) trigger_manager \<Rightarrow> (trigger_error + unit) \<times> ('em, 'sm) trigger_manager" where
  "add_service_begin svc W =
     send_commands (TC_StartListeningChain (manager_chain (manager svc)) #
       map TC_StartListeningChain
         (stellar_chains_to_wait_for (tm_chain_configs W) (workflow_commands (tm_chain_configs W) svc))) W"

definition manager_commands :: "('em, 'sm) watcher_env \<Rightarrow> service_id \<Rightarrow> service_manager \<Rightarrow> trigger_command list" where
  "manager_commands E s m =
     (case m of
        SM_Evm chain address \<Rightarrow>
          [TC_WatchEvmContractEvents chain [address] [service_uri_updated_hash (we_decoders E)]]
      | SM_Cosmos _ _ \<Rightarrow> []
      | SM_Stellar chain address \<Rightarrow> [TC_WatchStellarServiceUri s chain address])"

definition add_service_finish ::
  "crypto \<Rightarrow> ('em, 'sm) watcher_env \<Rightarrow> chain_configs \<Rightarrow> service \<Rightarrow> ('em, 'sm) trigger_manager \<Rightarrow>
   (trigger_error + unit) \<times> ('em, 'sm) trigger_manager" where
  "add_service_finish C E cs svc W =
     (case lookup_add_service C (we_trigger E) svc (tm_lookup W) (tm_stellar_controllers W) of
        (r, L, ctrls) \<Rightarrow>
          let W1 = W\<lparr>tm_lookup := L, tm_stellar_controllers := ctrls\<rparr>
          in case r of
               Inl e \<Rightarrow> (Inl e, W1)
             | Inr _ \<Rightarrow>
                 send_commands (manager_commands E (service_id_of C svc) (manager svc) @ workflow_commands cs svc) W1)"

definition missing_controller :: "chain_key list \<Rightarrow> ('em, 'sm) trigger_manager \<Rightarrow> chain_key option" where
  "missing_controller waits W = List.find (\<lambda>c. \<not> contains_key (tm_stellar_controllers W) c) waits"

text \<open>The whole of \<^verbatim>\<open>add_service\<close>; the argument is what the watcher does during the wait.\<close>

definition trigger_add_service ::
  "crypto \<Rightarrow> ('em, 'sm) watcher_env \<Rightarrow> (('em, 'sm) trigger_manager \<Rightarrow> ('em, 'sm) trigger_manager) \<Rightarrow> service \<Rightarrow>
   ('em, 'sm) trigger_manager \<Rightarrow> (trigger_error + unit) \<times> ('em, 'sm) trigger_manager" where
  "trigger_add_service C E progress svc W =
     (let cs = tm_chain_configs W;
          waits = stellar_chains_to_wait_for cs (workflow_commands cs svc)
      in case add_service_begin svc W of
           (Inl e, W1) \<Rightarrow> (Inl e, W1)
         | (Inr _, W1) \<Rightarrow>
             let W2 = (if missing_controller waits W1 = None then W1 else progress W1)
             in case missing_controller waits W2 of
                  Some chain \<Rightarrow> (Inl (TE_StellarMissingClient chain), W2)
                | None \<Rightarrow> add_service_finish C E cs svc W2)"

definition trigger_remove_service ::
  "('em, 'sm) watcher_env \<Rightarrow> service_id \<Rightarrow> ('em, 'sm) trigger_manager \<Rightarrow> (trigger_error + unit) \<times> ('em, 'sm) trigger_manager" where
  "trigger_remove_service E s W =
     (case lookup_remove_service (we_trigger E) s (tm_lookup W) (tm_stellar_controllers W) of
        (r, L, ctrls) \<Rightarrow>
          let W1 = W\<lparr>tm_lookup := L, tm_stellar_controllers := ctrls\<rparr>
          in case r of
               Inl e \<Rightarrow> (Inl e, W1)
             | Inr _ \<Rightarrow>
                 if contains_key (stellar_uri_subscriptions W1) s
                 then send_commands [TC_UnwatchStellarServiceUri s] W1
                 else (Inr (), W1))"

definition trigger_add_trigger :: "trigger_action \<Rightarrow> ('em, 'sm) trigger_manager \<Rightarrow> (trigger_error + unit) \<times> ('em, 'sm) trigger_manager" where
  "trigger_add_trigger a W = send_commands [TC_ManualTrigger a] W"

section \<open>Starting streams\<close>

definition chain_state :: "('em, 'sm) trigger_manager \<Rightarrow> chain_key \<Rightarrow> stream_start_state" where
  "chain_state W chain =
     (case get_cloned (listening_chain_states W) chain of None \<Rightarrow> Waiting | Some st \<Rightarrow> st)"

definition set_chain_state :: "chain_key \<Rightarrow> stream_start_state \<Rightarrow> ('em, 'sm) trigger_manager \<Rightarrow> ('em, 'sm) trigger_manager" where
  "set_chain_state chain st W =
     W\<lparr>listening_chain_states := table_insert chain st (listening_chain_states W)\<rparr>"

definition start_listening_cron :: "('em, 'sm) trigger_manager \<Rightarrow> ('em, 'sm) trigger_manager" where
  "start_listening_cron W =
     (case cron_stream_state W of
        Waiting \<Rightarrow> W\<lparr>cron_stream_state := Started, multiplexed_stream := multiplexed_stream W @ [Str_Cron]\<rparr>
      | _ \<Rightarrow> W)"

definition start_listening_atproto :: "start_outcomes \<Rightarrow> ('em, 'sm) trigger_manager \<Rightarrow> ('em, 'sm) trigger_manager" where
  "start_listening_atproto out W =
     (case atproto_stream_state W of
        Waiting \<Rightarrow>
          (case so_jetstream out of
             Inr _ \<Rightarrow> W\<lparr>atproto_stream_state := Started, multiplexed_stream := multiplexed_stream W @ [Str_AtProto]\<rparr>
           | Inl _ \<Rightarrow> W)
      | _ \<Rightarrow> W)"

text \<open>A missing endpoint or a client that cannot be built ends the watcher; a stream that cannot be started
  leaves the chain waiting for the next command. A Stellar chain whose controller exists under the key of its
  configuration stays in the state \<open>Connecting\<close>.\<close>

definition start_chain_stream ::
  "('em, 'sm) watcher_env \<Rightarrow> start_outcomes \<Rightarrow> chain_key \<Rightarrow> any_chain_config \<Rightarrow> ('em, 'sm) trigger_manager \<Rightarrow>
   (trigger_error + unit) \<times> ('em, 'sm) trigger_manager" where
  "start_chain_stream E out chain cfg W =
     (case cfg of
        AC_Cosmos _ \<Rightarrow>
          (case so_cosmos_client out of
             Inl e \<Rightarrow> (Inl (TE_Climb e), W)
           | Inr _ \<Rightarrow>
               (case so_cosmos_stream out of
                  Inl _ \<Rightarrow> (Inr (), set_chain_state chain Waiting W)
                | Inr _ \<Rightarrow>
                    (Inr (), set_chain_state chain Started
                       (W\<lparr>multiplexed_stream := multiplexed_stream W @ [Str_Cosmos chain]\<rparr>))))
      | AC_Evm c \<Rightarrow>
          if ws_endpoints c = [] then (Inl (TE_EvmMissingWebsocket chain), W)
          else (Inr (), set_chain_state chain Started
                 (W\<lparr>multiplexed_stream := multiplexed_stream W @ [Str_EvmEvents chain, Str_EvmBlocks chain],
                    tm_evm_controllers :=
                      table_insert chain (subscriptions_new (we_evm_slotmap E)) (tm_evm_controllers W)\<rparr>))
      | AC_Stellar c \<Rightarrow>
          if rpc_url c = [] then (Inl (TE_StellarMissingRpc chain), W)
          else let key = chain_key_of_config cfg
               in if get_cloned (tm_stellar_controllers W) key = None
                  then case so_stellar_client out of
                         Inl e \<Rightarrow> (Inl (TE_StellarClient e), W)
                       | Inr _ \<Rightarrow>
                           (Inr (), set_chain_state chain Started
                             (W\<lparr>multiplexed_stream := multiplexed_stream W @ [Str_StellarEvents chain, Str_StellarLedgers chain],
                                tm_stellar_controllers :=
                                  table_insert key (stellar_stream_controller_new (te_slotmap (we_trigger E)) (friendbot_url c))
                                    (tm_stellar_controllers W)\<rparr>))
                  else (Inr (), W))"

definition start_listening_chain ::
  "('em, 'sm) watcher_env \<Rightarrow> start_outcomes \<Rightarrow> chain_key \<Rightarrow> ('em, 'sm) trigger_manager \<Rightarrow>
   (trigger_error + unit) \<times> ('em, 'sm) trigger_manager" where
  "start_listening_chain E out chain W =
     (if chain_state W chain \<noteq> Waiting then (Inr (), W)
      else let W1 = set_chain_state chain Connecting W
           in case get_chain (tm_chain_configs W) chain of
                None \<Rightarrow> (Inr (), set_chain_state chain Waiting W1)
              | Some cfg \<Rightarrow> start_chain_stream E out chain cfg W1)"

section \<open>Watching\<close>

definition watch_evm_contract_events ::
  "('em, 'sm) watcher_env \<Rightarrow> chain_key \<Rightarrow> evm_address list \<Rightarrow> bytes list \<Rightarrow> ('em, 'sm) trigger_manager \<Rightarrow> ('em, 'sm) trigger_manager" where
  "watch_evm_contract_events E chain addresses event_hashes W =
     (case get_cloned (tm_evm_controllers W) chain of
        Some S \<Rightarrow> W\<lparr>tm_evm_controllers :=
          table_insert chain (enable_logs (we_evm_slotmap E) addresses event_hashes S) (tm_evm_controllers W)\<rparr>
      | None \<Rightarrow> W)"

definition watch_evm_blocks :: "('em, 'sm) watcher_env \<Rightarrow> chain_key \<Rightarrow> ('em, 'sm) trigger_manager \<Rightarrow> ('em, 'sm) trigger_manager" where
  "watch_evm_blocks E chain W =
     (case get_cloned (tm_evm_controllers W) chain of
        Some S \<Rightarrow> W\<lparr>tm_evm_controllers :=
          table_insert chain (toggle_block_height (we_evm_slotmap E) True S) (tm_evm_controllers W)\<rparr>
      | None \<Rightarrow> W)"

definition watch_stellar_blocks :: "chain_key \<Rightarrow> ('em, 'sm) trigger_manager \<Rightarrow> ('em, 'sm) trigger_manager" where
  "watch_stellar_blocks chain W =
     (case get_cloned (tm_stellar_controllers W) chain of
        Some c \<Rightarrow> W\<lparr>tm_stellar_controllers := table_insert chain (enable_ledger_polling c) (tm_stellar_controllers W)\<rparr>
      | None \<Rightarrow> W)"

definition watch_stellar_service_uri ::
  "('em, 'sm) watcher_env \<Rightarrow> service_id \<Rightarrow> chain_key \<Rightarrow> stellar_contract \<Rightarrow> ('em, 'sm) trigger_manager \<Rightarrow> ('em, 'sm) trigger_manager" where
  "watch_stellar_service_uri E s chain project_root W =
     (case stellar_event_filter_new (te_to_xdr (we_trigger E)) (we_contract_to_string E project_root)
             [Exact (we_updated_spec_repo E)] of
        Inl _ \<Rightarrow> W
      | Inr f \<Rightarrow>
          (case get_cloned (tm_stellar_controllers W) chain of
             None \<Rightarrow> W
           | Some c \<Rightarrow>
               let (rpc_id, c') = update_event_filters (add_filter (te_slotmap (we_trigger E)) f) c
               in W\<lparr>tm_stellar_controllers := table_insert chain c' (tm_stellar_controllers W),
                    stellar_uri_subscriptions := table_insert s (chain, rpc_id) (stellar_uri_subscriptions W)\<rparr>))"

definition unwatch_stellar_service_uri ::
  "('em, 'sm) watcher_env \<Rightarrow> service_id \<Rightarrow> ('em, 'sm) trigger_manager \<Rightarrow> ('em, 'sm) trigger_manager" where
  "unwatch_stellar_service_uri E s W =
     (case table_remove s (stellar_uri_subscriptions W) of
        (None, t) \<Rightarrow> W\<lparr>stellar_uri_subscriptions := t\<rparr>
      | (Some (chain, rpc_id), t) \<Rightarrow>
          let W1 = W\<lparr>stellar_uri_subscriptions := t\<rparr>
          in case get_cloned (tm_stellar_controllers W1) chain of
               None \<Rightarrow> W1
             | Some c \<Rightarrow>
                 W1\<lparr>tm_stellar_controllers := table_insert chain
                   (snd (update_event_filters (\<lambda>F. ((), remove_filter_by_id (te_slotmap (we_trigger E)) rpc_id F)) c))
                   (tm_stellar_controllers W1)\<rparr>)"

section \<open>The loop\<close>

datatype loop_control = Continue | Break

fun handle_command ::
  "('em, 'sm) watcher_env \<Rightarrow> start_outcomes \<Rightarrow> trigger_command \<Rightarrow> ('em, 'sm) trigger_manager \<Rightarrow>
   (trigger_error + loop_control \<times> dispatcher_command list) \<times> ('em, 'sm) trigger_manager" where
  "handle_command E out TC_Kill W = (Inr (Break, []), W)"
| "handle_command E out (TC_ManualTrigger a) W = (Inr (Continue, [DC_Trigger a]), W)"
| "handle_command E out TC_StartListeningCron W = (Inr (Continue, []), start_listening_cron W)"
| "handle_command E out (TC_StartListeningChain chain) W =
     (case start_listening_chain E out chain W of
        (Inl e, W1) \<Rightarrow> (Inl e, W1)
      | (Inr _, W1) \<Rightarrow> (Inr (Continue, []), W1))"
| "handle_command E out (TC_WatchEvmContractEvents chain addresses event_hashes) W =
     (Inr (Continue, []), watch_evm_contract_events E chain addresses event_hashes W)"
| "handle_command E out (TC_WatchEvmBlocks chain) W = (Inr (Continue, []), watch_evm_blocks E chain W)"
| "handle_command E out (TC_WatchStellarServiceUri s chain project_root) W =
     (Inr (Continue, []), watch_stellar_service_uri E s chain project_root W)"
| "handle_command E out (TC_UnwatchStellarServiceUri s) W = (Inr (Continue, []), unwatch_stellar_service_uri E s W)"
| "handle_command E out (TC_WatchStellarBlocks chain) W = (Inr (Continue, []), watch_stellar_blocks chain W)"
| "handle_command E out TC_StartListeningAtProto W = (Inr (Continue, []), start_listening_atproto out W)"

text \<open>When the loop is left normally the EVM controllers are dropped; an error leaves it at once.\<close>

definition finish_turn ::
  "(trigger_error + loop_control \<times> dispatcher_command list) \<Rightarrow> ('em, 'sm) trigger_manager \<Rightarrow> ('em, 'sm) trigger_manager" where
  "finish_turn r W =
     (case r of
        Inl _ \<Rightarrow> W\<lparr>tm_running := False\<rparr>
      | Inr (Break, _) \<Rightarrow> W\<lparr>tm_running := False, tm_evm_controllers := table_clear (tm_evm_controllers W)\<rparr>
      | Inr (Continue, cmds) \<Rightarrow> W\<lparr>tm_dispatcher_tx := tm_dispatcher_tx W @ cmds\<rparr>)"

definition command_turn :: "('em, 'sm) watcher_env \<Rightarrow> start_outcomes \<Rightarrow> ('em, 'sm) trigger_manager \<Rightarrow> ('em, 'sm) trigger_manager" where
  "command_turn E out W =
     (case tm_commands W of
        [] \<Rightarrow> W
      | c # cs \<Rightarrow> (case handle_command E out c (W\<lparr>tm_commands := cs\<rparr>) of (r, W1) \<Rightarrow> finish_turn r W1))"

definition event_turn :: "('em, 'sm) watcher_env \<Rightarrow> wavs_db \<Rightarrow> stream_triggers \<Rightarrow> ('em, 'sm) trigger_manager \<Rightarrow> ('em, 'sm) trigger_manager" where
  "event_turn E db item W =
     (case handle_event (we_decoders E) db item (tm_lookup W) of
        (r, L) \<Rightarrow> finish_turn (case r of Inl e \<Rightarrow> Inl e | Inr cmds \<Rightarrow> Inr (Continue, cmds)) (W\<lparr>tm_lookup := L\<rparr>))"

definition kill_turn :: "('em, 'sm) trigger_manager \<Rightarrow> ('em, 'sm) trigger_manager" where
  "kill_turn W = finish_turn (Inr (Break, [])) W"

text \<open>The watcher alone, for as many turns as there are outcomes.\<close>

fun run_queue :: "('em, 'sm) watcher_env \<Rightarrow> start_outcomes list \<Rightarrow> ('em, 'sm) trigger_manager \<Rightarrow> ('em, 'sm) trigger_manager" where
  "run_queue E [] W = W"
| "run_queue E (out # outs) W = (if tm_running W \<and> tm_commands W \<noteq> [] then run_queue E outs (command_turn E out W) else W)"

section \<open>Reachable states\<close>

inductive watcher_reachable :: "crypto \<Rightarrow> ('em, 'sm) watcher_env \<Rightarrow> ('em, 'sm) trigger_manager \<Rightarrow> bool"
  for C :: crypto and E :: "('em, 'sm) watcher_env" where
  wr_init: "chain_configs_wf cs \<Longrightarrow> watcher_reachable C E (trigger_manager_new cs)"
| wr_begin: "watcher_reachable C E W \<Longrightarrow> add_service_begin svc W = (r, W') \<Longrightarrow> watcher_reachable C E W'"
| wr_finish: "watcher_reachable C E W \<Longrightarrow> add_service_finish C E cs svc W = (r, W') \<Longrightarrow> watcher_reachable C E W'"
| wr_remove: "watcher_reachable C E W \<Longrightarrow> trigger_remove_service E s W = (r, W') \<Longrightarrow> watcher_reachable C E W'"
| wr_manual: "watcher_reachable C E W \<Longrightarrow> trigger_add_trigger a W = (r, W') \<Longrightarrow> watcher_reachable C E W'"
| wr_command: "watcher_reachable C E W \<Longrightarrow> tm_running W \<Longrightarrow> watcher_reachable C E (command_turn E out W)"
| wr_event: "watcher_reachable C E W \<Longrightarrow> tm_running W \<Longrightarrow> watcher_reachable C E (event_turn E db item W)"
| wr_kill: "watcher_reachable C E W \<Longrightarrow> tm_running W \<Longrightarrow> watcher_reachable C E (kill_turn W)"
| wr_chain: "watcher_reachable C E W \<Longrightarrow> add_chain key c (tm_chain_configs W) = Inr cs \<Longrightarrow>
    watcher_reachable C E (W\<lparr>tm_chain_configs := cs\<rparr>)"

fun stream_chain :: "stream_kind \<Rightarrow> chain_key option" where
  "stream_chain Str_Cron = None"
| "stream_chain Str_AtProto = None"
| "stream_chain (Str_Cosmos c) = Some c"
| "stream_chain (Str_EvmEvents c) = Some c"
| "stream_chain (Str_EvmBlocks c) = Some c"
| "stream_chain (Str_StellarEvents c) = Some c"
| "stream_chain (Str_StellarLedgers c) = Some c"

definition has_controller :: "chain_key \<Rightarrow> ('em, 'sm) trigger_manager \<Rightarrow> bool" where
  "has_controller chain W = (get_cloned (tm_evm_controllers W) chain \<noteq> None)"

definition streams_ok :: "('em, 'sm) trigger_manager \<Rightarrow> bool" where
  "streams_ok W =
     (distinct (multiplexed_stream W) \<and>
      (Str_Cron \<in> set (multiplexed_stream W) \<longrightarrow> cron_stream_state W = Started) \<and>
      (Str_AtProto \<in> set (multiplexed_stream W) \<longrightarrow> atproto_stream_state W = Started) \<and>
      (\<forall>st\<in>set (multiplexed_stream W). \<forall>chain. stream_chain st = Some chain \<longrightarrow> chain_state W chain = Started))"

definition evm_ok :: "('em, 'sm) trigger_manager \<Rightarrow> bool" where
  "evm_ok W =
     ((\<forall>chain. has_controller chain W \<longrightarrow> chain_state W chain = Started) \<and>
      (tm_running W \<longrightarrow> (\<forall>chain. get_chain (tm_chain_configs W) chain = None \<longrightarrow> chain_state W chain = Waiting)) \<and>
      (tm_running W \<longrightarrow> (\<forall>chain c. get_chain (tm_chain_configs W) chain = Some (AC_Evm c) \<longrightarrow>
         chain_state W chain = Waiting \<or>
         chain_state W chain = Started \<and> ws_endpoints c \<noteq> [] \<and> has_controller chain W \<and>
           Str_EvmEvents chain \<in> set (multiplexed_stream W) \<and> Str_EvmBlocks chain \<in> set (multiplexed_stream W))))"

definition watcher_inv :: "('em, 'sm) trigger_manager \<Rightarrow> bool" where
  "watcher_inv W = (chain_configs_wf (tm_chain_configs W) \<and> streams_ok W \<and> evm_ok W)"

text \<open>Most operations leave the streams alone.\<close>

definition same_streams :: "('em, 'sm) trigger_manager \<Rightarrow> ('em, 'sm) trigger_manager \<Rightarrow> bool" where
  "same_streams W W' =
     (multiplexed_stream W' = multiplexed_stream W \<and> cron_stream_state W' = cron_stream_state W \<and>
      atproto_stream_state W' = atproto_stream_state W \<and> listening_chain_states W' = listening_chain_states W \<and>
      tm_chain_configs W' = tm_chain_configs W \<and> (tm_running W' \<longrightarrow> tm_running W) \<and>
      (\<forall>chain. has_controller chain W' \<longrightarrow> has_controller chain W) \<and>
      (tm_running W' \<longrightarrow> (\<forall>chain. has_controller chain W \<longrightarrow> has_controller chain W')))"

lemma same_streams_inv:
  assumes inv: "watcher_inv W" and same: "same_streams W W'"
  shows "watcher_inv W'"
proof -
  have cst: "chain_state W' chain = chain_state W chain" for chain using same by (simp add: same_streams_def chain_state_def)
  have "streams_ok W' = streams_ok W" using same by (simp add: streams_ok_def same_streams_def cst)
  moreover have "evm_ok W'"
    unfolding evm_ok_def
  proof (intro conjI allI impI)
    fix chain assume "has_controller chain W'"
    then show "chain_state W' chain = Started" using inv same by (simp add: watcher_inv_def evm_ok_def same_streams_def cst)
  next
    fix chain assume "tm_running W'" "get_chain (tm_chain_configs W') chain = None"
    then show "chain_state W' chain = Waiting" using inv same by (simp add: watcher_inv_def evm_ok_def same_streams_def cst)
  next
    fix chain c assume "tm_running W'" "get_chain (tm_chain_configs W') chain = Some (AC_Evm c)"
    then show "chain_state W' chain = Waiting \<or>
         chain_state W' chain = Started \<and> ws_endpoints c \<noteq> [] \<and> has_controller chain W' \<and>
           Str_EvmEvents chain \<in> set (multiplexed_stream W') \<and> Str_EvmBlocks chain \<in> set (multiplexed_stream W')"
      using inv same unfolding watcher_inv_def evm_ok_def same_streams_def cst by metis
  qed
  ultimately show ?thesis using inv same by (simp add: watcher_inv_def same_streams_def)
qed

lemma same_streams_refl [simp]: "same_streams W W"
  by (simp add: same_streams_def)

lemma same_streams_trans: "same_streams W W1 \<Longrightarrow> same_streams W1 W2 \<Longrightarrow> same_streams W W2"
  unfolding same_streams_def by (elim conjE, intro conjI; metis)

lemma send_commands_same: "send_commands cs W = (r, W') \<Longrightarrow> same_streams W W'"
proof (induction cs arbitrary: W)
  case (Cons c cs)
  have "same_streams W (W\<lparr>tm_commands := tm_commands W @ [c]\<rparr>)" by (simp add: same_streams_def has_controller_def)
  then show ?case using Cons same_streams_trans by (fastforce split: if_splits)
qed simp

lemma finish_turn_same: "same_streams W (finish_turn r W)"
  by (auto simp: finish_turn_def same_streams_def has_controller_def split: sum.splits loop_control.splits)

lemma watch_same:
  "same_streams W (watch_evm_contract_events E chain addresses hashes W)" "same_streams W (watch_evm_blocks E chain W)"
  "same_streams W (watch_stellar_blocks chain W)" "same_streams W (watch_stellar_service_uri E s chain root W)"
  "same_streams W (unwatch_stellar_service_uri E s W)"
  by (auto simp: watch_evm_contract_events_def watch_evm_blocks_def watch_stellar_blocks_def watch_stellar_service_uri_def
      unwatch_stellar_service_uri_def same_streams_def has_controller_def Let_def split: option.splits sum.splits prod.splits)

lemma trigger_ops_same:
  "add_service_begin svc W = (r, W') \<Longrightarrow> same_streams W W'"
  "add_service_finish C E cs svc W = (r, W') \<Longrightarrow> same_streams W W'"
  "trigger_remove_service E s W = (r, W') \<Longrightarrow> same_streams W W'"
  "trigger_add_trigger a W = (r, W') \<Longrightarrow> same_streams W W'"
  "same_streams W (event_turn E db item W)" "same_streams W (kill_turn W)"
proof -
  have upd: "same_streams W (W\<lparr>tm_lookup := L, tm_stellar_controllers := ctrls\<rparr>)" "same_streams W (W\<lparr>tm_lookup := L\<rparr>)" for L ctrls
    by (simp_all add: same_streams_def has_controller_def)
  show "add_service_begin svc W = (r, W') \<Longrightarrow> same_streams W W'" unfolding add_service_begin_def by (rule send_commands_same)
  show "trigger_add_trigger a W = (r, W') \<Longrightarrow> same_streams W W'" unfolding trigger_add_trigger_def by (rule send_commands_same)
  show "add_service_finish C E cs svc W = (r, W') \<Longrightarrow> same_streams W W'"
    by (auto simp: add_service_finish_def Let_def split: prod.splits sum.splits
        intro: upd same_streams_trans [OF upd(1) send_commands_same])
  show "trigger_remove_service E s W = (r, W') \<Longrightarrow> same_streams W W'"
    by (auto simp: trigger_remove_service_def Let_def split: prod.splits sum.splits if_splits
        simp del: send_commands.simps intro: upd same_streams_trans [OF upd(1) send_commands_same])
  show "same_streams W (event_turn E db item W)"
  proof -
    obtain r L where h: "handle_event (we_decoders E) db item (tm_lookup W) = (r, L)" by fastforce
    show ?thesis unfolding event_turn_def h prod.case by (rule same_streams_trans [OF upd(2) finish_turn_same])
  qed
  show "same_streams W (kill_turn W)" by (simp add: kill_turn_def finish_turn_same)
qed

text \<open>A chain that was waiting gets new streams or a new state.\<close>

definition restart ::
  "chain_key \<Rightarrow> stream_start_state \<Rightarrow> stream_kind list \<Rightarrow> (chain_key, 'em evm_subscriptions) table \<Rightarrow> 'sm stellar_controllers \<Rightarrow>
   bool \<Rightarrow> ('em, 'sm) trigger_manager \<Rightarrow> ('em, 'sm) trigger_manager \<Rightarrow> bool" where
  "restart chain st news evm stellar running W W' =
     (multiplexed_stream W' = multiplexed_stream W @ news \<and> (\<forall>c. chain_state W' c = (if c = chain then st else chain_state W c)) \<and>
      tm_evm_controllers W' = evm \<and> tm_stellar_controllers W' = stellar \<and> cron_stream_state W' = cron_stream_state W \<and>
      atproto_stream_state W' = atproto_stream_state W \<and> tm_chain_configs W' = tm_chain_configs W \<and> tm_running W' = running)"

lemma restart_inv:
  assumes inv: "watcher_inv W" and run: "tm_running W" and wait: "chain_state W chain = Waiting"
    and W': "restart chain st news evm stellar running W W'"
    and news: "distinct news" "\<forall>s\<in>set news. stream_chain s = Some chain" "news \<noteq> [] \<longrightarrow> st = Started"
    and evm: "\<forall>c. c \<noteq> chain \<longrightarrow> get_cloned evm c = get_cloned (tm_evm_controllers W) c"
      "get_cloned evm chain \<noteq> None \<longrightarrow> st = Started"
    and cfg: "running \<longrightarrow> (case get_chain (tm_chain_configs W) chain of
        None \<Rightarrow> st = Waiting
      | Some (AC_Evm c) \<Rightarrow> st = Waiting \<or> st = Started \<and> ws_endpoints c \<noteq> [] \<and> get_cloned evm chain \<noteq> None \<and>
          Str_EvmEvents chain \<in> set news \<and> Str_EvmBlocks chain \<in> set news
      | Some _ \<Rightarrow> True)"
  shows "watcher_inv W'"
proof -
  have so: "streams_ok W" and eo: "evm_ok W" and wf: "chain_configs_wf (tm_chain_configs W)"
    using inv by (simp_all add: watcher_inv_def)
  have none: "stream_chain s \<noteq> Some chain" if "s \<in> set (multiplexed_stream W)" for s
    using so that wait by (auto simp: streams_ok_def)
  have d: "distinct (multiplexed_stream W')"
    using so news(1,2) none W' by (auto simp: streams_ok_def restart_def)
  have nc: "Str_Cron \<notin> set news" "Str_AtProto \<notin> set news" using news(2) by force+
  have st: "chain_state W' c = Started" if "s \<in> set (multiplexed_stream W')" "stream_chain s = Some c" for s c
  proof (cases "s \<in> set news")
    case True
    then show ?thesis using that news(2,3) W' by (auto simp: restart_def)
  next
    case False
    then have "s \<in> set (multiplexed_stream W)" using that W' by (simp add: restart_def)
    then show ?thesis using so none that(2) W' by (auto simp: streams_ok_def restart_def)
  qed
  have so': "streams_ok W'" using so d nc st W' by (simp add: streams_ok_def restart_def)
  have hc: "has_controller c W' = has_controller c W" if "c \<noteq> chain" for c
    using evm(1) that W' by (simp add: has_controller_def restart_def)
  have "evm_ok W'"
    unfolding evm_ok_def
  proof (intro conjI allI impI)
    fix c assume "has_controller c W'"
    then show "chain_state W' c = Started"
      using eo hc evm(2) W' by (cases "c = chain") (simp_all add: evm_ok_def has_controller_def restart_def)
  next
    fix c assume a: "tm_running W'" "get_chain (tm_chain_configs W') c = None"
    then show "chain_state W' c = Waiting"
      using eo cfg W' run by (cases "c = chain") (simp_all add: evm_ok_def restart_def)
  next
    fix c d assume a: "tm_running W'" "get_chain (tm_chain_configs W') c = Some (AC_Evm d)"
    show "chain_state W' c = Waiting \<or> chain_state W' c = Started \<and> ws_endpoints d \<noteq> [] \<and> has_controller c W' \<and>
        Str_EvmEvents c \<in> set (multiplexed_stream W') \<and> Str_EvmBlocks c \<in> set (multiplexed_stream W')"
    proof (cases "c = chain")
      case True
      then show ?thesis using cfg W' a by (auto simp: restart_def has_controller_def)
    next
      case False
      have "get_chain (tm_chain_configs W) c = Some (AC_Evm d)" using a W' by (simp add: restart_def)
      then have "chain_state W c = Waiting \<or> chain_state W c = Started \<and> ws_endpoints d \<noteq> [] \<and> has_controller c W \<and>
        Str_EvmEvents c \<in> set (multiplexed_stream W) \<and> Str_EvmBlocks c \<in> set (multiplexed_stream W)"
        using eo run unfolding evm_ok_def by blast
      then show ?thesis using False hc [OF False] W' by (auto simp: restart_def)
    qed
  qed
  then show ?thesis using so' wf W' by (simp add: watcher_inv_def restart_def)
qed

lemma chain_state_set: "chain_state (set_chain_state chain st W) c = (if c = chain then st else chain_state W c)"
  by (simp add: chain_state_def set_chain_state_def)

lemma start_listening_chain_cases:
  assumes wait: "chain_state W chain = Waiting" and r: "start_listening_chain E out chain W = (r, W')"
  shows "case get_chain (tm_chain_configs W) chain of
      None \<Rightarrow> r = Inr () \<and> restart chain Waiting [] (tm_evm_controllers W) (tm_stellar_controllers W) (tm_running W) W W'
    | Some (AC_Evm c) \<Rightarrow>
        if ws_endpoints c = [] then r = Inl (TE_EvmMissingWebsocket chain) \<and>
          restart chain Connecting [] (tm_evm_controllers W) (tm_stellar_controllers W) (tm_running W) W W'
        else r = Inr () \<and> restart chain Started [Str_EvmEvents chain, Str_EvmBlocks chain]
          (table_insert chain (subscriptions_new (we_evm_slotmap E)) (tm_evm_controllers W)) (tm_stellar_controllers W) (tm_running W) W W'
    | Some (AC_Cosmos c) \<Rightarrow> \<exists>st news. restart chain st news (tm_evm_controllers W) (tm_stellar_controllers W) (tm_running W) W W' \<and>
        (news = [] \<or> st = Started \<and> news = [Str_Cosmos chain]) \<and> (st = Started \<longrightarrow> news \<noteq> [])
    | Some (AC_Stellar c) \<Rightarrow> \<exists>st news ctrls. restart chain st news (tm_evm_controllers W) ctrls (tm_running W) W W' \<and>
        (news = [] \<or> st = Started \<and> news = [Str_StellarEvents chain, Str_StellarLedgers chain])"
proof (cases "get_chain (tm_chain_configs W) chain")
  case None
  then show ?thesis using wait r by (auto simp: start_listening_chain_def restart_def set_chain_state_def chain_state_def Let_def)
next
  case (Some cfg)
  have step: "start_chain_stream E out chain cfg (set_chain_state chain Connecting W) = (r, W')"
    using r wait Some by (simp add: start_listening_chain_def Let_def)
  have same [simp]: "chain_state (V\<lparr>multiplexed_stream := a\<rparr>) = chain_state V"
    "chain_state (V\<lparr>multiplexed_stream := a, tm_evm_controllers := b\<rparr>) = chain_state V"
    "chain_state (V\<lparr>multiplexed_stream := a, tm_stellar_controllers := b'\<rparr>) = chain_state V"
    for V :: "('a, 'b) trigger_manager" and a b b' by (simp_all add: chain_state_def fun_eq_iff)
  have upd [simp]: "multiplexed_stream (set_chain_state c st V) = multiplexed_stream V"
    "tm_evm_controllers (set_chain_state c st V) = tm_evm_controllers V"
    "tm_stellar_controllers (set_chain_state c st V) = tm_stellar_controllers V"
    "cron_stream_state (set_chain_state c st V) = cron_stream_state V"
    "atproto_stream_state (set_chain_state c st V) = atproto_stream_state V"
    "tm_chain_configs (set_chain_state c st V) = tm_chain_configs V" "tm_running (set_chain_state c st V) = tm_running V"
    for c st and V :: "('a, 'b) trigger_manager" by (simp_all add: set_chain_state_def)
  show ?thesis
  proof (cases cfg)
    case (AC_Cosmos c)
    let ?R = "\<lambda>st news. restart chain st news (tm_evm_controllers W) (tm_stellar_controllers W) (tm_running W) W W'"
    let ?W = "set_chain_state chain Connecting W"
    consider "W' = ?W" | "W' = set_chain_state chain Waiting ?W"
      | "W' = set_chain_state chain Started (?W\<lparr>multiplexed_stream := multiplexed_stream ?W @ [Str_Cosmos chain]\<rparr>)"
      using step by (cases "so_cosmos_client out"; cases "so_cosmos_stream out") (auto simp: start_chain_stream_def AC_Cosmos)
    then have "?R Connecting [] \<or> ?R Waiting [] \<or> ?R Started [Str_Cosmos chain]"
      by cases (simp_all add: restart_def chain_state_set)
    then show ?thesis unfolding Some AC_Cosmos option.case any_chain_config.case by blast
  next
    case (AC_Evm c)
    then show ?thesis
      using Some step by (cases "ws_endpoints c = []") (auto simp: start_chain_stream_def restart_def chain_state_set)
  next
    case (AC_Stellar c)
    let ?R = "\<lambda>st news ctrls. restart chain st news (tm_evm_controllers W) ctrls (tm_running W) W W'"
    let ?W = "set_chain_state chain Connecting W"
    consider "W' = ?W" | ctrls where "W' = set_chain_state chain Started
        (?W\<lparr>multiplexed_stream := multiplexed_stream ?W @ [Str_StellarEvents chain, Str_StellarLedgers chain],
             tm_stellar_controllers := ctrls\<rparr>)"
      using step by (cases "so_stellar_client out") (auto simp: start_chain_stream_def AC_Stellar Let_def split: if_splits)
    then have "?R Connecting [] (tm_stellar_controllers W) \<or>
        (\<exists>ctrls. ?R Started [Str_StellarEvents chain, Str_StellarLedgers chain] ctrls)"
      by cases (simp_all add: restart_def chain_state_set)
    then show ?thesis unfolding Some AC_Stellar option.case any_chain_config.case by blast
  qed
qed

lemma restart_finish:
  "restart chain st news evm stellar b W W1 \<Longrightarrow> restart chain st news evm stellar False W (W1\<lparr>tm_running := False\<rparr>)"
  "restart chain st news evm stellar b W W1 \<Longrightarrow> restart chain st news evm stellar b W (W1\<lparr>tm_dispatcher_tx := x\<rparr>)"
  by (simp_all add: restart_def chain_state_def)

lemma start_listening_chain_inv:
  assumes inv: "watcher_inv W" and run: "tm_running W" and r: "start_listening_chain E out chain W = (r, W1)"
  shows "watcher_inv (case r of Inl _ \<Rightarrow> W1\<lparr>tm_running := False\<rparr> | Inr _ \<Rightarrow> W1)"
proof (cases "chain_state W chain = Waiting")
  case False
  then show ?thesis using r inv by (auto simp: start_listening_chain_def)
next
  case wait: True
  have nc: "get_cloned (tm_evm_controllers W) chain = None"
    using inv wait by (auto simp: watcher_inv_def evm_ok_def has_controller_def)
  note c = start_listening_chain_cases [OF wait r]
  have go: "watcher_inv (case r of Inl _ \<Rightarrow> W1\<lparr>tm_running := False\<rparr> | Inr _ \<Rightarrow> W1)"
    if R: "restart chain st news evm stellar True W W1" and news: "distinct news" "\<forall>s\<in>set news. stream_chain s = Some chain" "news \<noteq> [] \<longrightarrow> st = Started"
      and evm: "\<forall>c. c \<noteq> chain \<longrightarrow> get_cloned evm c = get_cloned (tm_evm_controllers W) c" "get_cloned evm chain \<noteq> None \<longrightarrow> st = Started"
      and cfg: "is_ok r \<longrightarrow> (case get_chain (tm_chain_configs W) chain of
        None \<Rightarrow> st = Waiting
      | Some (AC_Evm c) \<Rightarrow> st = Waiting \<or> st = Started \<and> ws_endpoints c \<noteq> [] \<and> get_cloned evm chain \<noteq> None \<and>
          Str_EvmEvents chain \<in> set news \<and> Str_EvmBlocks chain \<in> set news
      | Some _ \<Rightarrow> True)" for st news evm stellar
  proof (cases r)
    case (Inl e)
    then show ?thesis using restart_inv [OF inv run wait restart_finish(1) [OF R] news evm] by simp
  next
    case (Inr u)
    then show ?thesis using restart_inv [OF inv run wait R news evm] cfg by (simp add: is_ok_def)
  qed
  show ?thesis
  proof (cases "get_chain (tm_chain_configs W) chain")
    case None
    then have R: "restart chain Waiting [] (tm_evm_controllers W) (tm_stellar_controllers W) True W W1" using c run by simp
    show ?thesis using None nc by (intro go [OF R]) simp_all
  next
    case (Some cfg)
    show ?thesis
    proof (cases cfg)
      case (AC_Cosmos d)
      then obtain st news where R: "restart chain st news (tm_evm_controllers W) (tm_stellar_controllers W) True W W1"
        "news = [] \<or> st = Started \<and> news = [Str_Cosmos chain]" using c Some run by auto
      then show ?thesis using Some AC_Cosmos nc by (intro go [OF R(1)]) auto
    next
      case (AC_Evm d)
      show ?thesis
      proof (cases "ws_endpoints d = []")
        case True
        then have R: "r = Inl (TE_EvmMissingWebsocket chain)"
          "restart chain Connecting [] (tm_evm_controllers W) (tm_stellar_controllers W) True W W1"
          using c Some AC_Evm run by simp_all
        show ?thesis using R(1) nc by (intro go [OF R(2)]) (auto simp: is_ok_def)
      next
        case False
        then have R: "restart chain Started [Str_EvmEvents chain, Str_EvmBlocks chain]
          (table_insert chain (subscriptions_new (we_evm_slotmap E)) (tm_evm_controllers W)) (tm_stellar_controllers W) True W W1"
          using c Some AC_Evm run by simp
        show ?thesis using Some AC_Evm False by (intro go [OF R]) auto
      qed
    next
      case (AC_Stellar d)
      then obtain st news ctrls where R: "restart chain st news (tm_evm_controllers W) ctrls True W W1"
        "news = [] \<or> st = Started \<and> news = [Str_StellarEvents chain, Str_StellarLedgers chain]" using c Some run by auto
      then show ?thesis using Some AC_Stellar nc by (intro go [OF R(1)]) auto
    qed
  qed
qed

lemma global_streams_inv:
  assumes inv: "watcher_inv W"
  shows "watcher_inv (start_listening_cron W)" "watcher_inv (start_listening_atproto out W)"
proof -
  have cst: "chain_state (W\<lparr>cron_stream_state := a, multiplexed_stream := b\<rparr>) = chain_state W"
    "chain_state (W\<lparr>atproto_stream_state := a, multiplexed_stream := b\<rparr>) = chain_state W" for a b
    by (simp_all add: chain_state_def fun_eq_iff)
  show "watcher_inv (start_listening_cron W)"
    using inv by (auto simp: watcher_inv_def start_listening_cron_def streams_ok_def evm_ok_def has_controller_def cst
      split: stream_start_state.splits)
  show "watcher_inv (start_listening_atproto out W)"
    using inv by (auto simp: watcher_inv_def start_listening_atproto_def streams_ok_def evm_ok_def has_controller_def cst
      split: stream_start_state.splits sum.splits)
qed

lemma command_turn_inv:
  assumes inv: "watcher_inv W" and run: "tm_running W"
  shows "watcher_inv (command_turn E out W)"
proof (cases "tm_commands W")
  case (Cons c cs)
  let ?W = "W\<lparr>tm_commands := cs\<rparr>"
  have inv0: "watcher_inv ?W" by (rule same_streams_inv [OF inv]) (simp add: same_streams_def has_controller_def)
  have run0: "tm_running ?W" using run by simp
  obtain r W1 where h: "handle_command E out c ?W = (r, W1)" by fastforce
  have turn: "command_turn E out W = finish_turn r W1" by (simp add: command_turn_def Cons h)
  show ?thesis
  proof (cases "\<exists>chain. c = TC_StartListeningChain chain")
    case True
    then obtain chain where c: "c = TC_StartListeningChain chain" by blast
    obtain r' where s: "start_listening_chain E out chain ?W = (r', W1)"
      and r: "r = (case r' of Inl e \<Rightarrow> Inl e | Inr _ \<Rightarrow> Inr (Continue, []))"
      using h by (auto simp: c split: prod.splits sum.splits)
    have "same_streams W1 (W1\<lparr>tm_dispatcher_tx := tm_dispatcher_tx W1\<rparr>)" by (simp add: same_streams_def)
    then show ?thesis using start_listening_chain_inv [OF inv0 run0 s]
      by (auto simp: turn r finish_turn_def split: sum.splits)
  next
    case False
    then have "watcher_inv W1"
      using h inv0 same_streams_inv [OF inv0 watch_same(1)] same_streams_inv [OF inv0 watch_same(2)]
        same_streams_inv [OF inv0 watch_same(3)] same_streams_inv [OF inv0 watch_same(4)] same_streams_inv [OF inv0 watch_same(5)]
        global_streams_inv [OF inv0]
      by (cases c) auto
    then show ?thesis unfolding turn by (rule same_streams_inv) (rule finish_turn_same)
  qed
qed (simp add: command_turn_def inv)

lemma watcher_reachable_inv: "watcher_reachable C E W \<Longrightarrow> watcher_inv W"
proof (induction rule: watcher_reachable.induct)
  case (wr_init cs)
  then show ?case
    by (simp add: watcher_inv_def trigger_manager_new_def streams_ok_def evm_ok_def has_controller_def chain_state_def)
next
  case (wr_command W out)
  then show ?case by (intro command_turn_inv)
next
  case (wr_chain W key c cs)
  have wf: "chain_configs_wf (tm_chain_configs W)" using wr_chain.IH by (simp add: watcher_inv_def)
  have add: "chain_configs_wf cs" "get_chain (tm_chain_configs W) key = None"
    "get_chain cs k = (if k = key then Some c else get_chain (tm_chain_configs W) k)" for k
    using add_chain_then_get [OF wf, of key c] wr_chain.hyps(2) by simp_all
  let ?W = "W\<lparr>tm_chain_configs := cs\<rparr>"
  have same: "chain_state ?W = chain_state W" "has_controller k ?W = has_controller k W" for k
    by (simp_all add: chain_state_def has_controller_def fun_eq_iff)
  have "evm_ok ?W"
    using wr_chain.IH add(2) unfolding watcher_inv_def evm_ok_def same by (auto simp: add(3) split: if_splits)
  then show ?case using wr_chain.IH add(1) by (simp add: watcher_inv_def streams_ok_def same)
qed (auto intro: same_streams_inv trigger_ops_same)

section \<open>An example\<close>

definition demo_chains :: "string list \<Rightarrow> chain_configs" where
  "demo_chains ws = no_chains\<lparr>cfg_evm := [(''1'', \<lparr>ws_endpoints = ws, http_endpoint = None, evm_faucet_endpoint = None,
     ws_priority_endpoint_index = None\<rparr>)]\<rparr>"

abbreviation demo_evm_chain :: chain_key where
  "demo_evm_chain \<equiv> \<lparr>namespace = ''evm'', chain_id = ''1''\<rparr>"

definition demo_watcher_env ::
  "(nat \<times> (nat \<times> rpc_request_kind) list, nat \<times> (nat \<times> stellar_event_filter) list) watcher_env" where
  "demo_watcher_env =
     \<lparr>we_trigger = demo_trigger_env, we_decoders = demo_decoders, we_evm_slotmap = demo_slotmap,
      we_contract_to_string = (\<lambda>c. ''C''), we_updated_spec_repo = []\<rparr>"

definition demo_outcomes :: start_outcomes where
  "demo_outcomes = \<lparr>so_cosmos_client = Inr (), so_cosmos_stream = Inr (), so_stellar_client = Inr (), so_jetstream = Inr ()\<rparr>"

lemma demo_chains_wf: "chain_configs_wf (demo_chains ws)"
  by (simp add: demo_chains_def chain_configs_wf_def no_chains_def omap_wf_def)

lemma demo_chains_get:
  "get_chain (demo_chains ws) demo_evm_chain = Some (AC_Evm (evm_build \<lparr>ws_endpoints = ws, http_endpoint = None,
     evm_faucet_endpoint = None, ws_priority_endpoint_index = None\<rparr> ''1''))"
  by (simp add: demo_chains_def get_chain_def no_chains_def)

lemma demo_chains_ws: "ws_endpoints (evm_build \<lparr>ws_endpoints = ws, http_endpoint = h, evm_faucet_endpoint = f,
     ws_priority_endpoint_index = p\<rparr> i) = ws"
  by (simp add: evm_build_def evm_chain_config_builder.defs evm_chain_config.defs)

lemma demo_watcher_reachable: "watcher_reachable demo_crypto demo_watcher_env (trigger_manager_new (demo_chains ws))"
  by (rule wr_init [OF demo_chains_wf])

text \<open>
  C21: In every interleaving of registrations, removals, watcher turns, incoming events and added chains, no
  event stream is started twice, so no event is seen twice; and while the watcher runs, the streams of an EVM
  chain and its controller exist exactly if the chain is marked as started.
\<close>

theorem streams_started_once:
  assumes "watcher_reachable C E W"
  shows "distinct (multiplexed_stream W) \<and>
    (tm_running W \<and> get_chain (tm_chain_configs W) chain = Some (AC_Evm c) \<longrightarrow>
       (Str_EvmEvents chain \<in> set (multiplexed_stream W) \<longleftrightarrow> chain_state W chain = Started) \<and>
       (Str_EvmBlocks chain \<in> set (multiplexed_stream W) \<longleftrightarrow> chain_state W chain = Started) \<and>
       (get_cloned (tm_evm_controllers W) chain \<noteq> None \<longleftrightarrow> chain_state W chain = Started))"
proof -
  have so: "streams_ok W" and eo: "evm_ok W" using watcher_reachable_inv [OF assms] by (simp_all add: watcher_inv_def)
  have "chain_state W chain = Started" if "Str_EvmEvents chain \<in> set (multiplexed_stream W) \<or> Str_EvmBlocks chain \<in> set (multiplexed_stream W)"
    using so that unfolding streams_ok_def by (metis stream_chain.simps(4,5))
  moreover have "chain_state W chain = Started" if "get_cloned (tm_evm_controllers W) chain \<noteq> None"
    using eo that by (simp add: evm_ok_def has_controller_def)
  moreover have "has_controller chain W \<and> Str_EvmEvents chain \<in> set (multiplexed_stream W) \<and> Str_EvmBlocks chain \<in> set (multiplexed_stream W)"
    if "tm_running W" "get_chain (tm_chain_configs W) chain = Some (AC_Evm c)" "chain_state W chain = Started"
    using eo that unfolding evm_ok_def by (metis stream_start_state.distinct(4) stream_start_state.distinct(3))
  moreover have "distinct (multiplexed_stream W)" using so by (simp add: streams_ok_def)
  ultimately show ?thesis unfolding has_controller_def by blast
qed

theorem streams_started_once_witness:
  "distinct (multiplexed_stream (trigger_manager_new (demo_chains [''ws://a'']) ::
     (nat \<times> (nat \<times> rpc_request_kind) list, nat \<times> (nat \<times> stellar_event_filter) list) trigger_manager)) \<and>
   Str_EvmEvents demo_evm_chain \<notin> set (multiplexed_stream (trigger_manager_new (demo_chains [''ws://a'']) ::
     (nat \<times> (nat \<times> rpc_request_kind) list, nat \<times> (nat \<times> stellar_event_filter) list) trigger_manager))"
  using streams_started_once [OF demo_watcher_reachable, of "[''ws://a'']" demo_evm_chain]
  by (simp add: trigger_manager_new_def)

section \<open>Every registered EVM trigger is watched\<close>

definition watches_event :: "chain_key \<Rightarrow> evm_address \<Rightarrow> bytes \<Rightarrow> ('em, 'sm) trigger_manager \<Rightarrow> bool" where
  "watches_event chain address event_hash W =
     (\<exists>S f. get_cloned (tm_evm_controllers W) chain = Some S \<and> sb_logs S = Some f \<and>
        address \<in> lf_addresses f \<and> event_hash \<in> lf_topics f)"

lemma wanted_ops:
  "sb_logs (unsubscribe M c S) = sb_logs S" "sb_logs (resubscribe M S) = sb_logs S"
  "sb_blocks (unsubscribe M c S) = sb_blocks S" "sb_blocks (resubscribe M S) = sb_blocks S"
proof -
  have send: "sb_logs (send_rpc M req d S) = sb_logs S \<and> sb_blocks (send_rpc M req d S) = sb_blocks S" for req d and S :: "'a evm_subscriptions"
    by (simp add: send_rpc_def in_flight_insert_def Let_def split: option.splits)
  have sub: "sb_logs (send_subscribe M p S) = sb_logs S \<and> sb_blocks (send_subscribe M p S) = sb_blocks S"
    "sb_logs (send_unsubscribe M d sid S) = sb_logs S \<and> sb_blocks (send_unsubscribe M d sid S) = sb_blocks S"
    for p d sid and S :: "'a evm_subscriptions"
    by (simp_all add: send_subscribe_def send_unsubscribe_def rpc_ids_insert_def send split: prod.splits)
  have uns: "sb_logs (fold (send_unsubscribe M d) sids S) = sb_logs S \<and> sb_blocks (fold (send_unsubscribe M d) sids S) = sb_blocks S"
    for d sids and S :: "'a evm_subscriptions" by (induction sids arbitrary: S) (simp_all add: sub)
  show "sb_logs (unsubscribe M c S) = sb_logs S" "sb_blocks (unsubscribe M c S) = sb_blocks S"
    by (simp_all add: unsubscribe_def uns) (simp_all add: set_unsubscribe_def)
  have one: "sb_logs (resubscribe_one M p S) = sb_logs S \<and> sb_blocks (resubscribe_one M p S) = sb_blocks S"
    for p and S :: "'a evm_subscriptions" by (simp add: resubscribe_one_def sub)
  show "sb_logs (resubscribe M S) = sb_logs S" "sb_blocks (resubscribe M S) = sb_blocks S"
    by (auto simp: resubscribe_def Let_def one split: option.splits)
qed

lemma enable_logs_filter:
  "\<exists>f. sb_logs (enable_logs M addresses topics S) = Some f \<and>
     lf_addresses f = (case sb_logs S of None \<Rightarrow> {} | Some g \<Rightarrow> lf_addresses g) \<union> set addresses \<and>
     lf_topics f = (case sb_logs S of None \<Rightarrow> {} | Some g \<Rightarrow> lf_topics g) \<union> set topics"
  by (simp add: enable_logs_def wanted_ops Let_def split: option.splits)

lemma toggle_block_height_logs: "sb_logs (toggle_block_height M b S) = sb_logs S"
  by (simp add: toggle_block_height_def wanted_ops Let_def)

lemma watch_keeps_events:
  assumes "watches_event chain a h W"
  shows "watches_event chain a h (watch_evm_contract_events E chain' addresses hashes W)"
    "watches_event chain a h (watch_evm_blocks E chain' W)"
  using assms enable_logs_filter [of "we_evm_slotmap E" addresses hashes]
  by (fastforce simp: watches_event_def watch_evm_contract_events_def watch_evm_blocks_def toggle_block_height_logs
      split: option.splits)+

definition wishes_grow :: "('em, 'sm) trigger_manager \<Rightarrow> ('em, 'sm) trigger_manager \<Rightarrow> bool" where
  "wishes_grow W W' =
     (\<forall>chain. (has_controller chain W \<longrightarrow> has_controller chain W') \<and>
        (\<forall>a h. watches_event chain a h W \<longrightarrow> watches_event chain a h W'))"

lemma wishes_grow_same: "tm_evm_controllers W' = tm_evm_controllers W \<Longrightarrow> wishes_grow W W'"
  by (simp add: wishes_grow_def has_controller_def watches_event_def)

lemma wishes_grow_trans: "wishes_grow W W1 \<Longrightarrow> wishes_grow W1 W2 \<Longrightarrow> wishes_grow W W2"
  unfolding wishes_grow_def by blast

lemma watch_grows:
  "wishes_grow W (watch_evm_contract_events E chain addresses hashes W)" "wishes_grow W (watch_evm_blocks E chain W)"
proof -
  have hc: "has_controller c (watch_evm_contract_events E chain addresses hashes W)" "has_controller c (watch_evm_blocks E chain W)"
    if "has_controller c W" for c
    using that by (auto simp: has_controller_def watch_evm_contract_events_def watch_evm_blocks_def split: option.splits)
  show "wishes_grow W (watch_evm_contract_events E chain addresses hashes W)" "wishes_grow W (watch_evm_blocks E chain W)"
    unfolding wishes_grow_def using hc watch_keeps_events by blast+
qed

lemma start_listening_chain_grows:
  assumes inv: "watcher_inv W" and r: "start_listening_chain E out chain W = (r, W1)"
  shows "wishes_grow W W1"
proof (cases "chain_state W chain = Waiting")
  case False
  then show ?thesis using r by (simp add: start_listening_chain_def wishes_grow_same)
next
  case True
  have nc: "get_cloned (tm_evm_controllers W) chain = None"
    using inv True by (auto simp: watcher_inv_def evm_ok_def has_controller_def)
  have "tm_evm_controllers W1 = tm_evm_controllers W \<or> (\<exists>S. tm_evm_controllers W1 = table_insert chain S (tm_evm_controllers W))"
    using start_listening_chain_cases [OF True r]
    by (auto simp: restart_def split: option.splits any_chain_config.splits if_splits)
  then show ?thesis using nc by (auto simp: wishes_grow_def has_controller_def watches_event_def)
qed

lemma handle_command_grows:
  assumes inv: "watcher_inv W" and h: "handle_command E out c W = (r, W1)"
  shows "wishes_grow W W1 \<and> tm_commands W1 = tm_commands W"
proof (cases "\<exists>chain. c = TC_StartListeningChain chain")
  case True
  then obtain chain r' where s: "start_listening_chain E out chain W = (r', W1)"
    using h by (auto split: prod.splits sum.splits)
  moreover have "tm_commands W1 = tm_commands W"
    using s by (auto simp: start_listening_chain_def start_chain_stream_def set_chain_state_def Let_def
        split: if_splits option.splits any_chain_config.splits sum.splits)
  ultimately show ?thesis using start_listening_chain_grows [OF inv s] by simp
next
  case False
  have "tm_evm_controllers W1 = tm_evm_controllers W \<or> (\<exists>chain as hs. W1 = watch_evm_contract_events E chain as hs W) \<or>
      (\<exists>chain. W1 = watch_evm_blocks E chain W)"
    using False h by (cases c) (auto simp: start_listening_cron_def start_listening_atproto_def watch_stellar_service_uri_def
        unwatch_stellar_service_uri_def watch_stellar_blocks_def Let_def
        split: stream_start_state.splits sum.splits option.splits prod.splits)
  moreover have "tm_commands W1 = tm_commands W"
    using False h by (cases c) (auto simp: start_listening_cron_def start_listening_atproto_def watch_stellar_service_uri_def
        unwatch_stellar_service_uri_def watch_stellar_blocks_def watch_evm_contract_events_def watch_evm_blocks_def Let_def
        split: stream_start_state.splits sum.splits option.splits prod.splits)
  ultimately show ?thesis using watch_grows wishes_grow_same by blast
qed

lemma command_turn_grows:
  assumes inv: "watcher_inv W" and run: "tm_running (command_turn E out W)"
  shows "wishes_grow W (command_turn E out W) \<and> tm_commands (command_turn E out W) = tl (tm_commands W)"
proof (cases "tm_commands W")
  case (Cons c cs)
  let ?W = "W\<lparr>tm_commands := cs\<rparr>"
  have inv0: "watcher_inv ?W" by (rule same_streams_inv [OF inv]) (simp add: same_streams_def has_controller_def)
  obtain r W1 where h: "handle_command E out c ?W = (r, W1)" by fastforce
  have turn: "command_turn E out W = finish_turn r W1" by (simp add: command_turn_def Cons h)
  have g: "wishes_grow ?W W1" "tm_commands W1 = cs" using handle_command_grows [OF inv0 h] by simp_all
  have "wishes_grow W ?W" by (simp add: wishes_grow_same)
  moreover have "wishes_grow W1 (finish_turn r W1)"
    using run unfolding turn by (intro wishes_grow_same) (auto simp: finish_turn_def split: sum.splits loop_control.splits)
  moreover have "tm_commands (finish_turn r W1) = tm_commands W1"
    by (auto simp: finish_turn_def split: sum.splits loop_control.splits)
  ultimately show ?thesis
    using g wishes_grow_trans unfolding turn Cons list.sel(3) by metis
qed (simp add: command_turn_def wishes_grow_same)

lemma send_commands_lookup: "send_commands cs W = (r, W') \<Longrightarrow> tm_lookup W' = tm_lookup W"
  by (induction cs arbitrary: W) (auto split: if_splits)

lemma handle_command_lookup: "tm_lookup (snd (handle_command E out c W)) = tm_lookup W"
proof (cases c)
  case (TC_StartListeningChain chain)
  then show ?thesis
    by (simp add: start_listening_chain_def start_chain_stream_def set_chain_state_def Let_def
        split: prod.split sum.split option.split any_chain_config.split)
qed (simp_all add: start_listening_cron_def start_listening_atproto_def watch_evm_contract_events_def watch_evm_blocks_def
    watch_stellar_blocks_def watch_stellar_service_uri_def unwatch_stellar_service_uri_def Let_def
    split: prod.split sum.split option.split stream_start_state.split)

lemma command_turn_lookup: "tm_lookup (command_turn E out W) = tm_lookup W"
proof (cases "tm_commands W")
  case (Cons c cs)
  then show ?thesis using handle_command_lookup [of E out c "W\<lparr>tm_commands := cs\<rparr>"]
    by (auto simp: command_turn_def finish_turn_def split: prod.splits sum.splits loop_control.splits)
qed (simp add: command_turn_def)

lemma run_queue_lookup: "tm_lookup (run_queue E outs W) = tm_lookup W"
  by (induction outs arbitrary: W) (simp_all add: command_turn_lookup)

lemma run_queue_running: "tm_running (run_queue E outs W) \<Longrightarrow> tm_running W"
  by (cases outs) (auto split: if_splits)

text \<open>What holds when a command of the queue gets its turn.\<close>

lemma run_queue_reaches:
  assumes "watcher_inv W" "tm_running (run_queue E outs W)" "tm_commands W = pre @ post" "length pre \<le> length outs"
  shows "\<exists>V outs'. watcher_inv V \<and> wishes_grow W V \<and> tm_chain_configs V = tm_chain_configs W \<and> tm_commands V = post \<and>
    run_queue E outs' V = run_queue E outs W \<and> length outs' = length outs - length pre"
  using assms
proof (induction pre arbitrary: W outs)
  case Nil
  have "wishes_grow W W" by (simp add: wishes_grow_same)
  then show ?case using Nil by auto
next
  case (Cons c pre)
  obtain out outs1 where outs: "outs = out # outs1" using Cons.prems(4) by (cases outs) auto
  let ?W = "command_turn E out W"
  have run: "tm_running W" using Cons.prems(2) by (rule run_queue_running)
  have q: "run_queue E outs W = run_queue E outs1 ?W" using run Cons.prems(3) by (simp add: outs)
  have run1: "tm_running (run_queue E outs1 ?W)" using Cons.prems(2) q by simp
  have inv1: "watcher_inv ?W" by (rule command_turn_inv [OF Cons.prems(1) run])
  note g = command_turn_grows [OF Cons.prems(1) run_queue_running [OF run1]]
  have len: "length pre \<le> length outs1" using Cons.prems(4) outs by simp
  have cmds: "tm_commands ?W = pre @ post" using g Cons.prems(3) by simp
  have cfg: "tm_chain_configs ?W = tm_chain_configs W"
    by (auto simp: command_turn_def finish_turn_def start_listening_cron_def start_listening_atproto_def start_listening_chain_def
        start_chain_stream_def set_chain_state_def watch_evm_contract_events_def watch_evm_blocks_def watch_stellar_blocks_def
        watch_stellar_service_uri_def unwatch_stellar_service_uri_def Let_def
        elim!: handle_command.elims
        split: list.splits prod.splits sum.splits loop_control.splits if_splits option.splits any_chain_config.splits
          stream_start_state.splits)
  obtain V outs' where V: "watcher_inv V" "wishes_grow ?W V" "tm_chain_configs V = tm_chain_configs ?W" "tm_commands V = post"
    "run_queue E outs' V = run_queue E outs1 ?W" "length outs' = length outs1 - length pre"
    using Cons.IH [OF inv1 run1 cmds len] by blast
  then show ?case using g wishes_grow_trans q cfg outs by (intro exI [of _ V] exI [of _ outs']) auto
qed

lemma start_then_controller:
  assumes inv: "watcher_inv W" and cmds: "tm_commands W = TC_StartListeningChain chain # cs"
    and evm: "get_chain (tm_chain_configs W) chain = Some (AC_Evm c)" and run: "tm_running W" "tm_running (command_turn E out W)"
  shows "has_controller chain (command_turn E out W)" and "ws_endpoints c \<noteq> []"
proof -
  let ?W = "W\<lparr>tm_commands := cs\<rparr>"
  obtain r W1 where s: "start_listening_chain E out chain ?W = (r, W1)" by fastforce
  have turn: "command_turn E out W = finish_turn (case r of Inl e \<Rightarrow> Inl e | Inr _ \<Rightarrow> Inr (Continue, [])) W1"
    by (auto simp: command_turn_def cmds s split: sum.splits)
  have ok: "is_ok r" using run(2) by (cases r) (auto simp: turn finish_turn_def is_ok_def)
  have "has_controller chain W1 \<and> ws_endpoints c \<noteq> []"
  proof (cases "chain_state ?W chain = Waiting")
    case True
    show ?thesis using start_listening_chain_cases [OF True s] evm ok
      by (auto simp: restart_def has_controller_def is_ok_def split: if_splits)
  next
    case False
    then have "W1 = ?W" "chain_state W chain \<noteq> Waiting" using s by (auto simp: start_listening_chain_def chain_state_def)
    then show ?thesis using inv evm run(1) unfolding watcher_inv_def evm_ok_def by (auto simp: has_controller_def)
  qed
  then show "has_controller chain (command_turn E out W)" "ws_endpoints c \<noteq> []"
    using ok by (auto simp: turn finish_turn_def has_controller_def is_ok_def split: sum.splits)
qed

lemma watch_then_watched:
  assumes "tm_commands W = TC_WatchEvmContractEvents chain [a] [h] # cs" "has_controller chain W"
  shows "watches_event chain a h (command_turn E out W)"
proof -
  obtain S where S: "get_cloned (tm_evm_controllers W) chain = Some S" using assms(2) by (auto simp: has_controller_def)
  show ?thesis using enable_logs_filter [of "we_evm_slotmap E" "[a]" "[h]" S]
    by (auto simp: command_turn_def assms(1) finish_turn_def watch_evm_contract_events_def watches_event_def S)
qed

lemma run_queue_watches:
  assumes inv: "watcher_inv W" and run: "tm_running (run_queue E outs W)"
    and cmds: "tm_commands W = pre @ [TC_StartListeningChain chain, TC_WatchEvmContractEvents chain [a] [h]] @ post"
    and len: "length (tm_commands W) \<le> length outs" and evm: "get_chain (tm_chain_configs W) chain = Some (AC_Evm c)"
  shows "watches_event chain a h (run_queue E outs W)"
proof -
  let ?start = "TC_StartListeningChain chain" and ?watch = "TC_WatchEvmContractEvents chain [a] [h]"
  have "length pre \<le> length outs" using len cmds by simp
  from run_queue_reaches [OF inv run cmds this] obtain V1 outs1 where V1: "watcher_inv V1"
    "tm_chain_configs V1 = tm_chain_configs W" "tm_commands V1 = [?start, ?watch] @ post"
    "run_queue E outs1 V1 = run_queue E outs W" "length outs1 = length outs - length pre" by blast
  obtain o1 o2 outs2 where outs1: "outs1 = o1 # o2 # outs2" "length post \<le> length outs2"
    using V1(5) len cmds by (cases outs1; cases "tl outs1") auto
  let ?V2 = "command_turn E o1 V1" let ?V3 = "command_turn E o2 ?V2"
  have r1: "tm_running V1" using run V1(4) run_queue_running by metis
  have q1: "run_queue E outs W = run_queue E (o2 # outs2) ?V2" using V1(3,4) r1 outs1(1) by simp
  have r2: "tm_running ?V2" using run q1 run_queue_running by metis
  have inv2: "watcher_inv ?V2" by (rule command_turn_inv [OF V1(1) r1])
  have c2: "tm_commands ?V2 = ?watch # post" using command_turn_grows [OF V1(1) r2] V1(3) by simp
  have q2: "run_queue E outs W = run_queue E outs2 ?V3" using q1 r2 c2 by simp
  have r3: "tm_running ?V3" using run q2 run_queue_running by metis
  have inv3: "watcher_inv ?V3" by (rule command_turn_inv [OF inv2 r2])
  have c3: "tm_commands ?V3 = post @ []" using command_turn_grows [OF inv2 r3] c2 by simp
  have "has_controller chain ?V2"
    using start_then_controller(1) [OF V1(1) _ _ r1 r2] V1(2,3) evm by simp
  then have w: "watches_event chain a h ?V3" by (rule watch_then_watched [OF c2])
  have run3: "tm_running (run_queue E outs2 ?V3)" using run q2 by simp
  from run_queue_reaches [OF inv3 run3 c3 outs1(2)] obtain V outs' where V: "wishes_grow ?V3 V" "tm_commands V = []"
    "run_queue E outs' V = run_queue E outs2 ?V3" by blast
  have "run_queue E outs' V = V" using V(2) by (cases outs') simp_all
  then show ?thesis using V w q2 unfolding wishes_grow_def by metis
qed

lemma workflow_commands_at:
  assumes "(w, flow) \<in> set (workflows svc)"
  shows "\<exists>pre post. workflow_commands cs svc = pre @ trigger_command_map cs (wf_trigger flow) @ post"
proof -
  obtain xs ys where "workflows svc = xs @ (w, flow) # ys" using assms by (meson split_list)
  then show ?thesis by (auto simp: workflow_commands_def)
qed

lemma send_commands_ok: "send_commands cs W = (Inr (), W') \<Longrightarrow> W' = W\<lparr>tm_commands := tm_commands W @ cs\<rparr>"
proof (induction cs arbitrary: W)
  case (Cons c cs)
  have "send_commands cs (W\<lparr>tm_commands := tm_commands W @ [c]\<rparr>) = (Inr (), W')" using Cons.prems by (simp split: if_splits)
  from Cons.IH [OF this] show ?case by simp
qed simp

lemma send_commands_running: "tm_running W \<Longrightarrow> send_commands cs W = (Inr (), W\<lparr>tm_commands := tm_commands W @ cs\<rparr>)"
  by (induction cs arbitrary: W) simp_all

lemma finish_commands:
  assumes "add_service_finish C E cs svc W = (Inr (), W1)"
  shows "\<exists>pre. tm_commands W1 = pre @ workflow_commands cs svc" "tm_chain_configs W1 = tm_chain_configs W"
  using assms by (auto simp: add_service_finish_def Let_def dest!: send_commands_ok split: prod.splits sum.splits)

text \<open>
  C20: When a service has been added and the watcher has worked off the commands queued by then without
  failing, every trigger of the service on the events of a contract of an EVM chain is watched: the chain has
  a controller, and its log filter holds the address and the event. (That the node is asked for what a
  controller wants is the business of the subscriptions.)
\<close>

theorem registered_evm_triggers_watched:
  assumes reach: "watcher_reachable C E W" and add: "add_service_finish C E cs svc W = (Inr (), W1)"
    and flow: "(w, flow) \<in> set (workflows svc)" "wf_trigger flow = EvmContractEvent address chain event_hash"
    and evm: "get_chain (tm_chain_configs W) chain = Some (AC_Evm c)"
    and len: "length (tm_commands W1) \<le> length outs" and run: "tm_running (run_queue E outs W1)"
  shows "\<exists>S f. get_cloned (tm_evm_controllers (run_queue E outs W1)) chain = Some S \<and> sb_logs S = Some f \<and>
    address \<in> lf_addresses f \<and> event_hash \<in> lf_topics f"
proof -
  have inv: "watcher_inv W1" by (rule watcher_reachable_inv [OF wr_finish [OF reach add]])
  obtain pre pre' post where cmds: "tm_commands W1 = pre @ pre' @
      [TC_StartListeningChain chain, TC_WatchEvmContractEvents chain [address] [event_hash]] @ post"
  proof -
    obtain pre where pre: "tm_commands W1 = pre @ workflow_commands cs svc" using finish_commands(1) [OF add] by blast
    obtain pre' post where "workflow_commands cs svc = pre' @
        [TC_StartListeningChain chain, TC_WatchEvmContractEvents chain [address] [event_hash]] @ post"
      using workflow_commands_at [OF flow(1), of cs] by (auto simp: flow(2))
    then show thesis using that pre by simp
  qed
  have "watches_event chain address event_hash (run_queue E outs W1)"
    using cmds finish_commands(2) [OF add] evm by (intro run_queue_watches [OF inv run _ len, where pre = "pre @ pre'"]) auto
  then show ?thesis by (simp add: watches_event_def)
qed

theorem registered_evm_triggers_watched_witness:
  "\<exists>W1 S f. add_service_finish demo_crypto demo_watcher_env (demo_chains [''ws://a'']) demo_evm_service
       (trigger_manager_new (demo_chains [''ws://a''])) = (Inr (), W1) \<and>
     get_cloned (tm_evm_controllers (run_queue demo_watcher_env [demo_outcomes, demo_outcomes, demo_outcomes] W1)) demo_evm_chain = Some S \<and>
     sb_logs S = Some f \<and> replicate 20 7 \<in> lf_addresses f \<and> replicate 32 9 \<in> lf_topics f"
proof -
  let ?cs = "demo_chains [''ws://a'']" and ?E = demo_watcher_env
  let ?W = "trigger_manager_new ?cs :: (nat \<times> (nat \<times> rpc_request_kind) list, nat \<times> (nat \<times> stellar_event_filter) list) trigger_manager"
  obtain r W1 where add: "add_service_finish demo_crypto ?E ?cs demo_evm_service ?W = (r, W1)" by fastforce
  have flow: "(workflow_id_default, \<lparr>wf_trigger = demo_evm_trigger, wf_component = component_new (Digest (replicate 32 0)), wf_submit = SubmitNone\<rparr>)
      \<in> set (workflows demo_evm_service)" "demo_evm_trigger = EvmContractEvent (replicate 20 7) demo_evm_chain (replicate 32 9)"
    by (simp_all add: demo_evm_service_def service_new_simple_def demo_evm_trigger_def)
  have look: "lookup_add_service demo_crypto demo_trigger_env demo_evm_service lookup_maps_new table_new = (Inr (), demo_lookup, table_new)"
    by (simp add: demo_lookup_def lookup_add_service_def Let_def trigger_configs_of_def demo_evm_service_def
      service_new_simple_def lookup_add_trigger_def demo_evm_trigger_def)
  have cmds: "workflow_commands ?cs demo_evm_service =
      [TC_StartListeningChain demo_evm_chain, TC_WatchEvmContractEvents demo_evm_chain [replicate 20 7] [replicate 32 9]]"
    by (simp add: workflow_commands_def demo_evm_service_def service_new_simple_def demo_evm_trigger_def)
  have mgr: "manager demo_evm_service = demo_manager" by (simp add: demo_evm_service_def service_new_simple_def)
  have W: "tm_running ?W" "tm_lookup ?W = lookup_maps_new" "tm_stellar_controllers ?W = table_new" "tm_commands ?W = []"
    "we_trigger ?E = demo_trigger_env" by (simp_all add: trigger_manager_new_def demo_watcher_env_def)
  have W1: "r = Inr ()" "W1 = ?W\<lparr>tm_lookup := demo_lookup, tm_stellar_controllers := table_new,
      tm_commands := manager_commands ?E demo_evm_service_id demo_manager @ workflow_commands ?cs demo_evm_service\<rparr>"
    using add by (auto simp: add_service_finish_def W look mgr send_commands_running)
  have len: "length (tm_commands W1) \<le> length [demo_outcomes, demo_outcomes, demo_outcomes]"
    by (simp add: W1 cmds manager_commands_def demo_manager_def)
  have run: "tm_running (run_queue ?E [demo_outcomes, demo_outcomes, demo_outcomes] W1)"
    using demo_chains_get [of "[''ws://a'']"] demo_chains_ws
    by (simp add: W1 cmds manager_commands_def demo_manager_def trigger_manager_new_def command_turn_def finish_turn_def
        watch_evm_contract_events_def start_listening_chain_def chain_state_def set_chain_state_def start_chain_stream_def Let_def)
  have evm: "get_chain (tm_chain_configs ?W) demo_evm_chain = Some (AC_Evm (evm_build \<lparr>ws_endpoints = [''ws://a''], http_endpoint = None,
     evm_faucet_endpoint = None, ws_priority_endpoint_index = None\<rparr> ''1''))"
    using demo_chains_get by (simp add: trigger_manager_new_def)
  from registered_evm_triggers_watched [OF demo_watcher_reachable add [unfolded W1(1)] flow(1) _ evm len run] add W1(1) flow(2)
  show ?thesis by auto
qed

section \<open>A chain that stops the watcher\<close>

lemma send_commands_stopped: "\<not> tm_running W \<Longrightarrow> cs \<noteq> [] \<Longrightarrow> send_commands cs W = (Inl TE_LocalCommandError, W)"
  by (cases cs) simp_all

lemma run_queue_reachable: "watcher_reachable C E W \<Longrightarrow> watcher_reachable C E (run_queue E outs W)"
  by (induction outs arbitrary: W) (auto intro: wr_command)

lemma command_turn_configs: "tm_chain_configs (command_turn E out W) = tm_chain_configs W"
  by (auto simp: command_turn_def finish_turn_def start_listening_cron_def start_listening_atproto_def start_listening_chain_def
      start_chain_stream_def set_chain_state_def watch_evm_contract_events_def watch_evm_blocks_def watch_stellar_blocks_def
      watch_stellar_service_uri_def unwatch_stellar_service_uri_def Let_def
      elim!: handle_command.elims
      split: list.splits prod.splits sum.splits loop_control.splits if_splits option.splits any_chain_config.splits
        stream_start_state.splits)

text \<open>A watcher that still runs has not yet come to the command that starts the chain.\<close>

lemma start_still_queued:
  assumes "watcher_reachable C E W" "tm_running (run_queue E outs W)" "TC_StartListeningChain chain \<in> set (tm_commands W)"
    and "get_chain (tm_chain_configs W) chain = Some (AC_Evm c)" "ws_endpoints c = []"
  shows "TC_StartListeningChain chain \<in> set (tm_commands (run_queue E outs W)) \<and>
    tm_chain_configs (run_queue E outs W) = tm_chain_configs W \<and>
    length (tm_commands (run_queue E outs W)) + length outs = length (tm_commands W)"
  using assms(1-4)
proof (induction outs arbitrary: W)
  case (Cons out outs)
  let ?W = "command_turn E out W"
  have run: "tm_running W" using Cons.prems(2) by (rule run_queue_running)
  obtain cmd cs where cmds: "tm_commands W = cmd # cs" using Cons.prems(3) by (cases "tm_commands W") auto
  have q: "run_queue E (out # outs) W = run_queue E outs ?W" using run cmds by simp
  have run1: "tm_running ?W" using Cons.prems(2) unfolding q by (rule run_queue_running)
  have inv: "watcher_inv W" using Cons.prems(1) by (rule watcher_reachable_inv)
  have rest: "tm_commands ?W = cs" using command_turn_grows [OF inv run1] cmds by simp
  have "cmd \<noteq> TC_StartListeningChain chain"
    using start_then_controller(2) [OF inv _ Cons.prems(4) run run1] cmds assms(5) by auto
  then have "TC_StartListeningChain chain \<in> set (tm_commands ?W)" using Cons.prems(3) cmds rest by auto
  from Cons.IH [OF wr_command [OF Cons.prems(1) run] _ this] Cons.prems(2,4) show ?case
    unfolding q by (simp add: command_turn_configs cmds rest)
qed simp

lemma doomed_watcher_stops:
  assumes "watcher_reachable C E W" "TC_StartListeningChain chain \<in> set (tm_commands W) \<or> \<not> tm_running W"
    and "get_chain (tm_chain_configs W) chain = Some (AC_Evm c)" "ws_endpoints c = []" "length (tm_commands W) \<le> length outs"
  shows "\<not> tm_running (run_queue E outs W)"
proof
  assume run: "tm_running (run_queue E outs W)"
  then have "TC_StartListeningChain chain \<in> set (tm_commands W)" using assms(2) run_queue_running by blast
  from start_still_queued [OF assms(1) run this assms(3,4)] assms(5) show False by (auto simp: in_set_conv_nth)
qed

lemma send_commands_frame:
  "send_commands cs W = (r, W') \<Longrightarrow> tm_running W' = tm_running W \<and> tm_chain_configs W' = tm_chain_configs W \<and>
   set (tm_commands W) \<subseteq> set (tm_commands W')"
  by (induction cs W rule: send_commands.induct) (force split: if_splits)+

lemma add_service_finish_frame:
  "add_service_finish C E cs svc W = (r, W') \<Longrightarrow> tm_running W' = tm_running W \<and> tm_chain_configs W' = tm_chain_configs W \<and>
   set (tm_commands W) \<subseteq> set (tm_commands W')"
  by (auto simp: add_service_finish_def Let_def split: prod.splits sum.splits dest!: send_commands_frame)

text \<open>
  C38: A service whose manager is on an EVM chain that is configured without a websocket endpoint
  ends the watcher, whatever workflows it has, whatever commands are already queued, and whether or
  not adding it reports an error: once the commands queued by then are worked off, the watcher has
  stopped, and from then on no service can be added any more, on whatever chain. The missing endpoint itself
  is no reason to refuse the service: if it has no triggers on Stellar chains to wait for, the result is the one of
  registering its triggers.
\<close>

theorem missing_websocket_stops_watcher:
  assumes reach: "watcher_reachable C E W" and run: "tm_running W"
    and evm: "get_chain (tm_chain_configs W) (manager_chain (manager svc)) = Some (AC_Evm c)" and no_ws: "ws_endpoints c = []"
    and add: "trigger_add_service C E (run_queue E outs0) svc W = (r, W1)" and len: "length (tm_commands W1) \<le> length outs"
  shows "\<not> tm_running (run_queue E outs W1) \<and>
    (\<forall>progress svc'. fst (trigger_add_service C E progress svc' (run_queue E outs W1)) = Inl TE_LocalCommandError) \<and>
    (stellar_chains_to_wait_for (tm_chain_configs W) (workflow_commands (tm_chain_configs W) svc) = [] \<longrightarrow>
       r = fst (lookup_add_service C (we_trigger E) svc (tm_lookup W) (tm_stellar_controllers W)))"
proof -
  let ?chain = "manager_chain (manager svc)" and ?cs = "tm_chain_configs W"
  let ?start = "TC_StartListeningChain ?chain"
  let ?waits = "stellar_chains_to_wait_for ?cs (workflow_commands ?cs svc)"
  define Wb where "Wb = W\<lparr>tm_commands := tm_commands W @ ?start # map TC_StartListeningChain ?waits\<rparr>"
  have b: "add_service_begin svc W = (Inr (), Wb)"
    using send_commands_running [OF run] by (simp add: add_service_begin_def Wb_def)
  have rb: "watcher_reachable C E Wb" by (rule wr_begin [OF reach b])
  have Wb: "?start \<in> set (tm_commands Wb)" "tm_chain_configs Wb = ?cs" by (simp_all add: Wb_def)
  define W2 where "W2 = (if missing_controller ?waits Wb = None then Wb else run_queue E outs0 Wb)"
  have r2: "watcher_reachable C E W2" using rb run_queue_reachable [OF rb] by (simp add: W2_def)
  have W2: "(?start \<in> set (tm_commands W2) \<and> tm_chain_configs W2 = ?cs) \<or> \<not> tm_running W2"
    using start_still_queued [OF rb _ Wb(1), of outs0 c] Wb evm no_ws by (auto simp: W2_def)
  have W1: "W1 = W2 \<or> (\<exists>r. add_service_finish C E ?cs svc W2 = (r, W1))"
    using add b by (auto simp: trigger_add_service_def W2_def Let_def split: option.splits if_splits)
  then have r1: "watcher_reachable C E W1" using r2 wr_finish by blast
  have "(?start \<in> set (tm_commands W1) \<and> tm_chain_configs W1 = ?cs) \<or> \<not> tm_running W1"
    using W1 W2 add_service_finish_frame [of C E ?cs svc W2 _ W1] by auto
  then have stop: "\<not> tm_running (run_queue E outs W1)"
    using doomed_watcher_stops [OF r1 _ _ no_ws len] evm run_queue_running by metis
  moreover have "fst (trigger_add_service C E progress' svc' V) = Inl TE_LocalCommandError" if "\<not> tm_running V" for progress' svc' V
    using that by (simp add: trigger_add_service_def add_service_begin_def Let_def)
  moreover have "r = fst (lookup_add_service C (we_trigger E) svc (tm_lookup W) (tm_stellar_controllers W))" if "?waits = []"
  proof -
    have "add_service_finish C E ?cs svc Wb = (r, W1)"
      using add b that by (simp add: trigger_add_service_def missing_controller_def Let_def)
    then show ?thesis
      using run by (auto simp: add_service_finish_def Wb_def Let_def send_commands_running split: prod.splits sum.splits)
  qed
  ultimately show ?thesis by blast
qed

text \<open>A service with a trigger on the chain, added to a watcher that has a manual trigger queued: it is accepted.\<close>

theorem missing_websocket_stops_watcher_witness:
  "\<exists>W1. trigger_add_service demo_crypto demo_watcher_env (run_queue demo_watcher_env [])
       (demo_evm_service\<lparr>manager := SM_Evm demo_evm_chain []\<rparr>)
       (snd (trigger_add_trigger \<lparr>ta_config = \<lparr>tc_service_id = [1], tc_workflow_id = workflow_id_default, tc_trigger = Manual\<rparr>,
          ta_data = TD_Raw [5]\<rparr> (trigger_manager_new (demo_chains [])))) = (Inr (), W1) \<and>
     \<not> tm_running (run_queue demo_watcher_env (replicate (length (tm_commands W1)) demo_outcomes) W1)"
proof -
  let ?a = "\<lparr>ta_config = \<lparr>tc_service_id = [1], tc_workflow_id = workflow_id_default, tc_trigger = Manual\<rparr>, ta_data = TD_Raw [5]\<rparr>"
  let ?W = "snd (trigger_add_trigger ?a (trigger_manager_new (demo_chains []))) ::
    (nat \<times> (nat \<times> rpc_request_kind) list, nat \<times> (nat \<times> stellar_event_filter) list) trigger_manager"
  let ?svc = "demo_evm_service\<lparr>manager := SM_Evm demo_evm_chain []\<rparr>"
  have reach: "watcher_reachable demo_crypto demo_watcher_env ?W"
    by (rule wr_manual [OF demo_watcher_reachable prod.collapse [symmetric]])
  have W: "tm_running ?W" "tm_chain_configs ?W = demo_chains []" "tm_lookup ?W = lookup_maps_new" "tm_stellar_controllers ?W = table_new"
    by (simp_all add: trigger_add_trigger_def trigger_manager_new_def)
  have evm: "get_chain (tm_chain_configs ?W) (manager_chain (manager ?svc)) =
      Some (AC_Evm (evm_build \<lparr>ws_endpoints = [], http_endpoint = None, evm_faucet_endpoint = None, ws_priority_endpoint_index = None\<rparr> ''1''))"
    using demo_chains_get [of "[]"] by (simp add: W)
  obtain r W1 where add: "trigger_add_service demo_crypto demo_watcher_env (run_queue demo_watcher_env []) ?svc ?W = (r, W1)"
    by fastforce
  note stops = missing_websocket_stops_watcher [OF reach W(1) evm demo_chains_ws add, of "replicate (length (tm_commands W1)) demo_outcomes"]
  have "stellar_chains_to_wait_for (demo_chains []) (workflow_commands (demo_chains []) ?svc) = []"
    using demo_chains_get [of "[]"]
    by (simp add: workflow_commands_def demo_evm_service_def service_new_simple_def demo_evm_trigger_def
        stellar_chains_to_wait_for_def map_filter_simps)
  moreover have "fst (lookup_add_service demo_crypto demo_trigger_env ?svc lookup_maps_new table_new) = Inr ()"
    by (simp add: lookup_add_service_def Let_def trigger_configs_of_def demo_evm_service_def
      service_new_simple_def lookup_add_trigger_def demo_evm_trigger_def)
  ultimately have "r = Inr ()" using stops by (simp add: W demo_watcher_env_def)
  with add stops show ?thesis by auto
qed

end
