(* ===== verification/Dispatcher.thy ===== *)
theory Dispatcher
  imports Engine Registry Watcher
begin

text \<open>
  The dispatcher, \<^verbatim>\<open>packages/warpdrive/src/dispatcher.rs\<close>: it owns the other parts of the node, passes
  commands between them, and adds, changes, removes and restores services. Its state is the record of
  those parts, with each channel as the list of what was sent into it: the receivers live as long as
  the dispatcher, so sending to the engine, the submission manager and the aggregator does not fail.
  The queries of chains and of service definitions, and the outcomes of file operations, are fields of
  \<open>dispatcher_env\<close>; metrics and logging are left out.
\<close>

datatype dispatcher_error =
    DE_ServiceRegistered service_id
  | DE_URICreation string
  | DE_UnknownService services_error
  | DE_DB string
  | DE_CA ca_error
  | DE_Engine engine_error
  | DE_Trigger trigger_error
  | DE_Submission submission_error
  | DE_Aggregator aggregator_error
  | DE_AlloyContract string
  | DE_Config string
  | DE_ChangeIdMismatch service_id service_id
  | DE_FetchService string
  | DE_Service string
  | DE_AddressConversion string
  | DE_CosmosQuery string
  | DE_Registry registry_error

record ('em, 'sm, 'c) dispatcher =
  d_trigger_manager :: "('em, 'sm) trigger_manager"
  d_engine :: "'c wasm_engine"
  d_submission_manager :: submission_manager
  d_db :: wavs_db
  d_chain_configs :: chain_configs
  d_registry :: registry
  d_engine_tx :: "engine_command list"
  d_submission_tx :: "submission_command list"
  d_aggregator_tx :: "aggregator_command list"
  d_evm_http_providers :: "(chain_key, string) table"
  d_cosmos_query_clients :: "(chain_key, unit) table"

record ('em, 'sm, 'w, 'c) dispatcher_env =
  de_crypto :: crypto
  de_engine :: "('w, 'c) engine_env"
  de_stellar :: stellar_env
  de_keys :: key_source
  de_watcher :: "('em, 'sm) watcher_env"
  de_progress :: "('em, 'sm) trigger_manager \<Rightarrow> ('em, 'sm) trigger_manager"
  de_append_io :: "registry_error + unit"
  de_remove_io :: "registry_error + unit"
  de_remove_dir :: "string + unit"
  de_soroban_env :: "stellar_chain_config \<Rightarrow> string + unit"
  de_project_spec_repo :: "stellar_chain_config \<Rightarrow> stellar_contract \<Rightarrow> string + string"
  de_url_parses :: "string \<Rightarrow> bool"
  de_get_service_uri :: "string \<Rightarrow> evm_address \<Rightarrow> string + string"
  de_cosmos_client :: "cosmos_chain_config \<Rightarrow> string + unit"
  de_cosmos_service_uri :: "chain_key \<Rightarrow> chain_address \<Rightarrow> string + string"
  de_uri :: "string \<Rightarrow> string + string"
  de_fetch_service :: "string \<Rightarrow> string + service"
  de_service_hash :: "service \<Rightarrow> string + bytes"
  de_info_enabled :: bool

section \<open>Queries\<close>

text \<open>\<open>None\<close> is a panic: an endpoint that is no URL, or a chain that is configured as a Stellar chain for a
  manager that is not.\<close>

definition evm_provider ::
  "('em, 'sm, 'w, 'c) dispatcher_env \<Rightarrow> chain_key \<Rightarrow> evm_chain_config \<Rightarrow> ('em, 'sm, 'c) dispatcher \<Rightarrow>
   ((dispatcher_error + string) \<times> ('em, 'sm, 'c) dispatcher) option" where
  "evm_provider E chain cfg D =
     (case get_cloned (d_evm_http_providers D) chain of
        Some p \<Rightarrow> Some (Inr p, D)
      | None \<Rightarrow>
          (case http_endpoint cfg of
             None \<Rightarrow> Some (Inl (DE_Config ''No HTTP endpoint configured for chain''), D)
           | Some url \<Rightarrow>
               if de_url_parses E url
               then Some (Inr url, D\<lparr>d_evm_http_providers := table_insert chain url (d_evm_http_providers D)\<rparr>)
               else None))"

definition cosmos_query_client ::
  "('em, 'sm, 'w, 'c) dispatcher_env \<Rightarrow> chain_key \<Rightarrow> cosmos_chain_config \<Rightarrow> ('em, 'sm, 'c) dispatcher \<Rightarrow>
   (dispatcher_error + unit) \<times> ('em, 'sm, 'c) dispatcher" where
  "cosmos_query_client E chain cfg D =
     (case get_cloned (d_cosmos_query_clients D) chain of
        Some _ \<Rightarrow> (Inr (), D)
      | None \<Rightarrow>
          (case de_cosmos_client E cfg of
             Inl e \<Rightarrow> (Inl (DE_CosmosQuery e), D)
           | Inr _ \<Rightarrow> (Inr (), D\<lparr>d_cosmos_query_clients := table_insert chain () (d_cosmos_query_clients D)\<rparr>)))"

definition fetch_from_uri :: "('em, 'sm, 'w, 'c) dispatcher_env \<Rightarrow> string \<Rightarrow> dispatcher_error + service" where
  "fetch_from_uri E s =
     rbind (map_err DE_URICreation (de_uri E s)) (\<lambda>uri. map_err DE_FetchService (de_fetch_service E uri))"

definition query_stellar_service ::
  "('em, 'sm, 'w, 'c) dispatcher_env \<Rightarrow> chain_configs \<Rightarrow> chain_key \<Rightarrow> stellar_contract \<Rightarrow> dispatcher_error + service" where
  "query_stellar_service E cs chain project_root =
     rbind (case get_chain cs chain of
              Some (AC_Stellar cfg) \<Rightarrow> Inr cfg
            | _ \<Rightarrow> Inl (DE_Config ''No stellar chain config'')) (\<lambda>cfg.
     rbind (map_err DE_Config (de_soroban_env E cfg)) (\<lambda>_.
     rbind (map_err DE_Config (de_project_spec_repo E cfg project_root)) (fetch_from_uri E)))"

definition evm_address_of :: "chain_address \<Rightarrow> dispatcher_error + evm_address" where
  "evm_address_of a = (case a of CA_Evm x \<Rightarrow> Inr x | _ \<Rightarrow> Inl (DE_AddressConversion ''not an EVM address''))"

definition query_service_from_address ::
  "('em, 'sm, 'w, 'c) dispatcher_env \<Rightarrow> service_manager \<Rightarrow> ('em, 'sm, 'c) dispatcher \<Rightarrow>
   ((dispatcher_error + service) \<times> ('em, 'sm, 'c) dispatcher) option" where
  "query_service_from_address E sm D =
     (let chain = manager_chain sm; address = manager_address sm
      in case sm of
           SM_Stellar _ project_root \<Rightarrow> Some (query_stellar_service E (d_chain_configs D) chain project_root, D)
         | _ \<Rightarrow>
             (case get_chain (d_chain_configs D) chain of
                None \<Rightarrow> Some (Inl (DE_Config ''Could not get chain config''), D)
              | Some (AC_Evm cfg) \<Rightarrow>
                  (case evm_provider E chain cfg D of
                     None \<Rightarrow> None
                   | Some (Inl e, D1) \<Rightarrow> Some (Inl e, D1)
                   | Some (Inr p, D1) \<Rightarrow>
                       Some (rbind (evm_address_of address) (\<lambda>a.
                             rbind (map_err DE_AlloyContract (de_get_service_uri E p a)) (fetch_from_uri E)), D1))
              | Some (AC_Cosmos cfg) \<Rightarrow>
                  (case cosmos_query_client E chain cfg D of
                     (Inl e, D1) \<Rightarrow> Some (Inl e, D1)
                   | (Inr _, D1) \<Rightarrow>
                       Some (rbind (map_err DE_CosmosQuery (de_cosmos_service_uri E chain address)) (fetch_from_uri E), D1))
              | Some (AC_Stellar _) \<Rightarrow> None))"

definition check_service_needs_update ::
  "('em, 'sm, 'w, 'c) dispatcher_env \<Rightarrow> service \<Rightarrow> ('em, 'sm, 'c) dispatcher \<Rightarrow>
   ((dispatcher_error + service option) \<times> ('em, 'sm, 'c) dispatcher) option" where
  "check_service_needs_update E svc D =
     (case de_service_hash E svc of
        Inl e \<Rightarrow> Some (Inl (DE_Service e), D)
      | Inr cached_hash \<Rightarrow>
          (case query_service_from_address E (manager svc) D of
             None \<Rightarrow> None
           | Some (r, D1) \<Rightarrow>
               Some (rbind r (\<lambda>current.
                     rbind (map_err DE_Service (de_service_hash E current)) (\<lambda>current_hash.
                     Inr (if current_hash \<noteq> cached_hash then Some current else None))), D1)))"

section \<open>Adding and removing services\<close>

definition add_service_to_managers ::
  "('em, 'sm, 'w, 'c) dispatcher_env \<Rightarrow> service \<Rightarrow> u32 option \<Rightarrow> ('em, 'sm, 'c) dispatcher \<Rightarrow>
   (dispatcher_error + unit) \<times> ('em, 'sm, 'c) dispatcher" where
  "add_service_to_managers E svc hd_index D =
     (let sid = service_id_of (de_crypto E) svc
      in case add_service_key (de_crypto E) (de_keys E) (d_db D) sid hd_index (d_submission_manager D) of
           (Inl e, M) \<Rightarrow> (Inl (DE_Submission e), D\<lparr>d_submission_manager := M\<rparr>)
         | (Inr _, M) \<Rightarrow>
             let D1 = D\<lparr>d_submission_manager := M\<rparr>
             in case trigger_add_service (de_crypto E) (de_watcher E) (de_progress E) svc (d_trigger_manager D1) of
                  (Inl e, W) \<Rightarrow> (Inl (DE_Trigger e), D1\<lparr>d_trigger_manager := W\<rparr>)
                | (Inr _, W) \<Rightarrow>
                    (Inr (), D1\<lparr>d_trigger_manager := W, d_aggregator_tx := d_aggregator_tx D1 @ [AC_SubscribeService sid]\<rparr>))"

definition store_components :: "('em, 'sm, 'w, 'c) dispatcher_env \<Rightarrow> service \<Rightarrow> ('em, 'sm, 'c) dispatcher \<Rightarrow>
   (dispatcher_error + unit) \<times> ('em, 'sm, 'c) dispatcher" where
  "store_components E svc D =
     (case store_components_for_service (de_crypto E) (de_engine E) svc (d_engine D) of
        (r, B) \<Rightarrow> (map_err DE_Engine r, D\<lparr>d_engine := B\<rparr>))"

definition save_service :: "('em, 'sm, 'w, 'c) dispatcher_env \<Rightarrow> service \<Rightarrow> ('em, 'sm, 'c) dispatcher \<Rightarrow>
   (dispatcher_error + unit) \<times> ('em, 'sm, 'c) dispatcher" where
  "save_service E svc D =
     (case services_save (de_crypto E) (de_stellar E) svc (d_db D) of
        (r, db) \<Rightarrow> (map_err DE_UnknownService r, D\<lparr>d_db := db\<rparr>))"

text \<open>Sequencing of fallible steps that change the state.\<close>

definition and_then :: "('e + unit) \<times> 's \<Rightarrow> ('s \<Rightarrow> ('e + 'a) \<times> 's) \<Rightarrow> ('e + 'a) \<times> 's" where
  "and_then r f = (case r of (Inl e, s) \<Rightarrow> (Inl e, s) | (Inr _, s) \<Rightarrow> f s)"

definition add_service_direct ::
  "('em, 'sm, 'w, 'c) dispatcher_env \<Rightarrow> service \<Rightarrow> u32 option \<Rightarrow> ('em, 'sm, 'c) dispatcher \<Rightarrow>
   (dispatcher_error + unit) \<times> ('em, 'sm, 'c) dispatcher" where
  "add_service_direct E svc hd_index D =
     (let sid = service_id_of (de_crypto E) svc
      in if services_exists (d_db D) sid then (Inl (DE_ServiceRegistered sid), D)
         else and_then (store_components E svc D) (\<lambda>D1.
              and_then (save_service E svc D1) (add_service_to_managers E svc hd_index)))"

definition register_and_add_service ::
  "('em, 'sm, 'w, 'c) dispatcher_env \<Rightarrow> service \<Rightarrow> ('em, 'sm, 'c) dispatcher \<Rightarrow>
   (dispatcher_error + unit) \<times> ('em, 'sm, 'c) dispatcher" where
  "register_and_add_service E svc D =
     (case registry_append (de_append_io E) (manager svc) (d_registry D) of
        (Inl e, r) \<Rightarrow> (Inl (DE_Registry e), D\<lparr>d_registry := r\<rparr>)
      | (Inr hd_index, r) \<Rightarrow>
          (case add_service_direct E svc (Some hd_index) (D\<lparr>d_registry := r\<rparr>) of
             (Inr _, D1) \<Rightarrow> (Inr (), D1)
           | (Inl e, D1) \<Rightarrow>
               (Inl e, D1\<lparr>d_registry := snd (registry_remove (de_remove_io E) (manager svc) (d_registry D1))\<rparr>)))"

definition add_service ::
  "('em, 'sm, 'w, 'c) dispatcher_env \<Rightarrow> service_manager \<Rightarrow> ('em, 'sm, 'c) dispatcher \<Rightarrow>
   ((dispatcher_error + service) \<times> ('em, 'sm, 'c) dispatcher) option" where
  "add_service E sm D =
     (case query_service_from_address E sm D of
        None \<Rightarrow> None
      | Some (Inl e, D1) \<Rightarrow> Some (Inl e, D1)
      | Some (Inr svc, D1) \<Rightarrow>
          (case register_and_add_service E svc D1 of
             (Inl e, D2) \<Rightarrow> Some (Inl e, D2)
           | (Inr _, D2) \<Rightarrow> Some (Inr svc, D2)))"

definition remove_service_inner ::
  "('em, 'sm, 'w, 'c) dispatcher_env \<Rightarrow> service_id \<Rightarrow> ('em, 'sm, 'c) dispatcher \<Rightarrow>
   (dispatcher_error + unit) \<times> ('em, 'sm, 'c) dispatcher" where
  "remove_service_inner E sid D =
     (let D1 = D\<lparr>d_db := services_remove sid (d_db D), d_engine := remove_storage (de_crypto E) (de_remove_dir E) sid (d_engine D)\<rparr>
      in case trigger_remove_service (de_watcher E) sid (d_trigger_manager D1) of
           (Inl e, W) \<Rightarrow> (Inl (DE_Trigger e), D1\<lparr>d_trigger_manager := W\<rparr>)
         | (Inr _, W) \<Rightarrow>
             (Inr (), D1\<lparr>d_trigger_manager := W, d_aggregator_tx := d_aggregator_tx D1 @ [AC_UnsubscribeService sid]\<rparr>))"

definition registered_manager :: "('em, 'sm, 'w, 'c) dispatcher_env \<Rightarrow> service_id \<Rightarrow> ('em, 'sm, 'c) dispatcher \<Rightarrow> service_manager option" where
  "registered_manager E sid D =
     (case services_get (d_db D) sid of
        Inr svc \<Rightarrow> Some (manager svc)
      | Inl _ \<Rightarrow>
          map_option re_service_manager
            (List.find (\<lambda>e. service_id_from (de_crypto E) (re_service_manager e) = sid) (entries (fst (d_registry D)))))"

definition remove_service ::
  "('em, 'sm, 'w, 'c) dispatcher_env \<Rightarrow> service_id \<Rightarrow> ('em, 'sm, 'c) dispatcher \<Rightarrow>
   (dispatcher_error + unit) \<times> ('em, 'sm, 'c) dispatcher" where
  "remove_service E sid D =
     (case registered_manager E sid D of
        None \<Rightarrow> remove_service_inner E sid D
      | Some sm \<Rightarrow>
          (case registry_remove (de_remove_io E) sm (d_registry D) of
             (Inl e, r) \<Rightarrow> (Inl (DE_Registry e), D\<lparr>d_registry := r\<rparr>)
           | (Inr _, r) \<Rightarrow> remove_service_inner E sid (D\<lparr>d_registry := r\<rparr>)))"

fun signer_hd_index :: "signer_response \<Rightarrow> u32" where
  "signer_hd_index (SR_Secp256k1 i _ _) = i"
| "signer_hd_index (SR_Ed25519 i _ _) = i"

definition dispatcher_get_service_signer ::
  "('em, 'sm, 'w, 'c) dispatcher_env \<Rightarrow> service_id \<Rightarrow> ('em, 'sm, 'c) dispatcher \<Rightarrow> dispatcher_error + signer_response" where
  "dispatcher_get_service_signer E sid D = map_err DE_Submission (get_service_signer (de_crypto E) (d_submission_manager D) sid)"

definition registry_hd_index_map :: "('em, 'sm, 'c) dispatcher \<Rightarrow> service_manager \<Rightarrow> u32 option" where
  "registry_hd_index_map D = map_of (rev (map (\<lambda>e. (re_service_manager e, re_hd_index e)) (entries (fst (d_registry D)))))"

definition change_service_inner ::
  "('em, 'sm, 'w, 'c) dispatcher_env \<Rightarrow> service_id \<Rightarrow> service \<Rightarrow> ('em, 'sm, 'c) dispatcher \<Rightarrow>
   (dispatcher_error + unit) \<times> ('em, 'sm, 'c) dispatcher" where
  "change_service_inner E sid svc D =
     (if service_id_of (de_crypto E) svc \<noteq> sid
      then (Inl (DE_ChangeIdMismatch sid (service_id_of (de_crypto E) svc)), D)
      else case dispatcher_get_service_signer E sid D of
             Inl e \<Rightarrow> (Inl e, D)
           | Inr signer \<Rightarrow>
               (let logged =
                  (if de_info_enabled E
                   then rbind (map_err DE_UnknownService (services_get (d_db D) sid)) (\<lambda>old.
                        rbind (map_err DE_Service (de_service_hash E old)) (\<lambda>_.
                        rbind (map_err DE_Service (de_service_hash E svc)) (\<lambda>_. Inr ())))
                   else Inr ())
                in and_then (logged, D) (\<lambda>D.
                   and_then (store_components E svc D) (\<lambda>D1.
                   and_then (remove_service_inner E sid D1) (\<lambda>D2.
                   and_then (save_service E svc D2) (add_service_to_managers E svc (Some (signer_hd_index signer))))))))"

definition change_service ::
  "('em, 'sm, 'w, 'c) dispatcher_env \<Rightarrow> service_id \<Rightarrow> string \<Rightarrow> ('em, 'sm, 'c) dispatcher \<Rightarrow>
   (dispatcher_error + unit) \<times> ('em, 'sm, 'c) dispatcher" where
  "change_service E sid uri D =
     (case de_fetch_service E uri of
        Inl e \<Rightarrow> (Inl (DE_FetchService e), D)
      | Inr svc \<Rightarrow> change_service_inner E sid svc D)"

definition dispatcher_store_component_bytes ::
  "('em, 'sm, 'w, 'c) dispatcher_env \<Rightarrow> bytes \<Rightarrow> ('em, 'sm, 'c) dispatcher \<Rightarrow>
   (dispatcher_error + component_digest) \<times> ('em, 'sm, 'c) dispatcher" where
  "dispatcher_store_component_bytes E bs D =
     (case store_component_bytes (de_crypto E) (de_engine E) bs (d_engine D) of
        (r, B) \<Rightarrow> (map_err DE_Engine r, D\<lparr>d_engine := B\<rparr>))"

section \<open>Commands\<close>

text \<open>One command from a subsystem. A change of a service runs as a task of its own; here it runs at once.\<close>

definition dispatcher_turn ::
  "('em, 'sm, 'w, 'c) dispatcher_env \<Rightarrow> dispatcher_command \<Rightarrow> ('em, 'sm, 'c) dispatcher \<Rightarrow> ('em, 'sm, 'c) dispatcher" where
  "dispatcher_turn E cmd D =
     (case cmd of
        DC_Trigger a \<Rightarrow>
          (case services_get (d_db D) (tc_service_id (ta_config a)) of
             Inl _ \<Rightarrow> D
           | Inr svc \<Rightarrow>
               if \<not> services_is_active (d_db D) (tc_service_id (ta_config a)) then D
               else D\<lparr>d_engine_tx := d_engine_tx D @ [EC_ExecuteOperator a svc]\<rparr>)
      | DC_ChangeServiceUri sid uri \<Rightarrow> snd (change_service E sid uri D)
      | DC_EngineResponse (ER_Vector msg) \<Rightarrow>
          (case map_of (workflows (req_service msg)) (tc_workflow_id (ta_config (req_trigger_action msg))) of
             None \<Rightarrow> D
           | Some w \<Rightarrow>
               (case wf_submit w of
                  SubmitNone \<Rightarrow> D
                | _ \<Rightarrow> D\<lparr>d_submission_tx := d_submission_tx D @ [SC_Submit msg]\<rparr>))
      | DC_EngineResponse (ER_Aggregator s actions kind) \<Rightarrow>
          D\<lparr>d_aggregator_tx := d_aggregator_tx D @ [AC_Actions s actions kind]\<rparr>
      | DC_SubmissionResponse s \<Rightarrow> D\<lparr>d_aggregator_tx := d_aggregator_tx D @ [AC_Broadcast s]\<rparr>
      | DC_AggregatorExecute s svc kind \<Rightarrow> D\<lparr>d_engine_tx := d_engine_tx D @ [EC_ExecuteAggregator s svc kind]\<rparr>)"

definition kill_subsystems :: "('em, 'sm, 'c) dispatcher \<Rightarrow> ('em, 'sm, 'c) dispatcher" where
  "kill_subsystems D =
     D\<lparr>d_trigger_manager := snd (send_commands [TC_Kill] (d_trigger_manager D)),
       d_engine_tx := d_engine_tx D @ [EC_Kill],
       d_submission_tx := d_submission_tx D @ [SC_Kill],
       d_aggregator_tx := d_aggregator_tx D @ [AC_Kill]\<rparr>"

section \<open>Start\<close>

text \<open>The queries of all entries run concurrently; they come back in some order, the order of the list.\<close>

fun query_entries ::
  "('em, 'sm, 'w, 'c) dispatcher_env \<Rightarrow> registry_entry list \<Rightarrow> ('em, 'sm, 'c) dispatcher \<Rightarrow>
   ((registry_entry \<times> (dispatcher_error + service)) list \<times> ('em, 'sm, 'c) dispatcher) option" where
  "query_entries E [] D = Some ([], D)"
| "query_entries E (e # es) D =
     (case query_service_from_address E (re_service_manager e) D of
        None \<Rightarrow> None
      | Some (r, D1) \<Rightarrow> map_option (apfst (Cons (e, r))) (query_entries E es D1))"

definition is_genuine_stale :: "dispatcher_error \<Rightarrow> bool" where
  "is_genuine_stale e = (case e of DE_AlloyContract _ \<Rightarrow> True | DE_URICreation _ \<Rightarrow> True | _ \<Rightarrow> False)"

definition restore_one ::
  "('em, 'sm, 'w, 'c) dispatcher_env \<Rightarrow> registry_entry \<Rightarrow> service \<Rightarrow> ('em, 'sm, 'c) dispatcher \<Rightarrow>
   (dispatcher_error + unit) \<times> ('em, 'sm, 'c) dispatcher" where
  "restore_one E entry svc D =
     (let already_in_memory = services_exists (d_db D) (service_id_of (de_crypto E) svc)
      in and_then (save_service E svc D) (\<lambda>D1.
         and_then (store_components E svc D1) (\<lambda>D2.
         if \<not> already_in_memory then add_service_to_managers E svc (Some (re_hd_index entry)) D2 else (Inr (), D2))))"

fun restore_services ::
  "('em, 'sm, 'w, 'c) dispatcher_env \<Rightarrow> (registry_entry \<times> (dispatcher_error + service)) list \<Rightarrow> ('em, 'sm, 'c) dispatcher \<Rightarrow>
   (dispatcher_error + service list) \<times> ('em, 'sm, 'c) dispatcher" where
  "restore_services E [] D = (Inr [], D)"
| "restore_services E ((entry, Inl e) # rest) D =
     restore_services E rest
       (if is_genuine_stale e
        then D\<lparr>d_registry := snd (registry_remove (de_remove_io E) (re_service_manager entry) (d_registry D))\<rparr>
        else D)"
| "restore_services E ((entry, Inr svc) # rest) D =
     and_then (restore_one E entry svc D) (\<lambda>D1.
     apfst (\<lambda>r. rbind r (\<lambda>svcs. Inr (svc # svcs))) (restore_services E rest D1))"

text \<open>The second look at every service: each query, then each update; a failure is only logged.\<close>

fun check_services ::
  "('em, 'sm, 'w, 'c) dispatcher_env \<Rightarrow> service list \<Rightarrow> ('em, 'sm, 'c) dispatcher \<Rightarrow>
   ((service_id \<times> (dispatcher_error + service option)) list \<times> ('em, 'sm, 'c) dispatcher) option" where
  "check_services E [] D = Some ([], D)"
| "check_services E (svc # svcs) D =
     (case check_service_needs_update E svc D of
        None \<Rightarrow> None
      | Some (r, D1) \<Rightarrow> map_option (apfst (Cons (service_id_of (de_crypto E) svc, r))) (check_services E svcs D1))"

fun apply_updates ::
  "('em, 'sm, 'w, 'c) dispatcher_env \<Rightarrow> (service_id \<times> (dispatcher_error + service option)) list \<Rightarrow> ('em, 'sm, 'c) dispatcher \<Rightarrow>
   ('em, 'sm, 'c) dispatcher" where
  "apply_updates E [] D = D"
| "apply_updates E ((sid, Inr (Some svc)) # rest) D = apply_updates E rest (snd (change_service_inner E sid svc D))"
| "apply_updates E ((sid, Inr None) # rest) D = apply_updates E rest D"
| "apply_updates E ((sid, Inl _) # rest) D = apply_updates E rest D"

definition dispatcher_start ::
  "('em, 'sm, 'w, 'c) dispatcher_env \<Rightarrow> registry_entry list \<Rightarrow> (service list \<Rightarrow> service list) \<Rightarrow> ('em, 'sm, 'c) dispatcher \<Rightarrow>
   ((dispatcher_error + unit) \<times> ('em, 'sm, 'c) dispatcher) option" where
  "dispatcher_start E answers check_order D =
     (case query_entries E answers D of
        None \<Rightarrow> None
      | Some (fetched, D1) \<Rightarrow>
          (case restore_services E fetched D1 of
             (Inl e, D2) \<Rightarrow> Some (Inl e, D2)
           | (Inr initial_services, D2) \<Rightarrow>
               map_option (\<lambda>(results, D3). (Inr (), apply_updates E results D3))
                 (check_services E (check_order initial_services) D2)))"

section \<open>Adding a service\<close>

lemma and_then_Inr:
  "and_then r f = (Inr a, s') \<longleftrightarrow> (\<exists>s. r = (Inr (), s) \<and> f s = (Inr a, s'))"
  by (cases r) (auto simp: and_then_def split: sum.splits)

lemma store_components_frame:
  "store_components E svc D = (r, D') \<Longrightarrow> \<exists>B. D' = D\<lparr>d_engine := B\<rparr>"
  by (auto simp: store_components_def split: prod.splits)

lemma save_service_frame:
  "save_service E svc D = (r, D') \<Longrightarrow>
   \<exists>db. D' = D\<lparr>d_db := db\<rparr> \<and> db_services db = table_insert (service_id_of (de_crypto E) svc) svc (db_services (d_db D))"
  by (auto simp: save_service_def split: prod.splits)
    (metis services_save_db_services snd_conv)

text \<open>What a successful registration with the managers leaves behind.\<close>

lemma add_service_to_managers_ok:
  assumes "add_service_to_managers E svc (Some i) D = (Inr (), D')"
  defines "sid \<equiv> service_id_of (de_crypto E) svc"
  shows "\<exists>info kind. get_cloned (sm_signers (d_submission_manager D')) sid = Some info \<and> si_hd_index info = i \<and>
      services_get_signature_kind (d_db D) sid = Inr kind \<and> create_signer (de_keys E) sid kind i = Inr (si_signer info) \<and>
      si_address info = signer_own_address (de_crypto E) (si_signer info)"
    and "s \<noteq> sid \<Longrightarrow> get_cloned (sm_signers (d_submission_manager D')) s = get_cloned (sm_signers (d_submission_manager D)) s"
    and "d_aggregator_tx D' = d_aggregator_tx D @ [AC_SubscribeService sid]"
    and "d_db D' = d_db D" "d_registry D' = d_registry D" "d_engine_tx D' = d_engine_tx D"
    and "trigger_add_service (de_crypto E) (de_watcher E) (de_progress E) svc (d_trigger_manager D) = (Inr (), d_trigger_manager D')"
proof -
  obtain M W where k: "add_service_key (de_crypto E) (de_keys E) (d_db D) sid (Some i) (d_submission_manager D) = (Inr (), M)"
    and t: "trigger_add_service (de_crypto E) (de_watcher E) (de_progress E) svc (d_trigger_manager D) = (Inr (), W)"
    and D': "D' = D\<lparr>d_submission_manager := M, d_trigger_manager := W,
      d_aggregator_tx := d_aggregator_tx D @ [AC_SubscribeService sid]\<rparr>"
    using assms(1) unfolding add_service_to_managers_def Let_def sid_def
    by (auto split: prod.splits sum.splits)
  obtain kind signer where ok: "services_get_signature_kind (d_db D) sid = Inr kind" "create_signer (de_keys E) sid kind i = Inr signer"
    and M: "sm_signers M = table_insert sid
      \<lparr>si_signer = signer, si_address = signer_own_address (de_crypto E) signer,
       si_pubkey_hex = registration_pubkey_hex (de_crypto E) signer, si_hd_index = i\<rparr> (sm_signers (d_submission_manager D))"
    using add_service_key_ok [OF k] by auto
  show "\<exists>info kind. get_cloned (sm_signers (d_submission_manager D')) sid = Some info \<and> si_hd_index info = i \<and>
      services_get_signature_kind (d_db D) sid = Inr kind \<and> create_signer (de_keys E) sid kind i = Inr (si_signer info) \<and>
      si_address info = signer_own_address (de_crypto E) (si_signer info)"
    "s \<noteq> sid \<Longrightarrow> get_cloned (sm_signers (d_submission_manager D')) s = get_cloned (sm_signers (d_submission_manager D)) s"
    using ok by (simp_all add: D' M)
  show "d_aggregator_tx D' = d_aggregator_tx D @ [AC_SubscribeService sid]"
    "d_db D' = d_db D" "d_registry D' = d_registry D" "d_engine_tx D' = d_engine_tx D" by (simp_all add: D')
  show "trigger_add_service (de_crypto E) (de_watcher E) (de_progress E) svc (d_trigger_manager D) = (Inr (), d_trigger_manager D')"
    using t by (simp add: D')
qed

text \<open>What registering the triggers does to the lookup tables. The wait for the Stellar controllers lets the watcher
  work in between; that it leaves the tables alone is \<open>quiet_wait\<close>, which holds of the watcher's commands.\<close>

definition quiet_wait :: "('em, 'sm, 'w, 'c) dispatcher_env \<Rightarrow> bool" where
  "quiet_wait E = (\<forall>W. tm_lookup (de_progress E W) = tm_lookup W)"

lemma quiet_wait_queue: "de_progress E = run_queue (de_watcher E) outs \<Longrightarrow> quiet_wait E"
  by (simp add: quiet_wait_def run_queue_lookup)

abbreviation lookup_of :: "('em, 'sm, 'c) dispatcher \<Rightarrow> lookup_maps" where
  "lookup_of D \<equiv> tm_lookup (d_trigger_manager D)"

lemma trigger_add_service_lookup:
  assumes add: "trigger_add_service C E progress svc W = (r, W')" and quiet: "\<And>W. tm_lookup (progress W) = tm_lookup W"
  obtains (same) "r \<noteq> Inr ()" "tm_lookup W' = tm_lookup W"
  | (added) r' ctrls ctrls' where "lookup_add_service C (we_trigger E) svc (tm_lookup W) ctrls = (r', tm_lookup W', ctrls')"
      "r = Inr () \<longrightarrow> r' = Inr ()"
proof -
  obtain b W1 where b: "add_service_begin svc W = (b, W1)" by fastforce
  then have l1: "tm_lookup W1 = tm_lookup W" unfolding add_service_begin_def by (rule send_commands_lookup)
  define W2 where "W2 = (if missing_controller (stellar_chains_to_wait_for (tm_chain_configs W) (workflow_commands (tm_chain_configs W) svc)) W1 = None
    then W1 else progress W1)"
  have l2: "tm_lookup W2 = tm_lookup W" using l1 quiet by (simp add: W2_def)
  have "(r \<noteq> Inr () \<and> (W' = W1 \<or> W' = W2)) \<or> add_service_finish C E (tm_chain_configs W) svc W2 = (r, W')"
    using add b unfolding trigger_add_service_def Let_def W2_def by (auto split: sum.splits option.splits)
  then show ?thesis
  proof
    assume "r \<noteq> Inr () \<and> (W' = W1 \<or> W' = W2)"
    then show ?thesis using same l1 l2 by auto
  next
    assume f: "add_service_finish C E (tm_chain_configs W) svc W2 = (r, W')"
    obtain r' L ctrls' where a: "lookup_add_service C (we_trigger E) svc (tm_lookup W2) (tm_stellar_controllers W2) = (r', L, ctrls')"
      by (metis prod_cases3)
    then have "tm_lookup W' = L" "r = Inr () \<longrightarrow> r' = Inr ()"
      using f by (auto simp: add_service_finish_def Let_def split: sum.splits dest!: send_commands_lookup)
    then show ?thesis using added a l2 by metis
  qed
qed

lemma managers_others:
  assumes m: "add_service_to_managers E svc i D = (r, D')" and quiet: "quiet_wait E" and inv: "lookup_inv (lookup_of D)"
    and room: "unat (next_lookup_id (lookup_of D)) + length (workflows svc) < 2 ^ 64"
  defines "sid \<equiv> service_id_of (de_crypto E) svc"
  shows "others_kept sid (manager_address (manager svc)) (lookup_of D) (lookup_of D')"
    and "r = Inr () \<Longrightarrow> distinct (map fst (workflows svc)) \<Longrightarrow> cfg \<in> set (trigger_configs_of sid svc) \<Longrightarrow>
      trigger_ready (lookup_of D') cfg"
    and "r = Inr () \<Longrightarrow> bimap_get_by_left (service_manager_map (lookup_of D')) sid = Some (manager_address (manager svc))"
proof -
  let ?add = "trigger_add_service (de_crypto E) (de_watcher E) (de_progress E) svc (d_trigger_manager D)"
  have q: "\<And>W. tm_lookup (de_progress E W) = tm_lookup W" using quiet by (simp add: quiet_wait_def)
  consider (no) "r \<noteq> Inr ()" "d_trigger_manager D' = d_trigger_manager D"
    | (yes) r' where "?add = (r', d_trigger_manager D')" "r = Inr () \<longrightarrow> r' = Inr ()"
    using m unfolding add_service_to_managers_def Let_def by (fastforce split: prod.splits sum.splits)
  then have "others_kept sid (manager_address (manager svc)) (lookup_of D) (lookup_of D') \<and>
    (r = Inr () \<longrightarrow> (distinct (map fst (workflows svc)) \<longrightarrow> (\<forall>cfg\<in>set (trigger_configs_of sid svc). trigger_ready (lookup_of D') cfg)) \<and>
      bimap_get_by_left (service_manager_map (lookup_of D')) sid = Some (manager_address (manager svc)))"
  proof cases
    case no
    then show ?thesis by (simp add: others_kept_refl)
  next
    case (yes r')
    from yes(1) q show ?thesis
    proof (cases rule: trigger_add_service_lookup)
      case same
      then show ?thesis using yes(2) by (simp add: others_kept_refl)
    next
      case (added r'' ctrls ctrls')
      note all = add_service_others [OF inv room added(1), folded sid_def]
      show ?thesis using all added(2) yes(2) by blast
    qed
  qed
  then show "others_kept sid (manager_address (manager svc)) (lookup_of D) (lookup_of D')"
    and "r = Inr () \<Longrightarrow> distinct (map fst (workflows svc)) \<Longrightarrow> cfg \<in> set (trigger_configs_of sid svc) \<Longrightarrow>
      trigger_ready (lookup_of D') cfg"
    and "r = Inr () \<Longrightarrow> bimap_get_by_left (service_manager_map (lookup_of D')) sid = Some (manager_address (manager svc))"
    by blast+
qed

lemma add_service_direct_ok:
  assumes "add_service_direct E svc (Some i) D = (Inr (), D')"
  defines "sid \<equiv> service_id_of (de_crypto E) svc"
  shows "\<not> services_exists (d_db D) sid"
    and "\<exists>D1. add_service_to_managers E svc (Some i) D1 = (Inr (), D') \<and> d_registry D1 = d_registry D \<and>
      d_submission_manager D1 = d_submission_manager D \<and> d_trigger_manager D1 = d_trigger_manager D \<and>
      d_aggregator_tx D1 = d_aggregator_tx D \<and> d_engine_tx D1 = d_engine_tx D \<and>
      db_services (d_db D1) = table_insert sid svc (db_services (d_db D))"
proof -
  show "\<not> services_exists (d_db D) sid" using assms by (auto simp: add_service_direct_def Let_def split: if_splits)
  then obtain D0 D1 where "store_components E svc D = (Inr (), D0)" "save_service E svc D0 = (Inr (), D1)"
    "add_service_to_managers E svc (Some i) D1 = (Inr (), D')"
    using assms by (auto simp: add_service_direct_def Let_def and_then_Inr)
  then show "\<exists>D1. add_service_to_managers E svc (Some i) D1 = (Inr (), D') \<and> d_registry D1 = d_registry D \<and>
      d_submission_manager D1 = d_submission_manager D \<and> d_trigger_manager D1 = d_trigger_manager D \<and>
      d_aggregator_tx D1 = d_aggregator_tx D \<and> d_engine_tx D1 = d_engine_tx D \<and>
      db_services (d_db D1) = table_insert sid svc (db_services (d_db D))"
    using store_components_frame [of E svc D] save_service_frame [of E svc D0] unfolding sid_def by fastforce
qed


text \<open>A node for the witnesses: one EVM chain, a service for which the registry, the keys, the code and the
  trigger manager are ready.\<close>

definition demo_dispatcher_env ::
  "(nat \<times> (nat \<times> rpc_request_kind) list, nat \<times> (nat \<times> stellar_event_filter) list, bytes, (component_digest \<times> bytes) list) dispatcher_env" where
  "demo_dispatcher_env =
     \<lparr>de_crypto = hex_crypto, de_engine = (demo_engine_env [\<lparr>payload = [1, 2], ordering = None, event_id_salt = None\<rparr>])\<lparr>ee_fetch_bytes := (\<lambda>_. Inr [7])\<rparr>,
      de_stellar = \<lparr>has_stellar_config = (\<lambda>_. False), soroban_env = (\<lambda>_. Inr ()),
        query_verification_contract = (\<lambda>_ _. Inr []), query_security_contract = (\<lambda>_ _. Inr [])\<rparr>,
      de_keys = demo_keys, de_watcher = demo_watcher_env, de_progress = id, de_append_io = Inr (), de_remove_io = Inr (),
      de_remove_dir = Inr (), de_soroban_env = (\<lambda>_. Inr ()), de_project_spec_repo = (\<lambda>_ _. Inl ''offline''),
      de_url_parses = (\<lambda>_. True), de_get_service_uri = (\<lambda>_ _. Inl ''offline''), de_cosmos_client = (\<lambda>_. Inl ''offline''),
      de_cosmos_service_uri = (\<lambda>_ _. Inl ''offline''), de_uri = Inr, de_fetch_service = (\<lambda>_. Inl ''offline''),
      de_service_hash = (\<lambda>_. Inr []), de_info_enabled = False\<rparr>"

definition demo_dispatcher ::
  "(nat \<times> (nat \<times> rpc_request_kind) list, nat \<times> (nat \<times> stellar_event_filter) list, (component_digest \<times> bytes) list) dispatcher" where
  "demo_dispatcher =
     \<lparr>d_trigger_manager = trigger_manager_new (demo_chains [''ws://a'']), d_engine = demo_engine,
      d_submission_manager = submission_manager_new, d_db = wavs_db_new, d_chain_configs = demo_chains [''ws://a''],
      d_registry = (\<lparr>entries = [], next_hd_index = 1\<rparr>, demo_disk), d_engine_tx = [], d_submission_tx = [], d_aggregator_tx = [],
      d_evm_http_providers = table_new, d_cosmos_query_clients = table_new\<rparr>"

definition demo_new_service :: service where
  "demo_new_service = service_new_simple None Manual (Download ''https://a'' (sha256 hex_crypto [7])) SubmitNone demo_manager"

lemma demo_new_service_fields:
  "workflows demo_new_service = [(workflow_id_default, \<lparr>wf_trigger = Manual,
     wf_component = component_new (Download ''https://a'' (sha256 hex_crypto [7])), wf_submit = SubmitNone\<rparr>)]"
  "manager demo_new_service = demo_manager" "svc_signature_kind demo_new_service = signature_kind_evm_default"
  by (simp_all add: demo_new_service_def service_new_simple_def)

lemma demo_env_fields:
  "de_crypto demo_dispatcher_env = hex_crypto" "de_watcher demo_dispatcher_env = demo_watcher_env"
  "de_progress demo_dispatcher_env = id" "de_keys demo_dispatcher_env = demo_keys"
  "de_append_io demo_dispatcher_env = Inr ()" "de_remove_io demo_dispatcher_env = Inr ()"
  by (simp_all add: demo_dispatcher_env_def)

lemma demo_store_source:
  "\<exists>B'. store_component_from_source hex_crypto (de_engine demo_dispatcher_env) (Download ''https://a'' (sha256 hex_crypto [7])) B =
    (Inr (sha256 hex_crypto [7]), B')"
proof (cases "map_of (be_storage B) (file_path hex_crypto (sha256 hex_crypto [7]))")
  case None
  then show ?thesis
    by (cases "map_of (be_cache B) (sha256 hex_crypto [7])")
      (simp_all add: store_component_from_source_def file_data_exists_def load_component_from_source_def load_component_def
        demo_dispatcher_env_def demo_engine_env_def demo_lru_def Let_def file_get_data_def fetch_component_def hash_id_hash_def
        file_set_data_def)
next
  case (Some x)
  then show ?thesis
    by (simp add: store_component_from_source_def file_data_exists_def demo_dispatcher_env_def demo_engine_env_def)
qed

lemma demo_store_components:
  "\<exists>B. store_components demo_dispatcher_env demo_new_service D = (Inr (), D\<lparr>d_engine := B\<rparr>)"
proof -
  obtain B where "store_component_from_source hex_crypto (de_engine demo_dispatcher_env)
    (Download ''https://a'' (sha256 hex_crypto [7])) (d_engine D) = (Inr (sha256 hex_crypto [7]), B)"
    using demo_store_source by blast
  then show ?thesis
    by (simp add: store_components_def store_components_for_service_def demo_new_service_fields component_sources_def
        component_new_def demo_env_fields) blast
qed

lemma demo_trigger_add:
  "\<exists>W. trigger_add_service hex_crypto demo_watcher_env id demo_new_service
     (trigger_manager_new (demo_chains [''ws://a''])) = (Inr (), W)"
proof -
  have wc: "workflow_commands cs demo_new_service = []" for cs
    by (simp add: workflow_commands_def demo_new_service_fields)
  have waits: "stellar_chains_to_wait_for cs [] = []" for cs by (simp add: stellar_chains_to_wait_for_def map_filter_def)
  show ?thesis
    by (simp add: trigger_add_service_def wc waits missing_controller_def Let_def add_service_begin_def add_service_finish_def
        trigger_manager_new_def lookup_add_service_def trigger_configs_of_def demo_new_service_fields
        manager_commands_def demo_manager_def lookup_add_trigger_def lookup_maps_new_def demo_watcher_env_def demo_trigger_env_def)
qed

lemma demo_add_key:
  assumes "get_cloned (db_services db) (service_id_of hex_crypto demo_new_service) = Some demo_new_service"
  shows "\<exists>M'. add_service_key hex_crypto demo_keys db (service_id_of hex_crypto demo_new_service) (Some 1) M = (Inr (), M')"
  using assms by (simp add: add_service_key_def Let_def checked_add_def services_get_signature_kind_def map_ref_def
      get_cloned_def demo_new_service_fields create_signer_def signature_kind_evm_default_def demo_keys_def)

lemma demo_save_service:
  "\<exists>D'. save_service demo_dispatcher_env demo_new_service D = (Inr (), D')"
  by (auto simp: save_service_def services_save_def demo_new_service_fields demo_manager_def)

lemma demo_register_gen:
  assumes t: "trigger_add_service hex_crypto demo_watcher_env id demo_new_service W = (r, W')"
  shows "\<exists>D'. register_and_add_service demo_dispatcher_env demo_new_service (demo_dispatcher\<lparr>d_trigger_manager := W\<rparr>) =
    (map_err DE_Trigger r, D')"
proof -
  let ?sid = "service_id_of hex_crypto demo_new_service"
  obtain g where a: "registry_append (Inr ()) (manager demo_new_service) (d_registry demo_dispatcher) = (Inr 1, g)"
    by (simp add: registry_append_def demo_dispatcher_def Let_def checked_add_def write_locked_def)
  let ?D = "demo_dispatcher\<lparr>d_trigger_manager := W, d_registry := g\<rparr>"
  obtain B where s: "store_components demo_dispatcher_env demo_new_service ?D = (Inr (), ?D\<lparr>d_engine := B\<rparr>)"
    using demo_store_components [of ?D] by blast
  obtain D1 where v: "save_service demo_dispatcher_env demo_new_service (?D\<lparr>d_engine := B\<rparr>) = (Inr (), D1)"
    using demo_save_service by blast
  obtain db where D1: "D1 = ?D\<lparr>d_engine := B, d_db := db\<rparr>" "db_services db = [(?sid, demo_new_service)]"
    using save_service_frame [OF v]
    by (auto simp: demo_env_fields demo_dispatcher_def wavs_db_new_def table_new_def table_insert_def)
  obtain M where k: "add_service_key hex_crypto demo_keys db ?sid (Some 1) submission_manager_new = (Inr (), M)"
    using demo_add_key [of db submission_manager_new] D1(2) by (auto simp: get_cloned_def)
  have "\<exists>D'. add_service_to_managers demo_dispatcher_env demo_new_service (Some 1) D1 = (map_err DE_Trigger r, D')"
    using k t by (cases r) (simp_all add: add_service_to_managers_def Let_def demo_env_fields D1(1) demo_dispatcher_def)
  then obtain D' where "add_service_direct demo_dispatcher_env demo_new_service (Some 1) ?D = (map_err DE_Trigger r, D')"
    using s v by (auto simp: add_service_direct_def Let_def and_then_def services_exists_def contains_key_def
        demo_dispatcher_def wavs_db_new_def table_new_def)
  then show ?thesis using a by (cases r) (simp_all add: register_and_add_service_def demo_env_fields)
qed

lemma demo_register:
  "\<exists>D'. register_and_add_service demo_dispatcher_env demo_new_service demo_dispatcher = (Inr (), D')"
proof -
  have "demo_dispatcher\<lparr>d_trigger_manager := trigger_manager_new (demo_chains [''ws://a''])\<rparr> = demo_dispatcher"
    by (simp add: demo_dispatcher_def)
  moreover obtain W where "trigger_add_service hex_crypto demo_watcher_env id demo_new_service
     (trigger_manager_new (demo_chains [''ws://a''])) = (Inr (), W)" using demo_trigger_add by blast
  ultimately show ?thesis using demo_register_gen by fastforce
qed

lemma demo_quiet: "quiet_wait demo_dispatcher_env"
  by (simp add: quiet_wait_def demo_env_fields)

lemma demo_dispatcher_lookup:
  "lookup_reachable hex_crypto (we_trigger demo_watcher_env) orderly (lookup_of demo_dispatcher)"
  "unat (next_lookup_id (lookup_of demo_dispatcher)) + length (workflows demo_new_service) < 2 ^ 64"
  "distinct (map fst (workflows demo_new_service))"
proof -
  have "lookup_of demo_dispatcher = lookup_maps_new" by (simp add: demo_dispatcher_def trigger_manager_new_def)
  moreover have "next_lookup_id lookup_maps_new = 0" by (simp add: lookup_maps_new_def)
  ultimately show "lookup_reachable hex_crypto (we_trigger demo_watcher_env) orderly (lookup_of demo_dispatcher)"
    "unat (next_lookup_id (lookup_of demo_dispatcher)) + length (workflows demo_new_service) < 2 ^ 64"
    "distinct (map fst (workflows demo_new_service))"
    by (simp_all add: lr_new demo_new_service_fields)
qed


section \<open>Failures\<close>

lemma add_service_to_managers_frame:
  "add_service_to_managers E svc i D = (r, D') \<Longrightarrow> d_db D' = d_db D \<and> d_registry D' = d_registry D"
  by (auto simp: add_service_to_managers_def Let_def split: prod.splits sum.splits)

text \<open>The errors of the steps after the service was stored.\<close>

fun late_error :: "dispatcher_error \<Rightarrow> bool" where
  "late_error (DE_UnknownService _) = True"
| "late_error (DE_Submission _) = True"
| "late_error (DE_Trigger _) = True"
| "late_error _ = False"

lemma add_service_direct_late:
  assumes "add_service_direct E svc i D = (Inl e, D')" "late_error e"
  shows "db_services (d_db D') = table_insert (service_id_of (de_crypto E) svc) svc (db_services (d_db D)) \<and>
    d_registry D' = d_registry D"
proof -
  obtain r1 D1 where s: "store_components E svc D = (r1, D1)" by (cases "store_components E svc D")
  have frame1: "d_db D1 = d_db D" "d_registry D1 = d_registry D" using store_components_frame [OF s] by auto
  have early: "\<not> late_error e1" if "r1 = Inl e1" for e1
    using s that by (auto simp: store_components_def map_err_Inl_iff split: prod.splits)
  obtain r2 D2 where v: "save_service E svc D1 = (r2, D2)" by (cases "save_service E svc D1")
  have frame2: "db_services (d_db D2) = table_insert (service_id_of (de_crypto E) svc) svc (db_services (d_db D))"
    "d_registry D2 = d_registry D"
    using save_service_frame [OF v] frame1 by auto
  show ?thesis
    using assms s v early frame2 add_service_to_managers_frame [of E svc i D2]
    by (auto simp: add_service_direct_def Let_def and_then_def split: if_splits sum.splits)
qed

lemma register_stored_fails:
  assumes "services_get (d_db D) (service_id_of (de_crypto E) svc) = Inr svc'"
  shows "fst (register_and_add_service E svc D) \<noteq> Inr ()"
proof
  assume "fst (register_and_add_service E svc D) = Inr ()"
  then obtain i r D' where "add_service_direct E svc (Some i) (D\<lparr>d_registry := r\<rparr>) = (Inr (), D')"
    by (auto simp: register_and_add_service_def split: prod.splits sum.splits)
  from add_service_direct_ok(1) [OF this] assms show False
    by (simp add: services_exists_iff services_get_Inr_iff)
qed

lemma registry_remove_ok: "fst (registry_remove (Inr ()) sm r) = Inr ()"
  by (simp add: registry_remove_def Let_def)

lemma remove_service_inner_db:
  "d_db (snd (remove_service_inner E sid D)) = services_remove sid (d_db D)"
  by (simp add: remove_service_inner_def Let_def split: prod.splits sum.splits)

text \<open>
  C39: A failed addition is only half undone. When the check of a Stellar manager, the key or the
  triggers fail, the entry is taken out of the registry again, but the service stays in the store: no
  later attempt to add it can succeed, although the registry does not know it and a restart would not
  restore it, until the service is removed explicitly.
\<close>

theorem failed_add_blocks_service:
  assumes "registry_wf (fst (d_registry D))" "register_and_add_service E svc D = (Inl e, D')" "late_error e"
  defines "sid \<equiv> service_id_of (de_crypto E) svc"
  shows "entries (fst (d_registry D')) = entries (fst (d_registry D)) \<and> services_get (d_db D') sid = Inr svc \<and>
    (\<forall>E'. de_crypto E' = de_crypto E \<longrightarrow> fst (register_and_add_service E' svc D') \<noteq> Inr ()) \<and>
    (de_remove_io E' = Inr () \<longrightarrow> \<not> services_exists (d_db (snd (remove_service E' sid D'))) sid)"
proof (intro conjI allI impI)
  obtain i r where a: "registry_append (de_append_io E) (manager svc) (d_registry D) = (Inr i, r)"
    using assms(2,3) by (auto simp: register_and_add_service_def split: prod.splits sum.splits)
  obtain D1 where d: "add_service_direct E svc (Some i) (D\<lparr>d_registry := r\<rparr>) = (Inl e, D1)"
    and D': "D' = D1\<lparr>d_registry := snd (registry_remove (de_remove_io E) (manager svc) (d_registry D1))\<rparr>"
    using assms(2) a by (auto simp: register_and_add_service_def split: prod.splits sum.splits)
  have late: "db_services (d_db D1) = table_insert sid svc (db_services (d_db D))" "d_registry D1 = r"
    using add_service_direct_late [OF d assms(3)] by (simp_all add: sid_def)
  have es: "manager svc \<notin> re_service_manager ` set (entries (fst (d_registry D)))"
    "entries (fst r) = entries (fst (d_registry D)) @ [\<lparr>re_service_manager = manager svc, re_hd_index = i\<rparr>]"
    using registry_append_memory [OF a] by (auto simp: rbind_Inr_iff dest: sym)
  have "distinct (map re_service_manager (entries (fst r)))"
    using registry_append_wf(1) [OF assms(1) a] by (simp add: registry_wf_def)
  moreover have "filter (\<lambda>e. re_service_manager e \<noteq> manager svc) (entries (fst (d_registry D))) = entries (fst (d_registry D))"
    using es(1) by (intro filter_True) (metis image_eqI)
  ultimately show "entries (fst (d_registry D')) = entries (fst (d_registry D))"
    using es(2) by (simp add: D' late(2) registry_remove_memory remove_first_distinct)
  show stored: "services_get (d_db D') sid = Inr svc" by (simp add: D' services_get_Inr_iff late(1))
  show "fst (register_and_add_service E' svc D') \<noteq> Inr ()" if "de_crypto E' = de_crypto E" for E'
    using register_stored_fails [of D' E' svc svc] stored that by (simp add: sid_def)
  assume io: "de_remove_io E' = Inr ()"
  have "registered_manager E' sid D' = Some (manager svc)" using stored by (simp add: registered_manager_def)
  moreover obtain r' where "registry_remove (de_remove_io E') (manager svc) (d_registry D') = (Inr (), r')"
    using registry_remove_ok [of "manager svc" "d_registry D'"] io by (metis prod.collapse)
  ultimately have "d_db (snd (remove_service E' sid D')) = services_remove sid (d_db D')"
    by (simp add: remove_service_def remove_service_inner_db)
  then show "\<not> services_exists (d_db (snd (remove_service E' sid D'))) sid" by (simp add: services_exists_iff)
qed

text \<open>The witness is a node whose watcher has stopped.\<close>

theorem failed_add_blocks_service_witness:
  "\<exists>D'. register_and_add_service demo_dispatcher_env demo_new_service
      (demo_dispatcher\<lparr>d_trigger_manager := (trigger_manager_new (demo_chains []))\<lparr>tm_running := False\<rparr>\<rparr>) =
      (Inl (DE_Trigger TE_LocalCommandError), D') \<and>
    entries (fst (d_registry D')) = [] \<and>
    services_get (d_db D') (service_id_of hex_crypto demo_new_service) = Inr demo_new_service \<and>
    fst (register_and_add_service demo_dispatcher_env demo_new_service D') \<noteq> Inr ()"
proof -
  let ?W = "(trigger_manager_new (demo_chains []))\<lparr>tm_running := False\<rparr>"
  let ?D = "demo_dispatcher\<lparr>d_trigger_manager := ?W\<rparr>"
  have "trigger_add_service hex_crypto demo_watcher_env id demo_new_service ?W = (Inl TE_LocalCommandError, ?W)"
    by (simp add: trigger_add_service_def Let_def add_service_begin_def)
  from demo_register_gen [OF this] obtain D' where
    f: "register_and_add_service demo_dispatcher_env demo_new_service ?D = (Inl (DE_Trigger TE_LocalCommandError), D')" by auto
  have reg: "registry_wf (fst (d_registry ?D))" "entries (fst (d_registry ?D)) = []"
    by (simp_all add: registry_wf_def demo_dispatcher_def)
  have late: "late_error (DE_Trigger TE_LocalCommandError)" by simp
  note half = failed_add_blocks_service [OF reg(1) f late, of demo_dispatcher_env, unfolded reg(2) demo_env_fields(1)]
  have "fst (register_and_add_service demo_dispatcher_env demo_new_service D') \<noteq> Inr ()"
    using half demo_env_fields(1) by blast
  then show ?thesis using f half by blast
qed

section \<open>Keys of services\<close>

abbreviation key_of :: "('em, 'sm, 'c) dispatcher \<Rightarrow> service_id \<Rightarrow> signer_info option" where
  "key_of D s \<equiv> get_cloned (sm_signers (d_submission_manager D)) s"

lemma get_service_signer_index:
  "get_service_signer C M sid = Inr signer \<Longrightarrow>
   \<exists>info. get_cloned (sm_signers M) sid = Some info \<and> signer_hd_index signer = si_hd_index info"
proof (cases "get_cloned (sm_signers M) sid")
  case (Some info)
  assume "get_service_signer C M sid = Inr signer"
  with Some show ?thesis by (cases "si_address info") (auto simp: get_service_signer_def)
qed (simp add: get_service_signer_def)

text \<open>What the steps of an update leave alone: the registry, and of all other services the keys, the definitions and
  what the trigger manager has registered for them.\<close>

definition only_service :: "service_id \<Rightarrow> chain_address \<Rightarrow> ('em, 'sm, 'c) dispatcher \<Rightarrow> ('em, 'sm, 'c) dispatcher \<Rightarrow> bool" where
  "only_service sid a D D' =
     (d_registry D' = d_registry D \<and> others_kept sid a (lookup_of D) (lookup_of D') \<and>
      (\<forall>s. s \<noteq> sid \<longrightarrow> key_of D' s = key_of D s \<and> services_get (d_db D') s = services_get (d_db D) s))"

text \<open>A step with what the next one needs of the lookup tables.\<close>

definition room_for :: "service \<Rightarrow> ('em, 'sm, 'c) dispatcher \<Rightarrow> bool" where
  "room_for svc D =
     (lookup_inv (lookup_of D) \<and> unat (next_lookup_id (lookup_of D)) + length (workflows svc) < 2 ^ 64)"

lemma only_service_refl: "only_service sid a D D"
  by (simp add: only_service_def others_kept_refl)

lemma only_service_trans: "only_service sid a D D1 \<Longrightarrow> only_service sid a D1 D2 \<Longrightarrow> only_service sid a D D2"
  using others_kept_trans by (auto simp: only_service_def)

lemma only_store: "store_components E svc D = (r, D') \<Longrightarrow> only_service sid a D D' \<and> (room_for svc' D \<longrightarrow> room_for svc' D')"
  by (auto simp: only_service_def room_for_def others_kept_refl dest!: store_components_frame)

lemma only_save:
  "save_service E svc D = (r, D') \<Longrightarrow>
   only_service (service_id_of (de_crypto E) svc) a D D' \<and> (room_for svc' D \<longrightarrow> room_for svc' D')"
  by (auto simp: only_service_def room_for_def others_kept_refl services_get_def services_try_get_def dest!: save_service_frame)

lemma only_remove:
  assumes rm: "remove_service_inner E sid D = (r, D')" and room: "room_for svc D"
  shows "only_service sid a D D' \<and> room_for svc D'"
proof -
  let ?t = "trigger_remove_service (de_watcher E) sid (d_trigger_manager D)"
  obtain rt W where t: "?t = (rt, W)" by fastforce
  then have D': "d_trigger_manager D' = W" "d_registry D' = d_registry D" "d_db D' = services_remove sid (d_db D)"
      "d_submission_manager D' = d_submission_manager D"
    using rm by (auto simp: remove_service_inner_def Let_def split: sum.splits)
  obtain r' L c where l: "lookup_remove_service (we_trigger (de_watcher E)) sid (lookup_of D) (tm_stellar_controllers (d_trigger_manager D)) = (r', L, c)"
    by (metis prod_cases3)
  then have W: "tm_lookup W = L"
    using t by (auto simp: trigger_remove_service_def Let_def split: sum.splits if_splits dest!: send_commands_lookup)
  have inv: "lookup_inv (lookup_of D)" using room by (simp add: room_for_def)
  have "next_lookup_id L = next_lookup_id (lookup_of D)" using inv l by (rule remove_service_next)
  then have "room_for svc D'"
    using room remove_service_inv(1) [OF inv l] by (simp add: room_for_def D' W)
  moreover have "only_service sid a D D'"
    using remove_service_others [OF inv l] D' by (simp add: only_service_def W services_get_def services_try_get_def)
  ultimately show ?thesis by simp
qed

lemma only_managers:
  assumes m: "add_service_to_managers E svc i D = (r, D')" and quiet: "quiet_wait E" and room: "room_for svc D"
  shows "only_service (service_id_of (de_crypto E) svc) (manager_address (manager svc)) D D'"
proof -
  let ?sid = "service_id_of (de_crypto E) svc"
  obtain k M where k: "add_service_key (de_crypto E) (de_keys E) (d_db D) ?sid i (d_submission_manager D) = (k, M)"
    by (cases "add_service_key (de_crypto E) (de_keys E) (d_db D) ?sid i (d_submission_manager D)")
  have "s \<noteq> ?sid \<longrightarrow> get_cloned (sm_signers M) s = key_of D s" for s
    using k by (cases rule: add_service_key_cases) auto
  moreover have "d_submission_manager D' = M" "d_registry D' = d_registry D" "d_db D' = d_db D"
    using m k by (auto simp: add_service_to_managers_def Let_def split: prod.splits sum.splits)
  moreover have "others_kept ?sid (manager_address (manager svc)) (lookup_of D) (lookup_of D')"
    using managers_others(1) [OF m quiet] room by (simp add: room_for_def)
  ultimately show ?thesis by (simp add: only_service_def)
qed

lemma only_and_then:
  assumes "only_service sid a D D1" "\<And>y D2. f D1 = (y, D2) \<Longrightarrow> only_service sid a D1 D2" "and_then (x, D1) f = (z, D')"
  shows "only_service sid a D D'"
  using assms only_service_trans by (auto simp: and_then_def split: sum.splits)

lemma change_service_only:
  assumes change: "change_service_inner E sid svc D = (r, D')" and quiet: "quiet_wait E" and room: "room_for svc D"
  shows "only_service sid (manager_address (manager svc)) D D'"
proof (cases "service_id_of (de_crypto E) svc = sid")
  case False
  then show ?thesis using change by (simp add: change_service_inner_def only_service_refl)
next
  case True
  let ?mgr = "\<lambda>i. add_service_to_managers E svc i" and ?a = "manager_address (manager svc)"
  note save = only_save [of E svc, unfolded True] and mgr = only_managers [of E svc, unfolded True, OF _ quiet]
  have 4: "only_service sid ?a D3 D4" if "and_then (save_service E svc D3) (?mgr i) = (x, D4)" "room_for svc D3" for D3 D4 x i
  proof -
    obtain y D5 where s: "save_service E svc D3 = (y, D5)" by fastforce
    show ?thesis by (rule only_and_then [OF _ mgr that(1) [unfolded s]]) (use save [OF s] that(2) in blast)+
  qed
  have 3: "only_service sid ?a D2 D4"
    if "and_then (remove_service_inner E sid D2) (\<lambda>D3. and_then (save_service E svc D3) (?mgr i)) = (x, D4)" "room_for svc D2" for D2 D4 x i
  proof -
    obtain y D5 where s: "remove_service_inner E sid D2 = (y, D5)" by fastforce
    show ?thesis by (rule only_and_then [OF _ 4 that(1) [unfolded s]]) (use only_remove [OF s that(2)] in blast)+
  qed
  have 2: "only_service sid ?a D1 D4"
    if "and_then (store_components E svc D1) (\<lambda>D2. and_then (remove_service_inner E sid D2)
      (\<lambda>D3. and_then (save_service E svc D3) (?mgr i))) = (x, D4)" "room_for svc D1" for D1 D4 x i
  proof -
    obtain y D5 where s: "store_components E svc D1 = (y, D5)" by fastforce
    show ?thesis by (rule only_and_then [OF _ 3 that(1) [unfolded s]]) (use only_store [OF s] that(2) in blast)+
  qed
  show ?thesis
    using change True 2 [OF _ room] only_service_refl unfolding change_service_inner_def Let_def
    by (auto simp: and_then_def [of "(_, D)"] split: sum.splits if_splits)
qed


lemma demo_trigger_again:
  assumes "trigger_add_service hex_crypto demo_watcher_env id demo_new_service (trigger_manager_new (demo_chains [''ws://a''])) = (Inr (), W)"
  shows "\<exists>W1 W2. trigger_remove_service demo_watcher_env (service_id_of hex_crypto demo_new_service) W = (Inr (), W1) \<and>
    trigger_add_service hex_crypto demo_watcher_env id demo_new_service W1 = (Inr (), W2)"
proof -
  have wc: "workflow_commands cs demo_new_service = []" for cs
    by (simp add: workflow_commands_def demo_new_service_fields)
  have waits: "stellar_chains_to_wait_for cs [] = []" for cs by (simp add: stellar_chains_to_wait_for_def map_filter_def)
  note add = trigger_add_service_def wc waits missing_controller_def Let_def add_service_begin_def add_service_finish_def
        lookup_add_service_def trigger_configs_of_def demo_new_service_fields
        manager_commands_def demo_manager_def lookup_add_trigger_def demo_watcher_env_def demo_trigger_env_def
  have W: "W = snd (trigger_add_service hex_crypto demo_watcher_env id demo_new_service (trigger_manager_new (demo_chains [''ws://a''])))"
    using assms by simp
  show ?thesis unfolding W
    by (simp add: add trigger_manager_new_def lookup_maps_new_def trigger_remove_service_def lookup_remove_service_def 
        workflow_map_def contains_key_def table_new_def)
qed


end
