(* ===== verification/Node.thy ===== *)
theory Node
  imports Dispatcher
begin

text \<open>
  The running node: the threads that \<open>Dispatcher::start\<close> of \<^verbatim>\<open>packages/warpdrive/src/dispatcher.rs\<close> spawns,
  the channels between them and the calls of the administration interface, as one step relation. A
  step is one turn of the watcher, the engine, the submission manager or the dispatcher loop, or one
  call that adds, removes, restores or uploads. The loops spawn tasks, so the relation lets them take
  any waiting message, not only the first. The outcomes of I/O are chosen anew in every step; the
  cryptography and the compiler of components stay the same. The state keeps, besides the dispatcher
  and its inbox, what the watcher ever sent and the past states of the dispatcher.

  The lemmas show that operations on services send nothing to the engine or to the submission manager,
  that the watcher only sends triggers and changes of services, and that every message in flight has a
  cause: a job a fired trigger of a stored active service, a request a job, a submission a request.
\<close>

section \<open>Steps\<close>

record ('em, 'sm, 'c) node =
  nd_dispatcher :: "('em, 'sm, 'c) dispatcher"
  nd_inbox :: "dispatcher_command list"
  nd_watcher_sent :: "dispatcher_command list"
  nd_past :: "('em, 'sm, 'c) dispatcher list"

text \<open>A watcher that starts its turn with nothing sent.\<close>

definition flushed :: "('em, 'sm, 'c) dispatcher \<Rightarrow> ('em, 'sm) trigger_manager" where
  "flushed D = (d_trigger_manager D)\<lparr>tm_dispatcher_tx := []\<rparr>"

definition after_watcher :: "('em, 'sm, 'c) node \<Rightarrow> ('em, 'sm) trigger_manager \<Rightarrow> ('em, 'sm, 'c) node" where
  "after_watcher S W =
     (let D = (nd_dispatcher S)\<lparr>d_trigger_manager := W\<rparr>
      in S\<lparr>nd_dispatcher := D, nd_inbox := nd_inbox S @ tm_dispatcher_tx W,
           nd_watcher_sent := nd_watcher_sent S @ tm_dispatcher_tx W, nd_past := D # nd_past S\<rparr>)"

definition after_turn ::
  "('em, 'sm, 'c) node \<Rightarrow> dispatcher_command list \<Rightarrow> ('em, 'sm, 'c) dispatcher \<Rightarrow> ('em, 'sm, 'c) node" where
  "after_turn S inbox D = S\<lparr>nd_dispatcher := D, nd_inbox := inbox, nd_past := D # nd_past S\<rparr>"

text \<open>The environments of one run.\<close>

definition runs_with :: "crypto \<Rightarrow> (bytes \<Rightarrow> string + 'w) \<Rightarrow> ('em, 'sm, 'w, 'c) dispatcher_env \<Rightarrow> bool" where
  "runs_with C cm E = (de_crypto E = C \<and> ee_compile (de_engine E) = cm)"

inductive node_step :: "crypto \<Rightarrow> (bytes \<Rightarrow> string + 'w) \<Rightarrow> ('em, 'sm, 'c) node \<Rightarrow> ('em, 'sm, 'c) node \<Rightarrow> bool"
  for C :: crypto and cm :: "bytes \<Rightarrow> string + 'w" and S :: "('em, 'sm, 'c) node" where
  ns_command: "tm_running (d_trigger_manager (nd_dispatcher S)) \<Longrightarrow>
    node_step C cm S (after_watcher S (command_turn (WE :: ('em, 'sm) watcher_env) (outc :: start_outcomes) (flushed (nd_dispatcher S))))"
| ns_event: "tm_running (d_trigger_manager (nd_dispatcher S)) \<Longrightarrow>
    node_step C cm S (after_watcher S
      (event_turn (WE :: ('em, 'sm) watcher_env) (d_db (nd_dispatcher S)) item (flushed (nd_dispatcher S))))"
| ns_dispatch: "nd_inbox S = early @ cmd # rest \<Longrightarrow> runs_with C cm (E :: ('em, 'sm, 'w, 'c) dispatcher_env) \<Longrightarrow>
    node_step C cm S (after_turn S (early @ rest) (dispatcher_turn E cmd (nd_dispatcher S)))"
| ns_engine: "d_engine_tx (nd_dispatcher S) = early @ cmd # rest \<Longrightarrow> ee_compile (EE :: ('w, 'c) engine_env) = cm \<Longrightarrow>
    engine_turn C EE (d_db (nd_dispatcher S)) cmd (d_engine (nd_dispatcher S)) = Some (go, sent, B) \<Longrightarrow>
    node_step C cm S (after_turn S (nd_inbox S @ sent) ((nd_dispatcher S)\<lparr>d_engine_tx := early @ rest, d_engine := B\<rparr>))"
| ns_submit: "d_submission_tx (nd_dispatcher S) = early @ SC_Submit m # rest \<Longrightarrow>
    handle_submit C (d_db (nd_dispatcher S)) (d_submission_manager (nd_dispatcher S)) m = reply \<Longrightarrow>
    node_step C cm S (after_turn S (nd_inbox S @ (case reply of None \<Rightarrow> [] | Some s \<Rightarrow> [DC_SubmissionResponse s]))
      ((nd_dispatcher S)\<lparr>d_submission_tx := early @ rest\<rparr>))"
| ns_kill: "node_step C cm S (after_turn S (nd_inbox S) (kill_subsystems (nd_dispatcher S)))"
| ns_aggregator: "node_step C cm S (after_turn S (nd_inbox S @ [DC_AggregatorExecute s svc kind]) (nd_dispatcher S))"
| ns_add: "runs_with C cm (E :: ('em, 'sm, 'w, 'c) dispatcher_env) \<Longrightarrow>
    add_service E sm (nd_dispatcher S) = Some (a, D) \<Longrightarrow> node_step C cm S (after_turn S (nd_inbox S) D)"
| ns_register: "runs_with C cm (E :: ('em, 'sm, 'w, 'c) dispatcher_env) \<Longrightarrow>
    register_and_add_service E svc (nd_dispatcher S) = (r, D) \<Longrightarrow> node_step C cm S (after_turn S (nd_inbox S) D)"
| ns_remove: "runs_with C cm (E :: ('em, 'sm, 'w, 'c) dispatcher_env) \<Longrightarrow>
    remove_service E sid (nd_dispatcher S) = (r, D) \<Longrightarrow> node_step C cm S (after_turn S (nd_inbox S) D)"
| ns_start: "runs_with C cm (E :: ('em, 'sm, 'w, 'c) dispatcher_env) \<Longrightarrow>
    dispatcher_start E answers check_order (nd_dispatcher S) = Some (r, D) \<Longrightarrow> node_step C cm S (after_turn S (nd_inbox S) D)"
| ns_upload: "runs_with C cm (E :: ('em, 'sm, 'w, 'c) dispatcher_env) \<Longrightarrow>
    dispatcher_store_component_bytes E bs (nd_dispatcher S) = (u, D) \<Longrightarrow> node_step C cm S (after_turn S (nd_inbox S) D)"

lemma after_turn_simps [simp]:
  "nd_dispatcher (after_turn S q D) = D" "nd_inbox (after_turn S q D) = q"
  "nd_watcher_sent (after_turn S q D) = nd_watcher_sent S" "nd_past (after_turn S q D) = D # nd_past S"
  by (simp_all add: after_turn_def)

lemma after_watcher_simps [simp]:
  "nd_dispatcher (after_watcher S W) = (nd_dispatcher S)\<lparr>d_trigger_manager := W\<rparr>"
  "nd_inbox (after_watcher S W) = nd_inbox S @ tm_dispatcher_tx W"
  "nd_watcher_sent (after_watcher S W) = nd_watcher_sent S @ tm_dispatcher_tx W"
  "nd_past (after_watcher S W) = (nd_dispatcher S)\<lparr>d_trigger_manager := W\<rparr> # nd_past S"
  by (simp_all add: after_watcher_def Let_def)

section \<open>What the operations keep\<close>

text \<open>Services are stored under their own ids, and every key is kept with its own address.\<close>

definition node_ok :: "crypto \<Rightarrow> ('em, 'sm, 'c) dispatcher \<Rightarrow> bool" where
  "node_ok C D =
     ((\<forall>sid svc. services_get (d_db D) sid = Inr svc \<longrightarrow> service_id_of C svc = sid) \<and>
      (\<forall>sid info. key_of D sid = Some info \<longrightarrow> si_address info = signer_own_address C (si_signer info)))"

definition broadcasts :: "('em, 'sm, 'c) dispatcher \<Rightarrow> submission set" where
  "broadcasts D = {s. AC_Broadcast s \<in> set (d_aggregator_tx D)}"

text \<open>An operation on services: it sends nothing to the engine or the submission manager and broadcasts
  nothing.\<close>

definition quiet :: "crypto \<Rightarrow> ('em, 'sm, 'c) dispatcher \<Rightarrow> ('em, 'sm, 'c) dispatcher \<Rightarrow> bool" where
  "quiet C D D' =
     ((node_ok C D \<longrightarrow> node_ok C D') \<and> same_limits (d_engine D) (d_engine D') \<and> d_engine_tx D' = d_engine_tx D \<and>
      d_submission_tx D' = d_submission_tx D \<and> broadcasts D' = broadcasts D)"

lemma quiet_refl [simp]: "quiet C D D"
  by (simp add: quiet_def same_limits_def)

lemma quiet_trans: "quiet C D D1 \<Longrightarrow> quiet C D1 D2 \<Longrightarrow> quiet C D D2"
  by (auto simp: quiet_def same_limits_def)

lemma quiet_fields:
  "quiet C D (D\<lparr>d_registry := r\<rparr>)" "quiet C D (D\<lparr>d_evm_http_providers := p\<rparr>)" "quiet C D (D\<lparr>d_cosmos_query_clients := q\<rparr>)"
  by (simp_all add: quiet_def node_ok_def same_limits_def broadcasts_def)

lemma quiet_and_then:
  assumes "and_then r f = (z, D')" "\<And>x D1. r = (x, D1) \<Longrightarrow> quiet C D D1" "\<And>y D1 D2. f D1 = (y, D2) \<Longrightarrow> quiet C D1 D2"
  shows "quiet C D D'"
  using assms by (cases r) (auto simp: and_then_def intro: quiet_trans split: sum.splits)

lemma load_component_from_source_limits: "load_component_from_source C E src B = (r, B') \<Longrightarrow> same_limits B B'"
  using load_component_limits [of C E "source_digest src" B]
  by (auto simp: load_component_from_source_def same_limits_def Let_def split: prod.splits sum.splits if_splits)

lemma store_sources_limits: "store_sources C E ss B = (r, B') \<Longrightarrow> same_limits B B'"
proof (induction ss arbitrary: B)
  case (Cons s ss)
  obtain r1 B1 where s: "store_component_from_source C E s B = (r1, B1)" by (cases "store_component_from_source C E s B")
  have "same_limits B B1"
    using s load_component_from_source_limits [of C E s B]
    by (auto simp: store_component_from_source_def same_limits_def split: sum.splits bool.splits component_source.splits prod.splits)
  then show ?case using Cons s by (fastforce simp: same_limits_def split: sum.splits)
qed (simp add: same_limits_def)

lemma quiet_store: "de_crypto E = C \<Longrightarrow> store_components E svc D = (r, D') \<Longrightarrow> quiet C D D'"
  by (auto simp: quiet_def node_ok_def broadcasts_def store_components_def store_components_for_service_def
      split: prod.splits dest: store_sources_limits)

lemma quiet_save:
  assumes "de_crypto E = C" "save_service E svc D = (r, D')"
  shows "quiet C D D'"
proof -
  obtain db where "D' = D\<lparr>d_db := db\<rparr>" "db_services db = table_insert (service_id_of C svc) svc (db_services (d_db D))"
    using save_service_frame [OF assms(2)] assms(1) by blast
  then show ?thesis
    by (auto simp: quiet_def node_ok_def broadcasts_def same_limits_def services_get_Inr_iff split: if_splits)
qed

lemma quiet_managers:
  assumes "de_crypto E = C" "add_service_to_managers E svc i D = (r, D')"
  shows "quiet C D D'"
proof -
  let ?sid = "service_id_of (de_crypto E) svc"
  obtain k M where k: "add_service_key C (de_keys E) (d_db D) ?sid i (d_submission_manager D) = (k, M)"
    by (cases "add_service_key C (de_keys E) (d_db D) ?sid i (d_submission_manager D)")
  have "si_address info = signer_own_address C (si_signer info)" if "node_ok C D" "get_cloned (sm_signers M) sid = Some info" for sid info
    using k that by (cases rule: add_service_key_cases) (auto simp: node_ok_def split: if_splits)
  then show ?thesis using assms k
    by (auto simp: quiet_def node_ok_def broadcasts_def same_limits_def add_service_to_managers_def Let_def
        split: prod.splits sum.splits)
qed

lemma quiet_remove:
  assumes "de_crypto E = C" "remove_service_inner E sid D = (r, D')"
  shows "quiet C D D'"
proof -
  have "d_db D' = services_remove sid (d_db D)" using remove_service_inner_db [of E sid D] assms(2) by simp
  then have "services_get (d_db D') s = Inr svc \<Longrightarrow> services_get (d_db D) s = Inr svc" for s svc
    by (auto simp: services_get_Inr_iff split: if_splits)
  then show ?thesis using assms
    by (auto simp: quiet_def node_ok_def broadcasts_def same_limits_def remove_service_inner_def remove_storage_def Let_def
        split: prod.splits sum.splits if_splits)
qed

lemma quiet_direct:
  assumes "de_crypto E = C" "add_service_direct E svc i D = (r, D')"
  shows "quiet C D D'"
proof (cases "services_exists (d_db D) (service_id_of C svc)")
  case True
  then show ?thesis using assms by (simp add: add_service_direct_def Let_def)
next
  case False
  then have "and_then (store_components E svc D) (\<lambda>D1. and_then (save_service E svc D1) (add_service_to_managers E svc i)) = (r, D')"
    using assms by (simp add: add_service_direct_def Let_def)
  then show ?thesis
    by (rule quiet_and_then) (auto intro: quiet_store quiet_save quiet_managers assms(1) elim!: quiet_and_then)
qed

lemma quiet_register:
  assumes "de_crypto E = C" "register_and_add_service E svc D = (r, D')"
  shows "quiet C D D'"
proof -
  obtain a g where a: "registry_append (de_append_io E) (manager svc) (d_registry D) = (a, g)"
    by (cases "registry_append (de_append_io E) (manager svc) (d_registry D)")
  show ?thesis
  proof (cases a)
    case (Inl e)
    then show ?thesis using assms a by (auto simp: register_and_add_service_def quiet_fields)
  next
    case (Inr i)
    obtain r1 D1 where d: "add_service_direct E svc (Some i) (D\<lparr>d_registry := g\<rparr>) = (r1, D1)"
      by (cases "add_service_direct E svc (Some i) (D\<lparr>d_registry := g\<rparr>)")
    have "quiet C D D1" using quiet_direct [OF assms(1) d] quiet_fields(1) quiet_trans by blast
    moreover have "D' = D1\<lparr>d_registry := snd (registry_remove (de_remove_io E) (manager svc) (d_registry D1))\<rparr> \<or> D' = D1"
      using assms(2) a d Inr by (auto simp: register_and_add_service_def split: sum.splits)
    ultimately show ?thesis using quiet_fields(1) quiet_trans by metis
  qed
qed

lemma quiet_query:
  assumes "query_service_from_address E sm D = Some (r, D')"
  shows "quiet C D D'"
proof -
  have p: "evm_provider E chain cfg D = Some (q, D1) \<Longrightarrow> quiet C D D1" for chain cfg q D1
    by (auto simp: evm_provider_def quiet_fields split: option.splits if_splits)
  have c: "cosmos_query_client E chain cfg D = (q, D1) \<Longrightarrow> quiet C D D1" for chain cfg q D1
    by (auto simp: cosmos_query_client_def quiet_fields split: option.splits sum.splits)
  show ?thesis using assms
    by (auto simp: query_service_from_address_def Let_def dest: p c
        split: service_manager.splits option.splits any_chain_config.splits prod.splits sum.splits)
qed

lemma quiet_add:
  assumes "de_crypto E = C" "add_service E sm D = Some (r, D')"
  shows "quiet C D D'"
proof -
  obtain q D1 where q: "query_service_from_address E sm D = Some (q, D1)"
    using assms(2) by (auto simp: add_service_def split: option.splits)
  show ?thesis
    using assms(2) q quiet_query [OF q, of C] quiet_register [OF assms(1), of _ D1]
    by (auto simp: add_service_def intro: quiet_trans split: sum.splits prod.splits)
qed

lemma quiet_remove_service:
  assumes "de_crypto E = C" "remove_service E sid D = (r, D')"
  shows "quiet C D D'"
proof (cases "registered_manager E sid D")
  case None
  then show ?thesis using assms quiet_remove by (simp add: remove_service_def)
next
  case (Some sm)
  obtain q g where g: "registry_remove (de_remove_io E) sm (d_registry D) = (q, g)"
    by (cases "registry_remove (de_remove_io E) sm (d_registry D)")
  have "D' = D\<lparr>d_registry := g\<rparr> \<or> remove_service_inner E sid (D\<lparr>d_registry := g\<rparr>) = (r, D')"
    using assms(2) Some g by (auto simp: remove_service_def split: sum.splits)
  then show ?thesis using quiet_remove [OF assms(1)] quiet_fields(1) quiet_trans by metis
qed

lemma quiet_change:
  assumes "de_crypto E = C" "change_service_inner E sid svc D = (r, D')"
  shows "quiet C D D'"
proof (cases "\<exists>signer. dispatcher_get_service_signer E sid D = Inr signer")
  case False
  then show ?thesis using assms(2) by (auto simp: change_service_inner_def split: sum.splits if_splits)
next
  case True
  then obtain signer where s: "dispatcher_get_service_signer E sid D = Inr signer" by blast
  let ?rest = "and_then (store_components E svc D) (\<lambda>D1. and_then (remove_service_inner E sid D1)
    (\<lambda>D2. and_then (save_service E svc D2) (add_service_to_managers E svc (Some (signer_hd_index signer)))))"
  have "quiet C D D2" if "?rest = (y, D2)" for y D2
    using that by (rule quiet_and_then) (auto intro: quiet_store quiet_save quiet_managers quiet_remove assms(1) elim!: quiet_and_then)
  moreover have "D' = D \<or> ?rest = (r, D')"
    using assms(2) s by (auto simp: change_service_inner_def Let_def and_then_def [of "(_, D)"] split: sum.splits if_splits)
  ultimately show ?thesis by auto
qed

lemma quiet_restore_one:
  assumes "de_crypto E = C" "restore_one E entry svc D = (r, D')"
  shows "quiet C D D'"
  using assms(2) unfolding restore_one_def Let_def
  by (rule quiet_and_then)
    (auto intro: quiet_store [OF assms(1)] quiet_save [OF assms(1)] quiet_managers [OF assms(1)]
      elim!: quiet_and_then split: if_splits)

lemma quiet_restore:
  assumes "de_crypto E = C" "restore_services E fetched D = (r, D')"
  shows "quiet C D D'"
  using assms
proof (induction E fetched D arbitrary: r D' rule: restore_services.induct)
  case (1 E D)
  then show ?case by simp
next
  case (2 E entry e rest D)
  let ?D = "if is_genuine_stale e
        then D\<lparr>d_registry := snd (registry_remove (de_remove_io E) (re_service_manager entry) (d_registry D))\<rparr> else D"
  have "restore_services E rest ?D = (r, D')" using 2 by simp
  from 2(1) [OF 2(2) this] show ?case by (rule quiet_trans [rotated]) (simp add: quiet_fields)
next
  case (3 E entry svc rest D)
  have "and_then (restore_one E entry svc D) (\<lambda>D1.
     apfst (\<lambda>r. rbind r (\<lambda>svcs. Inr (svc # svcs))) (restore_services E rest D1)) = (r, D')" using 3 by simp
  then show ?case
    by (rule quiet_and_then) (use 3 in \<open>auto intro: quiet_restore_one simp: apfst_def map_prod_def split: prod.splits\<close>)
qed

lemma quiet_query_entries: "query_entries E es D = Some (fs, D') \<Longrightarrow> quiet C D D'"
  by (induction E es D arbitrary: fs D' rule: query_entries.induct)
    (auto dest: quiet_query intro: quiet_trans split: option.splits)

lemma quiet_check_services: "check_services E es D = Some (fs, D') \<Longrightarrow> quiet C D D'"
  by (induction E es D arbitrary: fs D' rule: check_services.induct)
    (auto simp: check_service_needs_update_def dest: quiet_query intro: quiet_trans split: option.splits sum.splits)

lemma quiet_apply_updates: "de_crypto E = C \<Longrightarrow> quiet C D (apply_updates E rs D)"
  by (induction E rs D rule: apply_updates.induct) (auto intro: quiet_trans quiet_change prod.collapse [symmetric])

lemma quiet_start:
  assumes "de_crypto E = C" "dispatcher_start E answers check_order D = Some (r, D')"
  shows "quiet C D D'"
proof -
  obtain fs D1 where q: "query_entries E answers D = Some (fs, D1)"
    using assms(2) by (auto simp: dispatcher_start_def split: option.splits)
  obtain x D2 where s: "restore_services E fs D1 = (x, D2)" by (cases "restore_services E fs D1")
  note 1 = quiet_trans [OF quiet_query_entries [OF q] quiet_restore [OF assms(1) s]]
  have "D' = D2 \<or> (\<exists>rs os D3. check_services E os D2 = Some (rs, D3) \<and> D' = apply_updates E rs D3)"
    using assms(2) q s by (auto simp: dispatcher_start_def split: sum.splits)
  then show ?thesis
    using 1 quiet_trans quiet_check_services quiet_apply_updates [OF assms(1)] by metis
qed

lemma quiet_upload:
  "de_crypto E = C \<Longrightarrow> dispatcher_store_component_bytes E bs D = (r, D') \<Longrightarrow> quiet C D D'"
  by (auto simp: quiet_def node_ok_def broadcasts_def same_limits_def dispatcher_store_component_bytes_def
      store_component_bytes_def base_store_component_bytes_def apfst_def map_prod_def split: prod.splits sum.splits)

section \<open>Messages in flight\<close>

inductive node_reachable :: "crypto \<Rightarrow> (bytes \<Rightarrow> string + 'w) \<Rightarrow> ('em, 'sm, 'c) node \<Rightarrow> bool"
  for C :: crypto and cm :: "bytes \<Rightarrow> string + 'w" where
  nr_init: "node_ok C D \<Longrightarrow> d_engine_tx D = [] \<Longrightarrow> d_submission_tx D = [] \<Longrightarrow> d_aggregator_tx D = [] \<Longrightarrow>
    node_reachable C cm \<lparr>nd_dispatcher = D, nd_inbox = [], nd_watcher_sent = [], nd_past = [D]\<rparr>"
| nr_step: "node_reachable C cm S \<Longrightarrow> node_step C cm S S' \<Longrightarrow> node_reachable C cm S'"

text \<open>A trigger that the watcher sent, for a service that was stored under its id and active; a request within
  the limits for such a trigger, and for a workflow that submits; a submission made from such a request
  and signed with the key the service had while it was active.\<close>

definition accepted :: "crypto \<Rightarrow> ('em, 'sm, 'c) node \<Rightarrow> trigger_action \<Rightarrow> service \<Rightarrow> bool" where
  "accepted C S a svc =
     (DC_Trigger a \<in> set (nd_watcher_sent S) \<and> service_id_of C svc = tc_service_id (ta_config a) \<and>
      (\<exists>D\<in>set (nd_past S). services_get (d_db D) (tc_service_id (ta_config a)) = Inr svc \<and>
         services_is_active (d_db D) (tc_service_id (ta_config a))))"

definition in_limits :: "'c wasm_engine \<Rightarrow> wasm_response \<Rightarrow> bool" where
  "in_limits B r =
     (length (payload r) \<le> we_max_payload_size B \<and>
      (\<forall>salt. event_id_salt r = Some salt \<longrightarrow> length salt \<le> we_max_salt_size B))"

definition admissible :: "crypto \<Rightarrow> ('em, 'sm, 'c) node \<Rightarrow> submission_request \<Rightarrow> bool" where
  "admissible C S m =
     (accepted C S (req_trigger_action m) (req_service m) \<and> in_limits (d_engine (nd_dispatcher S)) (req_operator_response m))"

definition to_submit :: "submission_request \<Rightarrow> bool" where
  "to_submit m =
     (\<exists>w. map_of (workflows (req_service m)) (tc_workflow_id (ta_config (req_trigger_action m))) = Some w \<and> wf_submit w \<noteq> SubmitNone)"

definition vouched :: "crypto \<Rightarrow> ('em, 'sm, 'c) node \<Rightarrow> submission \<Rightarrow> bool" where
  "vouched C S s =
     (\<exists>m info D. admissible C S m \<and> to_submit m \<and> sub_trigger_action s = req_trigger_action m \<and>
        sub_operator_response s = req_operator_response m \<and> req_event_id C m = Inr (sub_event_id s) \<and>
        build_envelope C m (sub_event_id s) = Inr (sub_envelope s) \<and> D \<in> set (nd_past S) \<and>
        services_is_active (d_db D) (req_service_id m) \<and> key_of D (req_service_id m) = Some info \<and>
        signer_address C (sub_envelope_signature s) (sub_envelope s) = Inr (si_address info))"

fun command_ok :: "crypto \<Rightarrow> ('em, 'sm, 'c) node \<Rightarrow> dispatcher_command \<Rightarrow> bool" where
  "command_ok C S (DC_Trigger a) = (DC_Trigger a \<in> set (nd_watcher_sent S))"
| "command_ok C S (DC_EngineResponse (ER_Vector m)) = admissible C S m"
| "command_ok C S (DC_SubmissionResponse s) = vouched C S s"
| "command_ok C S _ = True"

fun job_ok :: "crypto \<Rightarrow> ('em, 'sm, 'c) node \<Rightarrow> engine_command \<Rightarrow> bool" where
  "job_ok C S (EC_ExecuteOperator a svc) = accepted C S a svc"
| "job_ok C S _ = True"

fun request_ok :: "crypto \<Rightarrow> ('em, 'sm, 'c) node \<Rightarrow> submission_command \<Rightarrow> bool" where
  "request_ok C S (SC_Submit m) = (admissible C S m \<and> to_submit m)"
| "request_ok C S _ = True"

definition node_inv :: "crypto \<Rightarrow> ('em, 'sm, 'c) node \<Rightarrow> bool" where
  "node_inv C S =
     (node_ok C (nd_dispatcher S) \<and> nd_dispatcher S \<in> set (nd_past S) \<and>
      list_all (command_ok C S) (nd_inbox S) \<and> list_all (job_ok C S) (d_engine_tx (nd_dispatcher S)) \<and>
      list_all (request_ok C S) (d_submission_tx (nd_dispatcher S)) \<and> (\<forall>s\<in>broadcasts (nd_dispatcher S). vouched C S s))"

text \<open>What is known about a message stays true.\<close>

definition later :: "('em, 'sm, 'c) node \<Rightarrow> ('em, 'sm, 'c) node \<Rightarrow> bool" where
  "later S S' =
     (set (nd_watcher_sent S) \<subseteq> set (nd_watcher_sent S') \<and> set (nd_past S) \<subseteq> set (nd_past S') \<and>
      same_limits (d_engine (nd_dispatcher S)) (d_engine (nd_dispatcher S')))"

lemma later_accepted: "later S S' \<Longrightarrow> accepted C S a svc \<Longrightarrow> accepted C S' a svc"
  by (auto simp: later_def accepted_def)

lemma later_admissible: "later S S' \<Longrightarrow> admissible C S m \<Longrightarrow> admissible C S' m"
  by (auto simp: admissible_def in_limits_def dest: later_accepted) (auto simp: later_def same_limits_def)

lemma later_sent: "later S S' \<Longrightarrow> c \<in> set (nd_watcher_sent S) \<Longrightarrow> c \<in> set (nd_watcher_sent S')"
  by (auto simp: later_def)

lemma later_past: "later S S' \<Longrightarrow> D \<in> set (nd_past S) \<Longrightarrow> D \<in> set (nd_past S')"
  by (auto simp: later_def)

lemma later_vouched: "later S S' \<Longrightarrow> vouched C S s \<Longrightarrow> vouched C S' s"
  unfolding vouched_def by (elim exE conjE, intro exI conjI) (assumption | rule later_admissible later_past)+

lemma later_command: "later S S' \<Longrightarrow> command_ok C S c \<Longrightarrow> command_ok C S' c"
  by (cases "(C, S, c)" rule: command_ok.cases) (auto dest: later_admissible later_vouched later_sent)

lemma later_job: "later S S' \<Longrightarrow> job_ok C S c \<Longrightarrow> job_ok C S' c"
  by (cases c) (auto dest: later_accepted)

lemma later_request: "later S S' \<Longrightarrow> request_ok C S c \<Longrightarrow> request_ok C S' c"
  by (cases c) (auto dest: later_admissible)

text \<open>A step keeps the invariant if what it adds to the channels is in order.\<close>

lemma node_inv_step:
  assumes inv: "node_inv C S" and l: "later S S'" and ok: "node_ok C (nd_dispatcher S')" "nd_dispatcher S' \<in> set (nd_past S')"
    and inbox: "\<And>c. c \<in> set (nd_inbox S') \<Longrightarrow> c \<in> set (nd_inbox S) \<or> command_ok C S' c"
    and jobs: "\<And>c. c \<in> set (d_engine_tx (nd_dispatcher S')) \<Longrightarrow> c \<in> set (d_engine_tx (nd_dispatcher S)) \<or> job_ok C S' c"
    and reqs: "\<And>c. c \<in> set (d_submission_tx (nd_dispatcher S')) \<Longrightarrow> c \<in> set (d_submission_tx (nd_dispatcher S)) \<or> request_ok C S' c"
    and sent: "\<And>s. s \<in> broadcasts (nd_dispatcher S') \<Longrightarrow> s \<in> broadcasts (nd_dispatcher S) \<or> vouched C S' s"
  shows "node_inv C S'"
  using inv ok inbox jobs reqs sent later_command [OF l] later_job [OF l] later_request [OF l] later_vouched [OF l]
  unfolding node_inv_def list_all_iff by meson

lemma node_inv_quiet:
  assumes "node_inv C S" "quiet C (nd_dispatcher S) D"
  shows "node_inv C (after_turn S (nd_inbox S) D)"
  by (rule node_inv_step [OF assms(1)]) (use assms in \<open>auto simp: later_def quiet_def node_inv_def\<close>)

subsection \<open>The watcher\<close>

fun watcher_command :: "dispatcher_command \<Rightarrow> bool" where
  "watcher_command (DC_Trigger _) = True"
| "watcher_command (DC_ChangeServiceUri _ _) = True"
| "watcher_command _ = False"

lemma watcher_trigger_commands: "c \<in> set (trigger_commands db L ids d) \<Longrightarrow> watcher_command c"
  by (auto simp: trigger_commands_def)

lemma watcher_evm_uri: "evm_uri_commands X L lg h = Inr cmds \<Longrightarrow> c \<in> set cmds \<Longrightarrow> watcher_command c"
  by (auto simp: evm_uri_commands_def rbind_Inr_iff split: option.splits sum.splits if_splits)

lemma watcher_evm: "handle_evm X db L e = Inr cmds \<Longrightarrow> c \<in> set cmds \<Longrightarrow> watcher_command c"
  by (cases "lg_topics (et_log e)")
    (auto simp: handle_evm_def rbind_Inr_iff dest: watcher_evm_uri watcher_trigger_commands split: option.splits)

lemma watcher_all_triggers: "list_all watcher_command (trigger_commands db L ids d)"
  by (simp add: list_all_iff watcher_trigger_commands)

lemma watcher_stellar: "list_all watcher_command (handle_stellar X db L e ids)"
  by (simp add: handle_stellar_def stellar_uri_commands_def watcher_all_triggers split: option.split sum.split)

lemma watcher_blocks: "c \<in> set (fst (process_blocks db chain h L)) \<Longrightarrow> watcher_command c"
  by (cases "nonzero_new h") (auto simp: process_blocks_def Let_def case_prod_beta watcher_trigger_commands split: if_splits)

lemma watcher_cosmos_event: "list_all watcher_command (cosmos_event_commands X db L chain h ce)"
  by (simp add: cosmos_event_commands_def Let_def watcher_all_triggers split: option.split)

lemma watcher_event:
  assumes "handle_event X db item L = (Inr cmds, L')" "c \<in> set cmds"
  shows "watcher_command c"
proof (cases item)
  case (ST_Evm e)
  then show ?thesis using assms watcher_evm [of X db L e cmds c] by auto
next
  case (ST_StellarEvent e ids)
  then show ?thesis using assms watcher_stellar [of X db L e ids] by (auto simp: list_all_iff)
next
  case (ST_Cosmos chain events h)
  then show ?thesis
    using assms watcher_cosmos_event [of X db L chain h] watcher_blocks [of c db chain h L]
    by (auto simp: handle_cosmos_def map_prod_def list_all_iff split: prod.splits)
next
  case (ST_EvmBlock chain h)
  then show ?thesis using assms watcher_blocks [of c db chain h L] by (auto simp: map_prod_def split: prod.splits)
next
  case (ST_StellarLedgerSequence chain l)
  then show ?thesis using assms watcher_blocks [of c db chain "ucast l" L] by (auto simp: map_prod_def split: prod.splits)
next
  case (ST_Cron hits)
  then show ?thesis using assms by (auto simp: handle_cron_def map_filter_def)
next
  case (ST_AtProto e)
  then show ?thesis using assms by (auto simp: handle_atproto_def Let_def watcher_trigger_commands split: if_splits)
next
  case (ST_LocalCommand x)
  then show ?thesis using assms by simp
qed

lemma watcher_handle_command:
  "handle_command WE outc cmd W = (r, W') \<Longrightarrow>
   tm_dispatcher_tx W' = tm_dispatcher_tx W \<and> (\<forall>b cmds. r = Inr (b, cmds) \<longrightarrow> (\<forall>c\<in>set cmds. watcher_command c))"
  by (cases cmd) (auto simp: start_listening_cron_def start_listening_atproto_def start_listening_chain_def start_chain_stream_def
      set_chain_state_def watch_evm_contract_events_def watch_evm_blocks_def watch_stellar_blocks_def
      watch_stellar_service_uri_def unwatch_stellar_service_uri_def Let_def
      split: stream_start_state.splits option.splits sum.splits prod.splits if_splits any_chain_config.splits)

lemma watcher_command_turn:
  assumes "tm_dispatcher_tx W = []"
  shows "\<forall>c\<in>set (tm_dispatcher_tx (command_turn WE outc W)). watcher_command c"
proof (cases "tm_commands W")
  case Nil
  then show ?thesis using assms by (simp add: command_turn_def)
next
  case (Cons c cs)
  obtain r W1 where h: "handle_command WE outc c (W\<lparr>tm_commands := cs\<rparr>) = (r, W1)"
    by (cases "handle_command WE outc c (W\<lparr>tm_commands := cs\<rparr>)")
  show ?thesis using watcher_handle_command [OF h] assms Cons h
    by (auto simp: command_turn_def finish_turn_def split: sum.splits prod.splits loop_control.splits)
qed

lemma watcher_event_turn:
  assumes "tm_dispatcher_tx W = []"
  shows "\<forall>c\<in>set (tm_dispatcher_tx (event_turn WE db item W)). watcher_command c"
  using assms watcher_event [of "we_decoders WE" db item "tm_lookup W"]
  by (auto simp: event_turn_def finish_turn_def split: sum.splits prod.splits)

lemma node_inv_watcher:
  assumes "node_inv C S" "\<forall>c\<in>set (tm_dispatcher_tx W). watcher_command c"
  shows "node_inv C (after_watcher S W)"
proof -
  let ?S = "after_watcher S W"
  have "command_ok C ?S c" if "c \<in> set (tm_dispatcher_tx W)" for c
    using assms(2) that by (cases c) auto
  then show ?thesis
    by (intro node_inv_step [OF assms(1)])
      (use assms(1) in \<open>auto simp: later_def same_limits_def node_inv_def node_ok_def broadcasts_def\<close>)
qed

subsection \<open>The other parts\<close>

lemma load_then_build_limits:
  assumes "load_component C E d B = (r1, B1)"
    and "instance_build C E code svc wid data lg dir B1 = Some (r2, B') \<or> B' = B1"
  shows "same_limits B B'"
  using load_component_limits [OF assms(1)] assms(2) instance_build_frame [of C E code svc wid data lg dir B1]
  by (fastforce simp: same_limits_def)

lemma execute_operator_limits:
  "execute_operator_component C E svc trig B = Some (r, B') \<Longrightarrow> same_limits B B'"
  by (auto simp: execute_operator_component_def Let_def split: option.splits prod.splits sum.splits
      intro: load_then_build_limits) (simp add: same_limits_def)

lemma get_aggregator_deps_limits:
  "get_aggregator_deps C E svc trig eid B = Some (r, B') \<Longrightarrow> same_limits B B'"
  by (auto simp: get_aggregator_deps_def Let_def split: option.splits prod.splits sum.splits submit.splits
      intro: load_then_build_limits) (simp_all add: same_limits_def)

lemma engine_turn_limits:
  assumes t: "engine_turn C EE db cmd B = Some (go, out', B')"
  shows "same_limits B B'"
proof (cases cmd)
  case EC_Kill
  then show ?thesis using t by (simp add: engine_turn_def same_limits_def)
next
  case (EC_ExecuteOperator trig svc)
  then obtain r where "run_trigger C EE db trig svc B = Some (r, B')"
    using t by (auto simp: engine_turn_def split: option.splits sum.splits)
  then show ?thesis using execute_operator_limits [of C EE svc trig B _ B']
    by (auto simp: run_trigger_def Let_def same_limits_def split: if_splits option.splits prod.splits)
next
  case (EC_ExecuteAggregator s svc kind)
  then obtain r where "run_aggregator C EE s svc kind B = Some (r, B')"
    using t by (auto simp: engine_turn_def split: option.splits sum.splits)
  then obtain y where "get_aggregator_deps C EE svc (sub_trigger_action s) (sub_event_id s) B = Some (y, B')"
    by (cases kind) (auto simp: run_aggregator_def Let_def execute_aggregator_component_def
        execute_aggregator_component_timer_callback_def execute_aggregator_component_submit_callback_def
        dest!: with_aggregator_deps_state)
  then show ?thesis by (rule get_aggregator_deps_limits)
qed

lemma node_inv_engine:
  assumes inv: "node_inv C S" and tx: "d_engine_tx (nd_dispatcher S) = early @ cmd # rest"
    and t: "engine_turn C EE (d_db (nd_dispatcher S)) cmd (d_engine (nd_dispatcher S)) = Some (go, sent, B)"
  shows "node_inv C (after_turn S (nd_inbox S @ sent) ((nd_dispatcher S)\<lparr>d_engine_tx := early @ rest, d_engine := B\<rparr>))"
    (is "node_inv C ?S")
proof -
  have lim: "same_limits (d_engine (nd_dispatcher S)) B" by (rule engine_turn_limits [OF t])
  then have l: "later S ?S" by (auto simp: later_def)
  have "command_ok C ?S c" if c: "c \<in> set sent" for c
  proof (cases cmd)
    case (EC_ExecuteOperator a svc)
    then obtain reqs where r: "run_trigger C EE (d_db (nd_dispatcher S)) a svc (d_engine (nd_dispatcher S)) = Some (Inr reqs, B)"
      and s: "sent = map (\<lambda>m. DC_EngineResponse (ER_Vector m)) reqs"
      using t c by (auto simp: engine_turn_def split: option.splits sum.splits)
    obtain rs where
      reqs: "reqs = map (\<lambda>r. \<lparr>req_trigger_action = a, req_operator_response = r, req_service = svc\<rparr>) rs"
      and rs: "\<forall>r\<in>set rs. in_limits (d_engine (nd_dispatcher S)) r"
      by (rule run_trigger_ok [OF r]) (simp add: in_limits_def)
    have "accepted C S a svc" using inv tx EC_ExecuteOperator by (simp add: node_inv_def)
    then have "accepted C ?S a svc" by (rule later_accepted [OF l])
    moreover have "in_limits (d_engine (nd_dispatcher ?S)) r" if "r \<in> set rs" for r
      using rs that lim by (simp add: in_limits_def same_limits_def)
    ultimately show ?thesis using c s reqs by (auto simp: admissible_def)
  qed (use t c in \<open>auto simp: engine_turn_def split: option.splits sum.splits\<close>)
  then show ?thesis
    by (intro node_inv_step [OF inv l])
      (use inv tx in \<open>auto simp: node_inv_def node_ok_def broadcasts_def\<close>)
qed

lemma handle_submit_ok:
  assumes "signature_scheme_ok C" "handle_submit C db M m = Some s"
    and "\<And>sid info. get_cloned (sm_signers M) sid = Some info \<Longrightarrow> si_address info = signer_own_address C (si_signer info)"
  obtains info where "services_is_active db (req_service_id m)" "sub_trigger_action s = req_trigger_action m"
    "sub_operator_response s = req_operator_response m" "req_event_id C m = Inr (sub_event_id s)"
    "build_envelope C m (sub_event_id s) = Inr (sub_envelope s)" "get_cloned (sm_signers M) (req_service_id m) = Some info"
    "signer_address C (sub_envelope_signature s) (sub_envelope s) = Inr (si_address info)"
proof -
  have act: "services_is_active db (req_service_id m)" and "sign_request C M m = Inr s"
    using assms(2) by (auto simp: handle_submit_def split: if_splits sum.splits)
  from this(2) obtain eid env info where *: "req_event_id C m = Inr eid" "build_envelope C m eid = Inr env"
    "get_cloned (sm_signers M) (req_service_id m) = Some info"
    "sign_envelope C (si_signer info) env = Inr (sub_envelope_signature s)"
    "s = \<lparr>sub_trigger_action = req_trigger_action m, sub_operator_response = req_operator_response m,
          sub_event_id = eid, sub_envelope = env, sub_envelope_signature = sub_envelope_signature s\<rparr>"
    by (rule sign_request_Inr)
  from *(5) have f: "sub_trigger_action s = req_trigger_action m" "sub_operator_response s = req_operator_response m"
    "sub_event_id s = eid" "sub_envelope s = env" by (metis submission.select_convs)+
  show ?thesis
    using that [of info] act * f assms(3) [OF *(3)] sign_then_recover [OF assms(1) *(4)] by simp
qed

lemma node_inv_submit:
  assumes "signature_scheme_ok C" and inv: "node_inv C S" and tx: "d_submission_tx (nd_dispatcher S) = early @ SC_Submit m # rest"
    and h: "handle_submit C (d_db (nd_dispatcher S)) (d_submission_manager (nd_dispatcher S)) m = reply"
  shows "node_inv C (after_turn S (nd_inbox S @ (case reply of None \<Rightarrow> [] | Some s \<Rightarrow> [DC_SubmissionResponse s]))
      ((nd_dispatcher S)\<lparr>d_submission_tx := early @ rest\<rparr>))" (is "node_inv C ?S")
proof -
  have l: "later S ?S" by (auto simp: later_def same_limits_def)
  have "vouched C ?S s" if "reply = Some s" for s
  proof -
    have "vouched C S s"
    proof (rule handle_submit_ok [OF assms(1) h [unfolded that]])
      show "si_address info = signer_own_address C (si_signer info)" if "key_of (nd_dispatcher S) sid = Some info" for sid info
        using inv that by (simp add: node_inv_def node_ok_def)
      have "admissible C S m" "to_submit m" "nd_dispatcher S \<in> set (nd_past S)" using inv tx by (simp_all add: node_inv_def)
      then show ?thesis
        if "services_is_active (d_db (nd_dispatcher S)) (req_service_id m)" "sub_trigger_action s = req_trigger_action m"
          "sub_operator_response s = req_operator_response m" "req_event_id C m = Inr (sub_event_id s)"
          "build_envelope C m (sub_event_id s) = Inr (sub_envelope s)" "key_of (nd_dispatcher S) (req_service_id m) = Some info"
          "signer_address C (sub_envelope_signature s) (sub_envelope s) = Inr (si_address info)" for info
        unfolding vouched_def using that by blast
    qed
    then show ?thesis by (rule later_vouched [OF l])
  qed
  then show ?thesis
    by (intro node_inv_step [OF inv l])
      (use inv tx in \<open>auto simp: node_inv_def node_ok_def broadcasts_def split: option.splits\<close>)
qed

lemma node_inv_dispatch:
  assumes inv: "node_inv C S" and q: "nd_inbox S = early @ cmd # rest" and E: "de_crypto E = C"
  shows "node_inv C (after_turn S (early @ rest) (dispatcher_turn E cmd (nd_dispatcher S)))" (is "node_inv C ?S")
proof -
  let ?D = "nd_dispatcher S"
  have ok: "command_ok C S cmd" "node_ok C ?D" "?D \<in> set (nd_past S)" using inv q by (simp_all add: node_inv_def)
  have inbox: "c \<in> set (early @ rest) \<Longrightarrow> c \<in> set (nd_inbox S)" for c using q by auto
  have one: "node_inv C (after_turn S (early @ rest) D)"
    if "node_ok C D" "d_engine D = d_engine ?D"
      and "\<And>c. c \<in> set (d_engine_tx D) \<Longrightarrow> c \<in> set (d_engine_tx ?D) \<or> job_ok C S c"
      and "\<And>c. c \<in> set (d_submission_tx D) \<Longrightarrow> c \<in> set (d_submission_tx ?D) \<or> request_ok C S c"
      and "\<And>s. s \<in> broadcasts D \<Longrightarrow> s \<in> broadcasts ?D \<or> vouched C S s" for D
  proof -
    have l: "later S (after_turn S (early @ rest) D)" using that(2) by (auto simp: later_def same_limits_def)
    show ?thesis
      by (rule node_inv_step [OF inv l], unfold after_turn_simps)
        (use that inbox later_job [OF l] later_request [OF l] later_vouched [OF l] in \<open>simp; fail | blast\<close>)+
  qed
  have same: "node_inv C (after_turn S (early @ rest) ?D)" by (rule one) (use ok in auto)
  show ?thesis
  proof (cases cmd)
    case (DC_Trigger a)
    have "accepted C S a svc" if "services_get (d_db ?D) (tc_service_id (ta_config a)) = Inr svc"
      "services_is_active (d_db ?D) (tc_service_id (ta_config a))" for svc
      using that ok DC_Trigger by (auto simp: accepted_def node_ok_def)
    then show ?thesis using DC_Trigger same ok
      by (auto simp: dispatcher_turn_def node_ok_def broadcasts_def intro!: one split: sum.splits)
  next
    case (DC_ChangeServiceUri sid uri)
    have "quiet C ?D (dispatcher_turn E cmd ?D)"
      by (auto simp: DC_ChangeServiceUri dispatcher_turn_def change_service_def split: sum.splits
          intro: quiet_change [OF E surjective_pairing])
    then have "node_inv C (after_turn S (early @ rest) D)" if "dispatcher_turn E cmd ?D = D" for D
      unfolding that
      by (intro node_inv_step [OF inv]) (use inv inbox in \<open>auto simp: later_def quiet_def node_inv_def\<close>)
    then show ?thesis by simp
  next
    case (DC_EngineResponse resp)
    then show ?thesis using same ok
      by (cases resp) (auto simp: dispatcher_turn_def node_ok_def broadcasts_def to_submit_def intro!: one
          split: option.splits submit.splits)
  next
    case (DC_SubmissionResponse s)
    then show ?thesis using ok by (auto simp: dispatcher_turn_def node_ok_def broadcasts_def intro!: one)
  next
    case (DC_AggregatorExecute s svc kind)
    then show ?thesis using ok by (auto simp: dispatcher_turn_def node_ok_def broadcasts_def intro!: one)
  qed
qed

lemma node_reachable_inv:
  assumes "signature_scheme_ok C" "node_reachable C cm S"
  shows "node_inv C S"
  using assms(2)
proof (induction rule: node_reachable.induct)
  case (nr_init D)
  then show ?case by (simp add: node_inv_def broadcasts_def)
next
  case (nr_step S S')
  from nr_step(2,3) show ?case
  proof (cases rule: node_step.cases)
    case (ns_command WE outc)
    have "tm_dispatcher_tx (flushed (nd_dispatcher S)) = []" by (simp add: flushed_def)
    then show ?thesis unfolding ns_command(1) by (intro node_inv_watcher [OF nr_step(3)] watcher_command_turn)
  next
    case (ns_event WE item)
    have "tm_dispatcher_tx (flushed (nd_dispatcher S)) = []" by (simp add: flushed_def)
    then show ?thesis unfolding ns_event(1) by (intro node_inv_watcher [OF nr_step(3)] watcher_event_turn)
  next
    case (ns_dispatch early cmd rest E)
    then show ?thesis using node_inv_dispatch [OF nr_step(3), of early cmd rest E] by (simp add: runs_with_def)
  next
    case (ns_engine early cmd rest EE go sent B)
    then show ?thesis using nr_step node_inv_engine by metis
  next
    case (ns_submit early m rest reply)
    then show ?thesis using nr_step node_inv_submit [OF assms(1)] by metis
  next
    case ns_kill
    show ?thesis unfolding ns_kill
      by (rule node_inv_step [OF nr_step(3)])
        (use nr_step(3) in \<open>auto simp: later_def same_limits_def node_inv_def node_ok_def broadcasts_def kill_subsystems_def\<close>)
  next
    case (ns_aggregator s svc kind)
    show ?thesis unfolding ns_aggregator
      by (rule node_inv_step [OF nr_step(3)]) (use nr_step(3) in \<open>auto simp: later_def same_limits_def node_inv_def\<close>)
  next
    case (ns_add E sm a D)
    then show ?thesis using nr_step quiet_add node_inv_quiet by (metis runs_with_def)
  next
    case (ns_register E svc r D)
    then show ?thesis using nr_step quiet_register node_inv_quiet by (metis runs_with_def)
  next
    case (ns_remove E sid r D)
    then show ?thesis using nr_step quiet_remove_service node_inv_quiet by (metis runs_with_def)
  next
    case (ns_start E answers check_order r D)
    then show ?thesis using nr_step quiet_start node_inv_quiet by (metis runs_with_def)
  next
    case (ns_upload E bs u D)
    then show ?thesis using nr_step quiet_upload node_inv_quiet by (metis runs_with_def)
  qed
qed

section \<open>A run\<close>

text \<open>A node with one service whose trigger is fired by hand: one response, signed and broadcast.\<close>

definition demo_sid :: service_id where
  "demo_sid = service_id_of demo_crypto demo_service"

definition demo_fired :: trigger_action where
  "demo_fired = \<lparr>ta_config = \<lparr>tc_service_id = demo_sid, tc_workflow_id = workflow_id_default, tc_trigger = Manual\<rparr>, ta_data = TD_Raw [5]\<rparr>"

definition demo_node_dispatcher :: "(nat \<times> (nat \<times> rpc_request_kind) list, nat \<times> (nat \<times> stellar_event_filter) list, (component_digest \<times> bytes) list) dispatcher" where
  "demo_node_dispatcher =
     demo_dispatcher\<lparr>d_trigger_manager := (trigger_manager_new (demo_chains []))\<lparr>tm_commands := [TC_ManualTrigger demo_fired]\<rparr>,
       d_db := wavs_db_new\<lparr>db_services := [(demo_sid, demo_service)]\<rparr>,
       d_submission_manager := \<lparr>sm_signers = [(demo_sid, \<lparr>si_signer = VS_Evm [7], si_address = signer_own_address demo_crypto (VS_Evm [7]),
         si_pubkey_hex = registration_pubkey_hex demo_crypto (VS_Evm [7]), si_hd_index = 7\<rparr>)], hd_index_count = 8\<rparr>\<rparr>"

type_synonym demo_node_type =
  "(nat \<times> (nat \<times> rpc_request_kind) list, nat \<times> (nat \<times> stellar_event_filter) list, (component_digest \<times> bytes) list) node"

abbreviation demo_request :: submission_request where
  "demo_request \<equiv> \<lparr>req_trigger_action = demo_fired, req_operator_response = \<lparr>payload = [1, 2], ordering = None, event_id_salt = None\<rparr>,
     req_service = demo_service\<rparr>"

abbreviation demo_compile :: "bytes \<Rightarrow> string + bytes" where
  "demo_compile \<equiv> Inr"

abbreviation demo_node_env where
  "demo_node_env \<equiv> demo_dispatcher_env\<lparr>de_crypto := demo_crypto\<rparr>"

definition demo_node :: "demo_node_type" where
  "demo_node = \<lparr>nd_dispatcher = demo_node_dispatcher, nd_inbox = [], nd_watcher_sent = [], nd_past = [demo_node_dispatcher]\<rparr>"

lemma demo_services_get:
  "services_get (d_db demo_node_dispatcher) sid = (if sid = demo_sid then Inr demo_service else Inl (UnknownService sid))"
  by (simp add: services_get_def services_try_get_def demo_node_dispatcher_def get_cloned_def ok_or_def)

lemma demo_services_active: "services_is_active (d_db demo_node_dispatcher) demo_sid"
  by (simp add: services_is_active_iff demo_node_dispatcher_def get_cloned_def demo_service_def service_new_simple_def)

lemma demo_key_of:
  "key_of demo_node_dispatcher sid = (if sid = demo_sid then Some \<lparr>si_signer = VS_Evm [7],
     si_address = signer_own_address demo_crypto (VS_Evm [7]),
     si_pubkey_hex = registration_pubkey_hex demo_crypto (VS_Evm [7]), si_hd_index = 7\<rparr> else None)"
  by (simp add: demo_node_dispatcher_def get_cloned_def)

lemma demo_node_start: "node_reachable demo_crypto demo_compile demo_node"
  unfolding demo_node_def
proof (rule nr_init)
  show "node_ok demo_crypto demo_node_dispatcher"
    by (auto simp: node_ok_def demo_services_get demo_key_of split: if_splits) (simp add: demo_sid_def)
qed (simp_all add: demo_node_dispatcher_def demo_dispatcher_def)

lemma demo_engine_answer:
  "\<exists>B. engine_turn demo_crypto (demo_engine_env [\<lparr>payload = [1, 2], ordering = None, event_id_salt = None\<rparr>])
     (d_db demo_node_dispatcher) (EC_ExecuteOperator demo_fired demo_service) demo_engine =
     Some (True, [DC_EngineResponse (ER_Vector \<lparr>req_trigger_action = demo_fired,
       req_operator_response = \<lparr>payload = [1, 2], ordering = None, event_id_salt = None\<rparr>, req_service = demo_service\<rparr>)], B)"
  using demo_services_active
  by (simp add: engine_turn_def run_trigger_def Let_def demo_fired_def
        demo_service_def service_new_simple_def execute_operator_component_def load_component_def
        demo_engine_env_def demo_lru_def demo_engine_def component_new_def instance_build_def instance_component_def
        open_data_dir_def permissions_default_def operator_execute_def call_result_def validate_size_def
        req_event_id_def event_id_new_def demo_crypto_def)

lemma demo_signed:
  "\<exists>s. handle_submit demo_crypto (d_db demo_node_dispatcher) (d_submission_manager demo_node_dispatcher)
     \<lparr>req_trigger_action = demo_fired, req_operator_response = \<lparr>payload = [1, 2], ordering = None, event_id_salt = None\<rparr>,
      req_service = demo_service\<rparr> = Some s \<and> sub_trigger_action s = demo_fired"
  using demo_services_active
  by (simp add: handle_submit_def sign_request_def req_event_id_def build_envelope_def event_id_new_def demo_fired_def
      demo_service_def service_new_simple_def signature_kind_evm_default_def demo_key_of demo_crypto_def secp_signature_def Let_def)

lemma demo_node_env: "runs_with demo_crypto demo_compile demo_node_env"
  by (simp add: runs_with_def demo_dispatcher_env_def demo_engine_env_def)

lemma demo_executing:
  "\<exists>(S :: demo_node_type) D. node_reachable demo_crypto demo_compile (after_turn S [] D) \<and>
     d_engine_tx D = [EC_ExecuteOperator demo_fired demo_service] \<and> d_submission_tx D = [] \<and> d_engine D = demo_engine \<and>
     d_db D = d_db demo_node_dispatcher \<and> d_submission_manager D = d_submission_manager demo_node_dispatcher"
proof -
  define W where "W = command_turn demo_watcher_env demo_outcomes (flushed demo_node_dispatcher)"
  have W: "tm_dispatcher_tx W = [DC_Trigger demo_fired]"
    by (simp add: W_def command_turn_def flushed_def demo_node_dispatcher_def finish_turn_def)
  define S1 where "S1 = after_watcher demo_node W"
  have "tm_running (d_trigger_manager demo_node_dispatcher)" by (simp add: demo_node_dispatcher_def trigger_manager_new_def)
  then have 1: "node_reachable demo_crypto demo_compile S1"
    using nr_step [OF demo_node_start ns_command] by (simp add: S1_def W_def demo_node_def)
  let ?D = "demo_node_dispatcher\<lparr>d_trigger_manager := W\<rparr>"
  have S1: "nd_dispatcher S1 = ?D" "nd_inbox S1 = [] @ [DC_Trigger demo_fired]"
    by (simp_all add: S1_def demo_node_def W)
  have tx: "d_engine_tx demo_node_dispatcher = []" "d_submission_tx demo_node_dispatcher = []" "d_engine demo_node_dispatcher = demo_engine"
    by (simp_all add: demo_node_dispatcher_def demo_dispatcher_def)
  have "dispatcher_turn demo_node_env (DC_Trigger demo_fired) ?D = ?D\<lparr>d_engine_tx := [EC_ExecuteOperator demo_fired demo_service]\<rparr>"
    using demo_services_active tx by (simp add: dispatcher_turn_def demo_fired_def demo_services_get)
  then have "node_reachable demo_crypto demo_compile (after_turn S1 [] (?D\<lparr>d_engine_tx := [EC_ExecuteOperator demo_fired demo_service]\<rparr>))"
    using nr_step [OF 1 ns_dispatch [OF S1(2) demo_node_env]] S1(1) by simp
  then show ?thesis using tx by (intro exI conjI) (assumption | simp)+
qed

lemma demo_broadcast:
  "\<exists>(S :: demo_node_type) s. node_reachable demo_crypto demo_compile S \<and>
     AC_Broadcast s \<in> set (d_aggregator_tx (nd_dispatcher S)) \<and> sub_trigger_action s = demo_fired"
proof -
  let ?m = demo_request
  obtain S2 :: demo_node_type and D2 where 2: "node_reachable demo_crypto demo_compile (after_turn S2 [] D2)"
    and D2: "d_engine_tx D2 = [] @ [EC_ExecuteOperator demo_fired demo_service]" "d_submission_tx D2 = []" "d_engine D2 = demo_engine"
      "d_db D2 = d_db demo_node_dispatcher" "d_submission_manager D2 = d_submission_manager demo_node_dispatcher"
    using demo_executing by auto
  obtain B where B: "engine_turn demo_crypto (demo_engine_env [req_operator_response ?m])
     (d_db D2) (EC_ExecuteOperator demo_fired demo_service) (d_engine D2) = Some (True, [DC_EngineResponse (ER_Vector ?m)], B)"
    using demo_engine_answer D2 by auto
  define D3 where "D3 = D2\<lparr>d_engine_tx := [], d_engine := B\<rparr>"
  have cm: "ee_compile (demo_engine_env rs) = demo_compile" for rs by (simp add: demo_engine_env_def)
  have 3: "node_reachable demo_crypto demo_compile (after_turn (after_turn S2 [] D2) [DC_EngineResponse (ER_Vector ?m)] D3)"
    using nr_step [OF 2 ns_engine [OF _ cm], of "[]"] D2(1) B by (simp add: D3_def)
  define D4 where "D4 = D3\<lparr>d_submission_tx := [SC_Submit ?m]\<rparr>"
  have "d_submission_tx D3 = []" using D2(2) by (simp add: D3_def)
  then have "dispatcher_turn demo_node_env (DC_EngineResponse (ER_Vector ?m)) D3 = D4"
    by (simp add: dispatcher_turn_def D4_def demo_service_def service_new_simple_def demo_fired_def)
  then have "\<exists>S :: demo_node_type. node_reachable demo_crypto demo_compile (after_turn S [] D4)"
    using nr_step [OF 3 ns_dispatch [OF _ demo_node_env], of "[]"] by fastforce
  then obtain S4 :: demo_node_type where 4: "node_reachable demo_crypto demo_compile (after_turn S4 [] D4)" ..
  obtain s where s: "handle_submit demo_crypto (d_db D4) (d_submission_manager D4) ?m = Some s" "sub_trigger_action s = demo_fired"
    using demo_signed D2(4,5) by (auto simp: D4_def D3_def)
  have tx: "d_submission_tx (nd_dispatcher (after_turn S4 [] D4)) = [] @ [SC_Submit ?m]" by (simp add: D4_def)
  let ?D = "D4\<lparr>d_submission_tx := []\<rparr>"
  have 5: "node_reachable demo_crypto demo_compile (after_turn (after_turn S4 [] D4) [DC_SubmissionResponse s] ?D)"
    using nr_step [OF 4 ns_submit [OF tx refl]] s(1) by simp
  have "node_reachable demo_crypto demo_compile (after_turn (after_turn (after_turn S4 [] D4) [DC_SubmissionResponse s] ?D) []
      (dispatcher_turn demo_node_env (DC_SubmissionResponse s) ?D))"
    using nr_step [OF 5 ns_dispatch [OF _ demo_node_env], of "[]"] by fastforce
  moreover have "AC_Broadcast s \<in> set (d_aggregator_tx (dispatcher_turn demo_node_env (DC_SubmissionResponse s) ?D))"
    by (simp add: dispatcher_turn_def)
  ultimately show ?thesis using s(2) by (metis after_turn_simps(1))
qed

end
