(* ===== verification/Evm_Connection.thy ===== *)
theory Evm_Connection
  imports Evm_Subscription
begin

text \<open>
  The connection of an EVM event stream, from
  \<^verbatim>\<open>subsystems/trigger/streams/evm_stream/client/connection.rs\<close>: the loop that connects to one of the
  configured endpoints, rotates through them with a growing pause, and follows the priority endpoint when
  its health check succeeds. An attempt has two steps, the choice of the endpoint and its outcome, because
  the health check runs beside it. What the loop does to the outside (messages to the subscriptions, the
  clearing of request ids, pauses) is the list of effects of a step. Durations are in seconds. An index out of
  range is a panic, the result \<open>None\<close>.
\<close>

section \<open>State\<close>

definition BACKOFF_BASE :: nat where
  "BACKOFF_BASE = 1"

definition BACKOFF_CAP :: nat where
  "BACKOFF_CAP = 30"

datatype connection_state = Connected string | Disconnected

datatype connection_data = CD_Text string | CD_Binary bytes

datatype connection_effect =
    CE_State connection_state
  | CE_Data connection_data
  | CE_ClearAll
  | CE_Sleep nat

datatype connection_phase = Ph_Idle | Ph_Connecting | Ph_Connected | Ph_Stopped

record connection_config =
  endpoints :: "string list"
  priority_endpoint_index :: "nat option"

record connection_vars =
  endpoint_idx :: nat
  current_backoff :: nat
  failures_in_cycle :: nat
  force_switch_flag :: bool
  is_using_priority :: bool
  current_endpoint :: "string option"
  current_sink :: bool
  phase :: connection_phase
  switch_notified :: bool

definition connection_new :: "connection_config \<Rightarrow> connection_vars" where
  "connection_new C =
     \<lparr>endpoint_idx = 0, current_backoff = BACKOFF_BASE, failures_in_cycle = 0,
      force_switch_flag = (priority_endpoint_index C \<noteq> None), is_using_priority = False, current_endpoint = None,
      current_sink = False, phase = Ph_Idle, switch_notified = False\<rparr>"

section \<open>Operations\<close>

definition begin_attempt :: "connection_config \<Rightarrow> connection_vars \<Rightarrow> (string \<times> connection_vars) option" where
  "begin_attempt C v =
     (let idx = (case priority_endpoint_index C of
                   Some p \<Rightarrow> if force_switch_flag v then p else endpoint_idx v
                 | None \<Rightarrow> endpoint_idx v)
      in if idx < length (endpoints C)
         then Some (endpoints C ! idx, v\<lparr>endpoint_idx := idx, phase := Ph_Connecting\<rparr>)
         else None)"

definition connect_ok :: "connection_config \<Rightarrow> string \<Rightarrow> connection_vars \<Rightarrow> connection_vars \<times> connection_effect list" where
  "connect_ok C endpoint v =
     (let using_priority = (priority_endpoint_index C = Some (endpoint_idx v))
      in (v\<lparr>current_backoff := BACKOFF_BASE, failures_in_cycle := 0, is_using_priority := using_priority,
            force_switch_flag := (if using_priority then False else force_switch_flag v),
            current_sink := True, current_endpoint := Some endpoint, phase := Ph_Connected, switch_notified := False\<rparr>,
          [CE_State (Connected endpoint)]))"

text \<open>Every failure moves to the next endpoint; a whole round of failures doubles the pause.\<close>

definition connect_err :: "connection_config \<Rightarrow> connection_vars \<Rightarrow> connection_vars \<times> connection_effect list" where
  "connect_err C v =
     (let at_priority = (priority_endpoint_index C = Some (endpoint_idx v));
          failures = failures_in_cycle v + 1;
          cycle_done = (failures \<ge> length (endpoints C))
      in (v\<lparr>force_switch_flag := (if at_priority then False else force_switch_flag v),
            is_using_priority := (if at_priority then False else is_using_priority v),
            endpoint_idx := (endpoint_idx v + 1) mod length (endpoints C),
            failures_in_cycle := (if cycle_done then 0 else failures),
            current_backoff := (if cycle_done then min (current_backoff v * 2) BACKOFF_CAP else current_backoff v),
            phase := Ph_Idle\<rparr>,
          [CE_State Disconnected, CE_ClearAll, CE_Sleep (current_backoff v)]))"

text \<open>The end of a connection, wanted or not: the sink is taken and closed, the request ids are cleared, and only then
  the subscriptions are told.\<close>

definition leave_connection :: "connection_config \<Rightarrow> bool \<Rightarrow> connection_vars \<Rightarrow> connection_vars \<times> connection_effect list" where
  "leave_connection C forced_switch v =
     (v\<lparr>current_sink := False, current_endpoint := None, is_using_priority := False, phase := Ph_Idle,
        switch_notified := False,
        endpoint_idx := (if forced_switch then endpoint_idx v else (endpoint_idx v + 1) mod length (endpoints C))\<rparr>,
      [CE_ClearAll, CE_State Disconnected])"

definition connection_lost :: "connection_config \<Rightarrow> connection_vars \<Rightarrow> connection_vars \<times> connection_effect list" where
  "connection_lost C v = leave_connection C False v"

definition force_switch :: "connection_config \<Rightarrow> connection_vars \<Rightarrow> connection_vars \<times> connection_effect list" where
  "force_switch C v =
     (case priority_endpoint_index C of
        Some p \<Rightarrow>
          if force_switch_flag v \<and> \<not> is_using_priority v
          then leave_connection C True (v\<lparr>endpoint_idx := p, current_backoff := BACKOFF_BASE, failures_in_cycle := 0\<rparr>)
          else (v\<lparr>switch_notified := False\<rparr>, [])
      | None \<Rightarrow> (v\<lparr>switch_notified := False\<rparr>, []))"

definition receive_message :: "connection_data \<Rightarrow> connection_vars \<Rightarrow> connection_vars \<times> connection_effect list" where
  "receive_message d v = (v, [CE_Data d])"

definition connection_shutdown :: "connection_vars \<Rightarrow> connection_vars \<times> connection_effect list" where
  "connection_shutdown v =
     (v\<lparr>phase := Ph_Stopped\<rparr>, if phase v = Ph_Connected then [] else [CE_State Disconnected])"

text \<open>The health check of the priority endpoint. A notification reaches only a loop that is waiting for it.\<close>

definition health_check :: "bool \<Rightarrow> connection_vars \<Rightarrow> connection_vars" where
  "health_check healthy v =
     (if is_using_priority v \<or> \<not> healthy then v
      else let already_requested = force_switch_flag v;
               v1 = v\<lparr>force_switch_flag := True\<rparr>
           in if \<not> already_requested \<and> phase v = Ph_Connected then v1\<lparr>switch_notified := True\<rparr> else v1)"

definition health_check_runs :: "(string \<Rightarrow> bool) \<Rightarrow> connection_config \<Rightarrow> bool" where
  "health_check_runs valid_ws C =
     (case priority_endpoint_index C of
        Some p \<Rightarrow> p < length (endpoints C) \<and> valid_ws (endpoints C ! p)
      | None \<Rightarrow> False)"

text \<open>The message loop: a request goes to the sink if there is one and is dropped otherwise.\<close>

definition message_turn :: "connection_vars \<Rightarrow> rpc_request \<Rightarrow> rpc_request list" where
  "message_turn v req = (if current_sink v then [req] else [])"

section \<open>Runs\<close>

inductive conn_step ::
  "(string \<Rightarrow> bool) \<Rightarrow> connection_config \<Rightarrow> connection_vars \<Rightarrow> connection_effect list \<Rightarrow> connection_vars \<Rightarrow> bool"
  for valid_ws :: "string \<Rightarrow> bool" and C :: connection_config where
  st_begin: "phase v = Ph_Idle \<Longrightarrow> begin_attempt C v = Some (e, v') \<Longrightarrow> conn_step valid_ws C v [] v'"
| st_ok: "phase v = Ph_Connecting \<Longrightarrow> connect_ok C (endpoints C ! endpoint_idx v) v = (v', effs) \<Longrightarrow>
    conn_step valid_ws C v effs v'"
| st_err: "phase v = Ph_Connecting \<Longrightarrow> connect_err C v = (v', effs) \<Longrightarrow> conn_step valid_ws C v effs v'"
| st_lost: "phase v = Ph_Connected \<Longrightarrow> connection_lost C v = (v', effs) \<Longrightarrow> conn_step valid_ws C v effs v'"
| st_switch: "phase v = Ph_Connected \<Longrightarrow> switch_notified v \<Longrightarrow> force_switch C v = (v', effs) \<Longrightarrow>
    conn_step valid_ws C v effs v'"
| st_message: "phase v = Ph_Connected \<Longrightarrow> receive_message d v = (v', effs) \<Longrightarrow> conn_step valid_ws C v effs v'"
| st_shutdown: "phase v \<noteq> Ph_Stopped \<Longrightarrow> connection_shutdown v = (v', effs) \<Longrightarrow> conn_step valid_ws C v effs v'"
| st_health: "health_check_runs valid_ws C \<Longrightarrow> phase v \<noteq> Ph_Stopped \<Longrightarrow> conn_step valid_ws C v [] (health_check h v)"

inductive_cases conn_stepE: "conn_step valid_ws C v effs v'"

inductive conn_reachable :: "(string \<Rightarrow> bool) \<Rightarrow> connection_config \<Rightarrow> connection_vars \<Rightarrow> bool"
  for valid_ws :: "string \<Rightarrow> bool" and C :: connection_config where
  conn_init: "conn_reachable valid_ws C (connection_new C)"
| conn_next: "conn_reachable valid_ws C v \<Longrightarrow> conn_step valid_ws C v effs v' \<Longrightarrow> conn_reachable valid_ws C v'"

definition config_ok :: "connection_config \<Rightarrow> bool" where
  "config_ok C = (endpoints C \<noteq> [] \<and> (case priority_endpoint_index C of Some p \<Rightarrow> p < length (endpoints C) | None \<Rightarrow> True))"

lemmas connection_ops = begin_attempt_def connect_ok_def connect_err_def leave_connection_def connection_lost_def
  force_switch_def receive_message_def connection_shutdown_def health_check_def Let_def

lemma conn_step_index:
  assumes "conn_step valid_ws C v effs v'" "config_ok C" "endpoint_idx v < length (endpoints C)"
  shows "endpoint_idx v' < length (endpoints C)"
  using assms by (cases rule: conn_step.cases) (auto simp: connection_ops config_ok_def split: option.splits if_splits)

lemma conn_reachable_index:
  "conn_reachable valid_ws C v \<Longrightarrow> config_ok C \<Longrightarrow> endpoint_idx v < length (endpoints C)"
proof (induction rule: conn_reachable.induct)
  case conn_init
  then show ?case by (simp add: connection_new_def config_ok_def)
next
  case (conn_next v effs v')
  then show ?case using conn_step_index by blast
qed

lemma conn_step_backoff:
  assumes "conn_step valid_ws C v effs v'" "BACKOFF_BASE \<le> current_backoff v" "current_backoff v \<le> BACKOFF_CAP"
  shows "BACKOFF_BASE \<le> current_backoff v' \<and> current_backoff v' \<le> BACKOFF_CAP \<and>
    (\<forall>d. CE_Sleep d \<in> set effs \<longrightarrow> BACKOFF_BASE \<le> d \<and> d \<le> BACKOFF_CAP)"
  using assms by (cases rule: conn_step.cases)
    (auto simp: connection_ops BACKOFF_BASE_def BACKOFF_CAP_def split: option.splits if_splits)

text \<open>
  C19: If there is an endpoint and the priority index is in range, the connection loop never reads an
  endpoint out of range, whatever the sequence of attempts, failures, disconnections, health checks and
  forced switches; in every other configuration the very first attempt panics, although the constructor only
  warns about such a priority index.
\<close>

theorem connection_never_panics:
  "if config_ok C then (\<forall>v. conn_reachable valid_ws C v \<longrightarrow> begin_attempt C v \<noteq> None)
   else begin_attempt C (connection_new C) = None"
proof (cases "config_ok C")
  case True
  then show ?thesis
    using conn_reachable_index [OF _ True]
    by (auto simp: begin_attempt_def config_ok_def Let_def split: option.splits)
next
  case False
  then show ?thesis
    by (auto simp: begin_attempt_def connection_new_def config_ok_def Let_def split: option.splits)
qed

definition demo_connection_config :: connection_config where
  "demo_connection_config = \<lparr>endpoints = [''ws://a'', ''ws://b''], priority_endpoint_index = Some 1\<rparr>"

theorem connection_never_panics_witness:
  "begin_attempt demo_connection_config (fst (connect_err demo_connection_config
       (connection_new demo_connection_config\<lparr>endpoint_idx := 1, phase := Ph_Connecting\<rparr>))) \<noteq> None \<and>
   (let C = demo_connection_config\<lparr>priority_endpoint_index := Some 2\<rparr> in begin_attempt C (connection_new C) = None) \<and>
   (let C = demo_connection_config\<lparr>endpoints := [], priority_endpoint_index := None\<rparr>
    in begin_attempt C (connection_new C) = None)"
proof (intro conjI)
  let ?C = "demo_connection_config" and ?v = "connection_new demo_connection_config\<lparr>endpoint_idx := 1, phase := Ph_Connecting\<rparr>"
  have "begin_attempt ?C (connection_new ?C) = Some (''ws://b'', ?v)"
    by (simp add: begin_attempt_def connection_new_def demo_connection_config_def)
  then have "conn_step (\<lambda>_. True) ?C (connection_new ?C) [] ?v"
    by (intro conn_step.intros) (simp_all add: connection_new_def)
  from conn_next [OF conn_init this] have v: "conn_reachable (\<lambda>_. True) ?C ?v" .
  have "conn_step (\<lambda>_. True) ?C ?v (snd (connect_err ?C ?v)) (fst (connect_err ?C ?v))"
    by (rule conn_step.intros) simp_all
  from conn_next [OF v this] have "conn_reachable (\<lambda>_. True) ?C (fst (connect_err ?C ?v))" .
  with connection_never_panics [of ?C "\<lambda>_. True"] show "begin_attempt ?C (fst (connect_err ?C ?v)) \<noteq> None"
    by (simp add: config_ok_def demo_connection_config_def)
  show "let C = demo_connection_config\<lparr>priority_endpoint_index := Some 2\<rparr> in begin_attempt C (connection_new C) = None"
    using connection_never_panics [of "demo_connection_config\<lparr>priority_endpoint_index := Some 2\<rparr>"]
    by (simp add: config_ok_def demo_connection_config_def)
  show "let C = demo_connection_config\<lparr>endpoints := [], priority_endpoint_index := None\<rparr>
    in begin_attempt C (connection_new C) = None"
    using connection_never_panics [of "demo_connection_config\<lparr>endpoints := [], priority_endpoint_index := None\<rparr>"]
    by (simp add: config_ok_def demo_connection_config_def)
qed

section \<open>Rotation\<close>

text \<open>The loop while nothing but attempts happens: it ends with the first endpoint that accepts. The list is the
  endpoints tried, with the pause after each.\<close>

fun connect_loop ::
  "connection_config \<Rightarrow> (string \<Rightarrow> bool) \<Rightarrow> nat \<Rightarrow> connection_vars \<Rightarrow> (string \<times> nat) list \<times> connection_vars option" where
  "connect_loop C accepts 0 v = ([], None)"
| "connect_loop C accepts (Suc n) v =
     (case begin_attempt C v of
        None \<Rightarrow> ([], None)
      | Some (e, v1) \<Rightarrow>
          if accepts e then ([], Some (fst (connect_ok C e v1)))
          else let (tried, r) = connect_loop C accepts n (fst (connect_err C v1))
               in ((e, current_backoff v1) # tried, r))"

definition start_index :: "connection_config \<Rightarrow> connection_vars \<Rightarrow> nat" where
  "start_index C v =
     (case priority_endpoint_index C of Some p \<Rightarrow> if force_switch_flag v then p else endpoint_idx v | None \<Rightarrow> endpoint_idx v)"

definition retry_schedule :: "connection_config \<Rightarrow> connection_vars \<Rightarrow> nat \<Rightarrow> string \<times> nat" where
  "retry_schedule C v j =
     (endpoints C ! ((start_index C v + j) mod length (endpoints C)),
      min BACKOFF_CAP (current_backoff v * 2 ^ ((failures_in_cycle v + j) div length (endpoints C))))"

definition retry_ok :: "connection_config \<Rightarrow> connection_vars \<Rightarrow> bool" where
  "retry_ok C v =
     (start_index C v < length (endpoints C) \<and> failures_in_cycle v < length (endpoints C) \<and> current_backoff v \<le> BACKOFF_CAP)"

lemma begin_attempt_start:
  "retry_ok C v \<Longrightarrow> begin_attempt C v =
     Some (endpoints C ! start_index C v, v\<lparr>endpoint_idx := start_index C v, phase := Ph_Connecting\<rparr>)"
  by (simp add: begin_attempt_def start_index_def retry_ok_def Let_def)

text \<open>After a failure the schedule continues where it was.\<close>

lemma failure_shifts_schedule:
  assumes ok: "retry_ok C v"
    and v': "v' = fst (connect_err C (v\<lparr>endpoint_idx := start_index C v, phase := Ph_Connecting\<rparr>))"
  shows "retry_ok C v'" "retry_schedule C v' j = retry_schedule C v (Suc j)"
proof -
  let ?n = "length (endpoints C)" and ?f = "failures_in_cycle v" and ?b = "current_backoff v"
  have n: "0 < ?n" using ok by (auto simp: retry_ok_def)
  have start: "start_index C v' = (start_index C v + 1) mod ?n"
    by (auto simp: v' start_index_def connect_err_def Let_def split: option.splits)
  have f': "failures_in_cycle v' = (if ?f + 1 \<ge> ?n then 0 else ?f + 1)"
    and b': "current_backoff v' = (if ?f + 1 \<ge> ?n then min (?b * 2) BACKOFF_CAP else ?b)"
    by (simp_all add: v' connect_err_def Let_def)
  show "retry_ok C v'" using ok n by (auto simp: retry_ok_def start f' b')
  have pause: "min BACKOFF_CAP (current_backoff v' * 2 ^ ((failures_in_cycle v' + j) div ?n)) =
      min BACKOFF_CAP (?b * 2 ^ ((?f + Suc j) div ?n))"
  proof (cases "?f + 1 \<ge> ?n")
    case True
    then have e: "?f + Suc j = ?n + j" using ok by (simp add: retry_ok_def)
    have d: "(?f + Suc j) div ?n = Suc (j div ?n)" unfolding e using n div_add_self1 [of ?n j] by simp
    have "min BACKOFF_CAP (min (?b * 2) BACKOFF_CAP * 2 ^ q) = min BACKOFF_CAP (?b * 2 ^ Suc q)" for q
    proof (cases "?b * 2 \<le> BACKOFF_CAP")
      case False
      have c: "BACKOFF_CAP \<le> BACKOFF_CAP * 2 ^ q" by simp
      also have "\<dots> \<le> ?b * 2 ^ Suc q" using False by simp
      finally have "BACKOFF_CAP \<le> ?b * 2 ^ Suc q" .
      then show ?thesis using False c by (simp add: min_absorb1 del: power_Suc)
    qed (simp add: mult.assoc)
    then show ?thesis using True unfolding d f' b' by simp
  qed (simp add: f' b')
  have "((start_index C v + 1) mod ?n + j) mod ?n = (start_index C v + Suc j) mod ?n"
    by (simp add: mod_add_left_eq)
  then show "retry_schedule C v' j = retry_schedule C v (Suc j)"
    using pause by (simp add: retry_schedule_def start)
qed

definition after_failure :: "connection_config \<Rightarrow> connection_vars \<Rightarrow> connection_vars" where
  "after_failure C v = fst (connect_err C (v\<lparr>endpoint_idx := start_index C v, phase := Ph_Connecting\<rparr>))"

lemma after_failure_schedule:
  assumes "retry_ok C v"
  shows "retry_ok C (after_failure C v)" "retry_schedule C (after_failure C v) = retry_schedule C v \<circ> Suc"
  using failure_shifts_schedule [OF assms after_failure_def] by (simp_all add: fun_eq_iff)

lemma schedule_first: "retry_ok C v \<Longrightarrow> retry_schedule C v 0 = (endpoints C ! start_index C v, current_backoff v)"
  by (simp add: retry_schedule_def retry_ok_def)

lemma connect_loop_step:
  assumes "retry_ok C v"
  shows "\<not> accepts (fst (retry_schedule C v 0)) \<Longrightarrow> connect_loop C accepts (Suc n) v =
      map_prod ((#) (retry_schedule C v 0)) id (connect_loop C accepts n (after_failure C v))"
    and "accepts (fst (retry_schedule C v 0)) \<Longrightarrow>
      \<exists>v'. connect_loop C accepts (Suc n) v = ([], Some v') \<and> phase v' = Ph_Connected \<and>
        current_endpoint v' = Some (fst (retry_schedule C v 0)) \<and> current_backoff v' = BACKOFF_BASE \<and> failures_in_cycle v' = 0"
  using begin_attempt_start [OF assms] schedule_first [OF assms]
  by (simp_all add: after_failure_def connect_ok_def Let_def split: prod.splits)

lemma schedule_Cons:
  "retry_ok C v \<Longrightarrow>
   map (retry_schedule C v) [0..<Suc k] = retry_schedule C v 0 # map (retry_schedule C (after_failure C v)) [0..<k]"
  by (simp add: after_failure_schedule upt_conv_Cons map_Suc_upt [symmetric] del: upt_Suc)

lemma connect_loop_fails:
  "retry_ok C v \<Longrightarrow> \<forall>j<k. \<not> accepts (fst (retry_schedule C v j)) \<Longrightarrow>
   connect_loop C accepts k v = (map (retry_schedule C v) [0..<k], None)"
proof (induction k arbitrary: v)
  case (Suc k)
  note a = after_failure_schedule [OF Suc.prems(1)]
  have "connect_loop C accepts k (after_failure C v) = (map (retry_schedule C (after_failure C v)) [0..<k], None)"
    using Suc.prems(2) by (intro Suc.IH a) (simp add: a)
  moreover have "\<not> accepts (fst (retry_schedule C v 0))" using Suc.prems(2) by blast
  ultimately show ?case
    by (simp add: connect_loop_step(1) [OF Suc.prems(1)] schedule_Cons [OF Suc.prems(1)] del: connect_loop.simps upt_Suc)
qed simp

lemma connect_loop_succeeds:
  "retry_ok C v \<Longrightarrow> \<forall>j<k. \<not> accepts (fst (retry_schedule C v j)) \<Longrightarrow> accepts (fst (retry_schedule C v k)) \<Longrightarrow> k < fuel \<Longrightarrow>
   \<exists>v'. connect_loop C accepts fuel v = (map (retry_schedule C v) [0..<k], Some v') \<and> phase v' = Ph_Connected \<and>
     current_endpoint v' = Some (fst (retry_schedule C v k)) \<and> current_backoff v' = BACKOFF_BASE \<and> failures_in_cycle v' = 0"
proof (induction k arbitrary: v fuel)
  case 0
  then obtain m where m: "fuel = Suc m" by (cases fuel) auto
  show ?case using connect_loop_step(2) [OF 0(1), of accepts m] 0(3) by (simp add: m del: connect_loop.simps)
next
  case (Suc k)
  note a = after_failure_schedule [OF Suc.prems(1)]
  obtain m where fuel: "fuel = Suc m" "k < m" using Suc.prems(4) by (cases fuel) auto
  have "\<exists>v'. connect_loop C accepts m (after_failure C v) = (map (retry_schedule C (after_failure C v)) [0..<k], Some v') \<and>
      phase v' = Ph_Connected \<and> current_endpoint v' = Some (fst (retry_schedule C (after_failure C v) k)) \<and>
      current_backoff v' = BACKOFF_BASE \<and> failures_in_cycle v' = 0"
    using Suc.prems(2,3) fuel(2) by (intro Suc.IH a) (simp_all add: a)
  moreover have "\<not> accepts (fst (retry_schedule C v 0))" using Suc.prems(2) by blast
  ultimately show ?case
    by (auto simp: fuel(1) connect_loop_step(1) [OF Suc.prems(1)] schedule_Cons [OF Suc.prems(1)] a
      simp del: connect_loop.simps upt_Suc)
qed

lemma conn_reachable_retry:
  assumes "conn_reachable valid_ws C v" "config_ok C"
  shows "retry_ok C v"
proof -
  have "failures_in_cycle v < length (endpoints C) \<and> BACKOFF_BASE \<le> current_backoff v \<and> current_backoff v \<le> BACKOFF_CAP"
    using assms
  proof (induction rule: conn_reachable.induct)
    case conn_init
    then show ?case by (simp add: connection_new_def config_ok_def BACKOFF_BASE_def BACKOFF_CAP_def)
  next
    case (conn_next v effs v')
    have "failures_in_cycle v' < length (endpoints C)"
      using conn_next.hyps(2) conn_next.IH [OF conn_next.prems] conn_next.prems
      by (cases rule: conn_step.cases) (auto simp: connection_ops config_ok_def split: option.splits if_splits)
    then show ?case using conn_step_backoff [OF conn_next.hyps(2)] conn_next.IH [OF conn_next.prems] by blast
  qed
  then show ?thesis
    using conn_reachable_index [OF assms] assms(2) by (auto simp: retry_ok_def start_index_def config_ok_def split: option.splits)
qed

text \<open>
  C18: From every reachable state, if some endpoint accepts, the connection loop is connected after at
  most as many attempts as there are endpoints: it tries them in rotation, from the priority endpoint
  if that is asked for, pauses before the next round twice as long as before (from one second up to the cap
  of thirty), skips none, stops at the first one that accepts and resets its pause. If none accepts, it goes
  on with that schedule for ever.
\<close>

theorem connection_retry_terminates:
  assumes reach: "conn_reachable valid_ws C v" and cfg: "config_ok C"
  shows "((\<exists>e\<in>set (endpoints C). accepts e) \<longrightarrow>
      (\<exists>k v'. k < length (endpoints C) \<and>
         connect_loop C accepts (length (endpoints C)) v = (map (retry_schedule C v) [0..<k], Some v') \<and>
         (\<forall>j<k. \<not> accepts (fst (retry_schedule C v j))) \<and> accepts (fst (retry_schedule C v k)) \<and>
         current_endpoint v' = Some (fst (retry_schedule C v k)) \<and> phase v' = Ph_Connected \<and>
         current_backoff v' = BACKOFF_BASE \<and> failures_in_cycle v' = 0)) \<and>
    ((\<forall>e\<in>set (endpoints C). \<not> accepts e) \<longrightarrow>
      connect_loop C accepts m v = (map (retry_schedule C v) [0..<m], None))"
proof (intro conjI impI)
  have ok: "retry_ok C v" using reach cfg by (rule conn_reachable_retry)
  let ?n = "length (endpoints C)" and ?s = "start_index C v"
  have n: "0 < ?n" "?s < ?n" using ok by (auto simp: retry_ok_def)
  {
    assume "\<exists>e\<in>set (endpoints C). accepts e"
    then obtain i where i: "i < ?n" "accepts (endpoints C ! i)" by (auto simp: in_set_conv_nth)
    let ?j = "(i + (?n - ?s)) mod ?n"
    have "(?s + ?j) mod ?n = i" using i(1) n(2) by (simp add: mod_add_right_eq)
    then have j: "accepts (fst (retry_schedule C v ?j))" using i(2) by (simp add: retry_schedule_def)
    define k where "k = (LEAST k. accepts (fst (retry_schedule C v k)))"
    have k: "accepts (fst (retry_schedule C v k))" "\<forall>j<k. \<not> accepts (fst (retry_schedule C v j))" "k \<le> ?j"
      unfolding k_def using j by (auto intro: LeastI Least_le dest: not_less_Least)
    then have "k < ?n" using n(1) by (meson le_less_trans mod_less_divisor)
    then show "\<exists>k v'. k < ?n \<and> connect_loop C accepts ?n v = (map (retry_schedule C v) [0..<k], Some v') \<and>
         (\<forall>j<k. \<not> accepts (fst (retry_schedule C v j))) \<and> accepts (fst (retry_schedule C v k)) \<and>
         current_endpoint v' = Some (fst (retry_schedule C v k)) \<and> phase v' = Ph_Connected \<and>
         current_backoff v' = BACKOFF_BASE \<and> failures_in_cycle v' = 0"
      using connect_loop_succeeds [OF ok k(2,1)] k(1,2) by blast
  }
  assume "\<forall>e\<in>set (endpoints C). \<not> accepts e"
  then have "\<forall>j<m. \<not> accepts (fst (retry_schedule C v j))" using n(1) by (simp add: retry_schedule_def)
  then show "connect_loop C accepts m v = (map (retry_schedule C v) [0..<m], None)" by (rule connect_loop_fails [OF ok])
qed

theorem connection_retry_terminates_witness:
  "\<exists>v'. connect_loop demo_connection_config (\<lambda>e. e = ''ws://a'') 2 (connection_new demo_connection_config) = ([(''ws://b'', 1)], Some v') \<and>
     current_endpoint v' = Some ''ws://a''"
proof -
  have cfg: "config_ok demo_connection_config" by (simp add: config_ok_def demo_connection_config_def)
  have s: "retry_schedule demo_connection_config (connection_new demo_connection_config) 0 = (''ws://b'', 1)"
    "retry_schedule demo_connection_config (connection_new demo_connection_config) 1 = (''ws://a'', 1)"
    by (simp_all add: retry_schedule_def start_index_def connection_new_def demo_connection_config_def BACKOFF_BASE_def BACKOFF_CAP_def)
  have n: "length (endpoints demo_connection_config) = 2" by (simp add: demo_connection_config_def)
  have "\<exists>e\<in>set (endpoints demo_connection_config). e = ''ws://a''" by (simp add: demo_connection_config_def)
  then obtain k v' where k: "k < 2" "connect_loop demo_connection_config (\<lambda>e. e = ''ws://a'') 2 (connection_new demo_connection_config) =
      (map (retry_schedule demo_connection_config (connection_new demo_connection_config)) [0..<k], Some v')"
    "fst (retry_schedule demo_connection_config (connection_new demo_connection_config) k) = ''ws://a''"
    "current_endpoint v' = Some (fst (retry_schedule demo_connection_config (connection_new demo_connection_config) k))"
    using connection_retry_terminates [OF conn_init [of "\<lambda>_. True"] cfg, of "\<lambda>e. e = ''ws://a''"] unfolding n by blast
  then have "k = 1" using s by (cases "k = 0") auto
  then show ?thesis using k s by auto
qed

section \<open>The connection and the subscriptions together\<close>

text \<open>The two tasks share the request ids; the state of the connection reaches the subscriptions through a queue, so
  it may be handled long after it was sent.\<close>

definition states_of :: "connection_effect list \<Rightarrow> connection_state list" where
  "states_of effs = List.map_filter (\<lambda>e. case e of CE_State st \<Rightarrow> Some st | _ \<Rightarrow> None) effs"

definition handle_state :: "(rpc_request_kind, 'sm) slotmap_ops \<Rightarrow> connection_state \<Rightarrow> 'sm evm_subscriptions \<Rightarrow> 'sm evm_subscriptions" where
  "handle_state M st S = (case st of Connected _ \<Rightarrow> set_is_connected M True S | Disconnected \<Rightarrow> set_is_connected M False S)"

inductive client_step :: "(rpc_request_kind, 'sm) slotmap_ops \<Rightarrow> 'sm evm_subscriptions \<Rightarrow> 'sm evm_subscriptions \<Rightarrow> bool"
  for M :: "(rpc_request_kind, 'sm) slotmap_ops" where
  "client_step M S (toggle_block_height M b S)"
| "client_step M S (toggle_pending_transactions M b S)"
| "client_step M S (enable_logs M addresses topics S)"
| "client_step M S (disable_logs M addresses topics S)"
| "client_step M S (disable_all_logs M S)"
| "server_reply M S i r \<Longrightarrow> client_step M S (on_received_rpc_response M i r S)"
| "req \<in> set (sb_delayed S) \<Longrightarrow> client_step M S (delayed_send req S)"

inductive stream_reachable ::
  "(string \<Rightarrow> bool) \<Rightarrow> connection_config \<Rightarrow> (rpc_request_kind, 'sm) slotmap_ops \<Rightarrow> connection_vars \<Rightarrow>
   connection_state list \<Rightarrow> bool \<Rightarrow> 'sm evm_subscriptions \<Rightarrow> bool"
  for valid_ws :: "string \<Rightarrow> bool" and C :: connection_config and M :: "(rpc_request_kind, 'sm) slotmap_ops" where
  str_init: "stream_reachable valid_ws C M (connection_new C) [] False (subscriptions_new M)"
| str_connection: "stream_reachable valid_ws C M v q dropped S \<Longrightarrow> conn_step valid_ws C v effs v' \<Longrightarrow>
    stream_reachable valid_ws C M v' (q @ states_of effs) (dropped \<or> CE_ClearAll \<in> set effs)
      (if CE_ClearAll \<in> set effs then rpc_ids_clear_all M S else S)"
| str_deliver: "stream_reachable valid_ws C M v (st # q) dropped S \<Longrightarrow>
    stream_reachable valid_ws C M v q (st = Disconnected \<and> dropped) (handle_state M st S)"
| str_client: "stream_reachable valid_ws C M v q dropped S \<Longrightarrow> client_step M S S' \<Longrightarrow>
    stream_reachable valid_ws C M v q dropped S'"

fun alternates :: "bool \<Rightarrow> connection_state list \<Rightarrow> bool" where
  "alternates b [] = True"
| "alternates b (Connected e # q) = (\<not> b \<and> alternates True q)"
| "alternates b (Disconnected # q) = alternates False q"

fun last_state :: "bool \<Rightarrow> connection_state list \<Rightarrow> bool" where
  "last_state b [] = b"
| "last_state b (Connected e # q) = last_state True q"
| "last_state b (Disconnected # q) = last_state False q"

lemma alternates_append: "alternates b (q @ q') \<longleftrightarrow> alternates b q \<and> alternates (last_state b q) q'"
  by (induction b q rule: alternates.induct) simp_all

lemma last_state_append: "last_state b (q @ q') = last_state (last_state b q) q'"
  by (induction b q rule: last_state.induct) simp_all

lemma conn_step_states:
  assumes "conn_step valid_ws C v effs v'" "b \<longrightarrow> phase v \<in> {Ph_Connected, Ph_Stopped}"
  shows "alternates b (states_of effs)" "last_state b (states_of effs) \<longrightarrow> phase v' \<in> {Ph_Connected, Ph_Stopped}"
  using assms by (cases rule: conn_step.cases;
    auto simp: connection_ops states_of_def map_filter_simps split: option.splits if_splits)+

lemma send_rpc_connected: "sb_is_connected (send_rpc M req d S) = sb_is_connected S"
  by (simp add: send_rpc_def in_flight_insert_def Let_def split: option.splits)

lemma send_connected [simp]:
  "sb_is_connected (send_unsubscribe M d sid S) = sb_is_connected S" "sb_is_connected (send_subscribe M p S) = sb_is_connected S"
  by (simp_all add: send_unsubscribe_def send_subscribe_def rpc_ids_insert_def send_rpc_connected split: prod.splits)

lemma fold_unsubscribe_connected [simp]:
  "sb_is_connected (fold (send_unsubscribe M d) sids S) = sb_is_connected S"
  by (induction sids arbitrary: S) simp_all

lemma subscribe_connected [simp]:
  "sb_is_connected (unsubscribe M c S) = sb_is_connected S" "sb_is_connected (resubscribe M S) = sb_is_connected S"
  by (simp_all add: unsubscribe_def resubscribe_def resubscribe_one_def Let_def split: option.splits)

lemma client_step_connected: "client_step M S S' \<Longrightarrow> sb_is_connected S' = sb_is_connected S"
proof (induction rule: client_step.induct)
  case (6 S i r)
  obtain st category S1 where rm: "in_flight_remove i S = (st, category, S1)" by (metis prod_cases3)
  have "sb_is_connected S1 = sb_is_connected S" by (rule in_flight_remove_views [OF rm])
  then show ?case
    by (simp add: on_received_rpc_response_def rm ids_insert_views ids_remove_views
        split: option.splits rpc_response.splits rpc_request_kind.splits)
qed (simp_all add: toggle_block_height_def toggle_pending_transactions_def enable_logs_def disable_logs_def disable_all_logs_def
    delayed_send_def Let_def split: option.splits)

lemma stream_reachable_alternates:
  "stream_reachable valid_ws C M v q dropped S \<Longrightarrow>
   alternates (sb_is_connected S) q \<and>
   (last_state (sb_is_connected S) q \<longrightarrow> phase v \<in> {Ph_Connected, Ph_Stopped})"
proof (induction rule: stream_reachable.induct)
  case str_init
  then show ?case by (simp add: subscriptions_new_def)
next
  case (str_connection v q dropped S effs v')
  have same: "sb_is_connected (if CE_ClearAll \<in> set effs then rpc_ids_clear_all M S else S) = sb_is_connected S"
    by (simp add: rpc_ids_clear_all_def)
  have "last_state (sb_is_connected S) q \<longrightarrow> phase v \<in> {Ph_Connected, Ph_Stopped}" using str_connection.IH by blast
  note st = conn_step_states [OF str_connection.hyps(2) this]
  show ?case unfolding same alternates_append last_state_append using str_connection.IH st by blast
next
  case (str_deliver v st q dropped S)
  then show ?case
    by (cases st) (simp_all add: handle_state_def set_is_connected_def in_flight_clear_def ids_clear_def)
next
  case (str_client v q dropped S S')
  then show ?case by (simp add: client_step_connected)
qed

lemma conn_step_clear: "conn_step valid_ws C v effs v' \<Longrightarrow> CE_ClearAll \<in> set effs \<Longrightarrow> Disconnected \<in> set (states_of effs)"
  by (cases rule: conn_step.cases)
    (auto simp: connection_ops states_of_def map_filter_simps split: option.splits if_splits)

text \<open>The request ids are cleared only on the way to a disconnected state.\<close>

lemma stream_dropped:
  "stream_reachable valid_ws C M v q dropped S \<Longrightarrow> dropped \<Longrightarrow> \<not> sb_is_connected S \<or> Disconnected \<in> set q"
proof (induction rule: stream_reachable.induct)
  case (str_connection v q dropped S effs v')
  then show ?case using conn_step_clear by (auto simp: rpc_ids_clear_all_def)
next
  case (str_deliver v st q dropped S)
  then show ?case by (auto simp: handle_state_def set_is_connected_def in_flight_clear_def ids_clear_def)
qed (auto simp: client_step_connected)

lemma stream_reachable_sub:
  "stream_reachable valid_ws C M v q dropped S \<Longrightarrow> sub_reachable M dropped S"
proof (induction rule: stream_reachable.induct)
  case str_init
  show ?case by (rule sub_init)
next
  case (str_connection v q dropped S effs v')
  then show ?case using sub_cleared by fastforce
next
  case (str_deliver v st q dropped S)
  show ?case
  proof (cases st)
    case (Connected e)
    have "\<not> sb_is_connected S" using stream_reachable_alternates [OF str_deliver.hyps] Connected by simp
    then show ?thesis using sub_connected [OF str_deliver.IH] by (simp add: Connected handle_state_def)
  next
    case Disconnected
    then show ?thesis using sub_disconnected [OF str_deliver.IH] by (simp add: handle_state_def)
  qed
next
  case (str_client v q dropped S S')
  show ?case using str_client.hyps(2) str_client.IH
    by (cases rule: client_step.cases) (auto intro: sub_reachable.intros)
qed

text \<open>
  C17: The connection task and the subscription task together refine the subscriptions alone: in every
  interleaving of attempts, losses, forced switches, health checks, received messages, delayed delivery of
  connection states and calls of the client, the state of the subscriptions is one they reach alone. The
  connection clears the recorded request ids only when it also announces that it is disconnected. So while
  the subscriptions are connected and no such announcement is on its way, every wish is served: a landed
  subscription of the wanted kind forwards all its events, or the request has been sent and the subscription it is
  answered with will forward them.
\<close>

theorem connection_refines_subscriptions:
  assumes laws: "slotmap_laws M ok" and reach: "stream_reachable valid_ws C M v q dropped S"
  shows "sub_reachable M dropped S \<and> (dropped \<longrightarrow> \<not> sb_is_connected S \<or> Disconnected \<in> set q) \<and>
    (sb_is_connected S \<and> Disconnected \<notin> set q \<and> wanted S c = Some p \<longrightarrow>
      (\<exists>sid. landed S sid = subscription_kind_of (params_kind p) \<and>
         (\<forall>ev :: 'lg rpc_subscription_event. event_category ev = c \<longrightarrow> on_received_subscription_event S sid ev = Some ev)) \<or>
      (\<exists>i. RR_Subscribe i p \<in> set (sb_sent S) \<and>
         (\<forall>sid (ev :: 'lg rpc_subscription_event). fresh_id M S sid \<and> event_category ev = c \<longrightarrow>
            on_received_subscription_event (on_received_rpc_response M i (NewSubscription sid) S) sid ev = Some ev)))"
proof (intro conjI impI)
  show sub: "sub_reachable M dropped S" using reach by (rule stream_reachable_sub)
  show "\<not> sb_is_connected S \<or> Disconnected \<in> set q" if dropped using stream_dropped [OF reach that] .
  assume *: "sb_is_connected S \<and> Disconnected \<notin> set q \<and> wanted S c = Some p"
  then have "\<not> dropped" using stream_dropped [OF reach] by blast
  with sub have "sub_reachable M False S" by simp
  then show "(\<exists>sid. landed S sid = subscription_kind_of (params_kind p) \<and>
         (\<forall>ev :: 'lg rpc_subscription_event. event_category ev = c \<longrightarrow> on_received_subscription_event S sid ev = Some ev)) \<or>
      (\<exists>i. RR_Subscribe i p \<in> set (sb_sent S) \<and>
         (\<forall>sid (ev :: 'lg rpc_subscription_event). fresh_id M S sid \<and> event_category ev = c \<longrightarrow>
            on_received_subscription_event (on_received_rpc_response M i (NewSubscription sid) S) sid ev = Some ev))"
    using wishes_served [OF laws, of S c p] * by blast
qed

text \<open>Blocks are wanted, the connection succeeds, its state is delivered: the request for them is sent, and the
  subscription it is answered with is served.\<close>

theorem connection_refines_subscriptions_witness:
  "let S = handle_state demo_slotmap (Connected ''ws://b'')
             (toggle_block_height demo_slotmap True (subscriptions_new demo_slotmap))
   in sub_reachable demo_slotmap False S \<and>
      ((\<exists>sid. landed S sid = Some SK_NewHeads) \<or>
       (\<exists>i. RR_Subscribe i SP_NewHeads \<in> set (sb_sent S) \<and>
          on_received_subscription_event (on_received_rpc_response demo_slotmap i (NewSubscription ''0x1'') S) ''0x1''
            (Ev_NewHeads 7 :: unit rpc_subscription_event) = Some (Ev_NewHeads 7)))"
proof -
  let ?C = demo_connection_config
  let ?v1 = "(connection_new ?C)\<lparr>endpoint_idx := 1, phase := Ph_Connecting\<rparr>"
  let ?S = "toggle_block_height demo_slotmap True (subscriptions_new demo_slotmap)"
  let ?S' = "handle_state demo_slotmap (Connected ''ws://b'') ?S"
  have "conn_step (\<lambda>_. True) ?C (connection_new ?C) [] ?v1"
    by (rule st_begin) (simp_all add: begin_attempt_def connection_new_def demo_connection_config_def)
  from str_connection [OF str_init [of _ _ demo_slotmap] this]
  have "stream_reachable (\<lambda>_. True) ?C demo_slotmap ?v1 [] False (subscriptions_new demo_slotmap)" by (simp add: states_of_def)
  note r1 = str_client [OF this client_step.intros(1) [of _ _ True]]
  obtain v2 where e: "connect_ok ?C (endpoints ?C ! endpoint_idx ?v1) ?v1 = (v2, [CE_State (Connected ''ws://b'')])"
    by (simp add: connect_ok_def demo_connection_config_def)
  have "conn_step (\<lambda>_. True) ?C ?v1 [CE_State (Connected ''ws://b'')] v2"
    by (rule st_ok [OF _ e]) simp
  from str_connection [OF r1 this]
  have "stream_reachable (\<lambda>_. True) ?C demo_slotmap v2 [Connected ''ws://b''] False ?S"
    by (simp add: states_of_def map_filter_simps)
  from str_deliver [OF this]
  have r: "stream_reachable (\<lambda>_. True) ?C demo_slotmap v2 [] False ?S'" by simp
  have S': "?S' = (subscriptions_new demo_slotmap)\<lparr>sb_blocks := True, sb_is_connected := True, sb_rpc_ids := (1, [(0, SubscribeNewHeads)]),
        in_flight := [(0, ActivateOnLand SubscribeNewHeads)], most_recent_in_flight := [(Cat_NewHeads, 0)],
        sb_sent := [RR_Subscribe 0 SP_NewHeads]\<rparr>"
    by (simp add: handle_state_def demo_connected)
  have c: "sb_is_connected ?S'" "wanted ?S' Cat_NewHeads = Some SP_NewHeads" "fresh_id demo_slotmap ?S' ''0x1''"
    unfolding S' by (simp_all add: fresh_id_def demo_slotmap_def subscriptions_new_def)
  have "event_category (Ev_NewHeads 7 :: unit rpc_subscription_event) = Cat_NewHeads" by simp
  moreover have k: "subscription_kind_of (params_kind SP_NewHeads) = Some SK_NewHeads" by simp
  moreover have "Disconnected \<notin> set []" by simp
  ultimately show ?thesis
    unfolding Let_def
    using connection_refines_subscriptions [where 'lg = unit, OF demo_slotmap_laws r, of Cat_NewHeads SP_NewHeads, unfolded k] c
    by blast
qed

section \<open>A forced switch that is lost\<close>

text \<open>
  A health check that succeeds while an attempt on another endpoint is under way sets the flag
  without waking anyone; when that attempt then succeeds, no later health check notifies the loop, since
  the flag is already set, and no sequence of them and of received messages leads back to the priority endpoint.
\<close>

lemma priority_switch_lost:
  assumes "phase v = Ph_Connecting" "\<not> is_using_priority v" "priority_endpoint_index C = Some p" "p \<noteq> endpoint_idx v"
    and "v1 = fst (connect_ok C e (health_check True v))"
  shows "phase v1 = Ph_Connected \<and> \<not> is_using_priority v1 \<and> \<not> switch_notified v1 \<and>
    fold health_check hs v1 = v1"
proof -
  have v1: "phase v1 = Ph_Connected" "\<not> is_using_priority v1" "\<not> switch_notified v1" "force_switch_flag v1"
    using assms by (simp_all add: connect_ok_def health_check_def Let_def)
  have "health_check h v1 = v1" for h using v1 by (simp add: health_check_def)
  then have "fold health_check hs v1 = v1" by (induction hs) simp_all
  then show ?thesis using v1 by simp
qed

lemma priority_switch_lost_witness:
  "\<exists>v v1. conn_reachable (\<lambda>_. True) demo_connection_config v \<and>
     v1 = fst (connect_ok demo_connection_config ''ws://a'' (health_check True v)) \<and>
     phase v1 = Ph_Connected \<and> \<not> is_using_priority v1 \<and> fold health_check [True, True, True] v1 = v1"
proof -
  let ?C = demo_connection_config
  let ?v0 = "connection_new ?C"
  let ?v1 = "?v0\<lparr>endpoint_idx := 1, phase := Ph_Connecting\<rparr>"
  let ?v2 = "?v0\<lparr>force_switch_flag := False, failures_in_cycle := 1, endpoint_idx := 0\<rparr>"
  let ?v3 = "?v2\<lparr>phase := Ph_Connecting\<rparr>"
  have "conn_step (\<lambda>_. True) ?C ?v0 [] ?v1"
    by (rule st_begin) (simp_all add: begin_attempt_def connection_new_def demo_connection_config_def)
  moreover have "conn_step (\<lambda>_. True) ?C ?v1 [CE_State Disconnected, CE_ClearAll, CE_Sleep 1] ?v2"
    by (rule st_err) (simp_all add: connect_err_def connection_new_def demo_connection_config_def BACKOFF_BASE_def)
  moreover have "conn_step (\<lambda>_. True) ?C ?v2 [] ?v3"
    by (rule st_begin) (simp_all add: begin_attempt_def connection_new_def demo_connection_config_def)
  ultimately have r: "conn_reachable (\<lambda>_. True) ?C ?v3" using conn_init conn_next by blast
  have "phase ?v3 = Ph_Connecting" "\<not> is_using_priority ?v3" "priority_endpoint_index ?C = Some 1" "1 \<noteq> endpoint_idx ?v3"
    by (simp_all add: connection_new_def demo_connection_config_def)
  from priority_switch_lost [OF this refl, of "''ws://a''" "[True, True, True]"] r show ?thesis by blast
qed

end
