(* ===== verification/Async_Tx.thy ===== *)
theory Async_Tx
  imports Prelude
begin

text \<open>
  The per-key executor of \<^verbatim>\<open>packages/utils/src/async_transaction.rs\<close>, with which the aggregator runs
  the work on a queue and on a chain. A call of \<open>run\<close> is a task with a program counter between its
  suspension points; the tasks interleave at these points. A mutex is a number, and the map of the
  executor takes a key to its mutex. The reference count of a mutex is one for its entry in the map
  and one for the local clone of every task between taking it and returning.
\<close>

section \<open>Tasks\<close>

datatype 'k run_pc =
    At_Read 'k
  | At_Write 'k
  | At_Lock 'k nat
  | In_Section 'k nat
  | At_Count 'k nat
  | At_Prune 'k nat
  | Returned

record 'k async_transaction =
  at_locks :: "('k \<times> nat) list"
  at_next :: nat
  at_tasks :: "'k run_pc list"

definition async_transaction_new :: "'k async_transaction" where
  "async_transaction_new = \<lparr>at_locks = [], at_next = 0, at_tasks = []\<rparr>"

fun holds_arc :: "nat \<Rightarrow> 'k run_pc \<Rightarrow> bool" where
  "holds_arc m (At_Lock _ n) = (n = m)"
| "holds_arc m (In_Section _ n) = (n = m)"
| "holds_arc m (At_Count _ n) = (n = m)"
| "holds_arc m (At_Prune _ n) = (n = m)"
| "holds_arc m _ = False"

fun holds_guard :: "nat \<Rightarrow> 'k run_pc \<Rightarrow> bool" where
  "holds_guard m (In_Section _ n) = (n = m)"
| "holds_guard m _ = False"

definition strong_count :: "'k async_transaction \<Rightarrow> nat \<Rightarrow> nat" where
  "strong_count S m =
     length (filter (\<lambda>p. snd p = m) (at_locks S)) + length (filter (holds_arc m) (at_tasks S))"

definition set_task :: "nat \<Rightarrow> 'k run_pc \<Rightarrow> 'k async_transaction \<Rightarrow> 'k async_transaction" where
  "set_task n pc S = S\<lparr>at_tasks := (at_tasks S)[n := pc]\<rparr>"

text \<open>One task advances to its next suspension point; \<open>None\<close> when it waits for a mutex or has returned.\<close>

definition run_step :: "bool \<Rightarrow> nat \<Rightarrow> 'k async_transaction \<Rightarrow> 'k async_transaction option" where
  "run_step cleanup_enabled n S =
     (case at_tasks S ! n of
        At_Read k \<Rightarrow>
          (case map_of (at_locks S) k of
             Some m \<Rightarrow> Some (set_task n (At_Lock k m) S)
           | None \<Rightarrow> Some (set_task n (At_Write k) S))
      | At_Write k \<Rightarrow>
          (case map_of (at_locks S) k of
             Some m \<Rightarrow> Some (set_task n (At_Lock k m) S)
           | None \<Rightarrow>
               Some (set_task n (At_Lock k (at_next S))
                 (S\<lparr>at_locks := (k, at_next S) # at_locks S, at_next := at_next S + 1\<rparr>)))
      | At_Lock k m \<Rightarrow>
          (if list_ex (holds_guard m) (at_tasks S) then None else Some (set_task n (In_Section k m) S))
      | In_Section k m \<Rightarrow> Some (set_task n (At_Count k m) S)
      | At_Count k m \<Rightarrow>
          Some (set_task n (if cleanup_enabled \<and> strong_count S m = 2 then At_Prune k m else Returned) S)
      | At_Prune k m \<Rightarrow> Some (set_task n Returned (S\<lparr>at_locks := AList.delete k (at_locks S)\<rparr>))
      | Returned \<Rightarrow> None)"

definition remove_key :: "'k \<Rightarrow> 'k async_transaction \<Rightarrow> bool \<times> 'k async_transaction" where
  "remove_key k S = (map_of (at_locks S) k \<noteq> None, S\<lparr>at_locks := AList.delete k (at_locks S)\<rparr>)"

definition clone_keys :: "'k async_transaction \<Rightarrow> 'k list" where
  "clone_keys S = map fst (at_locks S)"

text \<open>The executor in use: calls arrive, tasks advance in any order, and keys are removed if \<open>removes\<close>.\<close>

inductive at_reachable :: "bool \<Rightarrow> bool \<Rightarrow> 'k async_transaction \<Rightarrow> bool" for cleanup_enabled removes where
  at_init: "at_reachable cleanup_enabled removes async_transaction_new"
| at_call: "at_reachable cleanup_enabled removes S \<Longrightarrow>
    at_reachable cleanup_enabled removes (S\<lparr>at_tasks := at_tasks S @ [At_Read k]\<rparr>)"
| at_step: "at_reachable cleanup_enabled removes S \<Longrightarrow> n < length (at_tasks S) \<Longrightarrow>
    run_step cleanup_enabled n S = Some S' \<Longrightarrow> at_reachable cleanup_enabled removes S'"
| at_remove: "at_reachable cleanup_enabled removes S \<Longrightarrow> removes \<Longrightarrow>
    at_reachable cleanup_enabled removes (snd (remove_key k S))"

definition in_section :: "'k async_transaction \<Rightarrow> nat \<Rightarrow> 'k \<Rightarrow> bool" where
  "in_section S n k = (n < length (at_tasks S) \<and> (\<exists>m. at_tasks S ! n = In_Section k m))"

section \<open>Exclusion\<close>

fun arc_of :: "'k run_pc \<Rightarrow> ('k \<times> nat) option" where
  "arc_of (At_Lock k m) = Some (k, m)"
| "arc_of (In_Section k m) = Some (k, m)"
| "arc_of (At_Count k m) = Some (k, m)"
| "arc_of (At_Prune k m) = Some (k, m)"
| "arc_of _ = None"

text \<open>A mutex is entered by one task at a time, whatever happens to the map.\<close>

definition guards_ok :: "'k async_transaction \<Rightarrow> bool" where
  "guards_ok S =
     (\<forall>n n' m. n < length (at_tasks S) \<and> n' < length (at_tasks S) \<and>
        holds_guard m (at_tasks S ! n) \<and> holds_guard m (at_tasks S ! n') \<longrightarrow> n = n')"

text \<open>As long as nothing is removed from the map, every task has the mutex that the map has for its key.\<close>

definition arcs_ok :: "'k async_transaction \<Rightarrow> bool" where
  "arcs_ok S =
     (\<forall>n < length (at_tasks S). \<forall>k m. at_tasks S ! n \<noteq> At_Prune k m \<and>
        (arc_of (at_tasks S ! n) = Some (k, m) \<longrightarrow> map_of (at_locks S) k = Some m))"

lemma set_task_simps [simp]:
  "at_tasks (set_task n pc S) = (at_tasks S)[n := pc]" "at_locks (set_task n pc S) = at_locks S"
  "at_next (set_task n pc S) = at_next S"
  by (simp_all add: set_task_def)

lemma holds_guard_iff: "holds_guard m pc \<longleftrightarrow> (\<exists>k. pc = In_Section k m)"
  by (cases pc) auto

lemma guards_ok_set:
  assumes "guards_ok S" "at_tasks S' = (at_tasks S)[n := pc]"
    "\<And>m. holds_guard m pc \<Longrightarrow> \<not> list_ex (holds_guard m) (at_tasks S)"
  shows "guards_ok S'"
proof -
  have none: "\<not> holds_guard m (at_tasks S ! j)" if "holds_guard m pc" "j < length (at_tasks S)" for m j
    using assms(3) [OF that(1)] that(2) by (simp add: list_ex_iff)
  have upd: "(at_tasks S)[n := pc] ! j = (if j = n then pc else at_tasks S ! j)" if "j < length (at_tasks S)" for j
    using that by (simp add: nth_list_update)
  show ?thesis unfolding guards_ok_def assms(2)
  proof (intro allI impI, elim conjE)
    fix i j m
    assume "i < length ((at_tasks S)[n := pc])" "j < length ((at_tasks S)[n := pc])"
      "holds_guard m ((at_tasks S)[n := pc] ! i)" "holds_guard m ((at_tasks S)[n := pc] ! j)"
    then show "i = j"
      using assms(1) none [of m i] none [of m j] upd unfolding guards_ok_def by (auto split: if_splits)
  qed
qed

lemma run_step_guards:
  assumes "guards_ok S" "run_step cleanup_enabled n S = Some S'"
  shows "guards_ok S'"
  using assms(2) unfolding run_step_def
  by (cases "at_tasks S ! n")
    (auto split: option.splits if_splits intro: guards_ok_set [OF assms(1) set_task_simps(1)]
      guards_ok_set [OF assms(1), of _ n])

lemma at_reachable_guards: "at_reachable cleanup_enabled removes S \<Longrightarrow> guards_ok S"
proof (induction rule: at_reachable.induct)
  case at_init
  then show ?case by (simp add: guards_ok_def async_transaction_new_def)
next
  case (at_call S k)
  then show ?case
    by (auto simp: guards_ok_def nth_append less_Suc_eq split: if_splits)
next
  case (at_step S n S')
  then show ?case by (blast intro: run_step_guards)
next
  case (at_remove S k)
  then show ?case by (simp add: guards_ok_def remove_key_def)
qed

lemma run_step_arcs:
  assumes "arcs_ok S" "n < length (at_tasks S)" "run_step False n S = Some S'"
  shows "arcs_ok S'"
proof -
  have old: "map_of (at_locks S) k = Some m" if "j < length (at_tasks S)" "arc_of (at_tasks S ! j) = Some (k, m)" for j k m
    using assms(1) that unfolding arcs_ok_def by blast
  have no: "at_tasks S ! j \<noteq> At_Prune k m" if "j < length (at_tasks S)" for j k m
    using assms(1) that unfolding arcs_ok_def by blast
  have one: "arcs_ok (set_task n pc S)"
    if "\<And>k m. pc \<noteq> At_Prune k m" "\<And>k m. arc_of pc = Some (k, m) \<Longrightarrow> map_of (at_locks S) k = Some m" for pc
    using old no that assms(2) by (auto simp: arcs_ok_def nth_list_update)
  have grow: "arcs_ok (set_task n (At_Lock k (at_next S)) (S\<lparr>at_locks := (k, at_next S) # at_locks S, at_next := at_next S + 1\<rparr>))"
    if "map_of (at_locks S) k = None" for k
    using old no that assms(2) by (fastforce simp: arcs_ok_def nth_list_update)
  show ?thesis using assms(2,3) old [of n] no [of n]
    by (cases "at_tasks S ! n") (auto simp: run_step_def split: option.splits if_splits intro!: one grow [simplified])
qed

lemma at_reachable_arcs: "at_reachable False False S \<Longrightarrow> arcs_ok S"
proof (induction rule: at_reachable.induct)
  case at_init
  then show ?case by (simp add: arcs_ok_def async_transaction_new_def)
next
  case (at_call S k)
  then show ?case by (auto simp: arcs_ok_def nth_append)
next
  case (at_step S n S')
  then show ?case by (blast intro: run_step_arcs)
qed simp

lemma in_section_guard: "in_section S n k \<Longrightarrow> \<exists>m. holds_guard m (at_tasks S ! n) \<and> arc_of (at_tasks S ! n) = Some (k, m)"
  by (auto simp: in_section_def)

text \<open>
  C28: Without pruning, as the aggregator creates its two executors, and with no key removed, at most
  one transaction of a key runs at a time, however the calls interleave. And no call is stuck: as long
  as some call has not returned, some task can advance, so a key is never blocked by a task that is
  not itself in its section.
\<close>

theorem transactions_exclusive:
  assumes "at_reachable False False S"
  shows "(in_section S n k \<and> in_section S n' k \<longrightarrow> n = n') \<and>
    (n < length (at_tasks S) \<and> at_tasks S ! n \<noteq> Returned \<longrightarrow>
       (\<exists>j S'. j < length (at_tasks S) \<and> run_step False j S = Some S'))"
proof (intro conjI impI)
  assume "in_section S n k \<and> in_section S n' k"
  then obtain m m' where n: "holds_guard m (at_tasks S ! n)" "arc_of (at_tasks S ! n) = Some (k, m)" "n < length (at_tasks S)"
    and n': "holds_guard m' (at_tasks S ! n')" "arc_of (at_tasks S ! n') = Some (k, m')" "n' < length (at_tasks S)"
    using in_section_guard unfolding in_section_def by metis
  have "map_of (at_locks S) k = Some m" "map_of (at_locks S) k = Some m'"
    using at_reachable_arcs [OF assms] n n' unfolding arcs_ok_def by blast+
  then have "m = m'" by simp
  then show "n = n'" using at_reachable_guards [OF assms] n n' unfolding guards_ok_def by blast
next
  assume a: "n < length (at_tasks S) \<and> at_tasks S ! n \<noteq> Returned"
  show "\<exists>j S'. j < length (at_tasks S) \<and> run_step False j S = Some S'"
  proof (cases "run_step False n S")
    case (Some S')
    then show ?thesis using a by blast
  next
    case None
    then obtain k m where "list_ex (holds_guard m) (at_tasks S)"
      using a by (auto simp: run_step_def split: run_pc.splits option.splits if_splits)
    then obtain j k where "j < length (at_tasks S)" "at_tasks S ! j = In_Section k m"
      by (auto simp: list_ex_iff in_set_conv_nth holds_guard_iff)
    then show ?thesis by (auto simp: run_step_def)
  qed
qed

text \<open>Schedules as lists of events, to compute runs.\<close>

datatype 'k at_event = Call 'k | Step nat | Remove 'k

fun at_run :: "bool \<Rightarrow> 'k at_event list \<Rightarrow> 'k async_transaction \<Rightarrow> 'k async_transaction option" where
  "at_run c [] S = Some S"
| "at_run c (Call k # es) S = at_run c es (S\<lparr>at_tasks := at_tasks S @ [At_Read k]\<rparr>)"
| "at_run c (Step n # es) S =
     (if n < length (at_tasks S)
      then (case run_step c n S of None \<Rightarrow> None | Some S' \<Rightarrow> at_run c es S') else None)"
| "at_run c (Remove k # es) S = at_run c es (snd (remove_key k S))"

lemma at_run_reachable:
  "at_run c es S = Some S' \<Longrightarrow> at_reachable c r S \<Longrightarrow> r \<or> (\<forall>k. Remove k \<notin> set es) \<Longrightarrow> at_reachable c r S'"
  by (induction c es S rule: at_run.induct)
    (auto intro: at_call at_step at_remove split: if_splits option.splits)

lemmas at_run_simps = run_step_def set_task_def strong_count_def async_transaction_new_def remove_key_def

text \<open>One call runs and another one waits.\<close>

definition demo_tx :: "nat async_transaction" where
  "demo_tx = \<lparr>at_locks = [(7, 0)], at_next = 1, at_tasks = [In_Section 7 0, At_Lock 7 0]\<rparr>"

lemma demo_tx_reachable: "at_reachable False False demo_tx"
proof -
  have "at_run False [Call 7, Step 0, Step 0, Step 0, Call 7, Step 1] async_transaction_new = Some demo_tx"
    by (simp add: at_run_simps demo_tx_def)
  then show ?thesis by (rule at_run_reachable [OF _ at_init]) simp
qed

theorem transactions_exclusive_witness:
  "in_section demo_tx 0 7 \<and> run_step False 1 demo_tx = None \<and>
   (\<exists>j S'. j < length (at_tasks demo_tx) \<and> run_step False j demo_tx = Some S')"
  using transactions_exclusive [OF demo_tx_reachable, of 1 7]
  by (simp add: demo_tx_def in_section_def run_step_def)

section \<open>Removing keys\<close>

text \<open>
  Exclusion is lost as soon as keys leave the map. With pruning, a task that found the reference
  count to be two removes the key later, when another task may already be running with the mutex; and
  removing a key by hand does the same. Either way a further call creates a new mutex and runs the same
  key at the same time.
\<close>

lemma pruning_breaks_exclusion:
  "(\<exists>S. at_reachable True False S \<and> in_section S 1 (7 :: nat) \<and> in_section S 2 7) \<and>
   (\<exists>S. at_reachable False True S \<and> in_section S 0 (7 :: nat) \<and> in_section S 1 7)"
proof
  let ?S = "\<lparr>at_locks = [(7 :: nat, 1)], at_next = 2, at_tasks = [Returned, In_Section 7 0, In_Section 7 1]\<rparr>"
  have "at_run True [Call 7, Step 0, Step 0, Step 0, Step 0, Step 0, Call 7, Step 1, Step 1, Step 0, Call 7, Step 2, Step 2, Step 2]
      async_transaction_new = Some ?S"
    by (simp add: at_run_simps)
  then have "at_reachable True False ?S" by (rule at_run_reachable [OF _ at_init]) simp
  moreover have "in_section ?S 1 7" "in_section ?S 2 7" by (simp_all add: in_section_def)
  ultimately show "\<exists>S. at_reachable True False S \<and> in_section S 1 (7 :: nat) \<and> in_section S 2 7" by blast
next
  let ?S = "\<lparr>at_locks = [(7 :: nat, 1)], at_next = 2, at_tasks = [In_Section 7 0, In_Section 7 1]\<rparr>"
  have "at_run False [Call 7, Step 0, Step 0, Step 0, Remove 7, Call 7, Step 1, Step 1, Step 1]
      async_transaction_new = Some ?S"
    by (simp add: at_run_simps)
  then have "at_reachable False True ?S" by (rule at_run_reachable [OF _ at_init]) simp
  moreover have "in_section ?S 0 7" "in_section ?S 1 7" by (simp_all add: in_section_def)
  ultimately show "\<exists>S. at_reachable False True S \<and> in_section S 0 (7 :: nat) \<and> in_section S 1 7" by blast
qed

end
