(* ===== verification/Log_Buffer.thy ===== *)
theory Log_Buffer
  imports Prelude
begin

text \<open>
  The ring of recent log entries, \<^verbatim>\<open>packages/warpdrive/src/log_buffer.rs\<close>, from which the HTTP server
  answers log queries. The broadcast channel is the list of what was sent into it. The tracing layer that fills the
  buffer only formats what the logging library hands it and is left out.
\<close>

record log_entry =
  le_id :: u64
  timestamp_ms :: u64
  level :: string
  target :: string
  le_fields :: string

record log_buffer =
  lb_entries :: "log_entry list"
  lb_next_id :: u64
  lb_capacity :: nat
  lb_tx :: "log_entry list"

definition DEFAULT_BROADCAST_CAPACITY :: nat where
  "DEFAULT_BROADCAST_CAPACITY = 256"

definition DEFAULT_LOG_BUFFER_CAPACITY :: nat where
  "DEFAULT_LOG_BUFFER_CAPACITY = 10000"

definition log_buffer_with_capacity :: "nat \<Rightarrow> nat \<Rightarrow> log_buffer" where
  "log_buffer_with_capacity capacity broadcast_capacity =
     \<lparr>lb_entries = [], lb_next_id = 0, lb_capacity = max capacity 1, lb_tx = []\<rparr>"

definition log_buffer_new :: log_buffer where
  "log_buffer_new = log_buffer_with_capacity DEFAULT_LOG_BUFFER_CAPACITY DEFAULT_BROADCAST_CAPACITY"

definition log_push :: "log_entry \<Rightarrow> log_buffer \<Rightarrow> u64 \<times> log_buffer" where
  "log_push e B =
     (let e1 = e\<lparr>le_id := lb_next_id B\<rparr>;
          es = lb_entries B;
          es1 = (if length es \<ge> lb_capacity B then tl es else es)
      in (le_id e1, B\<lparr>lb_next_id := lb_next_id B + 1, lb_tx := lb_tx B @ [e1], lb_entries := es1 @ [e1]\<rparr>))"

definition watermark :: "log_buffer \<Rightarrow> u64" where
  "watermark B = lb_next_id B"

definition to_ascii_lowercase :: "char \<Rightarrow> char" where
  "to_ascii_lowercase c =
     (let n = (of_char c :: nat) in if 65 \<le> n \<and> n \<le> 90 then char_of (n + 32) else c)"

definition eq_ignore_ascii_case :: "string \<Rightarrow> string \<Rightarrow> bool" where
  "eq_ignore_ascii_case a b = (map to_ascii_lowercase a = map to_ascii_lowercase b)"

definition level_value :: "string \<Rightarrow> nat" where
  "level_value l =
     (if eq_ignore_ascii_case l ''error'' then 4
      else if eq_ignore_ascii_case l ''warn'' then 3
      else if eq_ignore_ascii_case l ''info'' then 2
      else if eq_ignore_ascii_case l ''debug'' then 1
      else if eq_ignore_ascii_case l ''trace'' then 0
      else 2)"

definition log_since :: "log_buffer \<Rightarrow> u64 \<Rightarrow> nat \<Rightarrow> string option \<Rightarrow> string option \<Rightarrow> log_entry list" where
  "log_since B since_id limit min_level tgt =
     take limit
       (filter (\<lambda>e. case tgt of Some t \<Rightarrow> starts_with (target e) t | None \<Rightarrow> True)
         (filter (\<lambda>e. case map_option level_value min_level of Some v \<Rightarrow> level_value (level e) \<ge> v | None \<Rightarrow> True)
           (filter (\<lambda>e. le_id e \<ge> since_id) (lb_entries B))))"

definition last_n :: "log_buffer \<Rightarrow> nat \<Rightarrow> log_entry list" where
  "last_n B n = drop (length (lb_entries B) - n) (lb_entries B)"

section \<open>What the buffer holds\<close>

text \<open>The entries of a log, numbered from zero; and the buffer after all of them.\<close>

definition numbered :: "log_entry list \<Rightarrow> log_entry list" where
  "numbered es = map (\<lambda>i. (es ! i)\<lparr>le_id := of_nat i\<rparr>) [0..<length es]"

definition push_all :: "log_entry list \<Rightarrow> log_buffer \<Rightarrow> log_buffer" where
  "push_all es B = fold (\<lambda>e B. snd (log_push e B)) es B"

lemma length_numbered [simp]: "length (numbered es) = length es"
  by (simp add: numbered_def)

lemma numbered_nth [simp]: "i < length es \<Longrightarrow> numbered es ! i = (es ! i)\<lparr>le_id := of_nat i\<rparr>"
  by (simp add: numbered_def)

lemma numbered_snoc: "numbered (es @ [e]) = numbered es @ [e\<lparr>le_id := of_nat (length es)\<rparr>]"
  by (simp add: numbered_def nth_append)

lemma push_all_state:
  "lb_capacity (push_all es (log_buffer_with_capacity cap bc)) = max cap 1 \<and>
   lb_next_id (push_all es (log_buffer_with_capacity cap bc)) = of_nat (length es) \<and>
   lb_tx (push_all es (log_buffer_with_capacity cap bc)) = numbered es \<and>
   lb_entries (push_all es (log_buffer_with_capacity cap bc)) = drop (length es - max cap 1) (numbered es)"
proof (induction es rule: rev_induct)
  case Nil
  then show ?case by (simp add: push_all_def log_buffer_with_capacity_def numbered_def)
next
  case (snoc e es)
  let ?n = "length es" and ?c = "max cap 1"
  have evict: "(if length (drop (?n - c) xs) \<ge> c then tl (drop (?n - c) xs) else drop (?n - c) xs) = drop (Suc ?n - c) xs"
    if "length xs = ?n" "0 < c" for c and xs :: "log_entry list"
  proof (cases "c \<le> ?n")
    case True
    then show ?thesis using that by (simp add: drop_Suc tl_drop Suc_diff_le)
  next
    case False
    then show ?thesis using that by simp
  qed
  have "(if length (drop (?n - ?c) (numbered es)) \<ge> ?c then tl (drop (?n - ?c) (numbered es))
      else drop (?n - ?c) (numbered es)) = drop (Suc ?n - ?c) (numbered es)"
    by (rule evict) simp_all
  moreover have "drop (Suc ?n - ?c) (numbered (es @ [e])) = drop (Suc ?n - ?c) (numbered es) @ [e\<lparr>le_id := of_nat ?n\<rparr>]"
    by (simp add: numbered_snoc)
  moreover have "push_all (es @ [e]) B = snd (log_push e (push_all es B))" for B by (simp add: push_all_def)
  ultimately show ?case using snoc.IH by (simp only: log_push_def Let_def snd_conv) (simp add: numbered_snoc)
qed

lemma filter_numbered:
  assumes "length es < 2 ^ 64"
  shows "filter (\<lambda>e. le_id e \<ge> c) (drop k (numbered es)) = drop (max k (unat c)) (numbered es)"
  using assms
proof (induction es rule: rev_induct)
  case Nil
  then show ?case by (simp add: numbered_def)
next
  case (snoc e es)
  let ?n = "length es"
  have "(of_nat ?n :: u64) \<ge> c \<longleftrightarrow> unat c \<le> ?n"
    using snoc.prems by (simp add: word_le_nat_alt unat_of_nat)
  then have "filter (\<lambda>e. c \<le> le_id e) (drop (k - ?n) [e\<lparr>le_id := of_nat ?n\<rparr>]) =
      drop (max k (unat c) - ?n) [e\<lparr>le_id := of_nat ?n\<rparr>]"
    by (cases "k - ?n"; cases "unat c \<le> ?n") (auto simp: not_le Suc_diff_le max_def)
  with snoc show ?case by (simp add: numbered_snoc)
qed

text \<open>
  C29: The buffer is a faithful window on the log. After any number of entries below two to the 64, it
  holds exactly the most recent ones, as many as its capacity (at least one), in order and under
  consecutive numbers; every entry was broadcast once under the same number. A query from a cursor
  returns, in order and up to its limit, exactly the entries that are not older than the cursor, still
  in the window and match the filters; a reader that continues from the watermark misses nothing but
  what fell out of the window.
\<close>

theorem log_buffer_window:
  assumes "length es < 2 ^ 64" and B_def: "B = push_all es (log_buffer_with_capacity cap bc)"
  shows "lb_entries B = drop (length es - max cap 1) (numbered es) \<and> lb_tx B = numbered es \<and>
    unat (watermark B) = length es \<and> length (lb_entries B) \<le> max cap 1 \<and>
    log_since B c limit min_level tgt =
      take limit (filter (\<lambda>e. (\<forall>l. min_level = Some l \<longrightarrow> level_value l \<le> level_value (level e)) \<and>
          (\<forall>t. tgt = Some t \<longrightarrow> starts_with (target e) t))
        (drop (max (length es - max cap 1) (unat c)) (numbered es))) \<and>
    last_n B n = drop (length es - min n (max cap 1)) (numbered es)"
proof (intro conjI)
  have st: "lb_entries B = drop (length es - max cap 1) (numbered es)" "lb_next_id B = of_nat (length es)"
    "lb_tx B = numbered es"
    using push_all_state [of es cap bc] by (simp_all add: B_def)
  show "lb_entries B = drop (length es - max cap 1) (numbered es)" "lb_tx B = numbered es" by (rule st)+
  show "unat (watermark B) = length es" using assms(1) by (simp add: watermark_def st unat_of_nat)
  show "length (lb_entries B) \<le> max cap 1" by (simp add: st)
  have flt: "filter (\<lambda>e. le_id e \<ge> c) (lb_entries B) = drop (max (length es - max cap 1) (unat c)) (numbered es)"
    unfolding st by (rule filter_numbered [OF assms(1)])
  show "log_since B c limit min_level tgt =
      take limit (filter (\<lambda>e. (\<forall>l. min_level = Some l \<longrightarrow> level_value l \<le> level_value (level e)) \<and>
          (\<forall>t. tgt = Some t \<longrightarrow> starts_with (target e) t))
        (drop (max (length es - max cap 1) (unat c)) (numbered es)))"
    unfolding log_since_def flt filter_filter by (cases min_level; cases tgt) simp_all
  show "last_n B n = drop (length es - min n (max cap 1)) (numbered es)"
    unfolding last_n_def st by (cases "n \<le> max cap 1")
      (simp_all add: min_def, intro arg_cong [of _ _ "\<lambda>k. drop k (numbered es)"], linarith)
qed

definition demo_entry :: log_entry where
  "demo_entry = \<lparr>le_id = 0, timestamp_ms = 5, level = ''WARN'', target = ''node'', le_fields = []\<rparr>"

theorem log_buffer_window_witness:
  "map le_id (lb_entries (push_all [demo_entry, demo_entry, demo_entry] (log_buffer_with_capacity 2 1))) = [1, 2] \<and>
   map le_id (log_since (push_all [demo_entry, demo_entry, demo_entry] (log_buffer_with_capacity 2 1)) 2 10
     (Some ''info'') (Some ''no'')) = [2]"
  using log_buffer_window [of "[demo_entry, demo_entry, demo_entry]", OF _ refl, of 2 1 2 10 "Some ''info''" "Some ''no''"]
  by (simp add: numbered_def demo_entry_def level_value_def eq_ignore_ascii_case_def to_ascii_lowercase_def
      starts_with_def upt_rec)

end
