(* ===== verification/Spec2Isabelle.thy ===== *)
theory Spec2Isabelle
  imports Node Evm_Connection Async_Tx Log_Buffer
begin

text \<open>
  Warpdrive is a node that watches chains for triggers, runs WebAssembly components of registered
  services on them, signs the responses with a key per service, exchanges the signed responses with
  peers until a quorum has signed, and submits the result to a chain. This library models the logic of
  the node, the Rust code below \<^verbatim>\<open>src/packages\<close>, and proves what makes its parts correct.

  \<^bold>\<open>Parts and theories.\<close> Paths are relative to \<^verbatim>\<open>src/packages\<close>; definitions have the names of the
  functions and types they translate, with a prefix where a name is taken in HOL or used by two parts.

  \<^item> Data. \<open>Prelude\<close> (machine integers, results, tables), \<open>Ids\<close> (\<^verbatim>\<open>types/src/id\<close>), \<open>Types\<close>
    (\<^verbatim>\<open>types/src/service.rs\<close>, \<^verbatim>\<open>submission.rs\<close>, \<^verbatim>\<open>aggregator_types.rs\<close>), \<open>Chain_Address\<close>, \<open>Chain_Config\<close>
    (\<^verbatim>\<open>types/src/chain_address.rs\<close>, \<^verbatim>\<open>chain_config.rs\<close>), \<open>Signing\<close> (\<^verbatim>\<open>types/src/signing.rs\<close>): structs are
    records, enums datatypes, u32 and u64 words of that length, hashes and addresses byte lists.
  \<^item> Stores. \<open>Db\<close> (\<^verbatim>\<open>utils/src/storage/db.rs\<close>, the tables shared by all parts), \<open>Services\<close> and
    \<open>Registry\<close> (\<^verbatim>\<open>warpdrive/src/services.rs\<close>, \<^verbatim>\<open>service_registry.rs\<close>), \<open>Ca_Storage\<close> (\<^verbatim>\<open>utils/src/storage\<close>,
    component code by digest), \<open>Keyvalue\<close> (\<^verbatim>\<open>engine/src/backend/wasi_keyvalue\<close>, what components store).
  \<^item> Triggers, \<^verbatim>\<open>warpdrive/src/subsystems/trigger\<close>. \<open>Interval\<close>, \<open>Block_Sched\<close>, \<open>Cron_Sched\<close> (the
    schedulers), \<open>Slotmap\<close>, \<open>Stellar_Stream\<close>, \<open>Evm_Subscription\<close>, \<open>Evm_Connection\<close> (the event streams),
    \<open>Lookup\<close> (the indexes of registered triggers), \<open>Streams\<close>, \<open>Matching\<close> (what an event fires), \<open>Watcher\<close>
    (the trigger manager and its loop).
  \<^item> Execution. \<open>Engine\<close> (\<^verbatim>\<open>warpdrive/src/subsystems/engine\<close>, \<^verbatim>\<open>engine/src\<close>): loading code, preparing an
    instance, calling it and checking its answer.
  \<^item> Submission. \<open>Submission_Manager\<close> (\<^verbatim>\<open>subsystems/submission.rs\<close>): keys of services and signing.
  \<^item> Aggregation, \<^verbatim>\<open>subsystems/aggregator\<close>. \<open>Quorum\<close> (queues), \<open>Validate\<close> (packets of peers), \<open>Submit\<close>
    (transactions), \<open>Aggregator\<close> (commands and tasks), \<open>Async_Tx\<close> (\<^verbatim>\<open>utils/src/async_transaction.rs\<close>, one
    task per key at a time).
  \<^item> The node. \<open>Dispatcher\<close> (\<^verbatim>\<open>warpdrive/src/dispatcher.rs\<close>): commands between the parts, adding, changing,
    removing and restoring services; \<open>Node\<close>: its threads and channels as one step relation; \<open>Log_Buffer\<close>.

  \<^bold>\<open>How code becomes definitions.\<close> A fallible function returns a sum with the error on the left, as the
  error enums have it; a panic is the value \<open>None\<close> of an option around it. A method that changes state takes
  the state last and returns it updated, also on its error paths. Locks and await points matter where
  tasks interleave: there each stretch between two await points is a step (\<open>agg_step\<close>, \<open>inc_step\<close>, \<open>run_step\<close>,
  \<open>watcher_reachable\<close>, the connection loop, \<open>node_step\<close>), and theorems speak of all reachable states. Arithmetic
  that wraps in the code is on words. Channels are the lists of what was sent.

  \<^bold>\<open>What is left open.\<close> Code that is not part of the repository is a field of an environment record, an
  argument of the definitions: the cryptography and encodings (\<open>crypto\<close>), chain clients and contracts (\<open>submit_env\<close>
  and others), wasmtime, the cache and the compiler (\<open>engine_env\<close>), the resource table, the slot map, the cron
  schedules, decoders of events, the outcomes of files (\<open>file_io\<close>, \<open>write_locked\<close>) and of starting streams. What
  theorems need of them are named predicates that state what these crates document, such as
  \<open>signature_scheme_ok\<close>, \<open>hex_laws\<close>, \<open>slotmap_laws\<close>, \<open>resource_laws\<close>, \<open>lru_laws\<close>, \<open>clean_io\<close>; every witness
  instantiates them with concrete functions.

  \<^bold>\<open>What is shown.\<close>
  \<^item> Aggregation: at most one transaction per event and destination in every interleaving; refinement of an
    abstract quorum; no valid submission is lost; one reference block per event; well-formed queues; a
    transaction only after the contract accepted exactly its data; exact expiry of burned queues.
  \<^item> Triggers: the indexes hold exactly the registered triggers; an event fires exactly the triggers that a
    declarative specification names; block and cron triggers fire when they should; Stellar events are
    delivered exactly once; wanted EVM subscriptions are maintained over reconnections, the connection loop
    refines the subscriptions, connects when an endpoint accepts and does not panic for valid settings;
    streams are started once and added triggers are watched.
  \<^item> Execution: answers within limits, only for active services; only code with the declared digest is run;
    services cannot touch each other's stored values; compare and swap is correct.
  \<^item> Keys and services: fresh key indices, never reused; the registry survives restarts; signing and
    recovering; distinct ids of services; an added service is ready; a change keeps its key.
  \<^item> End to end, below: whatever is broadcast comes from a fired trigger of an active service, is within
    the limits and is signed with the key of the service.
  \<^item> Flaws, as theorems about what the code does: among them failed additions that block a service, lost
    increments, a missing endpoint that ends the watcher; further lemmas show a trigger that fires after its
    end block, colliding Stellar filter ids, an index counter that wraps, a lost switch to the priority
    endpoint, a cleanup that drops the pinned block of an active event, keys of buckets that coincide,
    pruning that breaks mutual exclusion, and limits of the node that have no effect.

  \<^bold>\<open>Interfaces.\<close> The locale \<open>kv_table\<close> is the contract of a table (interpreted as \<open>tbl\<close> by the association
  lists of \<open>Db\<close>), \<open>interval_state\<close> that of the state of one trigger towards the generic scheduler (\<open>blk\<close>, \<open>crn\<close>),
  and \<open>ca_storage\<close> that of content-addressed storage (\<open>memory\<close>, and \<open>hex_files\<close> for files on disk).

  \<^bold>\<open>Loops and bounds.\<close> Recursion is structural or has a measure. The connection loop takes as many attempts as
  its list of outcomes has; one round over the endpoints is enough to connect when one accepts. The watcher
  alone (\<open>run_queue\<close>) takes one outcome per command. Everything else that runs for ever is a step relation.

  \<^bold>\<open>What is not modelled.\<close> Peer-to-peer transport (libp2p), the execution of WebAssembly itself, the generated
  bindings and their field-by-field conversions, the HTTP server, the command line tool, configuration files,
  telemetry and logging layers, the Jetstream socket client, the clients of chains, and code that only
  development builds use: they are I/O, or thin layers over other crates. Hash tables iterate in the order
  of their association lists, so a theorem that depends on no order holds for every order.
\<close>

section \<open>From trigger to broadcast\<close>

text \<open>
  C6: Whatever the node broadcasts to its peers has a cause and a signature. In every run with any
  interleaving of its parts and of administrative calls, the trigger of a broadcast submission was sent
  by the watcher; the service was stored under its id and active when the trigger was accepted, and the
  workflow is one that submits; the response is within the limits of the engine; the event id and the
  envelope are those of exactly this trigger, response and service; and the signature recovers to the
  address of the key that the service had at a moment when it was active.
\<close>

theorem broadcast_end_to_end:
  assumes "signature_scheme_ok C" "node_reachable C cm S" "AC_Broadcast s \<in> set (d_aggregator_tx (nd_dispatcher S))"
  defines "a \<equiv> sub_trigger_action s" and "r \<equiv> sub_operator_response s"
  defines "sid \<equiv> tc_service_id (ta_config a)"
  shows "DC_Trigger a \<in> set (nd_watcher_sent S) \<and>
    length (payload r) \<le> we_max_payload_size (d_engine (nd_dispatcher S)) \<and>
    (\<forall>salt. event_id_salt r = Some salt \<longrightarrow> length salt \<le> we_max_salt_size (d_engine (nd_dispatcher S))) \<and>
    (\<exists>svc w. (\<exists>D\<in>set (nd_past S). services_get (d_db D) sid = Inr svc \<and> services_is_active (d_db D) sid) \<and>
       service_id_of C svc = sid \<and> map_of (workflows svc) (tc_workflow_id (ta_config a)) = Some w \<and> wf_submit w \<noteq> SubmitNone \<and>
       req_event_id C \<lparr>req_trigger_action = a, req_operator_response = r, req_service = svc\<rparr> = Inr (sub_event_id s) \<and>
       build_envelope C \<lparr>req_trigger_action = a, req_operator_response = r, req_service = svc\<rparr> (sub_event_id s) = Inr (sub_envelope s)) \<and>
    (\<exists>D\<in>set (nd_past S). services_is_active (d_db D) sid \<and> (\<exists>info. key_of D sid = Some info \<and>
       signer_address C (sub_envelope_signature s) (sub_envelope s) = Inr (si_address info)))"
proof -
  have "vouched C S s" using node_reachable_inv [OF assms(1,2)] assms(3) by (simp add: node_inv_def broadcasts_def)
  then obtain m info D where v: "admissible C S m" "to_submit m" "a = req_trigger_action m" "r = req_operator_response m"
    "req_event_id C m = Inr (sub_event_id s)" "build_envelope C m (sub_event_id s) = Inr (sub_envelope s)"
    "D \<in> set (nd_past S)" "services_is_active (d_db D) (req_service_id m)" "key_of D (req_service_id m) = Some info"
    "signer_address C (sub_envelope_signature s) (sub_envelope s) = Inr (si_address info)"
    unfolding vouched_def a_def r_def by blast
  have m: "\<lparr>req_trigger_action = a, req_operator_response = r, req_service = req_service m\<rparr> = m" using v by simp
  have sid: "req_service_id m = sid" using v by (simp add: sid_def)
  from v(1) have acc: "DC_Trigger a \<in> set (nd_watcher_sent S)" "service_id_of C (req_service m) = sid"
    "\<exists>D\<in>set (nd_past S). services_get (d_db D) sid = Inr (req_service m) \<and> services_is_active (d_db D) sid"
    and lim: "in_limits (d_engine (nd_dispatcher S)) r"
    using v(3,4) by (simp_all add: admissible_def accepted_def sid_def)
  from v(2) obtain w where "map_of (workflows (req_service m)) (tc_workflow_id (ta_config a)) = Some w" "wf_submit w \<noteq> SubmitNone"
    using v(3) by (auto simp: to_submit_def)
  then have "\<exists>svc w. (\<exists>D\<in>set (nd_past S). services_get (d_db D) sid = Inr svc \<and> services_is_active (d_db D) sid) \<and>
       service_id_of C svc = sid \<and> map_of (workflows svc) (tc_workflow_id (ta_config a)) = Some w \<and> wf_submit w \<noteq> SubmitNone \<and>
       req_event_id C \<lparr>req_trigger_action = a, req_operator_response = r, req_service = svc\<rparr> = Inr (sub_event_id s) \<and>
       build_envelope C \<lparr>req_trigger_action = a, req_operator_response = r, req_service = svc\<rparr> (sub_event_id s) = Inr (sub_envelope s)"
    using acc v(5,6) m by (intro exI [of _ "req_service m"] exI [of _ w]) simp
  then show ?thesis using acc(1) lim v(7-10) sid unfolding in_limits_def by metis
qed

theorem broadcast_end_to_end_witness:
  "\<exists>S s. node_reachable demo_crypto demo_compile (S :: demo_node_type) \<and>
     AC_Broadcast s \<in> set (d_aggregator_tx (nd_dispatcher S)) \<and> sub_trigger_action s = demo_fired \<and>
     DC_Trigger demo_fired \<in> set (nd_watcher_sent S)"
  using demo_broadcast broadcast_end_to_end [OF demo_crypto_ok] by metis

end
